(* ===== verification/Prelude.thy ===== *)
theory Prelude
  imports Main "HOL-Library.Word" "HOL-Library.Monad_Syntax"
begin

text \<open>
  Shared vocabulary of the development.

  \<^item> The types every component uses: bytes are 8-bit words, Go strings and byte slices are
    lists of bytes, runes and Go's 64-bit \<open>int\<close> are \<open>int\<close> (the components prove the bounds that
    keep them far from the 64-bit range).
  \<^item> Go's index and slice expressions, index assignment and \<open>copy\<close>, with the run-time panic as
    \<open>None\<close>.
  \<^item> \<open>wp\<close>, the total-correctness reading of a computation that may panic: it returns, and the
    result satisfies the postcondition; with the rules that walk through a \<open>do\<close> block.
  \<^item> The locale \<open>safe_machine\<close>: a state machine whose every step keeps an invariant without
    panicking does so over whole runs.
\<close>

section \<open>Types\<close>

type_synonym byte = "8 word"
type_synonym bytes = "8 word list"
type_synonym rune = int

named_theorems wp_simps "equations that push wp through a computation"
named_theorems go_simps "length and content facts about the Go slice primitives"

section \<open>Go slices\<close>

text \<open>The index expression \<open>xs[i]\<close>: a run-time panic when \<open>i\<close> is out of range.\<close>

definition gidx :: "'a list \<Rightarrow> int \<Rightarrow> 'a option" where
  "gidx xs i = (if 0 \<le> i \<and> i < int (length xs) then Some (xs ! nat i) else None)"

text \<open>The assignment \<open>xs[i] = v\<close>.\<close>

definition gset :: "'a list \<Rightarrow> int \<Rightarrow> 'a \<Rightarrow> 'a list option" where
  "gset xs i v = (if 0 \<le> i \<and> i < int (length xs) then Some (xs[nat i := v]) else None)"

text \<open>
  The slice expression \<open>xs[i:j]\<close>. Go checks \<open>j\<close> against the capacity, which is at least the
  length; the model checks the length, so it panics at least as often.
\<close>

definition gslice :: "'a list \<Rightarrow> int \<Rightarrow> int \<Rightarrow> 'a list option" where
  "gslice xs i j = (if 0 \<le> i \<and> i \<le> j \<and> j \<le> int (length xs)
     then Some (take (nat (j - i)) (drop (nat i) xs)) else None)"

text \<open>
  \<open>copy(xs[i:j], src)\<close>: as many elements as fit are overwritten. Go's \<open>copy\<close> handles
  overlapping source and destination as if the source were read first, which is what the
  functional model does.
\<close>

definition gcopy :: "'a list \<Rightarrow> int \<Rightarrow> int \<Rightarrow> 'a list \<Rightarrow> 'a list option" where
  "gcopy xs i j src = (if 0 \<le> i \<and> i \<le> j \<and> j \<le> int (length xs)
     then (let n = min (nat (j - i)) (length src)
           in Some (take (nat i) xs @ take n src @ drop (nat i + n) xs))
     else None)"

abbreviation glen :: "'a list \<Rightarrow> int" where
  "glen xs \<equiv> int (length xs)"

section \<open>Total correctness of computations that may panic\<close>

definition wp :: "'a option \<Rightarrow> ('a \<Rightarrow> bool) \<Rightarrow> bool" where
  "wp m Q \<longleftrightarrow> (case m of None \<Rightarrow> False | Some x \<Rightarrow> Q x)"

lemma wp_Some [wp_simps, simp]: "wp (Some x) Q = Q x"
  by (simp add: wp_def)

lemma wp_None [wp_simps, simp]: "wp None Q = False"
  by (simp add: wp_def)

lemma wp_bind [wp_simps]: "wp (m \<bind> f) Q = wp m (\<lambda>x. wp (f x) Q)"
  by (cases m) auto

lemma wp_if [wp_simps]: "wp (if b then m else m') Q = (if b then wp m Q else wp m' Q)"
  by simp

lemma wp_let [wp_simps]: "wp (let x = e in f x) Q = (let x = e in wp (f x) Q)"
  by simp

lemma wp_gidx [wp_simps]:
  "wp (gidx xs i) Q = (0 \<le> i \<and> i < glen xs \<and> Q (xs ! nat i))"
  by (auto simp: gidx_def)

lemma wp_gset [wp_simps]:
  "wp (gset xs i v) Q = (0 \<le> i \<and> i < glen xs \<and> Q (xs[nat i := v]))"
  by (auto simp: gset_def)

lemma wp_gslice [wp_simps]:
  "wp (gslice xs i j) Q
     = (0 \<le> i \<and> i \<le> j \<and> j \<le> glen xs \<and> Q (take (nat (j - i)) (drop (nat i) xs)))"
  by (auto simp: gslice_def)

lemma wp_gcopy [wp_simps]:
  "wp (gcopy xs i j src) Q = (0 \<le> i \<and> i \<le> j \<and> j \<le> glen xs \<and>
     Q (take (nat i) xs @ take (min (nat (j - i)) (length src)) src
        @ drop (nat i + min (nat (j - i)) (length src)) xs))"
  by (auto simp: gcopy_def Let_def)

lemma wp_mono: "wp m P \<Longrightarrow> (\<And>x. P x \<Longrightarrow> Q x) \<Longrightarrow> wp m Q"
  by (cases m) auto

lemma wp_bindI: "wp m P \<Longrightarrow> (\<And>x. P x \<Longrightarrow> wp (f x) Q) \<Longrightarrow> wp (m \<bind> f) Q"
  by (cases m) auto

lemma wp_ifI: "(b \<Longrightarrow> wp m Q) \<Longrightarrow> (\<not> b \<Longrightarrow> wp m' Q) \<Longrightarrow> wp (if b then m else m') Q"
  by simp

lemma wp_bind_Some:
  "wp m P \<Longrightarrow> (\<And>x. m = Some x \<Longrightarrow> P x \<Longrightarrow> wp (f x) Q) \<Longrightarrow> wp (m \<bind> f) Q"
  by (cases m) auto

lemma wpI: "m = Some x \<Longrightarrow> Q x \<Longrightarrow> wp m Q"
  by simp

lemma wpE: "wp m Q \<Longrightarrow> (\<And>x. m = Some x \<Longrightarrow> Q x \<Longrightarrow> R) \<Longrightarrow> R"
  by (cases m) auto

lemma wp_SomeD: "wp m Q \<Longrightarrow> m = Some x \<Longrightarrow> Q x"
  by simp

lemma wp_conj: "wp m P \<Longrightarrow> wp m Q \<Longrightarrow> wp m (\<lambda>x. P x \<and> Q x)"
  by (cases m) auto

lemma wp_ex: "wp m Q \<longleftrightarrow> (\<exists>x. m = Some x \<and> Q x)"
  by (cases m) auto

section \<open>Facts about the slice primitives\<close>

lemma gidx_Some [simp]: "0 \<le> i \<Longrightarrow> i < glen xs \<Longrightarrow> gidx xs i = Some (xs ! nat i)"
  by (simp add: gidx_def)

lemma gset_Some [simp]: "0 \<le> i \<Longrightarrow> i < glen xs \<Longrightarrow> gset xs i v = Some (xs[nat i := v])"
  by (simp add: gset_def)

lemma gidx_eq_None: "gidx xs i = None \<longleftrightarrow> i < 0 \<or> glen xs \<le> i"
  by (auto simp: gidx_def)

lemma gset_eq_None: "gset xs i v = None \<longleftrightarrow> i < 0 \<or> glen xs \<le> i"
  by (auto simp: gset_def)

lemma gcopy_length: "gcopy xs i j src = Some ys \<Longrightarrow> length ys = length xs"
  by (auto simp: gcopy_def Let_def split: if_splits)

lemma gcopy_set: "gcopy xs i j src = Some ys \<Longrightarrow> set ys \<subseteq> set xs \<union> set src"
  by (auto simp: gcopy_def Let_def split: if_splits dest: in_set_takeD in_set_dropD)

lemma length_copied [go_simps]:
  assumes "0 \<le> i" "i \<le> j" "j \<le> glen xs"
  shows "length (take (nat i) xs @ take (min (nat (j - i)) (length src)) src
            @ drop (nat i + min (nat (j - i)) (length src)) xs) = length xs"
  using assms by auto

lemma list_all_copied:
  assumes "list_all P xs" and "list_all P src"
  shows "list_all P (take i xs @ take m src @ drop k xs)"
  using assms by (auto simp: list_all_iff dest: in_set_takeD in_set_dropD)

lemma list_all_update: "list_all P xs \<Longrightarrow> P v \<Longrightarrow> list_all P (xs[i := v])"
  by (auto simp: list_all_iff dest!: set_update_subset_insert [THEN subsetD])

lemma list_all_takeI: "list_all P xs \<Longrightarrow> list_all P (take n xs)"
  by (auto simp: list_all_iff dest: in_set_takeD)

lemma list_all_dropI: "list_all P xs \<Longrightarrow> list_all P (drop n xs)"
  by (auto simp: list_all_iff dest: in_set_dropD)

lemma list_all_nthI: "list_all P xs \<Longrightarrow> i < length xs \<Longrightarrow> P (xs ! i)"
  by (simp add: list_all_length)

lemma list_all_replicate [simp]: "list_all P (replicate n x) = (n = 0 \<or> P x)"
  by (induction n) auto

lemmas list_all_rules =
  list_all_copied list_all_update list_all_takeI list_all_dropI list_all_nthI

section \<open>Machines that keep an invariant\<close>

text \<open>
  The contract several components share: every event is handled without a panic and keeps
  the invariant. The client's view is a run over a list of events.
\<close>

primrec run :: "('e \<Rightarrow> 's \<Rightarrow> 's option) \<Rightarrow> 'e list \<Rightarrow> 's \<Rightarrow> 's option" where
  "run step [] s = Some s"
| "run step (e # es) s = step e s \<bind> run step es"

lemma run_append: "run step (es @ es') s = run step es s \<bind> run step es'"
  by (induction es arbitrary: s) (auto cong: Option.bind_cong)

locale safe_machine =
  fixes inv :: "'s \<Rightarrow> bool"
    and admissible :: "'e \<Rightarrow> bool"
    and step :: "'e \<Rightarrow> 's \<Rightarrow> 's option"
  assumes step_safe: "inv s \<Longrightarrow> admissible e \<Longrightarrow> wp (step e s) inv"
begin

lemma run_safe: "inv s \<Longrightarrow> list_all admissible es \<Longrightarrow> wp (run step es s) inv"
proof (induction es arbitrary: s)
  case Nil
  then show ?case by simp
next
  case (Cons e es)
  from Cons.prems have "wp (step e s) inv" by (auto intro: step_safe)
  with Cons show ?case by (auto simp: wp_simps intro: wp_mono)
qed

lemma run_returns: "inv s \<Longrightarrow> list_all admissible es \<Longrightarrow> \<exists>s'. run step es s = Some s' \<and> inv s'"
  using run_safe by (auto simp: wp_ex)

text \<open>A transition a run makes keeps every reflexive and transitive relation its steps keep.\<close>

lemma run_related:
  assumes "\<And>e s s'. inv s \<Longrightarrow> admissible e \<Longrightarrow> step e s = Some s' \<Longrightarrow> R s s'"
    and "\<And>s. R s s" and "\<And>a b c. R a b \<Longrightarrow> R b c \<Longrightarrow> R a c"
    and "inv s" "list_all admissible es" "run step es s = Some s'"
  shows "R s s'"
  using assms(4-6)
proof (induction es arbitrary: s)
  case Nil
  then show ?case using assms(2) by simp
next
  case (Cons e es)
  then obtain u where u: "step e s = Some u" "run step es u = Some s'"
    by (auto simp: bind_eq_Some_conv)
  from Cons.prems step_safe [of s e] u(1) have "inv u" by auto
  then have "R u s'" using Cons.IH Cons.prems u(2) by simp
  with assms(1) [OF Cons.prems(1) _ u(1)] Cons.prems assms(3) show ?case by auto
qed

end

end
