(* ===== verification/Golib.thy ===== *)
theory Golib
  imports Prelude
begin

text \<open>
  The parts of the Go standard library the modelled code calls: package \<open>unicode/utf8\<close>
  (\<open>FullRune\<close>, \<open>DecodeRune\<close>, \<open>AppendRune\<close>, which is also the conversion \<open>string(r)\<close>),
  \<open>strconv.Itoa\<close> and \<open>strconv.Atoi\<close>, \<open>strings.TrimRight(s, " ")\<close>. Words are read as integers
  (\<open>uint\<close>), so that shifting and masking a byte is division and remainder.
\<close>

section \<open>UTF-8\<close>

definition RuneError :: rune where "RuneError = 0xFFFD"

text \<open>
  The table \<open>first\<close> of \<open>unicode/utf8\<close>: for a lead byte of a multi-byte sequence, the length of
  the sequence and the range of the second byte. \<open>None\<close> is an ASCII byte or an invalid one.
\<close>

definition utf8_lead :: "int \<Rightarrow> (nat \<times> int \<times> int) option" where
  "utf8_lead b =
    (if 0xC2 \<le> b \<and> b \<le> 0xDF then Some (2, 0x80, 0xBF)
     else if b = 0xE0 then Some (3, 0xA0, 0xBF)
     else if b = 0xED then Some (3, 0x80, 0x9F)
     else if 0xE1 \<le> b \<and> b \<le> 0xEF then Some (3, 0x80, 0xBF)
     else if b = 0xF0 then Some (4, 0x90, 0xBF)
     else if b = 0xF4 then Some (4, 0x80, 0x8F)
     else if 0xF1 \<le> b \<and> b \<le> 0xF3 then Some (4, 0x80, 0xBF)
     else None)"

definition FullRune :: "bytes \<Rightarrow> bool" where
  "FullRune p = (case p of [] \<Rightarrow> False
    | b0 # q \<Rightarrow> (case utf8_lead (uint b0) of None \<Rightarrow> True
       | Some (sz, lo, hi) \<Rightarrow>
           sz \<le> length p
           \<or> (1 < length p \<and> (uint (p ! 1) < lo \<or> hi < uint (p ! 1)))
           \<or> (2 < length p \<and> (uint (p ! 2) < 0x80 \<or> 0xBF < uint (p ! 2)))))"

definition DecodeRune :: "bytes \<Rightarrow> rune \<times> nat" where
  "DecodeRune p = (case p of [] \<Rightarrow> (RuneError, 0)
    | w0 # q \<Rightarrow> (let b0 = uint w0 in
       if b0 < 0x80 then (b0, 1)
       else (case utf8_lead b0 of None \<Rightarrow> (RuneError, 1)
         | Some (sz, lo, hi) \<Rightarrow>
           if length p < sz then (RuneError, 1)
           else let b1 = uint (p ! 1) in
             if b1 < lo \<or> hi < b1 then (RuneError, 1)
             else if sz \<le> 2 then ((b0 mod 32) * 64 + b1 mod 64, 2)
             else let b2 = uint (p ! 2) in
               if b2 < 0x80 \<or> 0xBF < b2 then (RuneError, 1)
               else if sz \<le> 3
                 then ((b0 mod 16) * 4096 + (b1 mod 64) * 64 + b2 mod 64, 3)
               else let b3 = uint (p ! 3) in
                 if b3 < 0x80 \<or> 0xBF < b3 then (RuneError, 1)
                 else ((b0 mod 8) * 262144 + (b1 mod 64) * 4096
                         + (b2 mod 64) * 64 + b3 mod 64, 4))))"

definition valid_rune :: "rune \<Rightarrow> bool" where
  "valid_rune r \<longleftrightarrow> 0 \<le> r \<and> r \<le> 0x10FFFF \<and> \<not> (0xD800 \<le> r \<and> r \<le> 0xDFFF)"

text \<open>\<open>string(r)\<close>, and what \<open>utf8.AppendRune\<close> appends.\<close>

definition rune_bytes :: "rune \<Rightarrow> bytes" where
  "rune_bytes r =
    (if 0 \<le> r \<and> r \<le> 0x7F then [word_of_int r]
     else if 0 \<le> r \<and> r \<le> 0x7FF then
       [word_of_int (0xC0 + r div 64), word_of_int (0x80 + r mod 64)]
     else if \<not> valid_rune r then [0xEF, 0xBF, 0xBD]
     else if r \<le> 0xFFFF then
       [word_of_int (0xE0 + r div 4096), word_of_int (0x80 + r div 64 mod 64),
        word_of_int (0x80 + r mod 64)]
     else
       [word_of_int (0xF0 + r div 262144), word_of_int (0x80 + r div 4096 mod 64),
        word_of_int (0x80 + r div 64 mod 64), word_of_int (0x80 + r mod 64)])"

definition AppendRune :: "bytes \<Rightarrow> rune \<Rightarrow> bytes" where
  "AppendRune p r = p @ rune_bytes r"

lemma uint_byte_bounds [simp]: "0 \<le> uint (b :: byte)" "uint (b :: byte) < 256"
  using uint_bounded [of b] by auto

lemma uint_word_of_int_byte: "0 \<le> k \<Longrightarrow> k < 256 \<Longrightarrow> uint (word_of_int k :: byte) = k"
  by (simp add: uint_word_of_int)

lemma utf8_lead_size: "utf8_lead b = Some (sz, lo, hi) \<Longrightarrow> 2 \<le> sz \<and> sz \<le> 4 \<and> 0x80 \<le> b"
  by (auto simp: utf8_lead_def split: if_splits)

lemma FullRune_Nil [simp]: "\<not> FullRune []"
  by (simp add: FullRune_def)

lemma not_FullRune:
  assumes "\<not> FullRune p" "p \<noteq> []"
  obtains sz lo hi where "utf8_lead (uint (hd p)) = Some (sz, lo, hi)"
    "length p < sz" "sz \<le> 4"
    "1 < length p \<longrightarrow> lo \<le> uint (p ! 1) \<and> uint (p ! 1) \<le> hi"
    "2 < length p \<longrightarrow> 0x80 \<le> uint (p ! 2) \<and> uint (p ! 2) \<le> 0xBF"
  using assms
  by (cases p) (fastforce simp: FullRune_def not_less dest: utf8_lead_size split: option.splits)+

lemma not_FullRune_length: "\<not> FullRune p \<Longrightarrow> length p \<le> 3"
  by (cases "p = []") (auto elim: not_FullRune)

lemma not_FullRune_hd: "\<not> FullRune p \<Longrightarrow> p \<noteq> [] \<Longrightarrow> 0x80 \<le> uint (hd p)"
  by (erule not_FullRune) (auto dest: utf8_lead_size)

lemma DecodeRune_not_full:
  assumes "\<not> FullRune p" "p \<noteq> []" shows "DecodeRune p = (RuneError, 1)"
  using assms
  by (cases p) (auto elim!: not_FullRune dest: utf8_lead_size simp: DecodeRune_def Let_def)

lemma DecodeRune_size:
  "p \<noteq> [] \<Longrightarrow> DecodeRune p = (r, n) \<Longrightarrow> 1 \<le> n \<and> n \<le> length p \<and> n \<le> 4"
  by (cases p) (auto simp: DecodeRune_def Let_def Suc_le_eq split: if_splits option.splits prod.splits
      dest!: utf8_lead_size)

lemma DecodeRune_ascii: "uint b < 0x80 \<Longrightarrow> DecodeRune (b # q) = (uint b, 1)"
  by (simp add: DecodeRune_def Let_def)

text \<open>What has been decided about a prefix stays decided when more bytes follow.\<close>

lemma FullRune_append: "FullRune p \<Longrightarrow> FullRune (p @ q)"
  by (cases p) (auto simp: FullRune_def nth_append split: option.splits)

lemma DecodeRune_bad1:
  assumes "utf8_lead (uint b0) = Some (sz, lo, hi)" "q \<noteq> []" "uint (hd q) < lo \<or> hi < uint (hd q)"
  shows "DecodeRune (b0 # q) = (RuneError, 1)"
  using assms utf8_lead_size [OF assms(1)] by (cases q) (auto simp: DecodeRune_def Let_def)

lemma DecodeRune_bad2:
  assumes "utf8_lead (uint b0) = Some (sz, lo, hi)" "3 \<le> sz"
    and "uint b2 < 0x80 \<or> 0xBF < uint b2"
  shows "DecodeRune (b0 # b1 # b2 # q) = (RuneError, 1)"
  using assms utf8_lead_size [OF assms(1)] by (auto simp: DecodeRune_def Let_def)

lemma DecodeRune_long:
  assumes "utf8_lead (uint b0) = Some (sz, lo, hi)" "sz \<le> Suc (length p)"
  shows "DecodeRune (b0 # p @ q) = DecodeRune (b0 # p)"
proof -
  from utf8_lead_size [OF assms(1)] assms(2)
  have n: "(b0 # p @ q) ! k = (b0 # p) ! k" if "k < sz" for k
    using that by (cases k) (auto simp: nth_append)
  from utf8_lead_size [OF assms(1)]
  have s: "2 \<le> sz" "sz \<le> 4" by auto
  then consider "sz = 2" | "sz = 3" | "sz = 4" by linarith
  moreover from s assms(2) have "p \<noteq> []" by auto
  ultimately show ?thesis
    using assms n [of 1] n [of 2] n [of 3]
    by cases (simp_all add: DecodeRune_def Let_def)
qed

lemma DecodeRune_append:
  assumes "FullRune p" shows "DecodeRune (p @ q) = DecodeRune p"
proof (cases p)
  case Nil
  with assms show ?thesis by simp
next
  case (Cons b0 p')
  show ?thesis
  proof (cases "utf8_lead (uint b0)")
    case None
    with Cons show ?thesis by (simp add: DecodeRune_def Let_def)
  next
    case (Some x)
    obtain sz lo hi where x: "utf8_lead (uint b0) = Some (sz, lo, hi)"
      using Some by (cases x) auto
    from assms Cons x consider
        "sz \<le> Suc (length p')"
      | b1 p'' where "p' = b1 # p''" "uint b1 < lo \<or> hi < uint b1"
      | b1 b2 p'' where "p' = b1 # b2 # p''" "3 \<le> sz" "uint b2 < 0x80 \<or> 0xBF < uint b2"
    proof (cases "sz \<le> Suc (length p')")
      case False
      with assms Cons x show ?thesis
        by (cases p'; cases "tl p'") (auto simp: FullRune_def intro: that)
    qed (rule that)
    then show ?thesis
    proof cases
      case 1
      with Cons x show ?thesis by (simp add: DecodeRune_long)
    next
      case 2
      with Cons x show ?thesis by (simp add: DecodeRune_bad1)
    next
      case 3
      with Cons x show ?thesis by (simp add: DecodeRune_bad2)
    qed
  qed
qed

text \<open>Encoding and decoding a rune, and the prefixes of an encoding.\<close>

lemma byte_list_cases:
  "length p < 4 \<Longrightarrow> p = [] \<or> (\<exists>a. p = [a]) \<or> (\<exists>a b. p = [a, b]) \<or> (\<exists>a b c. p = [a, b, c])"
  by (cases p; cases "tl p"; cases "tl (tl p)"; cases "tl (tl (tl p))") auto

lemma low_bits:
  "0 \<le> a \<Longrightarrow> a < 32 \<Longrightarrow> (192 + a) mod 32 = (a :: int)"
  "0 \<le> a \<Longrightarrow> a < 16 \<Longrightarrow> (224 + a) mod 16 = (a :: int)"
  "0 \<le> a \<Longrightarrow> a < 8 \<Longrightarrow> (240 + a) mod 8 = (a :: int)"
  "0 \<le> a \<Longrightarrow> a < 64 \<Longrightarrow> (128 + a) mod 64 = (a :: int)"
  using mod_mult_self3 [of 6 32 a] mod_mult_self3 [of 14 16 a]
    mod_mult_self3 [of 30 8 a] mod_mult_self3 [of 2 64 a]
  by auto

lemma base64_split:
  fixes r :: int
  shows "r = r div 64 * 64 + r mod 64"
    and "r = r div 4096 * 4096 + r div 64 mod 64 * 64 + r mod 64"
    and "r = r div 262144 * 262144 + r div 4096 mod 64 * 4096 + r div 64 mod 64 * 64 + r mod 64"
proof -
  have d: "r div 4096 = r div 64 div 64" "r div 262144 = r div 4096 div 64"
    using zdiv_zmult2_eq [of 64 r 64] zdiv_zmult2_eq [of 64 r 4096] by simp_all
  show 1: "r = r div 64 * 64 + r mod 64" by simp
  have 2: "r div 64 = r div 4096 * 64 + r div 64 mod 64" unfolding d(1) by simp
  have 3: "r div 4096 = r div 262144 * 64 + r div 4096 mod 64" unfolding d(2) by simp
  from 1 2 show "r = r div 4096 * 4096 + r div 64 mod 64 * 64 + r mod 64" by linarith
  from 1 2 3 show "r = r div 262144 * 262144 + r div 4096 mod 64 * 4096 + r div 64 mod 64 * 64 + r mod 64"
    by linarith
qed

lemma mod64 [simp]: "0 \<le> (r :: int) mod 64" "(r :: int) mod 64 < 64"
  by simp_all

lemma decode2:
  assumes "2 \<le> a" "a < 32" "0 \<le> b" "b < 64"
    and "uint p0 = 192 + a" "uint p1 = 128 + b"
  shows "DecodeRune (p0 # p1 # q) = (a * 64 + b, 2)"
  using assms
  by (auto simp: DecodeRune_def utf8_lead_def Let_def low_bits)

lemma decode3:
  assumes "0 \<le> a" "a < 16" "0 \<le> b" "b < 64" "0 \<le> c" "c < 64"
    and "a = 0 \<Longrightarrow> 32 \<le> b" "a = 13 \<Longrightarrow> b < 32"
    and "uint p0 = 224 + a" "uint p1 = 128 + b" "uint p2 = 128 + c"
  shows "DecodeRune (p0 # p1 # p2 # q)
    = (a * 4096 + b * 64 + c, 3)"
  using assms
  by (auto simp: DecodeRune_def utf8_lead_def Let_def low_bits)

lemma decode4:
  assumes "0 \<le> a" "a < 5" "0 \<le> b" "b < 64" "0 \<le> c" "c < 64" "0 \<le> d" "d < 64"
    and "a = 0 \<Longrightarrow> 16 \<le> b" "a = 4 \<Longrightarrow> b < 16"
    and "uint p0 = 240 + a" "uint p1 = 128 + b" "uint p2 = 128 + c" "uint p3 = 128 + d"
  shows "DecodeRune (p0 # p1 # p2 # p3 # q)
    = (a * 262144 + b * 4096 + c * 64 + d, 4)"
  using assms
  by (auto simp: DecodeRune_def utf8_lead_def Let_def low_bits)

lemma DecodeRune_rune_bytes:
  assumes "valid_rune r"
  shows "DecodeRune (rune_bytes r @ q) = (r, length (rune_bytes r))"
proof -
  have r: "0 \<le> r" "r \<le> 0x10FFFF" using assms by (auto simp: valid_rune_def)
  consider "r \<le> 0x7F" | "0x7F < r" "r \<le> 0x7FF" | "0x7FF < r" "r \<le> 0xFFFF" | "0xFFFF < r"
    by linarith
  then show ?thesis
  proof cases
    case 1
    with r show ?thesis
      by (simp add: rune_bytes_def DecodeRune_def uint_word_of_int_byte)
  next
    case 2
    define a b where ab: "a = r div 64" "b = r mod 64"
    have e: "r = a * 64 + b" unfolding ab by (rule base64_split)
    have b: "0 \<le> b" "b < 64" unfolding ab by simp_all
    then have "2 \<le> a" "a < 32" using e 2 by linarith+
    moreover have "rune_bytes r = [word_of_int (192 + a), word_of_int (128 + b)]"
      using 2 r unfolding ab by (simp add: rune_bytes_def)
    ultimately show ?thesis using b e
      by (simp add: decode2 uint_word_of_int_byte del: of_int_add of_int_numeral)
  next
    case 3
    define a b c where abc: "a = r div 4096" "b = r div 64 mod 64" "c = r mod 64"
    have e: "r = a * 4096 + b * 64 + c" unfolding abc by (rule base64_split)
    have bc: "0 \<le> b" "b < 64" "0 \<le> c" "c < 64" unfolding abc by simp_all
    then have a: "0 \<le> a" "a < 16" using e 3 by linarith+
    have "a = 0 \<Longrightarrow> 32 \<le> b" using e 3 bc by linarith
    moreover have "a = 13 \<Longrightarrow> b < 32" using e bc assms by (auto simp: valid_rune_def)
    moreover have "rune_bytes r
        = [word_of_int (224 + a), word_of_int (128 + b), word_of_int (128 + c)]"
      using 3 r assms unfolding abc by (simp add: rune_bytes_def)
    ultimately show ?thesis using a bc e
      by (simp add: decode3 uint_word_of_int_byte del: of_int_add of_int_numeral)
  next
    case 4
    define a b c d where abcd: "a = r div 262144" "b = r div 4096 mod 64"
      "c = r div 64 mod 64" "d = r mod 64"
    have e: "r = a * 262144 + b * 4096 + c * 64 + d" unfolding abcd by (rule base64_split)
    have bcd: "0 \<le> b" "b < 64" "0 \<le> c" "c < 64" "0 \<le> d" "d < 64" unfolding abcd by simp_all
    then have a: "0 \<le> a" "a < 5" using e 4 r by linarith+
    have "a = 0 \<Longrightarrow> 16 \<le> b" using e 4 bcd by linarith
    moreover have "a = 4 \<Longrightarrow> b < 16" using e r bcd by linarith
    moreover have "rune_bytes r = [word_of_int (240 + a), word_of_int (128 + b),
        word_of_int (128 + c), word_of_int (128 + d)]"
      using 4 r assms unfolding abcd by (simp add: rune_bytes_def)
    ultimately show ?thesis using a bcd e
      by (simp add: decode4 uint_word_of_int_byte del: of_int_add of_int_numeral)
  qed
qed

lemma rune_bytes_nonempty [simp]: "rune_bytes r \<noteq> []"
  by (simp add: rune_bytes_def)

lemma rune_bytes_length: "1 \<le> length (rune_bytes r) \<and> length (rune_bytes r) \<le> 4"
  by (simp add: rune_bytes_def)

lemma rune_bytes_full:
  assumes "valid_rune r" shows "FullRune (rune_bytes r)"
proof (rule ccontr)
  assume n: "\<not> FullRune (rune_bytes r)"
  then have d: "DecodeRune (rune_bytes r) = (RuneError, 1)" by (simp add: DecodeRune_not_full)
  with DecodeRune_rune_bytes [OF assms, of "[]"] have "length (rune_bytes r) = 1" "r = RuneError"
    by auto
  then show False by (simp add: rune_bytes_def RuneError_def valid_rune_def)
qed

lemma rune_prefix_not_full:
  assumes "valid_rune r" "rune_bytes r = p @ q" "q \<noteq> []"
  shows "\<not> FullRune p"
proof
  assume f: "FullRune p"
  then have "p \<noteq> []" by auto
  moreover from DecodeRune_append [OF f, of q] DecodeRune_rune_bytes [OF assms(1), of "[]"] assms(2)
  have "DecodeRune p = (r, length (rune_bytes r))" by simp
  ultimately have "length (rune_bytes r) \<le> length p" using DecodeRune_size by blast
  with assms(2,3) show False by (cases q) auto
qed

section \<open>strconv and strings\<close>

fun digits :: "nat \<Rightarrow> bytes" where
  "digits n = (if n < 10 then [of_nat (0x30 + n)] else digits (n div 10) @ [of_nat (0x30 + n mod 10)])"

declare digits.simps [simp del]

definition Itoa :: "int \<Rightarrow> bytes" where
  "Itoa i = (if i < 0 then 0x2D # digits (nat (- i)) else digits (nat i))"

definition is_digit :: "byte \<Rightarrow> bool" where
  "is_digit b \<longleftrightarrow> 0x30 \<le> b \<and> b \<le> 0x39"

definition digit_val :: "byte \<Rightarrow> int" where
  "digit_val b = uint (b - 0x30)"

definition digits_val :: "bytes \<Rightarrow> int" where
  "digits_val ds = foldl (\<lambda>a d. a * 10 + digit_val d) 0 ds"

text \<open>\<open>strconv.Atoi\<close>: \<open>None\<close> is the error (syntax, or a value outside 64 bits).\<close>

definition Atoi :: "bytes \<Rightarrow> int option" where
  "Atoi s =
    (let neg = (case s of c # r \<Rightarrow> c = 0x2D | [] \<Rightarrow> False);
         ds = (case s of c # r \<Rightarrow> if c = 0x2D \<or> c = 0x2B then r else s | [] \<Rightarrow> [])
     in if ds = [] \<or> \<not> list_all is_digit ds then None
        else let v = digits_val ds; i = (if neg then - v else v)
             in if - (2 ^ 63) \<le> i \<and> i < 2 ^ 63 then Some i else None)"

text \<open>\<open>strings.TrimRight(s, " ")\<close>\<close>

definition TrimRight_space :: "bytes \<Rightarrow> bytes" where
  "TrimRight_space s = rev (dropWhile (\<lambda>b. b = 0x20) (rev s))"

lemma digits_nonempty [simp]: "digits n \<noteq> []"
  by (subst digits.simps) simp

lemma of_nat_digit:
  assumes "n < 10"
  shows "is_digit (of_nat (0x30 + n))" and "digit_val (of_nat (0x30 + n)) = int n"
proof -
  from assms have "n \<in> {0..<10}" by simp
  then have "n \<in> {0,1,2,3,4,5,6,7,8,9}" by (auto simp: atLeastLessThan_def)
  then show "is_digit (of_nat (0x30 + n))" and "digit_val (of_nat (0x30 + n)) = int n"
    by (auto simp: is_digit_def digit_val_def)
qed

lemma digits_are_digits: "list_all is_digit (digits n)"
proof (induction n rule: digits.induct)
  case (1 n)
  then show ?case
    by (subst digits.simps) (auto simp: of_nat_digit [simplified])
qed

lemma digits_val_digits: "digits_val (digits n) = int n"
proof (induction n rule: digits.induct)
  case (1 n)
  show ?case
  proof (cases "n < 10")
    case True
    then show ?thesis
      by (subst digits.simps) (simp add: digits_val_def of_nat_digit [simplified])
  next
    case False
    then have "digits_val (digits n) = digits_val (digits (n div 10)) * 10 + int (n mod 10)"
      by (subst digits.simps) (simp add: digits_val_def of_nat_digit [simplified])
    also have "\<dots> = int (n div 10 * 10 + n mod 10)"
      using 1 [OF False] by (simp only: of_nat_add of_nat_mult of_nat_numeral)
    finally show ?thesis by simp
  qed
qed

text \<open>\<open>bytes.IndexByte\<close>: the position of the first \<open>c\<close>; Go's \<open>-1\<close> is \<open>None\<close>.\<close>

fun IndexByte :: "byte \<Rightarrow> bytes \<Rightarrow> nat option" where
  "IndexByte c [] = None"
| "IndexByte c (b # bs) = (if b = c then Some 0 else map_option Suc (IndexByte c bs))"

lemma IndexByte_None: "IndexByte c bs = None \<longleftrightarrow> c \<notin> set bs"
  by (induction bs) auto

lemma IndexByte_Some:
  "IndexByte c bs = Some i \<longleftrightarrow> i < length bs \<and> bs ! i = c \<and> c \<notin> set (take i bs)"
proof (induction bs arbitrary: i)
  case (Cons b bs)
  then show ?case by (cases i) auto
qed simp

end
