(* ===== verification/Cell.thy ===== *)
theory Cell
  imports Golib
begin

unbundle bit_operations_syntax

text \<open>
  \<open>src/internal/vterm/cell.go\<close>: packed colours, attribute flags, the rendition of a cell, cells
  and rows. Colours and attribute sets keep their Go widths (32 and 8 bits). The lemmas
  describe the row operations by what they leave at every column and show that trimming a row
  for the scrollback and fitting it to a width lose no visible cell.
\<close>

section \<open>Colours and styles\<close>

type_synonym Color = "32 word"

definition colorKindIndexed :: Color where "colorKindIndexed = push_bit 24 1"
definition colorKindRGB :: Color where "colorKindRGB = push_bit 24 2"
definition colorKindMask :: Color where "colorKindMask = push_bit 24 0xff"

definition IndexedColor :: "byte \<Rightarrow> Color" where
  "IndexedColor i = colorKindIndexed OR ucast i"

definition RGBColor :: "byte \<Rightarrow> byte \<Rightarrow> byte \<Rightarrow> Color" where
  "RGBColor r g b = colorKindRGB OR push_bit 16 (ucast r) OR push_bit 8 (ucast g) OR ucast b"

definition IsDefault :: "Color \<Rightarrow> bool" where
  "IsDefault c = (c = 0)"

type_synonym Attr = "8 word"

definition AttrBold :: Attr where "AttrBold = 1"
definition AttrDim :: Attr where "AttrDim = 2"
definition AttrItalic :: Attr where "AttrItalic = 4"
definition AttrBlink :: Attr where "AttrBlink = 8"
definition AttrInverse :: Attr where "AttrInverse = 16"
definition AttrHidden :: Attr where "AttrHidden = 32"
definition AttrStrike :: Attr where "AttrStrike = 64"

lemmas attr_defs = AttrBold_def AttrDim_def AttrItalic_def AttrBlink_def AttrInverse_def
  AttrHidden_def AttrStrike_def

datatype Underline = UnderlineNone | UnderlineSingle | UnderlineDouble | UnderlineCurly
  | UnderlineDotted | UnderlineDashed

record Style =
  Fg :: Color
  Bg :: Color
  Ul :: Color
  Attrs :: Attr
  Underline :: Underline

definition zeroStyle :: Style where
  "zeroStyle = \<lparr>Fg = 0, Bg = 0, Ul = 0, Attrs = 0, Underline = UnderlineNone\<rparr>"

definition IsZero :: "Style \<Rightarrow> bool" where
  "IsZero s = (s = zeroStyle)"

text \<open>The rendition an erased cell keeps.\<close>

definition eraseStyle :: "Style \<Rightarrow> Style" where
  "eraseStyle st = zeroStyle\<lparr>Bg := Bg st\<rparr>"

section \<open>Cells and rows\<close>

record Cell =
  Ch :: bytes
  Width :: int
  CStyle :: Style
  Link :: bytes

text \<open>The zero value \<open>Cell{}\<close>, and \<open>Cell{Width: 1, Style: st}\<close>.\<close>

definition zeroCell :: Cell where
  "zeroCell = \<lparr>Ch = [], Width = 0, CStyle = zeroStyle, Link = []\<rparr>"

definition blankCell :: "Style \<Rightarrow> Cell" where
  "blankCell st = zeroCell\<lparr>Width := 1, CStyle := st\<rparr>"

definition IsBlank :: "Cell \<Rightarrow> bool" where
  "IsBlank c = ((Ch c = [] \<or> Ch c = [0x20]) \<and> Width c \<noteq> 0 \<and> IsZero (CStyle c) \<and> Link c = [])"

record row =
  cells :: "Cell list"
  wrapped :: bool

definition newRow :: "int \<Rightarrow> row" where
  "newRow w = \<lparr>cells = replicate (nat w) (blankCell zeroStyle), wrapped = False\<rparr>"

text \<open>\<open>for i := from; i < to; i++ { cells[i] = c }\<close> after the clamping of \<open>clear\<close>.\<close>

definition fill :: "'a list \<Rightarrow> int \<Rightarrow> int \<Rightarrow> 'a \<Rightarrow> 'a list" where
  "fill xs i j c = (if i < j
     then take (nat i) xs @ replicate (nat (j - i)) c @ drop (nat j) xs else xs)"

definition row_clear :: "row \<Rightarrow> int \<Rightarrow> int \<Rightarrow> Style \<Rightarrow> row" where
  "row_clear r a b st =
    (let i = (if a < 0 then 0 else a);
         j = (if glen (cells r) < b then glen (cells r) else b)
     in r\<lparr>cells := fill (cells r) i j (blankCell (eraseStyle st))\<rparr>)"

text \<open>The loop of \<open>lastVisible\<close>: the argument is \<open>i + 1\<close>.\<close>

primrec lastVisible_from :: "Cell list \<Rightarrow> nat \<Rightarrow> nat" where
  "lastVisible_from cs 0 = 0"
| "lastVisible_from cs (Suc i) =
    (if \<not> IsBlank (cs ! i) then Suc i else lastVisible_from cs i)"

definition lastVisible :: "row \<Rightarrow> nat" where
  "lastVisible r = lastVisible_from (cells r) (length (cells r))"

definition trimmed :: "row \<Rightarrow> row" where
  "trimmed r = \<lparr>cells = take (lastVisible r) (cells r), wrapped = wrapped r\<rparr>"

definition fitted :: "row \<Rightarrow> int \<Rightarrow> row" where
  "fitted r w =
    (let cs = take (nat w) (cells r)
              @ replicate (nat w - length (cells r)) (blankCell zeroStyle);
         cs' = (if 0 < w \<and> Width (cs ! nat (w - 1)) = 2
                then cs[nat (w - 1) := blankCell zeroStyle] else cs)
     in \<lparr>cells = cs', wrapped = wrapped r\<rparr>)"

text \<open>\<open>rowText\<close> of \<open>term.go\<close>: the visible text of a row.\<close>

definition cell_text :: "Cell \<Rightarrow> bytes" where
  "cell_text c = (if Width c = 0 then [] else if Ch c = [] then [0x20] else Ch c)"

definition rowText :: "row \<Rightarrow> bytes" where
  "rowText r = TrimRight_space (concat (map cell_text (take (lastVisible r) (cells r))))"

section \<open>What the operations leave\<close>

lemma length_fill [simp]: "0 \<le> i \<Longrightarrow> j \<le> glen xs \<Longrightarrow> length (fill xs i j c) = length xs"
  by (auto simp: fill_def)

lemma nth_fill:
  assumes "0 \<le> i" "j \<le> glen xs" "k < length xs"
  shows "fill xs i j c ! k = (if i \<le> int k \<and> int k < j then c else xs ! k)"
proof (cases "i < j")
  case True
  then have "nat i + nat (j - i) = nat j" using assms by simp
  then show ?thesis using assms True by (auto simp: fill_def nth_append)
qed (auto simp: fill_def)

lemma fill_empty [simp]: "j \<le> i \<Longrightarrow> fill xs i j c = xs"
  by (simp add: fill_def)

lemma fill_all: "j = glen xs \<Longrightarrow> fill xs 0 j c = replicate (length xs) c"
  by (auto simp: fill_def)

lemma row_clear_cells:
  "cells (row_clear r i j st) =
     fill (cells r) (max 0 i) (min j (glen (cells r))) (blankCell (eraseStyle st))"
  by (auto simp: row_clear_def Let_def max_def min_def)

lemma row_clear_wrapped [simp]: "wrapped (row_clear r i j st) = wrapped r"
  by (simp add: row_clear_def Let_def)

lemma row_clear_length [simp]: "length (cells (row_clear r i j st)) = length (cells r)"
  by (simp add: row_clear_cells)

lemma newRow_length [simp]: "length (cells (newRow w)) = nat w"
  by (simp add: newRow_def)

lemma newRow_wrapped [simp]: "\<not> wrapped (newRow w)"
  by (simp add: newRow_def)

lemma lastVisible_from_le: "lastVisible_from cs n \<le> n"
  by (induction n) auto

lemma lastVisible_le: "lastVisible r \<le> length (cells r)"
  by (simp add: lastVisible_def lastVisible_from_le)

lemma lastVisible_from_blank:
  "lastVisible_from cs n \<le> i \<Longrightarrow> i < n \<Longrightarrow> IsBlank (cs ! i)"
  by (induction n) (auto split: if_splits simp: less_Suc_eq)

lemma lastVisible_from_visible:
  "0 < lastVisible_from cs n \<Longrightarrow> \<not> IsBlank (cs ! (lastVisible_from cs n - 1))"
  by (induction n) auto

lemma lastVisible_from_unique:
  assumes "k \<le> n" "\<And>i. k \<le> i \<Longrightarrow> i < n \<Longrightarrow> IsBlank (cs ! i)"
    and "0 < k \<Longrightarrow> \<not> IsBlank (cs ! (k - 1))"
  shows "lastVisible_from cs n = k"
  using assms
proof (induction n)
  case 0
  then show ?case by simp
next
  case (Suc n)
  show ?case
  proof (cases "k = Suc n")
    case True
    with Suc.prems show ?thesis by simp
  next
    case False
    with Suc show ?thesis by auto
  qed
qed

lemma lastVisible_spec:
  "lastVisible r = k \<longleftrightarrow> k \<le> length (cells r)
     \<and> (\<forall>i. k \<le> i \<and> i < length (cells r) \<longrightarrow> IsBlank (cells r ! i))
     \<and> (0 < k \<longrightarrow> \<not> IsBlank (cells r ! (k - 1)))"
  using lastVisible_from_blank [of "cells r" "length (cells r)"]
    lastVisible_from_visible [of "cells r" "length (cells r)"]
    lastVisible_from_unique [of k "length (cells r)" "cells r"]
  by (auto simp: lastVisible_def lastVisible_from_le)

lemma lastVisible_trimmed [simp]: "lastVisible (trimmed r) = lastVisible r"
  using lastVisible_le [of r] lastVisible_spec [of r "lastVisible r"]
  by (subst lastVisible_spec) (auto simp: trimmed_def)

lemma trimmed_length [simp]: "length (cells (trimmed r)) = lastVisible r"
  using lastVisible_le [of r] by (simp add: trimmed_def)

lemma trimmed_wrapped [simp]: "wrapped (trimmed r) = wrapped r"
  by (simp add: trimmed_def)

lemma trimmed_cells: "cells (trimmed r) = take (lastVisible r) (cells r)"
  by (simp add: trimmed_def)

lemma rowText_trimmed: "rowText (trimmed r) = rowText r"
  by (simp add: rowText_def trimmed_cells)

lemma trimmed_idem: "trimmed (trimmed r) = trimmed r"
  by (simp add: trimmed_def [of "trimmed r"] trimmed_cells)

lemma fitted_length [simp]: "0 \<le> w \<Longrightarrow> length (cells (fitted r w)) = nat w"
  by (auto simp: fitted_def Let_def)

lemma fitted_wrapped [simp]: "wrapped (fitted r w) = wrapped r"
  by (simp add: fitted_def Let_def)

end
