(* ===== verification/RuneWidth.thy ===== *)
theory RuneWidth
  imports Golib
begin

text \<open>
  \<open>src/internal/vterm/width.go\<close>: the number of columns a rune occupies. The wide ranges are the
  table of the source; the classes Mn, Me and Cf are those of Go's package \<open>unicode\<close> (Unicode
  15.0.0, the version of the Go release in \<open>src/go.mod\<close>). \<open>isWide\<close> is the source's binary
  search; it is shown to decide membership in the table, with every index in range.
\<close>

section \<open>Unicode classes of the standard library\<close>

definition in_ranges :: "(int \<times> int) list \<Rightarrow> rune \<Rightarrow> bool" where
  "in_ranges tbl r = list_ex (\<lambda>(lo, hi). lo \<le> r \<and> r \<le> hi) tbl"

definition unicode_Mn :: "(int \<times> int) list" where
  "unicode_Mn =
    [(0x300, 0x36f), (0x483, 0x487), (0x591, 0x5bd), (0x5bf, 0x5bf), (0x5c1, 0x5c2), (0x5c4,
     0x5c5), (0x5c7, 0x5c7), (0x610, 0x61a), (0x64b, 0x65f), (0x670, 0x670), (0x6d6, 0x6dc),
     (0x6df, 0x6e4), (0x6e7, 0x6e8), (0x6ea, 0x6ed), (0x711, 0x711), (0x730, 0x74a), (0x7a6,
     0x7b0), (0x7eb, 0x7f3), (0x7fd, 0x7fd), (0x816, 0x819), (0x81b, 0x823), (0x825, 0x827),
     (0x829, 0x82d), (0x859, 0x85b), (0x898, 0x89f), (0x8ca, 0x8e1), (0x8e3, 0x902), (0x93a,
     0x93a), (0x93c, 0x93c), (0x941, 0x948), (0x94d, 0x94d), (0x951, 0x957), (0x962, 0x963),
     (0x981, 0x981), (0x9bc, 0x9bc), (0x9c1, 0x9c4), (0x9cd, 0x9cd), (0x9e2, 0x9e3), (0x9fe,
     0x9fe), (0xa01, 0xa02), (0xa3c, 0xa3c), (0xa41, 0xa42), (0xa47, 0xa48), (0xa4b, 0xa4d),
     (0xa51, 0xa51), (0xa70, 0xa71), (0xa75, 0xa75), (0xa81, 0xa82), (0xabc, 0xabc), (0xac1,
     0xac5), (0xac7, 0xac8), (0xacd, 0xacd), (0xae2, 0xae3), (0xafa, 0xaff), (0xb01, 0xb01),
     (0xb3c, 0xb3c), (0xb3f, 0xb3f), (0xb41, 0xb44), (0xb4d, 0xb4d), (0xb55, 0xb56), (0xb62,
     0xb63), (0xb82, 0xb82), (0xbc0, 0xbc0), (0xbcd, 0xbcd), (0xc00, 0xc00), (0xc04, 0xc04),
     (0xc3c, 0xc3c), (0xc3e, 0xc40), (0xc46, 0xc48), (0xc4a, 0xc4d), (0xc55, 0xc56), (0xc62,
     0xc63), (0xc81, 0xc81), (0xcbc, 0xcbc), (0xcbf, 0xcbf), (0xcc6, 0xcc6), (0xccc, 0xccd),
     (0xce2, 0xce3), (0xd00, 0xd01), (0xd3b, 0xd3c), (0xd41, 0xd44), (0xd4d, 0xd4d), (0xd62,
     0xd63), (0xd81, 0xd81), (0xdca, 0xdca), (0xdd2, 0xdd4), (0xdd6, 0xdd6), (0xe31, 0xe31),
     (0xe34, 0xe3a), (0xe47, 0xe4e), (0xeb1, 0xeb1), (0xeb4, 0xebc), (0xec8, 0xece), (0xf18,
     0xf19), (0xf35, 0xf35), (0xf37, 0xf37), (0xf39, 0xf39), (0xf71, 0xf7e), (0xf80, 0xf84),
     (0xf86, 0xf87), (0xf8d, 0xf97), (0xf99, 0xfbc), (0xfc6, 0xfc6), (0x102d, 0x1030), (0x1032,
     0x1037), (0x1039, 0x103a), (0x103d, 0x103e), (0x1058, 0x1059), (0x105e, 0x1060), (0x1071,
     0x1074), (0x1082, 0x1082), (0x1085, 0x1086), (0x108d, 0x108d), (0x109d, 0x109d), (0x135d,
     0x135f), (0x1712, 0x1714), (0x1732, 0x1733), (0x1752, 0x1753), (0x1772, 0x1773), (0x17b4,
     0x17b5), (0x17b7, 0x17bd), (0x17c6, 0x17c6), (0x17c9, 0x17d3), (0x17dd, 0x17dd), (0x180b,
     0x180d), (0x180f, 0x180f), (0x1885, 0x1886), (0x18a9, 0x18a9), (0x1920, 0x1922), (0x1927,
     0x1928), (0x1932, 0x1932), (0x1939, 0x193b), (0x1a17, 0x1a18), (0x1a1b, 0x1a1b), (0x1a56,
     0x1a56), (0x1a58, 0x1a5e), (0x1a60, 0x1a60), (0x1a62, 0x1a62), (0x1a65, 0x1a6c), (0x1a73,
     0x1a7c), (0x1a7f, 0x1a7f), (0x1ab0, 0x1abd), (0x1abf, 0x1ace), (0x1b00, 0x1b03), (0x1b34,
     0x1b34), (0x1b36, 0x1b3a), (0x1b3c, 0x1b3c), (0x1b42, 0x1b42), (0x1b6b, 0x1b73), (0x1b80,
     0x1b81), (0x1ba2, 0x1ba5), (0x1ba8, 0x1ba9), (0x1bab, 0x1bad), (0x1be6, 0x1be6), (0x1be8,
     0x1be9), (0x1bed, 0x1bed), (0x1bef, 0x1bf1), (0x1c2c, 0x1c33), (0x1c36, 0x1c37), (0x1cd0,
     0x1cd2), (0x1cd4, 0x1ce0), (0x1ce2, 0x1ce8), (0x1ced, 0x1ced), (0x1cf4, 0x1cf4), (0x1cf8,
     0x1cf9), (0x1dc0, 0x1dff), (0x20d0, 0x20dc), (0x20e1, 0x20e1), (0x20e5, 0x20f0), (0x2cef,
     0x2cf1), (0x2d7f, 0x2d7f), (0x2de0, 0x2dff), (0x302a, 0x302d), (0x3099, 0x309a), (0xa66f,
     0xa66f), (0xa674, 0xa67d), (0xa69e, 0xa69f), (0xa6f0, 0xa6f1), (0xa802, 0xa802), (0xa806,
     0xa806), (0xa80b, 0xa80b), (0xa825, 0xa826), (0xa82c, 0xa82c), (0xa8c4, 0xa8c5), (0xa8e0,
     0xa8f1), (0xa8ff, 0xa8ff), (0xa926, 0xa92d), (0xa947, 0xa951), (0xa980, 0xa982), (0xa9b3,
     0xa9b3), (0xa9b6, 0xa9b9), (0xa9bc, 0xa9bd), (0xa9e5, 0xa9e5), (0xaa29, 0xaa2e), (0xaa31,
     0xaa32), (0xaa35, 0xaa36), (0xaa43, 0xaa43), (0xaa4c, 0xaa4c), (0xaa7c, 0xaa7c), (0xaab0,
     0xaab0), (0xaab2, 0xaab4), (0xaab7, 0xaab8), (0xaabe, 0xaabf), (0xaac1, 0xaac1), (0xaaec,
     0xaaed), (0xaaf6, 0xaaf6), (0xabe5, 0xabe5), (0xabe8, 0xabe8), (0xabed, 0xabed), (0xfb1e,
     0xfb1e), (0xfe00, 0xfe0f), (0xfe20, 0xfe2f), (0x101fd, 0x101fd), (0x102e0, 0x102e0),
     (0x10376, 0x1037a), (0x10a01, 0x10a03), (0x10a05, 0x10a06), (0x10a0c, 0x10a0f), (0x10a38,
     0x10a3a), (0x10a3f, 0x10a3f), (0x10ae5, 0x10ae6), (0x10d24, 0x10d27), (0x10eab, 0x10eac),
     (0x10efd, 0x10eff), (0x10f46, 0x10f50), (0x10f82, 0x10f85), (0x11001, 0x11001), (0x11038,
     0x11046), (0x11070, 0x11070), (0x11073, 0x11074), (0x1107f, 0x11081), (0x110b3, 0x110b6),
     (0x110b9, 0x110ba), (0x110c2, 0x110c2), (0x11100, 0x11102), (0x11127, 0x1112b), (0x1112d,
     0x11134), (0x11173, 0x11173), (0x11180, 0x11181), (0x111b6, 0x111be), (0x111c9, 0x111cc),
     (0x111cf, 0x111cf), (0x1122f, 0x11231), (0x11234, 0x11234), (0x11236, 0x11237), (0x1123e,
     0x1123e), (0x11241, 0x11241), (0x112df, 0x112df), (0x112e3, 0x112ea), (0x11300, 0x11301),
     (0x1133b, 0x1133c), (0x11340, 0x11340), (0x11366, 0x1136c), (0x11370, 0x11374), (0x11438,
     0x1143f), (0x11442, 0x11444), (0x11446, 0x11446), (0x1145e, 0x1145e), (0x114b3, 0x114b8),
     (0x114ba, 0x114ba), (0x114bf, 0x114c0), (0x114c2, 0x114c3), (0x115b2, 0x115b5), (0x115bc,
     0x115bd), (0x115bf, 0x115c0), (0x115dc, 0x115dd), (0x11633, 0x1163a), (0x1163d, 0x1163d),
     (0x1163f, 0x11640), (0x116ab, 0x116ab), (0x116ad, 0x116ad), (0x116b0, 0x116b5), (0x116b7,
     0x116b7), (0x1171d, 0x1171f), (0x11722, 0x11725), (0x11727, 0x1172b), (0x1182f, 0x11837),
     (0x11839, 0x1183a), (0x1193b, 0x1193c), (0x1193e, 0x1193e), (0x11943, 0x11943), (0x119d4,
     0x119d7), (0x119da, 0x119db), (0x119e0, 0x119e0), (0x11a01, 0x11a0a), (0x11a33, 0x11a38),
     (0x11a3b, 0x11a3e), (0x11a47, 0x11a47), (0x11a51, 0x11a56), (0x11a59, 0x11a5b), (0x11a8a,
     0x11a96), (0x11a98, 0x11a99), (0x11c30, 0x11c36), (0x11c38, 0x11c3d), (0x11c3f, 0x11c3f),
     (0x11c92, 0x11ca7), (0x11caa, 0x11cb0), (0x11cb2, 0x11cb3), (0x11cb5, 0x11cb6), (0x11d31,
     0x11d36), (0x11d3a, 0x11d3a), (0x11d3c, 0x11d3d), (0x11d3f, 0x11d45), (0x11d47, 0x11d47),
     (0x11d90, 0x11d91), (0x11d95, 0x11d95), (0x11d97, 0x11d97), (0x11ef3, 0x11ef4), (0x11f00,
     0x11f01), (0x11f36, 0x11f3a), (0x11f40, 0x11f40), (0x11f42, 0x11f42), (0x13440, 0x13440),
     (0x13447, 0x13455), (0x16af0, 0x16af4), (0x16b30, 0x16b36), (0x16f4f, 0x16f4f), (0x16f8f,
     0x16f92), (0x16fe4, 0x16fe4), (0x1bc9d, 0x1bc9e), (0x1cf00, 0x1cf2d), (0x1cf30, 0x1cf46),
     (0x1d167, 0x1d169), (0x1d17b, 0x1d182), (0x1d185, 0x1d18b), (0x1d1aa, 0x1d1ad), (0x1d242,
     0x1d244), (0x1da00, 0x1da36), (0x1da3b, 0x1da6c), (0x1da75, 0x1da75), (0x1da84, 0x1da84),
     (0x1da9b, 0x1da9f), (0x1daa1, 0x1daaf), (0x1e000, 0x1e006), (0x1e008, 0x1e018), (0x1e01b,
     0x1e021), (0x1e023, 0x1e024), (0x1e026, 0x1e02a), (0x1e08f, 0x1e08f), (0x1e130, 0x1e136),
     (0x1e2ae, 0x1e2ae), (0x1e2ec, 0x1e2ef), (0x1e4ec, 0x1e4ef), (0x1e8d0, 0x1e8d6), (0x1e944,
     0x1e94a), (0xe0100, 0xe01ef)]"

definition unicode_Me :: "(int \<times> int) list" where
  "unicode_Me =
    [(0x488, 0x489), (0x1abe, 0x1abe), (0x20dd, 0x20e0), (0x20e2, 0x20e4), (0xa670, 0xa672)]"

definition unicode_Cf :: "(int \<times> int) list" where
  "unicode_Cf =
    [(0xad, 0xad), (0x600, 0x605), (0x61c, 0x61c), (0x6dd, 0x6dd), (0x70f, 0x70f), (0x890,
     0x891), (0x8e2, 0x8e2), (0x180e, 0x180e), (0x200b, 0x200f), (0x202a, 0x202e), (0x2060,
     0x2064), (0x2066, 0x206f), (0xfeff, 0xfeff), (0xfff9, 0xfffb), (0x110bd, 0x110bd), (0x110cd,
     0x110cd), (0x13430, 0x1343f), (0x1bca0, 0x1bca3), (0x1d173, 0x1d17a), (0xe0001, 0xe0001),
     (0xe0020, 0xe007f)]"

section \<open>width.go\<close>

definition isZeroWidth :: "rune \<Rightarrow> bool" where
  "isZeroWidth r =
    (if in_ranges unicode_Mn r \<or> in_ranges unicode_Me r \<or> in_ranges unicode_Cf r then True
     else if 0x1160 \<le> r \<and> r \<le> 0x11ff then True
     else if 0xd7b0 \<le> r \<and> r \<le> 0xd7ff then True
     else if r = 0x200b then True
     else False)"

definition wideRanges :: "(int \<times> int) list" where
  "wideRanges =
    [(0x1100, 0x115f), (0x231a, 0x231b), (0x2329, 0x232a), (0x23e9, 0x23ec), (0x23f0, 0x23f0),
     (0x23f3, 0x23f3), (0x25fd, 0x25fe), (0x2614, 0x2615), (0x2648, 0x2653), (0x267f, 0x267f),
     (0x2693, 0x2693), (0x26a1, 0x26a1), (0x26aa, 0x26ab), (0x26bd, 0x26be), (0x26c4, 0x26c5),
     (0x26ce, 0x26ce), (0x26d4, 0x26d4), (0x26ea, 0x26ea), (0x26f2, 0x26f3), (0x26f5, 0x26f5),
     (0x26fa, 0x26fa), (0x26fd, 0x26fd), (0x2705, 0x2705), (0x270a, 0x270b), (0x2728, 0x2728),
     (0x274c, 0x274c), (0x274e, 0x274e), (0x2753, 0x2755), (0x2757, 0x2757), (0x2795, 0x2797),
     (0x27b0, 0x27b0), (0x27bf, 0x27bf), (0x2b1b, 0x2b1c), (0x2b50, 0x2b50), (0x2b55, 0x2b55),
     (0x2e80, 0x303e), (0x3041, 0x33ff), (0x3400, 0x4dbf), (0x4e00, 0x9fff), (0xa000, 0xa4cf),
     (0xa960, 0xa97f), (0xac00, 0xd7a3), (0xf900, 0xfaff), (0xfe10, 0xfe19), (0xfe30, 0xfe6f),
     (0xff00, 0xff60), (0xffe0, 0xffe6), (0x16fe0, 0x16fe1), (0x17000, 0x18aff), (0x1b000,
     0x1b12f), (0x1f004, 0x1f004), (0x1f0cf, 0x1f0cf), (0x1f18e, 0x1f18e), (0x1f191, 0x1f19a),
     (0x1f200, 0x1f202), (0x1f210, 0x1f23b), (0x1f240, 0x1f248), (0x1f250, 0x1f251), (0x1f260,
     0x1f265), (0x1f300, 0x1f320), (0x1f32d, 0x1f335), (0x1f337, 0x1f37c), (0x1f37e, 0x1f393),
     (0x1f3a0, 0x1f3ca), (0x1f3cf, 0x1f3d3), (0x1f3e0, 0x1f3f0), (0x1f3f4, 0x1f3f4), (0x1f3f8,
     0x1f43e), (0x1f440, 0x1f440), (0x1f442, 0x1f4fc), (0x1f4ff, 0x1f53d), (0x1f54b, 0x1f54e),
     (0x1f550, 0x1f567), (0x1f57a, 0x1f57a), (0x1f595, 0x1f596), (0x1f5a4, 0x1f5a4), (0x1f5fb,
     0x1f64f), (0x1f680, 0x1f6c5), (0x1f6cc, 0x1f6cc), (0x1f6d0, 0x1f6d2), (0x1f6eb, 0x1f6ec),
     (0x1f6f4, 0x1f6f9), (0x1f910, 0x1f93e), (0x1f940, 0x1f970), (0x1f973, 0x1f976), (0x1f97a,
     0x1f97a), (0x1f97c, 0x1f9a2), (0x1f9b0, 0x1f9b9), (0x1f9c0, 0x1f9c2), (0x1f9d0, 0x1f9ff),
     (0x20000, 0x2fffd), (0x30000, 0x3fffd)]"

text \<open>The loop of \<open>isWide\<close> over its variables \<open>lo\<close> and \<open>hi\<close>.\<close>

function wide_search :: "int \<Rightarrow> int \<Rightarrow> rune \<Rightarrow> bool option" where
  "wide_search lo hi r =
    (if lo \<le> hi then
       let mid = (lo + hi) div 2 in
       do {
         rg \<leftarrow> gidx wideRanges mid;
         if r < fst rg then wide_search lo (mid - 1) r
         else if r > snd rg then wide_search (mid + 1) hi r
         else Some True
       }
     else Some False)"
  by pat_completeness auto
termination
  by (relation "measure (\<lambda>(lo, hi, r). nat (hi + 1 - lo))") auto

declare wide_search.simps [simp del]

definition isWide :: "rune \<Rightarrow> bool option" where
  "isWide r = wide_search 0 (glen wideRanges - 1) r"

definition runeWidth :: "rune \<Rightarrow> int option" where
  "runeWidth r =
    (if r = 0 then Some 0
     else if r < 0x20 \<or> (0x7f \<le> r \<and> r < 0xa0) then Some 0
     else if r < 0x300 then Some 1
     else if isZeroWidth r then Some 0
     else do {
       wd \<leftarrow> isWide r;
       Some (if wd then 2 else 1)
     })"

section \<open>The search decides membership\<close>

definition ranges_sorted :: "(int \<times> int) list \<Rightarrow> bool" where
  "ranges_sorted tbl = (list_all (\<lambda>(lo, hi). lo \<le> hi) tbl
     \<and> sorted_wrt (\<lambda>a b. snd a < fst b) tbl)"

lemma wideRanges_length [simp]: "length wideRanges = 92"
  by (simp add: wideRanges_def)

lemma wideRanges_sorted: "ranges_sorted wideRanges"
  by code_simp

lemma ranges_sorted_nth:
  assumes "ranges_sorted tbl"
  shows "i < length tbl \<Longrightarrow> fst (tbl ! i) \<le> snd (tbl ! i)"
    and "i < j \<Longrightarrow> j < length tbl \<Longrightarrow> snd (tbl ! i) < fst (tbl ! j)"
  using assms
  by (auto simp: ranges_sorted_def list_all_length sorted_wrt_iff_nth_less case_prod_beta)

lemma range_order:
  assumes "ranges_sorted tbl" "i < length tbl" "j < length tbl"
  shows "fst (tbl ! j) \<le> r \<Longrightarrow> r < fst (tbl ! i) \<Longrightarrow> j < i"
    and "r \<le> snd (tbl ! j) \<Longrightarrow> snd (tbl ! i) < r \<Longrightarrow> i < j"
  using ranges_sorted_nth [OF assms(1), of i] ranges_sorted_nth [OF assms(1), of j] assms(2,3)
    ranges_sorted_nth(2) [OF assms(1), of i j] ranges_sorted_nth(2) [OF assms(1), of j i]
  by (cases i j rule: linorder_cases; force)+

lemma wide_search_correct:
  assumes "0 \<le> lo" "hi < glen wideRanges"
  shows "wide_search lo hi r = Some (\<exists>k. lo \<le> int k \<and> int k \<le> hi \<and>
    fst (wideRanges ! k) \<le> r \<and> r \<le> snd (wideRanges ! k))"
  using assms
proof (induction lo hi r rule: wide_search.induct)
  case (1 lo hi r)
  show ?case
  proof (cases "lo \<le> hi")
    case False
    then show ?thesis by (subst wide_search.simps) auto
  next
    case True
    define m where "m = nat ((lo + hi) div 2)"
    let ?R = "\<lambda>k. fst (wideRanges ! k) \<le> r \<and> r \<le> snd (wideRanges ! k)"
    have m: "int m = (lo + hi) div 2" "lo \<le> int m" "int m \<le> hi" "m < length wideRanges"
      using True "1.prems" unfolding m_def by auto
    have g: "gidx wideRanges ((lo + hi) div 2) = Some (wideRanges ! m)"
      using m by (simp flip: m(1))
    note step = wide_search.simps [of lo hi r]
    note ord = range_order [OF wideRanges_sorted m(4), of _ r]
    consider "r < fst (wideRanges ! m)" | "snd (wideRanges ! m) < r" "\<not> r < fst (wideRanges ! m)"
      | "?R m" by linarith
    then show ?thesis
    proof cases
      case 1
      have e: "(lo \<le> int k \<and> int k \<le> int m - 1 \<and> ?R k) = (lo \<le> int k \<and> int k \<le> hi \<and> ?R k)" for k
        using ord(1) [of k, OF _ _ 1] m "1.prems" by (cases "k < length wideRanges") auto
      with 1 g True m(1) "1.IH"(1) [OF True refl g 1] "1.prems" m e show ?thesis
        by (simp add: step)
    next
      case 2
      have e: "(int m + 1 \<le> int k \<and> int k \<le> hi \<and> ?R k) = (lo \<le> int k \<and> int k \<le> hi \<and> ?R k)" for k
        using ord(2) [of k, OF _ _ 2(1)] m "1.prems" by (cases "k < length wideRanges") auto
      with 2 g True m(1) "1.IH"(2) [OF True refl g 2(2) 2(1)] "1.prems" m e show ?thesis
        by (simp add: step)
    next
      case 3
      with g True m show ?thesis by (auto simp: step intro!: exI [of _ m])
    qed
  qed
qed

lemma isWide_correct: "isWide r = Some (in_ranges wideRanges r)"
proof -
  have "(0 \<le> int k \<and> int k \<le> glen wideRanges - 1 \<and> P k) = (k < length wideRanges \<and> P k)" for k P
    by auto
  then show ?thesis
    unfolding isWide_def
    by (subst wide_search_correct) (auto simp: in_ranges_def list_ex_length case_prod_beta)
qed

lemma runeWidth_cases: "runeWidth r \<in> {Some 0, Some 1, Some 2}"
  by (simp add: runeWidth_def isWide_correct)

lemma runeWidth_total:
  obtains n where "runeWidth r = Some n" "n = 0 \<or> n = 1 \<or> n = 2"
  using runeWidth_cases [of r] by auto

lemma runeWidth_ascii: "0x20 \<le> r \<Longrightarrow> r < 0x7f \<Longrightarrow> runeWidth r = Some 1"
  by (simp add: runeWidth_def)

end
