(* ===== verification/Parser.thy ===== *)
theory Parser
  imports Golib
begin

text \<open>
  The parser state of \<open>src/internal/vterm/parser.go\<close> and its own operations: the CSI parameter
  arrays of 32 entries, the OSC buffer, the bytes of a rune cut by the end of a write.
  \<open>parser_wf\<close> is what every operation keeps: the array lengths, at most 32 parameters, every
  parameter between 0 and \<open>2 ^ 24\<close> (so no Go \<open>int\<close> of the dispatcher can overflow), an OSC
  buffer of at most 4099 bytes.
\<close>

section \<open>State\<close>

datatype parserState = stateGround | stateEscape | stateEscapeIntermediate | stateCSIEntry
  | stateCSIParam | stateCSIIntermediate | stateCSIIgnore | stateOSC | stateOSCEscape
  | stateString | stateStringEscape

definition maxParams :: int where "maxParams = 32"
definition maxOSCBytes :: int where "maxOSCBytes = 4096"

record parser =
  pstate :: parserState
  params :: "int list"
  hasValue :: "bool list"
  isSub :: "bool list"
  nParams :: int
  intermediate :: byte
  priv :: byte
  poverflow :: bool
  osc :: bytes
  partial :: bytes
  nPart :: int

text \<open>The zero value \<open>parser{}\<close>.\<close>

definition zeroParser :: parser where
  "zeroParser = \<lparr>pstate = stateGround, params = replicate 32 0, hasValue = replicate 32 False,
     isSub = replicate 32 False, nParams = 0, intermediate = 0, priv = 0, poverflow = False,
     osc = [], partial = replicate 4 0, nPart = 0\<rparr>"

section \<open>Operations\<close>

text \<open>
  The loop bound of \<open>resetCSI\<close> keeps every index below 32, the length of the arrays.
\<close>

definition fill_prefix :: "'a list \<Rightarrow> int \<Rightarrow> 'a \<Rightarrow> 'a list" where
  "fill_prefix xs n c = (let k = min (nat n) (length xs) in replicate k c @ drop k xs)"

definition resetCSI :: "parser \<Rightarrow> parser" where
  "resetCSI p = (let n = min (nParams p + 1) maxParams in
     p\<lparr>params := fill_prefix (params p) n 0,
       hasValue := fill_prefix (hasValue p) n False,
       isSub := fill_prefix (isSub p) n False,
       nParams := 0, intermediate := 0, priv := 0, poverflow := False\<rparr>)"

definition param :: "parser \<Rightarrow> int \<Rightarrow> int \<Rightarrow> int option" where
  "param p i d =
    (if nParams p \<le> i then Some d
     else do {
       hv \<leftarrow> gidx (hasValue p) i;
       if \<not> hv then Some d
       else do {
         v \<leftarrow> gidx (params p) i;
         if v = 0 then Some d else Some v
       }
     })"

definition rawParam :: "parser \<Rightarrow> int \<Rightarrow> int \<Rightarrow> int option" where
  "rawParam p i d =
    (if nParams p \<le> i then Some d
     else do {
       hv \<leftarrow> gidx (hasValue p) i;
       if \<not> hv then Some d else gidx (params p) i
     })"

definition pushDigit :: "byte \<Rightarrow> parser \<Rightarrow> parser option" where
  "pushDigit b p =
    (if poverflow p then Some p
     else let p = (if nParams p = 0 then p\<lparr>nParams := 1\<rparr> else p);
              i = nParams p - 1
          in do {
            old \<leftarrow> gidx (params p) i;
            let v = old * 10 + uint (b - 0x30);
            let v = (if v > 2 ^ 24 then 2 ^ 24 else v);
            ps \<leftarrow> gset (params p) i v;
            hv \<leftarrow> gset (hasValue p) i True;
            Some (p\<lparr>params := ps, hasValue := hv\<rparr>)
          })"

definition nextParam :: "bool \<Rightarrow> parser \<Rightarrow> parser option" where
  "nextParam sub p =
    (if poverflow p then Some p
     else let p = (if nParams p = 0 then p\<lparr>nParams := 1\<rparr> else p)
          in if nParams p \<ge> maxParams then Some (p\<lparr>poverflow := True\<rparr>)
             else do {
               ps \<leftarrow> gset (params p) (nParams p) 0;
               hv \<leftarrow> gset (hasValue p) (nParams p) False;
               sb \<leftarrow> gset (isSub p) (nParams p) sub;
               Some (p\<lparr>params := ps, hasValue := hv, isSub := sb, nParams := nParams p + 1\<rparr>)
             })"

section \<open>The invariant\<close>

definition param_ok :: "int \<Rightarrow> bool" where
  "param_ok v \<longleftrightarrow> 0 \<le> v \<and> v \<le> 2 ^ 24"

definition parser_wf :: "parser \<Rightarrow> bool" where
  "parser_wf p \<longleftrightarrow>
     length (params p) = 32 \<and> length (hasValue p) = 32 \<and> length (isSub p) = 32
     \<and> 0 \<le> nParams p \<and> nParams p \<le> maxParams
     \<and> list_all param_ok (params p)
     \<and> glen (osc p) \<le> maxOSCBytes + 3
     \<and> length (partial p) = 4 \<and> 0 \<le> nPart p \<and> nPart p \<le> 3"

lemma fill_prefix_length [simp]: "length (fill_prefix xs n c) = length xs"
  by (simp add: fill_prefix_def Let_def)

lemma zeroParser_wf: "parser_wf zeroParser"
  by (simp add: parser_wf_def zeroParser_def param_ok_def maxParams_def maxOSCBytes_def)

lemma resetCSI_wf: "parser_wf p \<Longrightarrow> parser_wf (resetCSI p)"
  by (auto simp: parser_wf_def resetCSI_def Let_def fill_prefix_def param_ok_def maxParams_def
      intro: list_all_dropI)

lemma resetCSI_simps [simp]:
  "pstate (resetCSI p) = pstate p" "nParams (resetCSI p) = 0" "intermediate (resetCSI p) = 0"
  "priv (resetCSI p) = 0" "poverflow (resetCSI p) = False" "osc (resetCSI p) = osc p"
  "nPart (resetCSI p) = nPart p" "partial (resetCSI p) = partial p"
  by (simp_all add: resetCSI_def Let_def)

text \<open>A parameter is within the bounds whenever its default is.\<close>

lemma param_bounds:
  assumes "parser_wf p" "0 \<le> i"
  shows "wp (param p i d) (\<lambda>v. v = d \<or> (1 \<le> v \<and> v \<le> 2 ^ 24))"
proof -
  have "0 \<le> params p ! nat i \<and> params p ! nat i \<le> 2 ^ 24" if "i < 32"
    using assms that by (auto simp: parser_wf_def list_all_length param_ok_def)
  with assms show ?thesis
    by (auto simp: param_def parser_wf_def maxParams_def wp_simps)
qed

lemma rawParam_bounds:
  assumes "parser_wf p" "0 \<le> i"
  shows "wp (rawParam p i d) (\<lambda>v. v = d \<or> (0 \<le> v \<and> v \<le> 2 ^ 24))"
proof -
  have "0 \<le> params p ! nat i \<and> params p ! nat i \<le> 2 ^ 24" if "i < 32"
    using assms that by (auto simp: parser_wf_def list_all_length param_ok_def)
  with assms show ?thesis
    by (auto simp: rawParam_def parser_wf_def maxParams_def wp_simps)
qed

text \<open>What \<open>pushDigit\<close> does when the parameter list has not overflowed.\<close>

definition push_value :: "int \<Rightarrow> byte \<Rightarrow> int" where
  "push_value v b = min (2 ^ 24) (v * 10 + uint (b - 0x30))"

lemma pushDigit_eq:
  assumes "parser_wf p" "\<not> poverflow p" "q = (if nParams p = 0 then p\<lparr>nParams := 1\<rparr> else p)"
    and "i = nat (nParams q - 1)"
  shows "pushDigit b p = Some (q\<lparr>params := (params q)[i := push_value (params q ! i) b],
    hasValue := (hasValue q)[i := True]\<rparr>)"
proof -
  from assms have "0 \<le> nParams q - 1" "nParams q - 1 < 32" "length (params q) = 32"
    "length (hasValue q) = 32"
    by (auto simp: parser_wf_def maxParams_def)
  then show ?thesis
    using assms(2) unfolding assms(4) push_value_def pushDigit_def assms(3) [symmetric] Let_def
    by (simp add: min_def)
qed

lemma push_value_ok: "param_ok v \<Longrightarrow> param_ok (push_value v b)"
  by (simp add: param_ok_def push_value_def)

lemma pushDigit_wf:
  assumes "parser_wf p"
  shows "wp (pushDigit b p) (\<lambda>p'. parser_wf p' \<and> pstate p' = pstate p \<and> nPart p' = nPart p)"
proof (cases "poverflow p")
  case True
  with assms show ?thesis by (simp add: pushDigit_def)
next
  case False
  define q where "q = (if nParams p = 0 then p\<lparr>nParams := 1\<rparr> else p)"
  have q: "parser_wf q" "1 \<le> nParams q" "pstate q = pstate p" "nPart q = nPart p"
    using assms by (auto simp: q_def parser_wf_def maxParams_def)
  then have "param_ok (params q ! nat (nParams q - 1))"
    by (auto simp: parser_wf_def maxParams_def list_all_length)
  with q show ?thesis
    unfolding pushDigit_eq [OF assms False q_def refl]
    by (auto simp: parser_wf_def maxParams_def intro!: list_all_update push_value_ok)
qed

lemma nextParam_wf:
  assumes "parser_wf p"
  shows "wp (nextParam sub p) (\<lambda>p'. parser_wf p' \<and> pstate p' = pstate p \<and> nPart p' = nPart p)"
  using assms
  by (auto simp: nextParam_def Let_def wp_simps parser_wf_def maxParams_def param_ok_def
      intro!: list_all_update)

end
