(* ===== verification/Terminal.thy ===== *)
theory Terminal
  imports Cell RuneWidth Parser
begin

text \<open>
  \<open>src/internal/vterm/term.go\<close>: the terminal's state and every operation on it, up to and
  including the resets. An operation returns \<open>None\<close> where the Go code would panic on an index
  or slice out of range. Go's pointer \<open>t.s\<close> to the active screen is a value of type \<open>scr\<close>;
  \<open>deref\<close> and \<open>assign\<close> read and write the screen it points to. Rows own their cells: no
  operation of the source makes two rows share a backing array (\<open>scroll\<close> moves the row headers
  that leave the region to the rows that enter it, everything else copies), so rows are values.
\<close>

section \<open>State\<close>

definition DefaultScrollback :: int where "DefaultScrollback = 2000"

type_synonym MouseMode = "16 word"
type_synonym MouseEncoding = "16 word"

record cursor =
  cx :: int
  cy :: int
  pendingWrap :: bool

datatype charset = charsetASCII | charsetDECGraphics

record savedCursor =
  sv_x :: int
  sv_y :: int
  sv_pen :: Style
  sv_link :: bytes
  sv_charset :: int
  sv_g :: "charset list"
  sv_origin :: bool
  sv_valid :: bool

record screen =
  rows :: "row list"
  cur :: cursor
  saved :: savedCursor
  s_top :: int
  s_bot :: int
  scrollback :: "row list"

datatype scr = MainScr | AltScr

record Terminal =
  t_w :: int
  t_h :: int
  t_main :: screen
  t_alt :: screen
  t_s :: scr
  altActive :: bool
  maxScrollback :: int
  pen :: Style
  link :: bytes
  lastPrinted :: rune
  cursorKeys :: bool
  origin :: bool
  autowrap :: bool
  cursorVisible :: bool
  insertMode :: bool
  lineFeedNewline :: bool
  bracketedPaste :: bool
  focusEvents :: bool
  mouse :: MouseMode
  mouseEnc :: MouseEncoding
  cursorStyle :: int
  title :: bytes
  charsets :: "charset list"
  glIndex :: int
  tabStops :: "bool list"
  blankRow :: "Cell list"
  t_p :: parser

definition deref :: "scr \<Rightarrow> Terminal \<Rightarrow> screen" where
  "deref p t = (case p of MainScr \<Rightarrow> t_main t | AltScr \<Rightarrow> t_alt t)"

definition assign :: "scr \<Rightarrow> screen \<Rightarrow> Terminal \<Rightarrow> Terminal" where
  "assign p s t = (case p of MainScr \<Rightarrow> t\<lparr>t_main := s\<rparr> | AltScr \<Rightarrow> t\<lparr>t_alt := s\<rparr>)"

text \<open>The active screen \<open>*t.s\<close>, its cursor, its rows.\<close>

definition act :: "Terminal \<Rightarrow> screen" where
  "act t = deref (t_s t) t"

definition set_act :: "screen \<Rightarrow> Terminal \<Rightarrow> Terminal" where
  "set_act s t = assign (t_s t) s t"

definition tcur :: "Terminal \<Rightarrow> cursor" where
  "tcur t = cur (act t)"

definition set_cur :: "cursor \<Rightarrow> Terminal \<Rightarrow> Terminal" where
  "set_cur c t = set_act ((act t)\<lparr>cur := c\<rparr>) t"

definition get_row :: "int \<Rightarrow> Terminal \<Rightarrow> row option" where
  "get_row y t = gidx (rows (act t)) y"

definition set_row :: "int \<Rightarrow> row \<Rightarrow> Terminal \<Rightarrow> Terminal option" where
  "set_row y r t = do {
     rs \<leftarrow> gset (rows (act t)) y r;
     Some (set_act ((act t)\<lparr>rows := rs\<rparr>) t)
   }"

text \<open>\<open>for i := i; i < j; i++ { xs[i] = c }\<close>: a panic as soon as an index is out of range.\<close>

definition gfill :: "'a list \<Rightarrow> int \<Rightarrow> int \<Rightarrow> 'a \<Rightarrow> 'a list option" where
  "gfill xs i j c = (if j \<le> i then Some xs
     else if 0 \<le> i \<and> j \<le> glen xs then Some (fill xs i j c) else None)"

section \<open>Construction\<close>

definition zeroCursor :: cursor where
  "zeroCursor = \<lparr>cx = 0, cy = 0, pendingWrap = False\<rparr>"

definition zeroSaved :: savedCursor where
  "zeroSaved = \<lparr>sv_x = 0, sv_y = 0, sv_pen = zeroStyle, sv_link = [], sv_charset = 0,
     sv_g = [charsetASCII, charsetASCII], sv_origin = False, sv_valid = False\<rparr>"

definition newScreen :: "int \<Rightarrow> int \<Rightarrow> screen" where
  "newScreen w h = \<lparr>rows = replicate (nat h) (newRow w), cur = zeroCursor, saved = zeroSaved,
     s_top = 0, s_bot = h - 1, scrollback = []\<rparr>"

text \<open>Every eighth column, from column 8.\<close>

definition resetTabStops :: "Terminal \<Rightarrow> Terminal" where
  "resetTabStops t = t\<lparr>tabStops := map (\<lambda>i. 8 \<le> i \<and> i mod 8 = 0) [0..<nat (t_w t)]\<rparr>"

definition init :: "int \<Rightarrow> int \<Rightarrow> Terminal \<Rightarrow> Terminal" where
  "init w h t =
    (let w = (if w < 1 then 1 else w);
         h = (if h < 1 then 1 else h);
         t = t\<lparr>t_w := w, t_h := h, t_main := newScreen w h, t_alt := newScreen w h,
               t_s := MainScr, altActive := False, pen := zeroStyle, link := [],
               cursorKeys := False, origin := False, autowrap := True, cursorVisible := True,
               insertMode := False, lineFeedNewline := False, bracketedPaste := False,
               focusEvents := False, mouse := 0, mouseEnc := 0, cursorStyle := 0,
               charsets := [charsetASCII, charsetASCII], glIndex := 0\<rparr>;
         t = resetTabStops t
     in t\<lparr>blankRow := [], t_p := zeroParser\<rparr>)"

definition zeroTerminal :: Terminal where
  "zeroTerminal = \<lparr>t_w = 0, t_h = 0,
     t_main = \<lparr>rows = [], cur = zeroCursor, saved = zeroSaved, s_top = 0, s_bot = 0, scrollback = []\<rparr>,
     t_alt = \<lparr>rows = [], cur = zeroCursor, saved = zeroSaved, s_top = 0, s_bot = 0, scrollback = []\<rparr>,
     t_s = MainScr, altActive = False, maxScrollback = 0, pen = zeroStyle, link = [],
     lastPrinted = 0, cursorKeys = False, origin = False, autowrap = False,
     cursorVisible = False, insertMode = False, lineFeedNewline = False,
     bracketedPaste = False, focusEvents = False, mouse = 0, mouseEnc = 0, cursorStyle = 0,
     title = [], charsets = [charsetASCII, charsetASCII], glIndex = 0, tabStops = [],
     blankRow = [], t_p = zeroParser\<rparr>"

definition New :: "int \<Rightarrow> int \<Rightarrow> Terminal" where
  "New w h = init w h (zeroTerminal\<lparr>maxScrollback := DefaultScrollback\<rparr>)"

section \<open>Scrollback\<close>

definition trimScrollback :: "Terminal \<Rightarrow> Terminal" where
  "trimScrollback t =
    (let sb = scrollback (t_main t)
     in if glen sb > maxScrollback t
        then t\<lparr>t_main := (t_main t)\<lparr>scrollback := drop (nat (glen sb - maxScrollback t)) sb\<rparr>\<rparr>
        else t)"

definition SetMaxScrollback :: "int \<Rightarrow> Terminal \<Rightarrow> Terminal" where
  "SetMaxScrollback n t =
    (let n = (if n < 0 then 0 else n) in trimScrollback (t\<lparr>maxScrollback := n\<rparr>))"

text \<open>
  The list kept when one row more than the bound is in: a batch of an eighth of the bound (at
  least the excess) leaves at the old end.
\<close>

definition drop_batch :: "int \<Rightarrow> 'a list \<Rightarrow> 'a list" where
  "drop_batch bound sb =
    (if glen sb > bound then
       let d = glen sb - bound;
           d = (if d < bound div 8 then bound div 8 else d);
           d = (if d > glen sb then glen sb else d)
       in drop (nat d) sb
     else sb)"

definition pushScrollback :: "scr \<Rightarrow> row \<Rightarrow> Terminal \<Rightarrow> Terminal" where
  "pushScrollback p r t =
    (if maxScrollback t = 0 \<or> p \<noteq> MainScr then t
     else let s = deref p t;
              sb = scrollback s @ [trimmed r]
          in assign p (s\<lparr>scrollback := drop_batch (maxScrollback t) sb\<rparr>) t)"

section \<open>Resize\<close>

text \<open>Blank rows below the cursor disappear first; the result is the rows and what is left to remove.\<close>

primrec strip_blank :: "nat \<Rightarrow> int \<Rightarrow> row list \<Rightarrow> (row list \<times> nat) option" where
  "strip_blank 0 y rs = Some (rs, 0)"
| "strip_blank (Suc k) y rs =
    (if glen rs - 1 > y then do {
       r \<leftarrow> gidx rs (glen rs - 1);
       if lastVisible r = 0 then strip_blank k y (butlast rs) else Some (rs, Suc k)
     }
     else Some (rs, Suc k))"

text \<open>Lines that scrolled off come back while the cursor sits at the bottom.\<close>

primrec pull_back :: "nat \<Rightarrow> int \<Rightarrow> screen \<Rightarrow> screen \<times> nat" where
  "pull_back 0 w s = (s, 0)"
| "pull_back (Suc k) w s =
    (if scrollback s \<noteq> [] \<and> cy (cur s) = glen (rows s) - 1 then
       pull_back k w (s\<lparr>scrollback := butlast (scrollback s),
         rows := fitted (last (scrollback s)) w # rows s,
         cur := (cur s)\<lparr>cy := cy (cur s) + 1\<rparr>,
         saved := (saved s)\<lparr>sv_y := sv_y (saved s) + 1\<rparr>\<rparr>)
     else (s, Suc k))"

definition resize_columns :: "int \<Rightarrow> int \<Rightarrow> screen \<Rightarrow> screen" where
  "resize_columns old w s =
    (if w \<noteq> old then
       s\<lparr>rows := map (\<lambda>r. fitted r w) (rows s),
         cur := (cur s)\<lparr>cx := if cx (cur s) \<ge> w then w - 1 else cx (cur s)\<rparr>,
         saved := (saved s)\<lparr>sv_x := if sv_x (saved s) \<ge> w then w - 1 else sv_x (saved s)\<rparr>\<rparr>
     else s)"

definition resize_rows :: "scr \<Rightarrow> int \<Rightarrow> int \<Rightarrow> bool \<Rightarrow> Terminal \<Rightarrow> Terminal option" where
  "resize_rows p w h useScrollback t =
    (let s = deref p t; oldH = glen (rows s)
     in if h < oldH then do {
          (rs, remove) \<leftarrow> strip_blank (nat (oldH - h)) (cy (cur s)) (rows s);
          let t = assign p (s\<lparr>rows := rs\<rparr>) t;
          if remove > 0 then do {
            gone \<leftarrow> gslice rs 0 (int remove);
            let t = (if useScrollback then fold (pushScrollback p) gone t else t);
            let s = deref p t;
            rs' \<leftarrow> gslice rs (int remove) (glen rs);
            Some (assign p (s\<lparr>rows := rs',
              cur := (cur s)\<lparr>cy := max 0 (cy (cur s) - int remove)\<rparr>,
              saved := (saved s)\<lparr>sv_y := max 0 (sv_y (saved s) - int remove)\<rparr>\<rparr>) t)
          }
          else Some t
        }
        else if h > oldH then
          let (s, add) = (if useScrollback then pull_back (nat (h - oldH)) w s
                          else (s, nat (h - oldH)))
          in Some (assign p (s\<lparr>rows := rows s @ replicate add (newRow w)\<rparr>) t)
        else Some t)"

definition resizeScreen :: "scr \<Rightarrow> int \<Rightarrow> int \<Rightarrow> bool \<Rightarrow> Terminal \<Rightarrow> Terminal option" where
  "resizeScreen p w h useScrollback t = do {
     let t = assign p (resize_columns (t_w t) w (deref p t)) t;
     t \<leftarrow> resize_rows p w h useScrollback t;
     let s = deref p t;
     Some (assign p (s\<lparr>
       cur := (cur s)\<lparr>cy := if cy (cur s) \<ge> h then h - 1 else cy (cur s), pendingWrap := False\<rparr>,
       saved := (saved s)\<lparr>sv_y := if sv_y (saved s) \<ge> h then h - 1 else sv_y (saved s)\<rparr>,
       s_top := 0, s_bot := h - 1\<rparr>) t)
   }"

definition Resize :: "int \<Rightarrow> int \<Rightarrow> Terminal \<Rightarrow> Terminal option" where
  "Resize w h t =
    (let w = (if w < 1 then 1 else w);
         h = (if h < 1 then 1 else h)
     in if w = t_w t \<and> h = t_h t then Some t
        else do {
          t \<leftarrow> resizeScreen MainScr w h True t;
          t \<leftarrow> resizeScreen AltScr w h False t;
          Some (resetTabStops (t\<lparr>t_w := w, t_h := h, blankRow := []\<rparr>))
        })"

section \<open>Clearing and scrolling\<close>

text \<open>
  \<open>clearRow\<close>: with a default background the cells are copied from the cached blank row, which
  is rebuilt when it is too short.
\<close>

definition clearRow :: "row \<Rightarrow> int \<Rightarrow> int \<Rightarrow> Terminal \<Rightarrow> (row \<times> Terminal) option" where
  "clearRow r a b t =
    (if Bg (pen t) \<noteq> 0 then Some (row_clear r a b (pen t), t)
     else
       let t = (if glen (blankRow t) < t_w t then t\<lparr>blankRow := cells (newRow (t_w t))\<rparr> else t);
           a = (if a < 0 then 0 else a);
           b = (if b > glen (cells r) then glen (cells r) else b)
       in if a < b then do {
            src \<leftarrow> gslice (blankRow t) 0 (b - a);
            cs \<leftarrow> gcopy (cells r) a b src;
            Some (r\<lparr>cells := cs\<rparr>, t)
          }
          else Some (r, t))"

text \<open>The loop that puts the recycled rows, cleared, below the rows that moved up.\<close>

primrec scroll_fill :: "row list \<Rightarrow> int \<Rightarrow> Terminal \<Rightarrow> Terminal option" where
  "scroll_fill [] y t = Some t"
| "scroll_fill (r # rs) y t = do {
     (r, t) \<leftarrow> clearRow r 0 (t_w t) t;
     t \<leftarrow> set_row y (r\<lparr>wrapped := False\<rparr>) t;
     scroll_fill rs (y + 1) t
   }"

definition scroll :: "int \<Rightarrow> bool \<Rightarrow> Terminal \<Rightarrow> Terminal option" where
  "scroll n keep t =
    (if n \<le> 0 then Some t
     else
       let s = act t;
           n = (if n > s_bot s - s_top s + 1 then s_bot s - s_top s + 1 else n)
       in do {
         recycled \<leftarrow> gslice (rows s) (s_top s) (s_top s + n);
         let t = (if keep \<and> s_top s = 0 then fold (pushScrollback (t_s t)) recycled t else t);
         let s = act t;
         mid \<leftarrow> gslice (rows s) (s_top s + n) (s_bot s + 1);
         rs \<leftarrow> gcopy (rows s) (s_top s) (glen (rows s)) mid;
         let t = set_act (s\<lparr>rows := rs\<rparr>) t;
         t \<leftarrow> scroll_fill recycled (s_bot s - n + 1) t;
         if s_top s < t_h t \<and> s_top s \<le> s_bot s then do {
           r \<leftarrow> get_row (s_top s) t;
           set_row (s_top s) (r\<lparr>wrapped := False\<rparr>) t
         }
         else Some t
       })"

definition scrollUp :: "int \<Rightarrow> Terminal \<Rightarrow> Terminal option" where
  "scrollUp n t = scroll n False t"

text \<open>A fresh row with the pen's background, as \<open>scrollDown\<close>, \<open>insertLines\<close> and \<open>deleteLines\<close> make it.\<close>

definition penRow :: "Terminal \<Rightarrow> row" where
  "penRow t = row_clear (newRow (t_w t)) 0 (t_w t) (pen t)"

definition scrollDown :: "int \<Rightarrow> Terminal \<Rightarrow> Terminal option" where
  "scrollDown n t =
    (if n \<le> 0 then Some t
     else
       let s = act t;
           n = (if n > s_bot s - s_top s + 1 then s_bot s - s_top s + 1 else n)
       in do {
         src \<leftarrow> gslice (rows s) (s_top s) (s_bot s + 1 - n);
         rs \<leftarrow> gcopy (rows s) (s_top s + n) (s_bot s + 1) src;
         rs \<leftarrow> gfill rs (s_top s) (s_top s + n) (penRow t);
         Some (set_act (s\<lparr>rows := rs\<rparr>) t)
       })"

definition lineFeed :: "Terminal \<Rightarrow> Terminal option" where
  "lineFeed t =
    (let t = set_cur ((tcur t)\<lparr>pendingWrap := False\<rparr>) t;
         y = cy (tcur t)
     in if y = s_bot (act t) then scroll 1 True t
        else if y < t_h t - 1 then Some (set_cur ((tcur t)\<lparr>cy := y + 1\<rparr>) t)
        else Some t)"

definition reverseIndex :: "Terminal \<Rightarrow> Terminal option" where
  "reverseIndex t =
    (let t = set_cur ((tcur t)\<lparr>pendingWrap := False\<rparr>) t;
         y = cy (tcur t)
     in if y = s_top (act t) then scrollDown 1 t
        else if y > 0 then Some (set_cur ((tcur t)\<lparr>cy := y - 1\<rparr>) t)
        else Some t)"

section \<open>Printing\<close>

text \<open>The DEC Special Graphics set.\<close>

definition decGraphics :: "rune \<Rightarrow> rune option" where
  "decGraphics = map_of
    [(0x60, 0x25c6), (0x61, 0x2592), (0x62, 0x2409), (0x63, 0x240c), (0x64, 0x240d), (0x65, 0x240a),
     (0x66, 0xb0), (0x67, 0xb1), (0x68, 0x2424), (0x69, 0x240b), (0x6a, 0x2518), (0x6b, 0x2510),
     (0x6c, 0x250c), (0x6d, 0x2514), (0x6e, 0x253c), (0x6f, 0x23ba), (0x70, 0x23bb), (0x71, 0x2500),
     (0x72, 0x23bc), (0x73, 0x23bd), (0x74, 0x251c), (0x75, 0x2524), (0x76, 0x2534), (0x77, 0x252c),
     (0x78, 0x2502), (0x79, 0x2264), (0x7a, 0x2265), (0x7b, 0x3c0), (0x7c, 0x2260), (0x7d, 0xa3),
     (0x7e, 0xb7)]"

definition combine_at :: "int \<Rightarrow> rune \<Rightarrow> row \<Rightarrow> Terminal \<Rightarrow> Terminal option" where
  "combine_at x r rw t = do {
     c0 \<leftarrow> gidx (cells rw) x;
     let x = (if Width c0 = 0 \<and> x > 0 then x - 1 else x);
     c \<leftarrow> gidx (cells rw) x;
     if Ch c = [] \<and> Width c \<noteq> 1 then Some t
     else do {
       let c = (if Ch c = [] then c\<lparr>Ch := [0x20]\<rparr> else c);
       cs \<leftarrow> gset (cells rw) x (c\<lparr>Ch := Ch c @ rune_bytes r\<rparr>);
       set_row (cy (tcur t)) (rw\<lparr>cells := cs\<rparr>) t
     }
   }"

definition combine :: "rune \<Rightarrow> Terminal \<Rightarrow> Terminal option" where
  "combine r t = do {
     rw \<leftarrow> get_row (cy (tcur t)) t;
     let x = cx (tcur t);
     if pendingWrap (tcur t) then combine_at (t_w t - 1) r rw t
     else if x > 0 then combine_at (x - 1) r rw t
     else Some t
   }"

definition wrapToNextLine :: "Terminal \<Rightarrow> Terminal option" where
  "wrapToNextLine t = do {
     let t = set_cur ((tcur t)\<lparr>pendingWrap := False, cx := 0\<rparr>) t;
     t \<leftarrow> lineFeed t;
     r \<leftarrow> get_row (cy (tcur t)) t;
     set_row (cy (tcur t)) (r\<lparr>wrapped := True\<rparr>) t
   }"

definition insertCells :: "int \<Rightarrow> Terminal \<Rightarrow> Terminal option" where
  "insertCells n t = do {
     rw \<leftarrow> get_row (cy (tcur t)) t;
     let x = cx (tcur t);
     let n = (if n > t_w t - x then t_w t - x else n);
     src \<leftarrow> gslice (cells rw) x (t_w t - n);
     cs \<leftarrow> gcopy (cells rw) (x + n) (glen (cells rw)) src;
     cs \<leftarrow> gfill cs x (x + n) (blankCell (eraseStyle (pen t)));
     lst \<leftarrow> gidx cs (t_w t - 1);
     cs \<leftarrow> (if Width lst = 2
           then gset cs (t_w t - 1) (blankCell (eraseStyle (CStyle lst))) else Some cs);
     set_row (cy (tcur t)) (rw\<lparr>cells := cs\<rparr>) t
   }"

text \<open>
  The part of \<open>print\<close> that stores the character once the cursor is where it goes
  (\<open>row := &s.rows[s.cur.y]\<close> to the end): the other halves of overwritten wide characters are
  blanked, the cell is written, the cursor moves.
\<close>

definition blank_like :: "Cell list \<Rightarrow> int \<Rightarrow> Cell list option" where
  "blank_like cs x = do {
     c \<leftarrow> gidx cs x;
     gset cs x (blankCell (eraseStyle (CStyle c)))
   }"

definition char_bytes :: "rune \<Rightarrow> bytes" where
  "char_bytes r = (if r = 0x20 then [] else rune_bytes r)"

definition put_cells :: "rune \<Rightarrow> int \<Rightarrow> int \<Rightarrow> Terminal \<Rightarrow> Cell list \<Rightarrow> Cell list option" where
  "put_cells r width x t cs = do {
     c \<leftarrow> gidx cs x;
     cs \<leftarrow> (if Width c = 0 \<and> x > 0 then blank_like cs (x - 1) else Some cs);
     c \<leftarrow> gidx cs x;
     cs \<leftarrow> (if width = 1 \<and> x + 1 < t_w t \<and> Width c = 2 then blank_like cs (x + 1) else Some cs);
     cs \<leftarrow> gset cs x \<lparr>Ch = char_bytes r, Width = width, CStyle = pen t, Link = link t\<rparr>;
     if width = 2 then do {
       cs \<leftarrow> (if x + 2 < t_w t then do {
                c1 \<leftarrow> gidx cs (x + 1);
                if Width c1 = 2 then blank_like cs (x + 2) else Some cs
              }
              else Some cs);
       gset cs (x + 1) \<lparr>Ch = [], Width = 0, CStyle = pen t, Link = link t\<rparr>
     }
     else Some cs
   }"

definition advance :: "int \<Rightarrow> Terminal \<Rightarrow> Terminal" where
  "advance width t =
    (let x = cx (tcur t) + width
     in if x \<ge> t_w t then set_cur ((tcur t)\<lparr>cx := t_w t - 1, pendingWrap := True\<rparr>) t
        else set_cur ((tcur t)\<lparr>cx := x\<rparr>) t)"

definition print_cell :: "rune \<Rightarrow> int \<Rightarrow> Terminal \<Rightarrow> Terminal option" where
  "print_cell r width t = do {
     _ \<leftarrow> get_row (cy (tcur t)) t;
     t \<leftarrow> (if insertMode t then insertCells width t else Some t);
     rw \<leftarrow> get_row (cy (tcur t)) t;
     cs \<leftarrow> put_cells r width (cx (tcur t)) t (cells rw);
     t \<leftarrow> set_row (cy (tcur t)) (rw\<lparr>cells := cs\<rparr>) t;
     Some (advance width t)
   }"

definition print_wrap :: "Terminal \<Rightarrow> Terminal option" where
  "print_wrap t =
    (if pendingWrap (tcur t) then
       if autowrap t then wrapToNextLine t
       else Some (set_cur ((tcur t)\<lparr>cx := t_w t - 1, pendingWrap := False\<rparr>) t)
     else Some t)"

text \<open>The rune the selected character set shows for \<open>r\<close>.\<close>

definition translate :: "charset \<Rightarrow> rune \<Rightarrow> rune" where
  "translate cs r = (if cs = charsetDECGraphics
     then (case decGraphics r of Some g \<Rightarrow> g | None \<Rightarrow> r) else r)"

text \<open>
  A wide character does not fit in the last column: with autowrap the column is blanked and the
  character goes to the next line, without it the character moves one column left (and, on a
  terminal of one column, is dropped).
\<close>

definition print_wide_edge :: "rune \<Rightarrow> int \<Rightarrow> Terminal \<Rightarrow> Terminal option" where
  "print_wide_edge r width t =
    (if autowrap t then do {
       rw \<leftarrow> get_row (cy (tcur t)) t;
       cs \<leftarrow> gset (cells rw) (cx (tcur t)) (blankCell (eraseStyle (pen t)));
       t \<leftarrow> set_row (cy (tcur t)) (rw\<lparr>cells := cs\<rparr>) t;
       t \<leftarrow> wrapToNextLine t;
       print_cell r width t
     }
     else
       let t = set_cur ((tcur t)\<lparr>cx := t_w t - 2\<rparr>) t
       in if cx (tcur t) < 0 then Some t else print_cell r width t)"

definition print_glyph :: "rune \<Rightarrow> int \<Rightarrow> Terminal \<Rightarrow> Terminal option" where
  "print_glyph r width t = do {
     t \<leftarrow> print_wrap (t\<lparr>lastPrinted := r\<rparr>);
     if width = 2 \<and> cx (tcur t) = t_w t - 1 then print_wide_edge r width t
     else print_cell r width t
   }"

definition print :: "rune \<Rightarrow> Terminal \<Rightarrow> Terminal option" where
  "print r t = do {
     cs \<leftarrow> gidx (charsets t) (glIndex t);
     let r = translate cs r;
     width \<leftarrow> runeWidth r;
     if width = 0 then combine r t else print_glyph r width t
   }"

section \<open>Tab stops\<close>

function tab_next :: "bool list \<Rightarrow> int \<Rightarrow> int \<Rightarrow> int option" where
  "tab_next ts w x =
    (if x < w then do {
       b \<leftarrow> gidx ts x;
       if \<not> b then tab_next ts w (x + 1) else Some x
     }
     else Some x)"
  by pat_completeness auto
termination
  by (relation "measure (\<lambda>(ts, w, x). nat (w - x))") auto

function tab_prev :: "bool list \<Rightarrow> int \<Rightarrow> int option" where
  "tab_prev ts x =
    (if x > 0 then do {
       b \<leftarrow> gidx ts x;
       if \<not> b then tab_prev ts (x - 1) else Some x
     }
     else Some x)"
  by pat_completeness auto
termination
  by (relation "measure (\<lambda>(ts, x). nat x)") auto

declare tab_next.simps [simp del] tab_prev.simps [simp del]

primrec tab_forward_n :: "nat \<Rightarrow> Terminal \<Rightarrow> Terminal option" where
  "tab_forward_n 0 t = Some t"
| "tab_forward_n (Suc n) t = do {
     x \<leftarrow> tab_next (tabStops t) (t_w t) (cx (tcur t) + 1);
     tab_forward_n n (set_cur ((tcur t)\<lparr>cx := if x \<ge> t_w t then t_w t - 1 else x\<rparr>) t)
   }"

definition tabForward :: "int \<Rightarrow> Terminal \<Rightarrow> Terminal option" where
  "tabForward n t = tab_forward_n (nat n) (set_cur ((tcur t)\<lparr>pendingWrap := False\<rparr>) t)"

primrec tab_backward_n :: "nat \<Rightarrow> Terminal \<Rightarrow> Terminal option" where
  "tab_backward_n 0 t = Some t"
| "tab_backward_n (Suc n) t = do {
     x \<leftarrow> tab_prev (tabStops t) (cx (tcur t) - 1);
     tab_backward_n n (set_cur ((tcur t)\<lparr>cx := if x < 0 then 0 else x\<rparr>) t)
   }"

definition tabBackward :: "int \<Rightarrow> Terminal \<Rightarrow> Terminal option" where
  "tabBackward n t = tab_backward_n (nat n) (set_cur ((tcur t)\<lparr>pendingWrap := False\<rparr>) t)"

section \<open>C0 controls\<close>

definition execute :: "byte \<Rightarrow> Terminal \<Rightarrow> Terminal option" where
  "execute b t =
    (if b = 0x08 then
       Some (set_cur ((tcur t)\<lparr>pendingWrap := False,
         cx := if cx (tcur t) > 0 then cx (tcur t) - 1 else cx (tcur t)\<rparr>) t)
     else if b = 0x09 then tabForward 1 t
     else if b = 0x0a \<or> b = 0x0b \<or> b = 0x0c then do {
       t \<leftarrow> lineFeed t;
       Some (if lineFeedNewline t then set_cur ((tcur t)\<lparr>cx := 0\<rparr>) t else t)
     }
     else if b = 0x0d then Some (set_cur ((tcur t)\<lparr>cx := 0, pendingWrap := False\<rparr>) t)
     else if b = 0x0e then Some (t\<lparr>glIndex := 1\<rparr>)
     else if b = 0x0f then Some (t\<lparr>glIndex := 0\<rparr>)
     else Some t)"

section \<open>Cursor movement\<close>

definition moveCursor :: "int \<Rightarrow> int \<Rightarrow> Terminal \<Rightarrow> Terminal" where
  "moveCursor x y t =
    (let minY = (if origin t then s_top (act t) else 0);
         maxY = (if origin t then s_bot (act t) else t_h t - 1);
         y = (if y < minY then minY else y);
         y = (if y > maxY then maxY else y);
         x = (if x < 0 then 0 else x);
         x = (if x > t_w t - 1 then t_w t - 1 else x)
     in set_cur \<lparr>cx = x, cy = y, pendingWrap = False\<rparr> t)"

definition cursorUp :: "int \<Rightarrow> Terminal \<Rightarrow> Terminal" where
  "cursorUp n t =
    (let c = tcur t;
         limit = (if cy c \<ge> s_top (act t) then s_top (act t) else 0);
         y = cy c - n;
         y = (if y < limit then limit else y)
     in set_cur (c\<lparr>cy := y, pendingWrap := False\<rparr>) t)"

definition cursorDown :: "int \<Rightarrow> Terminal \<Rightarrow> Terminal" where
  "cursorDown n t =
    (let c = tcur t;
         limit = (if cy c \<le> s_bot (act t) then s_bot (act t) else t_h t - 1);
         y = cy c + n;
         y = (if y > limit then limit else y)
     in set_cur (c\<lparr>cy := y, pendingWrap := False\<rparr>) t)"

definition saveCursor :: "Terminal \<Rightarrow> Terminal" where
  "saveCursor t =
    set_act ((act t)\<lparr>saved := \<lparr>sv_x = cx (tcur t), sv_y = cy (tcur t), sv_pen = pen t,
      sv_link = link t, sv_charset = glIndex t, sv_g = charsets t, sv_origin = origin t,
      sv_valid = True\<rparr>\<rparr>) t"

definition restoreCursor :: "Terminal \<Rightarrow> Terminal" where
  "restoreCursor t =
    (let sv = saved (act t)
     in if \<not> sv_valid sv then (moveCursor 0 0 t)\<lparr>pen := zeroStyle, link := []\<rparr>
        else
          let t = t\<lparr>pen := sv_pen sv, link := sv_link sv, glIndex := sv_charset sv,
                    charsets := sv_g sv, origin := sv_origin sv\<rparr>;
              x = (if sv_x sv > t_w t - 1 then t_w t - 1 else sv_x sv);
              y = (if sv_y sv > t_h t - 1 then t_h t - 1 else sv_y sv)
          in set_cur \<lparr>cx = x, cy = y, pendingWrap = False\<rparr> t)"

section \<open>Erase, insert, delete\<close>

definition eraseInLine :: "int \<Rightarrow> Terminal \<Rightarrow> Terminal option" where
  "eraseInLine mode t = do {
     let y = cy (tcur t);
     let x = cx (tcur t);
     r \<leftarrow> get_row y t;
     if mode = 0 then do {
       (r, t) \<leftarrow> clearRow r x (t_w t) t;
       set_row y r t
     }
     else if mode = 1 then do {
       fin \<leftarrow> (if x + 1 < t_w t then do {
                c \<leftarrow> gidx (cells r) (x + 1);
                Some (if Width c = 0 then x + 2 else x + 1)
              }
              else Some (x + 1));
       set_row y (row_clear r 0 fin (pen t)) t
     }
     else if mode = 2 then do {
       (r, t) \<leftarrow> clearRow r 0 (t_w t) t;
       set_row y r t
     }
     else Some t
   }"

text \<open>The row loops of \<open>eraseInDisplay\<close>: \<open>n\<close> rows from row \<open>y\<close>.\<close>

primrec clear_rows :: "nat \<Rightarrow> int \<Rightarrow> Terminal \<Rightarrow> Terminal option" where
  "clear_rows 0 y t = Some t"
| "clear_rows (Suc n) y t = do {
     r \<leftarrow> get_row y t;
     t \<leftarrow> set_row y ((row_clear r 0 (t_w t) (pen t))\<lparr>wrapped := False\<rparr>) t;
     clear_rows n (y + 1) t
   }"

primrec clear_rows_cached :: "nat \<Rightarrow> int \<Rightarrow> Terminal \<Rightarrow> Terminal option" where
  "clear_rows_cached 0 y t = Some t"
| "clear_rows_cached (Suc n) y t = do {
     r \<leftarrow> get_row y t;
     (r, t) \<leftarrow> clearRow r 0 (t_w t) t;
     t \<leftarrow> set_row y (r\<lparr>wrapped := False\<rparr>) t;
     clear_rows_cached n (y + 1) t
   }"

definition eraseInDisplay :: "int \<Rightarrow> Terminal \<Rightarrow> Terminal option" where
  "eraseInDisplay mode t =
    (let y = cy (tcur t)
     in if mode = 0 then do {
          t \<leftarrow> eraseInLine 0 t;
          clear_rows (nat (t_h t - (y + 1))) (y + 1) t
        }
        else if mode = 1 then do {
          t \<leftarrow> clear_rows (nat y) 0 t;
          eraseInLine 1 t
        }
        else if mode = 2 then clear_rows_cached (nat (t_h t)) 0 t
        else if mode = 3 then Some (set_act ((act t)\<lparr>scrollback := []\<rparr>) t)
        else Some t)"

definition eraseChars :: "int \<Rightarrow> Terminal \<Rightarrow> Terminal option" where
  "eraseChars n t = do {
     let x = cx (tcur t);
     let fin = (if x + n > t_w t then t_w t else x + n);
     r \<leftarrow> get_row (cy (tcur t)) t;
     t \<leftarrow> set_row (cy (tcur t)) (row_clear r x fin (pen t)) t;
     Some (set_cur ((tcur t)\<lparr>pendingWrap := False\<rparr>) t)
   }"

definition deleteChars :: "int \<Rightarrow> Terminal \<Rightarrow> Terminal option" where
  "deleteChars n t = do {
     r \<leftarrow> get_row (cy (tcur t)) t;
     let x = cx (tcur t);
     let n = (if n > t_w t - x then t_w t - x else n);
     src \<leftarrow> gslice (cells r) (x + n) (glen (cells r));
     cs \<leftarrow> gcopy (cells r) x (glen (cells r)) src;
     t \<leftarrow> set_row (cy (tcur t)) (row_clear (r\<lparr>cells := cs\<rparr>) (t_w t - n) (t_w t) (pen t)) t;
     Some (set_cur ((tcur t)\<lparr>pendingWrap := False\<rparr>) t)
   }"

definition insertLines :: "int \<Rightarrow> Terminal \<Rightarrow> Terminal option" where
  "insertLines n t =
    (let s = act t; y = cy (cur s)
     in if y < s_top s \<or> y > s_bot s then Some t
        else
          let n = (if n > s_bot s - y + 1 then s_bot s - y + 1 else n)
          in do {
            src \<leftarrow> gslice (rows s) y (s_bot s + 1 - n);
            rs \<leftarrow> gcopy (rows s) (y + n) (s_bot s + 1) src;
            rs \<leftarrow> gfill rs y (y + n) (penRow t);
            Some (set_act (s\<lparr>rows := rs, cur := (cur s)\<lparr>cx := 0, pendingWrap := False\<rparr>\<rparr>) t)
          })"

definition deleteLines :: "int \<Rightarrow> Terminal \<Rightarrow> Terminal option" where
  "deleteLines n t =
    (let s = act t; y = cy (cur s)
     in if y < s_top s \<or> y > s_bot s then Some t
        else
          let n = (if n > s_bot s - y + 1 then s_bot s - y + 1 else n)
          in do {
            src \<leftarrow> gslice (rows s) (y + n) (s_bot s + 1);
            rs \<leftarrow> gcopy (rows s) y (glen (rows s)) src;
            rs \<leftarrow> gfill rs (s_bot s - n + 1) (s_bot s + 1) (penRow t);
            Some (set_act (s\<lparr>rows := rs, cur := (cur s)\<lparr>cx := 0, pendingWrap := False\<rparr>\<rparr>) t)
          })"

section \<open>Screens and resets\<close>

definition enterAltScreen :: "bool \<Rightarrow> Terminal \<Rightarrow> Terminal" where
  "enterAltScreen save t =
    (if altActive t then t
     else
       let t = (if save then saveCursor t else t);
           a = t_alt t
       in t\<lparr>altActive := True, t_s := AltScr,
            t_alt := a\<lparr>rows := map (\<lambda>r. (row_clear r 0 (t_w t) (pen t))\<lparr>wrapped := False\<rparr>) (rows a),
              s_top := 0, s_bot := t_h t - 1,
              cur := \<lparr>cx = cx (cur (t_main t)), cy = cy (cur (t_main t)), pendingWrap = False\<rparr>\<rparr>\<rparr>)"

definition leaveAltScreen :: "bool \<Rightarrow> Terminal \<Rightarrow> Terminal" where
  "leaveAltScreen restore t =
    (if \<not> altActive t then t
     else
       let t = t\<lparr>altActive := False, t_s := MainScr,
                 t_main := (t_main t)\<lparr>cur := \<lparr>cx = cx (cur (t_alt t)), cy = cy (cur (t_alt t)),
                   pendingWrap = False\<rparr>\<rparr>\<rparr>
       in if restore then restoreCursor t else t)"

definition softReset :: "Terminal \<Rightarrow> Terminal" where
  "softReset t =
    (let t = t\<lparr>cursorVisible := True, origin := False, autowrap := True, insertMode := False,
               cursorKeys := False, pen := zeroStyle, link := [],
               charsets := [charsetASCII, charsetASCII], glIndex := 0\<rparr>;
         s = act t
     in set_act (s\<lparr>s_top := 0, s_bot := t_h t - 1, saved := zeroSaved,
          cur := (cur s)\<lparr>pendingWrap := False\<rparr>\<rparr>) t)"

definition fullReset :: "Terminal \<Rightarrow> Terminal" where
  "fullReset t =
    (let sb = scrollback (t_main t);
         ti = title t;
         t = init (t_w t) (t_h t) t
     in t\<lparr>t_main := (t_main t)\<lparr>scrollback := sb\<rparr>, title := ti\<rparr>)"

section \<open>Observers\<close>

definition Cursor :: "Terminal \<Rightarrow> int \<times> int" where
  "Cursor t = (cx (tcur t), cy (tcur t))"

definition ScrollbackLen :: "Terminal \<Rightarrow> int" where
  "ScrollbackLen t = glen (scrollback (t_main t))"

definition Line :: "int \<Rightarrow> Terminal \<Rightarrow> bytes option" where
  "Line y t = (if y < 0 \<or> y \<ge> t_h t then Some [] else map_option rowText (get_row y t))"

definition ScrollbackLine :: "int \<Rightarrow> Terminal \<Rightarrow> bytes option" where
  "ScrollbackLine i t = (if i < 0 \<or> i \<ge> ScrollbackLen t then Some []
     else map_option rowText (gidx (scrollback (t_main t)) i))"

definition CellAt :: "int \<Rightarrow> int \<Rightarrow> Terminal \<Rightarrow> Cell option" where
  "CellAt x y t = (if y < 0 \<or> y \<ge> t_h t \<or> x < 0 \<or> x \<ge> t_w t then Some zeroCell
     else do { r \<leftarrow> get_row y t; gidx (cells r) x })"

primrec screen_lines :: "nat \<Rightarrow> int \<Rightarrow> Terminal \<Rightarrow> bytes option" where
  "screen_lines 0 y t = Some []"
| "screen_lines (Suc n) y t = do {
     r \<leftarrow> get_row y t;
     rest \<leftarrow> screen_lines n (y + 1) t;
     Some ((if y > 0 then [0x0a] else []) @ rowText r @ rest)
   }"

definition Screen :: "Terminal \<Rightarrow> bytes option" where
  "Screen t = screen_lines (nat (t_h t)) 0 t"

end
