(* ===== verification/Dispatch.thy ===== *)
theory Dispatch
  imports Terminal
begin

unbundle bit_operations_syntax

text \<open>
  \<open>src/internal/vterm/dispatch.go\<close>: what a complete escape sequence does. One definition per
  Go function; the \<open>switch\<close> over the final byte is a chain of conditionals in the source's
  order, each branch commented with the sequence it implements.
\<close>

section \<open>SGR\<close>

definition extendedColor :: "parser \<Rightarrow> int \<Rightarrow> (Color \<times> int) option" where
  "extendedColor p i = do {
     sub \<leftarrow> (if i + 1 < nParams p then gidx (isSub p) (i + 1) else Some False);
     mode \<leftarrow> rawParam p (i + 1) (- 1);
     if mode = 5 then
       if i + 2 \<ge> nParams p then Some (0, 0)
       else do {
         n \<leftarrow> rawParam p (i + 2) 0;
         if n < 0 \<or> n > 255 then Some (0, 0)
         else Some (IndexedColor (of_int n), 2)
       }
     else if mode = 2 then do {
       empty \<leftarrow> (if sub \<and> i + 5 < nParams p then do {
                   sub5 \<leftarrow> gidx (isSub p) (i + 5);
                   if sub5 then do { hv \<leftarrow> gidx (hasValue p) (i + 2); Some (\<not> hv) }
                   else Some False
                 }
                 else Some False);
       let start = (if empty then i + 3 else i + 2);
       let used = (if empty then 5 else 4);
       if start + 2 \<ge> nParams p then Some (0, 0)
       else do {
         r \<leftarrow> rawParam p start 0;
         g \<leftarrow> rawParam p (start + 1) 0;
         b \<leftarrow> rawParam p (start + 2) 0;
         if r > 255 \<or> g > 255 \<or> b > 255 then Some (0, 0)
         else Some (RGBColor (of_int r) (of_int g) (of_int b), used)
       }
     }
     else Some (0, 0)
   }"

definition set_attr :: "Attr \<Rightarrow> Style \<Rightarrow> Style" where
  "set_attr a st = st\<lparr>Attrs := Attrs st OR a\<rparr>"

definition clear_attr :: "Attr \<Rightarrow> Style \<Rightarrow> Style" where
  "clear_attr a st = st\<lparr>Attrs := Attrs st AND NOT a\<rparr>"

text \<open>The style an SGR 4 selects, with its sub-parameter.\<close>

definition underline_of :: "int \<Rightarrow> Underline" where
  "underline_of n =
    (if n = 0 then UnderlineNone
     else if n = 1 then UnderlineSingle
     else if n = 2 then UnderlineDouble
     else if n = 3 then UnderlineCurly
     else if n = 4 then UnderlineDotted
     else if n = 5 then UnderlineDashed
     else UnderlineSingle)"

definition sgr_underline :: "parser \<Rightarrow> int \<Rightarrow> Underline option" where
  "sgr_underline p i = do {
     sub \<leftarrow> (if i + 1 < nParams p then gidx (isSub p) (i + 1) else Some False);
     if sub then do { n \<leftarrow> rawParam p (i + 1) 1; Some (underline_of n) }
     else Some UnderlineSingle
   }"

text \<open>
  One parameter of the loop of \<open>sgr\<close>: the new pen and how many further parameters it used.
\<close>

definition sgr_param :: "parser \<Rightarrow> int \<Rightarrow> int \<Rightarrow> Style \<Rightarrow> (Style \<times> int) option" where
  "sgr_param p i v st =
    (if v = 0 then Some (zeroStyle, 0)
     else if v = 1 then Some (set_attr AttrBold st, 0)
     else if v = 2 then Some (set_attr AttrDim st, 0)
     else if v = 3 then Some (set_attr AttrItalic st, 0)
     else if v = 4 then do { u \<leftarrow> sgr_underline p i; Some (st\<lparr>Underline := u\<rparr>, 0) }
     else if v = 5 \<or> v = 6 then Some (set_attr AttrBlink st, 0)
     else if v = 7 then Some (set_attr AttrInverse st, 0)
     else if v = 8 then Some (set_attr AttrHidden st, 0)
     else if v = 9 then Some (set_attr AttrStrike st, 0)
     else if v = 21 then Some (st\<lparr>Underline := UnderlineDouble\<rparr>, 0)
     else if v = 22 then Some (clear_attr (AttrBold OR AttrDim) st, 0)
     else if v = 23 then Some (clear_attr AttrItalic st, 0)
     else if v = 24 then Some (st\<lparr>Underline := UnderlineNone\<rparr>, 0)
     else if v = 25 then Some (clear_attr AttrBlink st, 0)
     else if v = 27 then Some (clear_attr AttrInverse st, 0)
     else if v = 28 then Some (clear_attr AttrHidden st, 0)
     else if v = 29 then Some (clear_attr AttrStrike st, 0)
     else if 30 \<le> v \<and> v \<le> 37 then Some (st\<lparr>Fg := IndexedColor (of_int (v - 30))\<rparr>, 0)
     else if v = 38 then do {
       (c, used) \<leftarrow> extendedColor p i;
       if used > 0 then Some (st\<lparr>Fg := c\<rparr>, used) else Some (st, 0)
     }
     else if v = 39 then Some (st\<lparr>Fg := 0\<rparr>, 0)
     else if 40 \<le> v \<and> v \<le> 47 then Some (st\<lparr>Bg := IndexedColor (of_int (v - 40))\<rparr>, 0)
     else if v = 48 then do {
       (c, used) \<leftarrow> extendedColor p i;
       if used > 0 then Some (st\<lparr>Bg := c\<rparr>, used) else Some (st, 0)
     }
     else if v = 49 then Some (st\<lparr>Bg := 0\<rparr>, 0)
     else if v = 58 then do {
       (c, used) \<leftarrow> extendedColor p i;
       if used > 0 then Some (st\<lparr>Ul := c\<rparr>, used) else Some (st, 0)
     }
     else if v = 59 then Some (st\<lparr>Ul := 0\<rparr>, 0)
     else if 90 \<le> v \<and> v \<le> 97 then Some (st\<lparr>Fg := IndexedColor (of_int (v - 90 + 8))\<rparr>, 0)
     else if 100 \<le> v \<and> v \<le> 107 then Some (st\<lparr>Bg := IndexedColor (of_int (v - 100 + 8))\<rparr>, 0)
     else Some (st, 0))"

text \<open>
  The loop. \<open>used\<close> is never negative; \<open>max 0\<close> makes that visible to the termination proof
  (\<open>sgr_param_used\<close> shows it changes nothing).
\<close>

function sgr_loop :: "parser \<Rightarrow> int \<Rightarrow> Style \<Rightarrow> Style option" where
  "sgr_loop p i st =
    (if i < nParams p then do {
       sub \<leftarrow> gidx (isSub p) i;
       if sub then sgr_loop p (i + 1) st
       else do {
         v \<leftarrow> rawParam p i 0;
         (st', used) \<leftarrow> sgr_param p i v st;
         sgr_loop p (i + max 0 used + 1) st'
       }
     }
     else Some st)"
  by pat_completeness auto
termination
  by (relation "measure (\<lambda>(p, i, st). nat (nParams p - i))") auto

declare sgr_loop.simps [simp del]

definition sgr :: "Terminal \<Rightarrow> Terminal option" where
  "sgr t =
    (if nParams (t_p t) = 0 then Some (t\<lparr>pen := zeroStyle\<rparr>)
     else do { st \<leftarrow> sgr_loop (t_p t) 0 (pen t); Some (t\<lparr>pen := st\<rparr>) })"

section \<open>Modes\<close>

definition set_mode :: "bool \<Rightarrow> int \<Rightarrow> Terminal \<Rightarrow> Terminal" where
  "set_mode on v t =
    (if v = 4 then t\<lparr>insertMode := on\<rparr>
     else if v = 20 then t\<lparr>lineFeedNewline := on\<rparr>
     else t)"

definition set_private_mode :: "bool \<Rightarrow> int \<Rightarrow> Terminal \<Rightarrow> Terminal" where
  "set_private_mode on v t =
    (if v = 1 then t\<lparr>cursorKeys := on\<rparr>
     else if v = 6 then moveCursor 0 0 (t\<lparr>origin := on\<rparr>)
     else if v = 7 then t\<lparr>autowrap := on\<rparr>
     else if v = 25 then t\<lparr>cursorVisible := on\<rparr>
     else if v = 9 \<or> v = 1000 \<or> v = 1002 \<or> v = 1003 then
       (if on then t\<lparr>mouse := of_int v\<rparr>
        else if mouse t = of_int v then t\<lparr>mouse := 0\<rparr> else t)
     else if v = 1005 \<or> v = 1006 \<or> v = 1015 then
       (if on then t\<lparr>mouseEnc := of_int v\<rparr>
        else if mouseEnc t = of_int v then t\<lparr>mouseEnc := 0\<rparr> else t)
     else if v = 1004 then t\<lparr>focusEvents := on\<rparr>
     else if v = 2004 then t\<lparr>bracketedPaste := on\<rparr>
     else if v = 47 \<or> v = 1047 then
       (if on then enterAltScreen False t else leaveAltScreen False t)
     else if v = 1049 then
       (if on then enterAltScreen True t else leaveAltScreen True t)
     else t)"

text \<open>The loop \<open>for i := 0; i < p.nParams; i++\<close> over the parameters, none of which a mode changes.\<close>

primrec each_param :: "nat \<Rightarrow> int \<Rightarrow> (int \<Rightarrow> Terminal \<Rightarrow> Terminal) \<Rightarrow> Terminal \<Rightarrow> Terminal option" where
  "each_param 0 i f t = Some t"
| "each_param (Suc n) i f t = do {
     v \<leftarrow> rawParam (t_p t) i (- 1);
     each_param n (i + 1) f (f v t)
   }"

definition setModes :: "bool \<Rightarrow> Terminal \<Rightarrow> Terminal option" where
  "setModes on t = each_param (nat (nParams (t_p t))) 0 (set_mode on) t"

definition setPrivateModes :: "bool \<Rightarrow> Terminal \<Rightarrow> Terminal option" where
  "setPrivateModes on t = each_param (nat (nParams (t_p t))) 0 (set_private_mode on) t"

section \<open>CSI sequences\<close>

text \<open>REP: the last printed rune \<open>n\<close> more times.\<close>

primrec print_n :: "nat \<Rightarrow> rune \<Rightarrow> Terminal \<Rightarrow> Terminal option" where
  "print_n 0 r t = Some t"
| "print_n (Suc n) r t = print r t \<bind> print_n n r"

definition set_x :: "int \<Rightarrow> Terminal \<Rightarrow> Terminal" where
  "set_x x t = set_cur ((tcur t)\<lparr>cx := x\<rparr>) t"

definition set_x_nowrap :: "int \<Rightarrow> Terminal \<Rightarrow> Terminal" where
  "set_x_nowrap x t = set_cur ((tcur t)\<lparr>cx := x, pendingWrap := False\<rparr>) t"

definition csiDispatch :: "byte \<Rightarrow> Terminal \<Rightarrow> Terminal option" where
  "csiDispatch final t =
    (let p = t_p t in
     if intermediate p \<noteq> 0 then
       if intermediate p = 0x20 \<and> final = 0x71 then do { \<comment> \<open>DECSCUSR\<close>
         v \<leftarrow> rawParam p 0 0; Some (t\<lparr>cursorStyle := v\<rparr>) }
       else if intermediate p = 0x21 \<and> final = 0x70 then Some (softReset t) \<comment> \<open>DECSTR\<close>
       else Some t
     else if priv p = 0x3f then
       if final = 0x68 then setPrivateModes True t
       else if final = 0x6c then setPrivateModes False t
       else Some t
     else if priv p = 0x3e \<or> priv p = 0x3c \<or> priv p = 0x3d then Some t
     else if final = 0x40 then do { \<comment> \<open>ICH\<close>
       n \<leftarrow> param p 0 1; t \<leftarrow> insertCells n t;
       Some (set_cur ((tcur t)\<lparr>pendingWrap := False\<rparr>) t) }
     else if final = 0x41 then do { n \<leftarrow> param p 0 1; Some (cursorUp n t) } \<comment> \<open>CUU\<close>
     else if final = 0x42 \<or> final = 0x65 then \<comment> \<open>CUD, VPR\<close>
       do { n \<leftarrow> param p 0 1; Some (cursorDown n t) }
     else if final = 0x43 \<or> final = 0x61 then do { \<comment> \<open>CUF, HPR\<close>
       n \<leftarrow> param p 0 1;
       let x = cx (tcur t) + n;
       Some (set_x_nowrap (if x > t_w t - 1 then t_w t - 1 else x) t) }
     else if final = 0x44 then do { \<comment> \<open>CUB\<close>
       n \<leftarrow> param p 0 1;
       let x = cx (tcur t) - n;
       Some (set_x_nowrap (if x < 0 then 0 else x) t) }
     else if final = 0x45 then \<comment> \<open>CNL\<close>
       do { n \<leftarrow> param p 0 1; Some (set_x 0 (cursorDown n t)) }
     else if final = 0x46 then \<comment> \<open>CPL\<close>
       do { n \<leftarrow> param p 0 1; Some (set_x 0 (cursorUp n t)) }
     else if final = 0x47 \<or> final = 0x60 then do { \<comment> \<open>CHA, HPA\<close>
       n \<leftarrow> param p 0 1;
       let x = n - 1;
       let x = (if x > t_w t - 1 then t_w t - 1 else x);
       Some (set_x_nowrap (if x < 0 then 0 else x) t) }
     else if final = 0x48 \<or> final = 0x66 then do { \<comment> \<open>CUP, HVP\<close>
       n \<leftarrow> param p 0 1;
       m \<leftarrow> param p 1 1;
       let y = (if origin t then n - 1 + s_top (act t) else n - 1);
       Some (moveCursor (m - 1) y t) }
     else if final = 0x49 then do { n \<leftarrow> param p 0 1; tabForward n t } \<comment> \<open>CHT\<close>
     else if final = 0x4a then do { n \<leftarrow> rawParam p 0 0; eraseInDisplay n t } \<comment> \<open>ED\<close>
     else if final = 0x4b then do { n \<leftarrow> rawParam p 0 0; eraseInLine n t } \<comment> \<open>EL\<close>
     else if final = 0x4c then do { n \<leftarrow> param p 0 1; insertLines n t } \<comment> \<open>IL\<close>
     else if final = 0x4d then do { n \<leftarrow> param p 0 1; deleteLines n t } \<comment> \<open>DL\<close>
     else if final = 0x50 then do { n \<leftarrow> param p 0 1; deleteChars n t } \<comment> \<open>DCH\<close>
     else if final = 0x53 then do { n \<leftarrow> param p 0 1; scrollUp n t } \<comment> \<open>SU\<close>
     else if final = 0x54 then do { n \<leftarrow> param p 0 1; scrollDown n t } \<comment> \<open>SD\<close>
     else if final = 0x58 then do { n \<leftarrow> param p 0 1; eraseChars n t } \<comment> \<open>ECH\<close>
     else if final = 0x5a then do { n \<leftarrow> param p 0 1; tabBackward n t } \<comment> \<open>CBT\<close>
     else if final = 0x62 then \<comment> \<open>REP\<close>
       if lastPrinted t \<noteq> 0 then do { n \<leftarrow> param p 0 1; print_n (nat n) (lastPrinted t) t }
       else Some t
     else if final = 0x64 then do { \<comment> \<open>VPA\<close>
       n \<leftarrow> param p 0 1;
       let y = (if origin t then n - 1 + s_top (act t) else n - 1);
       Some (moveCursor (cx (tcur t)) y t) }
     else if final = 0x67 then do { \<comment> \<open>TBC\<close>
       n \<leftarrow> rawParam p 0 0;
       if n = 0 then
         if cx (tcur t) < glen (tabStops t) then do {
           ts \<leftarrow> gset (tabStops t) (cx (tcur t)) False; Some (t\<lparr>tabStops := ts\<rparr>) }
         else Some t
       else if n = 3 then Some (t\<lparr>tabStops := map (\<lambda>_. False) (tabStops t)\<rparr>)
       else Some t }
     else if final = 0x68 then setModes True t
     else if final = 0x6c then setModes False t
     else if final = 0x6d then sgr t
     else if final = 0x72 then do { \<comment> \<open>DECSTBM\<close>
       n \<leftarrow> param p 0 1;
       m \<leftarrow> param p 1 (t_h t);
       let bot = (if m - 1 > t_h t - 1 then t_h t - 1 else m - 1);
       let top = (if n - 1 < 0 then 0 else n - 1);
       if top < bot then
         Some (moveCursor 0 0 (set_act ((act t)\<lparr>s_top := top, s_bot := bot\<rparr>) t))
       else Some t }
     else if final = 0x73 then Some (saveCursor t) \<comment> \<open>SCOSC\<close>
     else if final = 0x75 then Some (restoreCursor t) \<comment> \<open>SCORC\<close>
     else Some t)"

section \<open>ESC sequences\<close>

definition designate :: "byte \<Rightarrow> charset" where
  "designate final = (if final = 0x30 then charsetDECGraphics else charsetASCII)"

primrec decaln_rows :: "nat \<Rightarrow> int \<Rightarrow> Terminal \<Rightarrow> Terminal option" where
  "decaln_rows 0 y t = Some t"
| "decaln_rows (Suc n) y t = do {
     r \<leftarrow> get_row y t;
     cs \<leftarrow> gfill (cells r) 0 (t_w t) (zeroCell\<lparr>Ch := [0x45], Width := 1\<rparr>);
     t \<leftarrow> set_row y \<lparr>cells = cs, wrapped = False\<rparr> t;
     decaln_rows n (y + 1) t
   }"

definition escDispatch :: "byte \<Rightarrow> byte \<Rightarrow> Terminal \<Rightarrow> Terminal option" where
  "escDispatch imd final t =
    (if imd = 0 then
       if final = 0x37 then Some (saveCursor t)
       else if final = 0x38 then Some (restoreCursor t)
       else if final = 0x44 then lineFeed t \<comment> \<open>IND\<close>
       else if final = 0x45 then do { t \<leftarrow> lineFeed t; Some (set_x 0 t) } \<comment> \<open>NEL\<close>
       else if final = 0x48 then \<comment> \<open>HTS\<close>
         if cx (tcur t) < glen (tabStops t) then do {
           ts \<leftarrow> gset (tabStops t) (cx (tcur t)) True; Some (t\<lparr>tabStops := ts\<rparr>) }
         else Some t
       else if final = 0x4d then reverseIndex t \<comment> \<open>RI\<close>
       else if final = 0x63 then Some (fullReset t) \<comment> \<open>RIS\<close>
       else Some t
     else if imd = 0x28 then do {
       cs \<leftarrow> gset (charsets t) 0 (designate final); Some (t\<lparr>charsets := cs\<rparr>) }
     else if imd = 0x29 then do {
       cs \<leftarrow> gset (charsets t) 1 (designate final); Some (t\<lparr>charsets := cs\<rparr>) }
     else if imd = 0x23 then
       if final = 0x38 then do { \<comment> \<open>DECALN\<close>
         t \<leftarrow> decaln_rows (nat (t_h t)) 0 t;
         Some (moveCursor 0 0 (set_act ((act t)\<lparr>s_top := 0, s_bot := t_h t - 1\<rparr>) t)) }
       else Some t
     else Some t)"

section \<open>OSC strings\<close>

definition dispatchOSC :: "Terminal \<Rightarrow> Terminal" where
  "dispatchOSC t =
    (let data = osc (t_p t) in
     case IndexByte 0x3b data of None \<Rightarrow> t
     | Some sep \<Rightarrow>
       (case Atoi (take sep data) of None \<Rightarrow> t
        | Some code \<Rightarrow>
          let arg = drop (sep + 1) data in
          if code = 0 \<or> code = 2 then t\<lparr>title := arg\<rparr>
          else if code = 8 then
            (case IndexByte 0x3b arg of None \<Rightarrow> t
             | Some psep \<Rightarrow> t\<lparr>link := drop (psep + 1) arg\<rparr>)
          else t))"

end
