(* ===== verification/Emulator.thy ===== *)
theory Emulator
  imports Dispatch
begin

text \<open>
  The byte-level machine of \<open>src/internal/vterm/parser.go\<close>: \<open>feedByte\<close> follows the VT500 state
  machine, \<open>feedRune\<close> routes decoded runes, \<open>Write\<close> decodes UTF-8 across write boundaries.
\<close>

definition set_pstate :: "parserState \<Rightarrow> Terminal \<Rightarrow> Terminal" where
  "set_pstate st t = t\<lparr>t_p := (t_p t)\<lparr>pstate := st\<rparr>\<rparr>"

definition set_intermediate :: "byte \<Rightarrow> parserState \<Rightarrow> Terminal \<Rightarrow> Terminal" where
  "set_intermediate b st t = t\<lparr>t_p := (t_p t)\<lparr>intermediate := b, pstate := st\<rparr>\<rparr>"

text \<open>\<open>p.resetCSI(); p.state = stateEscape\<close>\<close>

definition begin_escape :: "Terminal \<Rightarrow> Terminal" where
  "begin_escape t = t\<lparr>t_p := (resetCSI (t_p t))\<lparr>pstate := stateEscape\<rparr>\<rparr>"

definition osc_append :: "bytes \<Rightarrow> Terminal \<Rightarrow> Terminal" where
  "osc_append bs t =
    (if glen (osc (t_p t)) < maxOSCBytes then t\<lparr>t_p := (t_p t)\<lparr>osc := osc (t_p t) @ bs\<rparr>\<rparr> else t)"

definition feedRune :: "rune \<Rightarrow> Terminal \<Rightarrow> Terminal option" where
  "feedRune r t =
    (case pstate (t_p t) of
       stateGround \<Rightarrow> print r t
     | stateOSC \<Rightarrow> Some (osc_append (rune_bytes r) t)
     | _ \<Rightarrow> Some t)"

text \<open>C0 controls and DEL, in every state.\<close>

definition feed_control :: "byte \<Rightarrow> Terminal \<Rightarrow> Terminal option" where
  "feed_control b t =
    (case pstate (t_p t) of
       stateOSC \<Rightarrow>
         if b = 0x07 then Some (set_pstate stateGround (dispatchOSC t))
         else if b = 0x1b then Some (set_pstate stateOSCEscape t)
         else Some t
     | stateString \<Rightarrow> if b = 0x1b then Some (set_pstate stateStringEscape t) else Some t
     | st \<Rightarrow>
         let t = (if st = stateOSCEscape \<or> st = stateStringEscape
                  then set_pstate stateGround t else t)
         in if b = 0x1b then Some (begin_escape t)
            else if b = 0x18 \<or> b = 0x1a then Some (set_pstate stateGround t)
            else execute b t)"

definition is_intermediate :: "byte \<Rightarrow> bool" where
  "is_intermediate b \<longleftrightarrow> 0x20 \<le> b \<and> b \<le> 0x2f"

definition with_parser :: "(parser \<Rightarrow> parser option) \<Rightarrow> Terminal \<Rightarrow> Terminal option" where
  "with_parser f t = do { p \<leftarrow> f (t_p t); Some (t\<lparr>t_p := p\<rparr>) }"

text \<open>
  The states that do not hand the byte on to another state, each as in the source's
  \<open>switch p.state\<close>.
\<close>

definition feed_escape :: "byte \<Rightarrow> Terminal \<Rightarrow> Terminal option" where
  "feed_escape b t =
    (if is_intermediate b then Some (set_intermediate b stateEscapeIntermediate t)
     else if b = 0x5b then Some (set_pstate stateCSIEntry t)
     else if b = 0x5d then Some (t\<lparr>t_p := (t_p t)\<lparr>osc := [], pstate := stateOSC\<rparr>\<rparr>)
     else if b = 0x50 \<or> b = 0x58 \<or> b = 0x5e \<or> b = 0x5f then Some (set_pstate stateString t)
     else escDispatch 0 b (set_pstate stateGround t))"

definition feed_escape_intermediate :: "byte \<Rightarrow> Terminal \<Rightarrow> Terminal option" where
  "feed_escape_intermediate b t =
    (if is_intermediate b then Some (t\<lparr>t_p := (t_p t)\<lparr>intermediate := b\<rparr>\<rparr>)
     else escDispatch (intermediate (t_p t)) b (set_pstate stateGround t))"

definition feed_csi_param :: "byte \<Rightarrow> Terminal \<Rightarrow> Terminal option" where
  "feed_csi_param b t =
    (if is_digit b then with_parser (pushDigit b) t
     else if b = 0x3b then with_parser (nextParam False) t
     else if b = 0x3a then with_parser (nextParam True) t
     else if 0x3c \<le> b \<and> b \<le> 0x3f then Some (set_pstate stateCSIIgnore t)
     else if is_intermediate b then Some (set_intermediate b stateCSIIntermediate t)
     else csiDispatch b (set_pstate stateGround t))"

definition feed_csi_entry :: "byte \<Rightarrow> Terminal \<Rightarrow> Terminal option" where
  "feed_csi_entry b t =
    (if 0x30 \<le> b \<and> b \<le> 0x3b then feed_csi_param b (set_pstate stateCSIParam t)
     else if 0x3c \<le> b \<and> b \<le> 0x3f then
       Some (t\<lparr>t_p := (t_p t)\<lparr>priv := b, pstate := stateCSIParam\<rparr>\<rparr>)
     else if is_intermediate b then Some (set_intermediate b stateCSIIntermediate t)
     else csiDispatch b (set_pstate stateGround t))"

definition feed_csi_intermediate :: "byte \<Rightarrow> Terminal \<Rightarrow> Terminal option" where
  "feed_csi_intermediate b t =
    (if is_intermediate b then Some (t\<lparr>t_p := (t_p t)\<lparr>intermediate := b\<rparr>\<rparr>)
     else if 0x30 \<le> b \<and> b \<le> 0x3f then Some (set_pstate stateCSIIgnore t)
     else csiDispatch b (set_pstate stateGround t))"

text \<open>
  The three recursive calls of the source's \<open>feedByte\<close> (from \<open>stateCSIEntry\<close>,
  \<open>stateOSCEscape\<close>, \<open>stateStringEscape\<close>) are made with the state just set and a byte that is
  not a control, so each is the code of that state.
\<close>

definition feedByte :: "byte \<Rightarrow> Terminal \<Rightarrow> Terminal option" where
  "feedByte b t =
    (if b < 0x20 \<or> b = 0x7f then feed_control b t
     else case pstate (t_p t) of
       stateGround \<Rightarrow> print (uint b) t
     | stateEscape \<Rightarrow> feed_escape b t
     | stateEscapeIntermediate \<Rightarrow> feed_escape_intermediate b t
     | stateCSIEntry \<Rightarrow> feed_csi_entry b t
     | stateCSIParam \<Rightarrow> feed_csi_param b t
     | stateCSIIntermediate \<Rightarrow> feed_csi_intermediate b t
     | stateCSIIgnore \<Rightarrow> Some (if 0x40 \<le> b \<and> b \<le> 0x7e then set_pstate stateGround t else t)
     | stateOSC \<Rightarrow> Some (osc_append [b] t)
     | stateOSCEscape \<Rightarrow>
         (let t = set_pstate stateGround t
          in if b = 0x5c then Some (dispatchOSC t) else feed_escape b (begin_escape t))
     | stateString \<Rightarrow> Some t
     | stateStringEscape \<Rightarrow>
         (let t = set_pstate stateGround t
          in if b = 0x5c then Some t else feed_escape b (begin_escape t)))"

section \<open>Write\<close>

text \<open>In these states a byte above ASCII starts a rune.\<close>

definition text_state :: "parserState \<Rightarrow> bool" where
  "text_state st \<longleftrightarrow> st = stateGround \<or> st = stateOSC \<or> st = stateString"

text \<open>The main loop of \<open>Write\<close>, over the bytes that are left.\<close>

function write_loop :: "bytes \<Rightarrow> Terminal \<Rightarrow> Terminal option" where
  "write_loop data t =
    (case data of [] \<Rightarrow> Some t
     | b # rest \<Rightarrow>
       if b < 0x80 \<or> \<not> text_state (pstate (t_p t)) then feedByte b t \<bind> write_loop rest
       else if DecodeRune data = (RuneError, 1) then
         if \<not> FullRune data then
           Some (t\<lparr>t_p := (t_p t)\<lparr>partial := take 4 data @ drop (length data) (partial (t_p t)),
                                nPart := min 4 (glen data)\<rparr>\<rparr>)
         else write_loop rest t
       else feedRune (fst (DecodeRune data)) t
              \<bind> write_loop (drop (max 1 (snd (DecodeRune data))) data))"
  by pat_completeness auto
termination
  by (relation "measure (\<lambda>(data, t). length data)") auto

declare write_loop.simps [simp del]

text \<open>The first loop of \<open>Write\<close>: bytes are added to the cut rune until it is complete.\<close>

primrec fill_partial :: "bytes \<Rightarrow> parser \<Rightarrow> (bytes \<times> parser) option" where
  "fill_partial [] p = Some ([], p)"
| "fill_partial (b # rest) p =
    (if nPart p < 4 then do {
       pt \<leftarrow> gset (partial p) (nPart p) b;
       let p = p\<lparr>partial := pt, nPart := nPart p + 1\<rparr>;
       held \<leftarrow> gslice (partial p) 0 (nPart p);
       if FullRune held then Some (rest, p) else fill_partial rest p
     }
     else Some (b # rest, p))"

text \<open>The loop that feeds the bytes pulled in beyond the cut rune.\<close>

function feed_rest :: "bytes \<Rightarrow> Terminal \<Rightarrow> Terminal option" where
  "feed_rest bs t =
    (if bs = [] then Some t
     else feedRune (fst (DecodeRune bs)) t \<bind> feed_rest (drop (max 1 (snd (DecodeRune bs))) bs))"
  by pat_completeness auto
termination
  by (relation "measure (\<lambda>(bs, t). length bs)") (auto simp: max_def)

declare feed_rest.simps [simp del]

definition Write :: "bytes \<Rightarrow> Terminal \<Rightarrow> Terminal option" where
  "Write data t =
    (if nPart (t_p t) > 0 then do {
       (data, p) \<leftarrow> fill_partial data (t_p t);
       let t = t\<lparr>t_p := p\<rparr>;
       held \<leftarrow> gslice (partial p) 0 (nPart p);
       if \<not> FullRune held then Some t
       else do {
         let (r, size) = DecodeRune held;
         rest \<leftarrow> gslice (partial p) (int size) (nPart p);
         t \<leftarrow> feedRune r (t\<lparr>t_p := p\<lparr>nPart := 0\<rparr>\<rparr>);
         t \<leftarrow> feed_rest rest t;
         write_loop data t
       }
     }
     else write_loop data t)"

end
