(* ===== verification/Well_Formed.thy ===== *)
theory Well_Formed
  imports Emulator
begin

text \<open>
  What a terminal always looks like. \<open>wf_term w h P M t\<close> says that \<open>t\<close> is a terminal of \<open>w\<close> columns
  and \<open>h\<close> rows: both screens have \<open>h\<close> rows of \<open>w\<close> cells, cursors, saved cursors and scroll
  regions are inside them, the scrollback keeps its bound (and the alternate screen has none),
  the character sets, tab stops and the cached blank row have the shape the code relies on. The
  two predicates are frames: \<open>P\<close> holds of the parser and, while the alternate screen is active,
  \<open>M\<close> holds of the main one. A rule \<open>wf_term w h P M t \<Longrightarrow> wp (op t) (wf_term w h P M)\<close> for every \<open>P\<close> and
  \<open>M\<close> therefore says in one that \<open>op\<close> does not panic, keeps the terminal well formed, leaves the
  parser alone and does not write to the hidden main screen.
\<close>

named_theorems frame_simps "field updates that the invariant does not see"
named_theorems wf_rules "one rule per operation: it returns and keeps the invariant"

section \<open>The invariant\<close>

definition cell_ok :: "Cell \<Rightarrow> bool" where
  "cell_ok c \<longleftrightarrow> Width c \<in> {0, 1, 2} \<and> (Width c = 0 \<longrightarrow> Ch c = [])"

definition row_ok :: "row \<Rightarrow> bool" where
  "row_ok r \<longleftrightarrow> list_all cell_ok (cells r)"

definition row_wf :: "int \<Rightarrow> row \<Rightarrow> bool" where
  "row_wf w r \<longleftrightarrow> glen (cells r) = w \<and> row_ok r"

definition cursor_wf :: "int \<Rightarrow> int \<Rightarrow> cursor \<Rightarrow> bool" where
  "cursor_wf w h c \<longleftrightarrow> 0 \<le> cx c \<and> cx c < w \<and> 0 \<le> cy c \<and> cy c < h"

definition saved_wf :: "int \<Rightarrow> int \<Rightarrow> savedCursor \<Rightarrow> bool" where
  "saved_wf w h sv \<longleftrightarrow> 0 \<le> sv_x sv \<and> sv_x sv < w \<and> 0 \<le> sv_y sv \<and> sv_y sv < h
     \<and> length (sv_g sv) = 2 \<and> sv_charset sv \<in> {0, 1}"

definition region_wf :: "int \<Rightarrow> screen \<Rightarrow> bool" where
  "region_wf h s \<longleftrightarrow> 0 \<le> s_top s \<and> s_top s \<le> s_bot s \<and> s_bot s < h"

definition scrollback_wf :: "int \<Rightarrow> row list \<Rightarrow> bool" where
  "scrollback_wf n sb \<longleftrightarrow> glen sb \<le> n \<and> list_all row_ok sb"

definition rows_wf :: "int \<Rightarrow> int \<Rightarrow> row list \<Rightarrow> bool" where
  "rows_wf w h rs \<longleftrightarrow> glen rs = h \<and> list_all (row_wf w) rs"

definition screen_wf :: "int \<Rightarrow> int \<Rightarrow> int \<Rightarrow> screen \<Rightarrow> bool" where
  "screen_wf w h n s \<longleftrightarrow> rows_wf w h (rows s) \<and> cursor_wf w h (cur s) \<and> saved_wf w h (saved s)
     \<and> region_wf h s \<and> scrollback_wf n (scrollback s)"

text \<open>The alternate screen has no scrollback.\<close>

definition sb_bound :: "scr \<Rightarrow> Terminal \<Rightarrow> int" where
  "sb_bound p t = (case p of MainScr \<Rightarrow> maxScrollback t | AltScr \<Rightarrow> 0)"

definition modes_wf :: "int \<Rightarrow> Terminal \<Rightarrow> bool" where
  "modes_wf w t \<longleftrightarrow> (t_s t = AltScr) = altActive t \<and> glIndex t \<in> {0, 1} \<and> length (charsets t) = 2
     \<and> glen (tabStops t) = w \<and> list_all (\<lambda>c. c = blankCell zeroStyle) (blankRow t)
     \<and> 0 \<le> maxScrollback t"

definition wf_term :: "int \<Rightarrow> int \<Rightarrow> (parser \<Rightarrow> bool) \<Rightarrow> (screen \<Rightarrow> bool) \<Rightarrow> Terminal \<Rightarrow> bool" where
  "wf_term w h P M t \<longleftrightarrow> 1 \<le> w \<and> 1 \<le> h \<and> t_w t = w \<and> t_h t = h
     \<and> screen_wf w h (maxScrollback t) (t_main t) \<and> screen_wf w h 0 (t_alt t)
     \<and> modes_wf w t \<and> P (t_p t) \<and> (altActive t \<longrightarrow> M (t_main t))"

section \<open>Reading and writing the active screen\<close>

lemma deref_assign [simp]: "deref p (assign p s t) = s"
  by (simp add: deref_def assign_def split: scr.splits)

lemma deref_assign_other [simp]: "p \<noteq> q \<Longrightarrow> deref p (assign q s t) = deref p t"
  by (cases p; cases q) (simp_all add: deref_def assign_def)

lemma assign_assign [simp]: "assign p s (assign p s' t) = assign p s t"
  by (simp add: assign_def split: scr.splits)

lemma assign_deref [simp]: "assign p (deref p t) t = t"
  by (simp add: assign_def deref_def split: scr.splits)

lemma assign_simps [simp]:
  "t_w (assign p s t) = t_w t" "t_h (assign p s t) = t_h t" "t_s (assign p s t) = t_s t"
  "altActive (assign p s t) = altActive t" "maxScrollback (assign p s t) = maxScrollback t"
  "pen (assign p s t) = pen t" "link (assign p s t) = link t"
  "lastPrinted (assign p s t) = lastPrinted t" "origin (assign p s t) = origin t"
  "autowrap (assign p s t) = autowrap t" "insertMode (assign p s t) = insertMode t"
  "lineFeedNewline (assign p s t) = lineFeedNewline t" "title (assign p s t) = title t"
  "charsets (assign p s t) = charsets t" "glIndex (assign p s t) = glIndex t"
  "tabStops (assign p s t) = tabStops t" "blankRow (assign p s t) = blankRow t"
  "t_p (assign p s t) = t_p t" "cursorKeys (assign p s t) = cursorKeys t"
  "cursorVisible (assign p s t) = cursorVisible t" "bracketedPaste (assign p s t) = bracketedPaste t"
  "focusEvents (assign p s t) = focusEvents t" "mouse (assign p s t) = mouse t"
  "mouseEnc (assign p s t) = mouseEnc t" "cursorStyle (assign p s t) = cursorStyle t"
  by (simp_all add: assign_def split: scr.splits)

lemma set_act_simps [simp]:
  "t_w (set_act s t) = t_w t" "t_h (set_act s t) = t_h t" "t_s (set_act s t) = t_s t"
  "altActive (set_act s t) = altActive t" "maxScrollback (set_act s t) = maxScrollback t"
  "pen (set_act s t) = pen t" "link (set_act s t) = link t"
  "lastPrinted (set_act s t) = lastPrinted t" "origin (set_act s t) = origin t"
  "autowrap (set_act s t) = autowrap t" "insertMode (set_act s t) = insertMode t"
  "lineFeedNewline (set_act s t) = lineFeedNewline t" "title (set_act s t) = title t"
  "charsets (set_act s t) = charsets t" "glIndex (set_act s t) = glIndex t"
  "tabStops (set_act s t) = tabStops t" "blankRow (set_act s t) = blankRow t"
  "t_p (set_act s t) = t_p t" "act (set_act s t) = s" "tcur (set_act s t) = cur s"
  "set_act s (set_act s' t) = set_act s t" "set_act (act t) t = t"
  by (simp_all add: set_act_def act_def tcur_def)

lemma set_cur_simps [simp]:
  "t_w (set_cur c t) = t_w t" "t_h (set_cur c t) = t_h t" "t_s (set_cur c t) = t_s t"
  "altActive (set_cur c t) = altActive t" "maxScrollback (set_cur c t) = maxScrollback t"
  "pen (set_cur c t) = pen t" "link (set_cur c t) = link t"
  "lastPrinted (set_cur c t) = lastPrinted t" "origin (set_cur c t) = origin t"
  "autowrap (set_cur c t) = autowrap t" "insertMode (set_cur c t) = insertMode t"
  "lineFeedNewline (set_cur c t) = lineFeedNewline t" "title (set_cur c t) = title t"
  "charsets (set_cur c t) = charsets t" "glIndex (set_cur c t) = glIndex t"
  "tabStops (set_cur c t) = tabStops t" "blankRow (set_cur c t) = blankRow t"
  "t_p (set_cur c t) = t_p t" "act (set_cur c t) = (act t)\<lparr>cur := c\<rparr>" "tcur (set_cur c t) = c"
  "set_cur c (set_cur c' t) = set_cur c t" "set_act s (set_cur c t) = set_act s t"
  by (simp_all add: set_cur_def tcur_def)

lemma act_update [simp]:
  "act (t\<lparr>pen := v1\<rparr>) = act t" "act (t\<lparr>link := v2\<rparr>) = act t" "act (t\<lparr>lastPrinted := v3\<rparr>) = act t"
  "act (t\<lparr>origin := v4\<rparr>) = act t" "act (t\<lparr>autowrap := v4\<rparr>) = act t"
  "act (t\<lparr>insertMode := v4\<rparr>) = act t" "act (t\<lparr>lineFeedNewline := v4\<rparr>) = act t"
  "act (t\<lparr>cursorKeys := v4\<rparr>) = act t" "act (t\<lparr>cursorVisible := v4\<rparr>) = act t"
  "act (t\<lparr>bracketedPaste := v4\<rparr>) = act t" "act (t\<lparr>focusEvents := v4\<rparr>) = act t"
  "act (t\<lparr>title := v2\<rparr>) = act t" "act (t\<lparr>charsets := v5\<rparr>) = act t"
  "act (t\<lparr>glIndex := v6\<rparr>) = act t" "act (t\<lparr>tabStops := v7\<rparr>) = act t"
  "act (t\<lparr>blankRow := v8\<rparr>) = act t" "act (t\<lparr>t_p := v9\<rparr>) = act t"
  "act (t\<lparr>mouse := v10\<rparr>) = act t" "act (t\<lparr>mouseEnc := v10\<rparr>) = act t"
  "act (t\<lparr>cursorStyle := v6\<rparr>) = act t"
  by (simp_all add: act_def deref_def split: scr.splits)

lemma tcur_update [simp]:
  "tcur (t\<lparr>pen := v1\<rparr>) = tcur t" "tcur (t\<lparr>link := v2\<rparr>) = tcur t"
  "tcur (t\<lparr>lastPrinted := v3\<rparr>) = tcur t" "tcur (t\<lparr>origin := v4\<rparr>) = tcur t"
  "tcur (t\<lparr>charsets := v5\<rparr>) = tcur t" "tcur (t\<lparr>glIndex := v6\<rparr>) = tcur t"
  "tcur (t\<lparr>blankRow := v8\<rparr>) = tcur t" "tcur (t\<lparr>t_p := v9\<rparr>) = tcur t"
  by (simp_all add: tcur_def)

section \<open>The invariant under updates\<close>

lemma wf_update [simp]:
  "wf_term w h P M (t\<lparr>pen := v1\<rparr>) = wf_term w h P M t" "wf_term w h P M (t\<lparr>link := v2\<rparr>) = wf_term w h P M t"
  "wf_term w h P M (t\<lparr>lastPrinted := v3\<rparr>) = wf_term w h P M t" "wf_term w h P M (t\<lparr>origin := v4\<rparr>) = wf_term w h P M t"
  "wf_term w h P M (t\<lparr>autowrap := v4\<rparr>) = wf_term w h P M t" "wf_term w h P M (t\<lparr>insertMode := v4\<rparr>) = wf_term w h P M t"
  "wf_term w h P M (t\<lparr>lineFeedNewline := v4\<rparr>) = wf_term w h P M t"
  "wf_term w h P M (t\<lparr>cursorKeys := v4\<rparr>) = wf_term w h P M t"
  "wf_term w h P M (t\<lparr>cursorVisible := v4\<rparr>) = wf_term w h P M t"
  "wf_term w h P M (t\<lparr>bracketedPaste := v4\<rparr>) = wf_term w h P M t"
  "wf_term w h P M (t\<lparr>focusEvents := v4\<rparr>) = wf_term w h P M t" "wf_term w h P M (t\<lparr>title := v2\<rparr>) = wf_term w h P M t"
  "wf_term w h P M (t\<lparr>mouse := v10\<rparr>) = wf_term w h P M t" "wf_term w h P M (t\<lparr>mouseEnc := v10\<rparr>) = wf_term w h P M t"
  "wf_term w h P M (t\<lparr>cursorStyle := v6\<rparr>) = wf_term w h P M t"
  by (simp_all add: wf_term_def modes_wf_def)

lemma wf_size: "wf_term w h P M t \<Longrightarrow> t_w t = w \<and> t_h t = h \<and> 1 \<le> w \<and> 1 \<le> h"
  by (simp add: wf_term_def)

lemma wf_screen: "wf_term w h P M t \<Longrightarrow> screen_wf w h (sb_bound p t) (deref p t)"
  by (cases p) (simp_all add: wf_term_def sb_bound_def deref_def)

lemma wf_act: "wf_term w h P M t \<Longrightarrow> screen_wf w h (sb_bound (t_s t) t) (act t)"
  by (simp add: act_def wf_screen)

lemma wf_act_facts:
  assumes "wf_term w h P M t"
  shows "rows_wf w h (rows (act t))" "cursor_wf w h (tcur t)" "saved_wf w h (saved (act t))"
    "region_wf h (act t)" "cursor_wf w h (cur (act t))" "scrollback_wf (sb_bound (t_s t) t) (scrollback (act t))"
  using wf_act [OF assms] by (simp_all add: screen_wf_def tcur_def)

lemma wf_cur:
  assumes "wf_term w h P M t"
  shows "0 \<le> cx (tcur t)" "cx (tcur t) < w" "0 \<le> cy (tcur t)" "cy (tcur t) < h"
  using wf_act_facts(2) [OF assms] by (simp_all add: cursor_wf_def)

lemma wf_region:
  assumes "wf_term w h P M t"
  shows "0 \<le> s_top (act t)" "s_top (act t) \<le> s_bot (act t)" "s_bot (act t) < h"
  using wf_act_facts(4) [OF assms] by (simp_all add: region_wf_def)

lemma wf_modes:
  assumes "wf_term w h P M t"
  shows "glIndex t = 0 \<or> glIndex t = 1" "length (charsets t) = 2" "glen (tabStops t) = w"
    "0 \<le> maxScrollback t" "list_all (\<lambda>c. c = blankCell zeroStyle) (blankRow t)"
  using assms by (auto simp: wf_term_def modes_wf_def)

lemma wf_set_act:
  assumes "wf_term w h P M t" "screen_wf w h (sb_bound (t_s t) t) s"
  shows "wf_term w h P M (set_act s t)"
  using assms
  by (cases "t_s t") (auto simp: wf_term_def set_act_def assign_def sb_bound_def modes_wf_def)

lemma wf_set_cur:
  assumes "wf_term w h P M t" "cursor_wf w h c"
  shows "wf_term w h P M (set_cur c t)"
  unfolding set_cur_def using assms wf_act [OF assms(1)]
  by (auto intro!: wf_set_act simp: screen_wf_def region_wf_def)

lemma wf_set_curI [intro]:
  assumes "wf_term w h P M t" "0 \<le> cx c" "cx c < w" "0 \<le> cy c" "cy c < h"
  shows "wf_term w h P M (set_cur c t)"
  using assms by (auto intro: wf_set_cur simp: cursor_wf_def)

lemma wf_set_rows:
  assumes "wf_term w h P M t" "rows_wf w h rs"
  shows "wf_term w h P M (set_act ((act t)\<lparr>rows := rs\<rparr>) t)"
  using assms wf_act [OF assms(1)]
  by (auto intro!: wf_set_act simp: screen_wf_def region_wf_def)

lemma rows_wf_nth: "rows_wf w h rs \<Longrightarrow> 0 \<le> y \<Longrightarrow> y < h \<Longrightarrow> row_wf w (rs ! nat y)"
  by (auto simp: rows_wf_def intro: list_all_nthI)

lemma rows_wf_update: "rows_wf w h rs \<Longrightarrow> row_wf w r \<Longrightarrow> rows_wf w h (rs[i := r])"
  by (auto simp: rows_wf_def intro: list_all_update)

lemma wp_get_row:
  assumes "wf_term w h P M t" "0 \<le> y" "y < h" "\<And>r. row_wf w r \<Longrightarrow> Q r"
  shows "wp (get_row y t) Q"
  using assms wf_act_facts(1) [OF assms(1)]
  by (auto simp: get_row_def wp_simps rows_wf_nth) (simp add: rows_wf_def)

lemma wp_set_row:
  assumes "wf_term w h P M t" "0 \<le> y" "y < h" "row_wf w r"
  shows "wp (set_row y r t) (\<lambda>t'. wf_term w h P M t' \<and> tcur t' = tcur t \<and> pen t' = pen t
      \<and> t_s t' = t_s t \<and> s_top (act t') = s_top (act t) \<and> s_bot (act t') = s_bot (act t)
      \<and> autowrap t' = autowrap t \<and> insertMode t' = insertMode t)"
  using assms wf_act_facts(1) [OF assms(1)]
  by (auto simp: set_row_def wp_simps rows_wf_def [of w h "rows (act t)"] tcur_def
      intro!: wf_set_rows rows_wf_update) (simp add: rows_wf_def)

text \<open>The usual case: a row of the screen is replaced, nothing else is asked.\<close>

lemma wf_set_row [wf_rules]:
  "wf_term w h P M t \<Longrightarrow> 0 \<le> y \<Longrightarrow> y < h \<Longrightarrow> row_wf w r \<Longrightarrow> wp (set_row y r t) (wf_term w h P M)"
  by (erule (3) wp_mono [OF wp_set_row]) simp

end
