(* ===== verification/Terminal_Safety.thy ===== *)
theory Terminal_Safety
  imports Well_Formed
begin

text \<open>
  Every operation of \<open>term.go\<close> on a well-formed terminal returns (no index or slice expression
  is out of range) and leaves it well formed: one rule per operation, in the collection
  \<open>wf_rules\<close>. Printing is the only operation that asks for a terminal of two columns or more.
\<close>

section \<open>Rows\<close>

lemma blank_ok [simp]: "cell_ok (blankCell st)"
  by (simp add: cell_ok_def blankCell_def zeroCell_def)

lemma row_wf_wrapped [simp]: "row_wf w (r\<lparr>wrapped := b\<rparr>) = row_wf w r"
  by (simp add: row_wf_def row_ok_def)

lemma row_ok_wrapped [simp]: "row_ok (r\<lparr>wrapped := b\<rparr>) = row_ok r"
  by (simp add: row_ok_def)

lemma list_all_fill: "list_all P xs \<Longrightarrow> P c \<Longrightarrow> list_all P (fill xs i j c)"
  by (auto simp: fill_def list_all_takeI list_all_dropI)

lemma newRow_wf [simp]: "0 \<le> w \<Longrightarrow> row_wf w (newRow w)"
  by (simp add: row_wf_def row_ok_def newRow_def)

lemma row_clear_ok [simp]: "row_ok r \<Longrightarrow> row_ok (row_clear r a b st)"
  by (simp add: row_ok_def row_clear_cells list_all_fill)

lemma row_clear_wf [simp]: "row_wf w r \<Longrightarrow> row_wf w (row_clear r a b st)"
  by (simp add: row_wf_def)

lemma row_wf_cells: "glen cs = w \<Longrightarrow> list_all cell_ok cs \<Longrightarrow> row_wf w (r\<lparr>cells := cs\<rparr>)"
  by (simp add: row_wf_def row_ok_def)

lemma row_wfD: "row_wf w r \<Longrightarrow> glen (cells r) = w" "row_wf w r \<Longrightarrow> list_all cell_ok (cells r)"
  by (simp_all add: row_wf_def row_ok_def)

lemma trimmed_ok [simp]: "row_ok r \<Longrightarrow> row_ok (trimmed r)"
  by (simp add: row_ok_def trimmed_cells list_all_takeI)

lemma fitted_wf [simp]: "row_ok r \<Longrightarrow> 0 \<le> w \<Longrightarrow> row_wf w (fitted r w)"
  by (auto simp: row_wf_def) (auto simp: row_ok_def fitted_def Let_def
      intro!: list_all_update list_all_takeI)

lemma penRow_wf: "wf_term w h P M t \<Longrightarrow> row_wf w (penRow t)"
  using wf_size [of w h P M t] by (simp add: penRow_def)

lemma rows_wf_ok: "list_all (row_wf w) rs \<Longrightarrow> list_all row_ok rs"
  by (auto simp: row_wf_def list_all_iff)

lemma rows_wf_copied:
  assumes "rows_wf w h rs" "list_all (row_wf w) src" "0 \<le> i" "i \<le> j" "j \<le> h"
  shows "rows_wf w h (take (nat i) rs @ take (min (nat (j - i)) (length src)) src
           @ drop (nat i + min (nat (j - i)) (length src)) rs)"
  using assms by (auto simp: rows_wf_def intro!: list_all_takeI list_all_dropI)

lemma rows_wf_fill:
  assumes "rows_wf w h rs" "row_wf w r" "0 \<le> i" "j \<le> h"
  shows "rows_wf w h (fill rs i j r)"
  using assms by (simp add: rows_wf_def list_all_fill)

lemma wp_gfill: "0 \<le> i \<Longrightarrow> j \<le> glen xs \<Longrightarrow> Q (fill xs i j c) \<Longrightarrow> wp (gfill xs i j c) Q"
  by (auto simp: gfill_def)

text \<open>
  Moving a block inside a list, and filling one, keeps the length and what holds of every
  element. The operations that insert and delete lines or characters are made of these two.
\<close>

lemma wp_blit:
  assumes "list_all p xs" "glen xs = n" "0 \<le> a" "a \<le> b" "b \<le> n" "0 \<le> i" "i \<le> j" "j \<le> n"
    and "\<And>ys. list_all p ys \<Longrightarrow> glen ys = n \<Longrightarrow> Q ys"
  shows "wp (gslice xs a b) (\<lambda>src. wp (gcopy xs i j src) Q)"
  using assms(2-8) unfolding wp_gslice wp_gcopy
  by (auto intro!: assms(9) list_all_takeI list_all_dropI assms(1))

lemma wp_gfill_all:
  assumes "list_all p xs" "glen xs = n" "p c" "0 \<le> i" "j \<le> n"
    and "\<And>ys. list_all p ys \<Longrightarrow> glen ys = n \<Longrightarrow> Q ys"
  shows "wp (gfill xs i j c) Q"
  using assms by (auto intro!: wp_gfill assms(6) list_all_fill)

section \<open>The cached blank row\<close>

lemma wf_blankRow: "wf_term w h P M t \<Longrightarrow> list_all (\<lambda>c. c = blankCell zeroStyle) bs
    \<Longrightarrow> wf_term w h P M (t\<lparr>blankRow := bs\<rparr>)"
  by (simp add: wf_term_def modes_wf_def)

text \<open>The terminal after a \<open>clearRow\<close>: only the cache may have been rebuilt.\<close>

definition cached :: "Terminal \<Rightarrow> Terminal" where
  "cached t = (if Bg (pen t) = 0 \<and> glen (blankRow t) < t_w t
     then t\<lparr>blankRow := cells (newRow (t_w t))\<rparr> else t)"

lemma cached_simps [simp]:
  "pen (cached t) = pen t" "act (cached t) = act t" "tcur (cached t) = tcur t"
  "t_w (cached t) = t_w t" "t_h (cached t) = t_h t"
  by (simp_all add: cached_def)

lemma wf_cached [simp]: "wf_term w h P M t \<Longrightarrow> wf_term w h P M (cached t)"
  by (auto simp: cached_def newRow_def intro: wf_blankRow)

lemma eraseStyle_default: "Bg st = 0 \<Longrightarrow> eraseStyle st = zeroStyle"
  by (simp add: eraseStyle_def zeroStyle_def)

lemma blank_prefix:
  "list_all (\<lambda>c. c = b) xs \<Longrightarrow> n \<le> length xs \<Longrightarrow> take n xs = replicate n b"
  by (auto simp: list_all_iff list_eq_iff_nth_eq)

text \<open>Copying from the cached blank row is the same as clearing cell by cell.\<close>

lemma clearRow_eq:
  assumes "wf_term w h P M t" "glen (cells r) \<le> w"
  shows "clearRow r a b t = Some (row_clear r a b (pen t), cached t)"
proof (cases "Bg (pen t) = 0")
  case False
  then show ?thesis by (simp add: clearRow_def cached_def)
next
  case True
  define i where "i = max 0 a"
  define j where "j = min b (glen (cells r))"
  define bl where "bl = blankRow (cached t)"
  have bl: "list_all (\<lambda>c. c = blankCell zeroStyle) bl" "w \<le> glen bl"
    using wf_modes(5) [OF wf_cached [OF assms(1)]] wf_size [OF assms(1)] True
    by (auto simp: bl_def cached_def newRow_def)
  have ij: "(if a < 0 then 0 else a) = i" "(if glen (cells r) < b then glen (cells r) else b) = j"
    by (auto simp: i_def j_def)
  have tc: "(if glen (blankRow t) < t_w t then t\<lparr>blankRow := cells (newRow (t_w t))\<rparr> else t) = cached t"
    using True by (simp add: cached_def)
  show ?thesis
  proof (cases "i < j")
    case False
    then show ?thesis
      using True by (simp add: clearRow_def Let_def ij tc row_clear_def)
  next
    case lt: True
    have n: "0 \<le> i" "j \<le> glen (cells r)" "j - i \<le> glen bl" "nat i + nat (j - i) = nat j"
      using bl(2) assms(2) lt by (auto simp: i_def j_def)
    have "take (nat (j - i)) bl = replicate (nat (j - i)) (blankCell (eraseStyle (pen t)))"
      using blank_prefix [OF bl(1), of "nat (j - i)"] n True by (simp add: eraseStyle_default)
    then show ?thesis
      using True lt n
      by (simp add: clearRow_def Let_def ij tc row_clear_def gslice_def gcopy_def bl_def [symmetric]
          fill_def)
  qed
qed

lemma wp_clearRow:
  assumes "wf_term w h P M t" "glen (cells r) \<le> w"
    and "Q (row_clear r a b (pen t)) (cached t)"
  shows "wp (clearRow r a b t) (\<lambda>(r', t'). Q r' t')"
  using assms by (simp add: clearRow_eq)

section \<open>Scrollback\<close>

lemma drop_batch_length: "0 \<le> n \<Longrightarrow> glen (drop_batch n sb) \<le> n"
  by (auto simp: drop_batch_def Let_def)

lemma drop_batch_wf: "0 \<le> n \<Longrightarrow> list_all row_ok sb \<Longrightarrow> scrollback_wf n (drop_batch n sb)"
  by (simp add: scrollback_wf_def drop_batch_length) (simp add: drop_batch_def Let_def list_all_dropI)

text \<open>A push changes the scrollback of the main screen and nothing else.\<close>

definition pushed :: "int \<Rightarrow> scr \<Rightarrow> row \<Rightarrow> row list \<Rightarrow> row list" where
  "pushed n p r sb = (if n = 0 \<or> p \<noteq> MainScr then sb else drop_batch n (sb @ [trimmed r]))"

lemma pushScrollback_eq:
  "pushScrollback p r t =
    assign p ((deref p t)\<lparr>scrollback := pushed (maxScrollback t) p r (scrollback (deref p t))\<rparr>) t"
  by (auto simp: pushScrollback_def pushed_def Let_def)

lemma fold_pushScrollback:
  "fold (pushScrollback p) rs t =
    assign p ((deref p t)\<lparr>scrollback := fold (pushed (maxScrollback t) p) rs (scrollback (deref p t))\<rparr>) t"
  by (induction rs arbitrary: t) (simp_all add: pushScrollback_eq)

lemma pushed_wf:
  "0 \<le> n \<Longrightarrow> row_ok r \<Longrightarrow> scrollback_wf (case p of MainScr \<Rightarrow> n | AltScr \<Rightarrow> 0) sb
     \<Longrightarrow> scrollback_wf (case p of MainScr \<Rightarrow> n | AltScr \<Rightarrow> 0) (pushed n p r sb)"
  by (cases p) (auto simp: pushed_def scrollback_wf_def drop_batch_length
      intro!: drop_batch_wf [unfolded scrollback_wf_def, THEN conjunct2])

lemma fold_pushed_wf:
  "0 \<le> n \<Longrightarrow> list_all row_ok rs \<Longrightarrow> scrollback_wf (case p of MainScr \<Rightarrow> n | AltScr \<Rightarrow> 0) sb
     \<Longrightarrow> scrollback_wf (case p of MainScr \<Rightarrow> n | AltScr \<Rightarrow> 0) (fold (pushed n p) rs sb)"
  by (induction rs arbitrary: sb) (auto intro: pushed_wf)

text \<open>Scrolling rows off the active screen, as \<open>scroll\<close> does.\<close>

lemma wf_push_act:
  assumes "wf_term w h P M t" "list_all row_ok rs"
  shows "wf_term w h P M (fold (pushScrollback (t_s t)) rs t)"
    and "act (fold (pushScrollback (t_s t)) rs t) = (act t)\<lparr>scrollback :=
           fold (pushed (maxScrollback t) (t_s t)) rs (scrollback (act t))\<rparr>"
proof -
  let ?s = "(act t)\<lparr>scrollback := fold (pushed (maxScrollback t) (t_s t)) rs (scrollback (act t))\<rparr>"
  have eq: "fold (pushScrollback (t_s t)) rs t = set_act ?s t"
    by (simp add: fold_pushScrollback set_act_def act_def)
  have "scrollback_wf (sb_bound (t_s t) t) (fold (pushed (maxScrollback t) (t_s t)) rs (scrollback (act t)))"
    using fold_pushed_wf [OF wf_modes(4) [OF assms(1)] assms(2)] wf_act_facts(6) [OF assms(1)]
    by (simp add: sb_bound_def)
  then have "screen_wf w h (sb_bound (t_s t) t) ?s"
    using wf_act [OF assms(1)] by (simp add: screen_wf_def region_wf_def)
  with assms(1) show "wf_term w h P M (fold (pushScrollback (t_s t)) rs t)"
    by (simp add: eq wf_set_act)
  show "act (fold (pushScrollback (t_s t)) rs t) = ?s"
    by (simp add: eq)
qed


section \<open>Scrolling\<close>

text \<open>What the row loops leave alone.\<close>

definition same_view :: "Terminal \<Rightarrow> Terminal \<Rightarrow> bool" where
  "same_view t t' \<longleftrightarrow> tcur t' = tcur t \<and> s_top (act t') = s_top (act t) \<and> s_bot (act t') = s_bot (act t)
     \<and> pen t' = pen t \<and> t_s t' = t_s t \<and> autowrap t' = autowrap t \<and> insertMode t' = insertMode t"

lemma same_view_refl [simp]: "same_view t t"
  by (simp add: same_view_def)

lemma same_view_trans: "same_view t u \<Longrightarrow> same_view u v \<Longrightarrow> same_view t v"
  by (simp add: same_view_def)

lemma same_view_cached [simp]: "same_view t (cached t)"
  by (simp add: same_view_def cached_def)

lemma wp_set_row_view:
  assumes "wf_term w h P M t" "0 \<le> y" "y < h" "row_wf w r"
    and "\<And>t'. wf_term w h P M t' \<Longrightarrow> same_view t t' \<Longrightarrow> Q t'"
  shows "wp (set_row y r t) Q"
  using assms(5) by (intro wp_mono [OF wp_set_row [OF assms(1-4)]]) (auto simp: same_view_def)

lemma wp_scroll_fill:
  assumes "wf_term w h P M t" "list_all (row_wf w) rs" "0 \<le> y" "y + glen rs \<le> h"
  shows "wp (scroll_fill rs y t) (\<lambda>t'. wf_term w h P M t' \<and> same_view t t')"
  using assms
proof (induction rs arbitrary: y t)
  case Nil
  then show ?case by simp
next
  case (Cons r rs)
  have *: "wp (set_row y ((row_clear r 0 (t_w t) (pen t))\<lparr>wrapped := False\<rparr>) (cached t))
      (\<lambda>u. wp (scroll_fill rs (y + 1) u) (\<lambda>t'. wf_term w h P M t' \<and> same_view t t'))"
    using Cons.prems
    by (intro wp_set_row_view [of w h P M]) (auto intro!: wp_mono [OF Cons.IH] elim: same_view_trans
        [OF same_view_trans [OF same_view_cached]])
  have "glen (cells r) \<le> w" using Cons.prems(2) by (simp add: row_wf_def)
  with * show ?case by (simp add: clearRow_eq [OF Cons.prems(1)] wp_simps)
qed

lemma wp_scroll:
  assumes wf: "wf_term w h P M t"
  shows "wp (scroll n keep t) (\<lambda>t'. wf_term w h P M t' \<and> same_view t t')"
proof (cases "n \<le> 0")
  case True
  with wf show ?thesis by (simp add: scroll_def)
next
  case False
  define m where "m = (if n > s_bot (act t) - s_top (act t) + 1 then s_bot (act t) - s_top (act t) + 1 else n)"
  define rec where "rec = take (nat (s_top (act t) + m - s_top (act t))) (drop (nat (s_top (act t))) (rows (act t)))"
  define u where "u = (if keep \<and> s_top (act t) = 0 then fold (pushScrollback (t_s t)) rec t else t)"
  define mid where "mid = take (nat (s_bot (act t) + 1 - (s_top (act t) + m)))
     (drop (nat (s_top (act t) + m)) (rows (act t)))"
  note reg = wf_region [OF wf] and rows = wf_act_facts(1) [OF wf]
  have m: "1 \<le> m" "s_top (act t) + m \<le> s_bot (act t) + 1" using False reg by (auto simp: m_def)
  have len: "glen (rows (act t)) = h" using rows by (simp add: rows_wf_def)
  have rec: "list_all (row_wf w) rec" "glen rec = m"
    using rows m reg len by (auto simp: rec_def rows_wf_def intro: list_all_takeI list_all_dropI)
  have mid: "list_all (row_wf w) mid"
    using rows by (auto simp: mid_def rows_wf_def intro: list_all_takeI list_all_dropI)
  have u: "wf_term w h P M u" "rows (act u) = rows (act t)" "s_top (act u) = s_top (act t)"
    "s_bot (act u) = s_bot (act t)"
    using wf wf_push_act [OF wf rows_wf_ok [OF rec(1)]] by (auto simp: u_def)
  have view: "same_view t u"
    by (simp add: u_def fold_pushScrollback same_view_def act_def tcur_def)
  define rs where "rs = take (nat (s_top (act t))) (rows (act t)) @ take (min (nat (glen (rows (act t)) - s_top (act t))) (length mid)) mid
      @ drop (nat (s_top (act t)) + min (nat (glen (rows (act t)) - s_top (act t))) (length mid)) (rows (act t))"
  have "rows_wf w h rs"
    unfolding rs_def using rows mid reg len by (intro rows_wf_copied) auto
  then have v: "wf_term w h P M (set_act ((act u)\<lparr>rows := rs\<rparr>) u)"
    using u(1) by (rule wf_set_rows [rotated])
  have view': "same_view t (set_act ((act u)\<lparr>rows := rs\<rparr>) u)"
    using view by (simp add: same_view_def tcur_def)
  have "wp (scroll_fill rec (s_bot (act t) - m + 1) (set_act ((act u)\<lparr>rows := rs\<rparr>) u))
     (\<lambda>t'. wf_term w h P M t' \<and> same_view (set_act ((act u)\<lparr>rows := rs\<rparr>) u) t')"
    using v rec reg m by (intro wp_scroll_fill) auto
  then have fin: "wp (scroll_fill rec (s_bot (act t) - m + 1) (set_act ((act u)\<lparr>rows := rs\<rparr>) u))
     (\<lambda>v. if s_top (act t) < t_h v then wp (get_row (s_top (act t)) v)
        (\<lambda>r. wp (set_row (s_top (act t)) (r\<lparr>wrapped := False\<rparr>) v)
           (\<lambda>t'. wf_term w h P M t' \<and> same_view t t'))
        else wf_term w h P M v \<and> same_view t v)"
    using reg by (elim wp_mono) (auto intro!: wp_get_row wp_set_row_view
        intro: same_view_trans [OF view'] elim: same_view_trans [OF same_view_trans [OF view']])
  show ?thesis
    unfolding scroll_def Let_def m_def [symmetric] if_not_P [OF False] wp_bind wp_gslice
      rec_def [symmetric] u_def [symmetric] u(2-4) mid_def [symmetric] wp_gcopy rs_def [symmetric]
    using m reg fin len wf_size [OF wf] by (simp only: wp_simps u) simp
qed

lemma wf_scroll [wf_rules]: "wf_term w h P M t \<Longrightarrow> wp (scroll n keep t) (wf_term w h P M)"
  by (erule wp_mono [OF wp_scroll]) simp

lemma wf_scrollUp [wf_rules]: "wf_term w h P M t \<Longrightarrow> wp (scrollUp n t) (wf_term w h P M)"
  by (simp add: scrollUp_def wf_scroll)

lemma wf_scrollDown [wf_rules]:
  assumes wf: "wf_term w h P M t"
  shows "wp (scrollDown n t) (\<lambda>t'. wf_term w h P M t' \<and> tcur t' = tcur t)"
proof (cases "n \<le> 0")
  case True
  with wf show ?thesis by (simp add: scrollDown_def)
next
  case False
  define m where "m = (if n > s_bot (act t) - s_top (act t) + 1 then s_bot (act t) - s_top (act t) + 1 else n)"
  note reg = wf_region [OF wf] and rows = wf_act_facts(1) [OF wf, unfolded rows_wf_def]
  have m: "1 \<le> m" "s_top (act t) + m \<le> s_bot (act t) + 1" using False reg by (auto simp: m_def)
  show ?thesis
    unfolding scrollDown_def Let_def m_def [symmetric] if_not_P [OF False] wp_bind
  proof (rule wp_blit [where p = "row_wf w" and n = h])
    fix rs assume rs: "list_all (row_wf w) rs" "glen rs = h"
    show "wp (gfill rs (s_top (act t)) (s_top (act t) + m) (penRow t))
      (\<lambda>x. wp (Some (set_act ((act t)\<lparr>rows := x\<rparr>) t)) (\<lambda>t'. wf_term w h P M t' \<and> tcur t' = tcur t))"
      by (rule wp_gfill_all [OF rs penRow_wf [OF wf]])
        (use m reg in \<open>simp_all add: wf_set_rows [OF wf] rows_wf_def tcur_def\<close>)
  qed (use m reg rows in auto)
qed

section \<open>Line feeds\<close>

lemma wp_lineFeed:
  assumes "wf_term w h P M t"
  shows "wp (lineFeed t) (\<lambda>t'. wf_term w h P M t' \<and> cx (tcur t') = cx (tcur t) \<and> \<not> pendingWrap (tcur t'))"
  using wf_cur [OF assms] wf_region [OF assms] wf_size [OF assms] assms
  by (auto simp: lineFeed_def Let_def same_view_def intro!: wp_mono [OF wp_scroll])

lemma wf_lineFeed [wf_rules]: "wf_term w h P M t \<Longrightarrow> wp (lineFeed t) (wf_term w h P M)"
  by (erule wp_mono [OF wp_lineFeed]) simp

lemma wf_reverseIndex [wf_rules]:
  assumes "wf_term w h P M t"
  shows "wp (reverseIndex t) (wf_term w h P M)"
  using wf_cur [OF assms] wf_region [OF assms] wf_size [OF assms] assms
  by (auto simp: reverseIndex_def Let_def intro!: wp_mono [OF wf_scrollDown])

lemma wp_wrapToNextLine:
  assumes "wf_term w h P M t"
  shows "wp (wrapToNextLine t) (\<lambda>t'. wf_term w h P M t' \<and> cx (tcur t') = 0)"
proof -
  let ?u = "set_cur ((tcur t)\<lparr>pendingWrap := False, cx := 0\<rparr>) t"
  have "wf_term w h P M ?u"
    using wf_cur [OF assms] wf_size [OF assms] assms by auto
  from wp_lineFeed [OF this] show ?thesis
    unfolding wrapToNextLine_def Let_def wp_bind
    by (elim wp_mono) (auto intro!: wp_get_row wp_set_row_view simp: same_view_def wf_cur)
qed

section \<open>Printing\<close>

lemma cell_ok_nth: "list_all cell_ok cs \<Longrightarrow> 0 \<le> x \<Longrightarrow> x < glen cs \<Longrightarrow> cell_ok (cs ! nat x)"
  by (auto intro: list_all_nthI)

lemma wf_combine_at:
  assumes "wf_term w h P M t" "row_wf w rw" "0 \<le> x" "x < w"
  shows "wp (combine_at x r rw t) (wf_term w h P M)"
proof -
  have *: "wp (set_row (cy (tcur t)) (rw\<lparr>cells := (cells rw)[nat z := (cells rw ! nat z)
       \<lparr>Ch := Ch c @ rune_bytes r\<rparr>]\<rparr>) t) (wf_term w h P M)"
    if "0 \<le> z" "z < w" "Width (cells rw ! nat z) \<noteq> 0" for z c
    using that assms row_wfD [OF assms(2)] cell_ok_nth [of "cells rw" z]
    by (intro wf_set_row row_wf_cells) (auto simp: wf_cur cell_ok_def intro!: list_all_update)
  have ch: "Ch (cells rw ! nat z) = []" if "0 \<le> z" "z < w" "Width (cells rw ! nat z) = 0" for z
    using that row_wfD [OF assms(2)] cell_ok_nth [of "cells rw" z] by (auto simp: cell_ok_def)
  define y where "y = (if Width (cells rw ! nat x) = 0 \<and> x > 0 then x - 1 else x)"
  have y: "0 \<le> y" "y < w" using assms(3,4) by (auto simp: y_def)
  show ?thesis
    unfolding combine_at_def wp_bind wp_gidx Let_def y_def [symmetric]
    using row_wfD [OF assms(2)] y assms ch [OF y] * [OF y, of "cells rw ! nat y"]
      * [OF y, of "(cells rw ! nat y)\<lparr>Ch := [0x20]\<rparr>"]
    by (auto simp: wp_simps)
qed

lemma wf_combine [wf_rules]:
  assumes "wf_term w h P M t"
  shows "wp (combine r t) (wf_term w h P M)"
  unfolding combine_def wp_bind Let_def using assms wf_cur [OF assms] wf_size [OF assms]
  by (auto intro!: wp_get_row wf_combine_at)

lemma wf_insertCells [wf_rules]:
  assumes "wf_term w h P M t" "0 \<le> n"
  shows "wp (insertCells n t) (\<lambda>t'. wf_term w h P M t' \<and> tcur t' = tcur t)"
proof -
  note c = wf_cur [OF assms(1)] and sz = wf_size [OF assms(1)]
  define m where "m = (if n > t_w t - cx (tcur t) then t_w t - cx (tcur t) else n)"
  have m: "0 \<le> m" "cx (tcur t) + m \<le> w" using assms(2) c sz by (auto simp: m_def)
  have row: "wp (set_row (cy (tcur t)) (rw\<lparr>cells := cs\<rparr>) t) (\<lambda>t'. wf_term w h P M t' \<and> tcur t' = tcur t)"
    if "glen cs = w" "list_all cell_ok cs" for rw cs
    using assms c that by (intro wp_set_row_view row_wf_cells) (auto simp: same_view_def)
  show ?thesis
    unfolding insertCells_def wp_bind Let_def m_def [symmetric]
  proof (rule wp_get_row [OF assms(1) c(3,4)])
    fix rw assume rw: "row_wf w rw"
    note rw = row_wfD [OF rw]
    show "wp (gslice (cells rw) (cx (tcur t)) (t_w t - m)) (\<lambda>x. wp (gcopy (cells rw) (cx (tcur t) + m)
      (glen (cells rw)) x) (\<lambda>x. wp (gfill x (cx (tcur t)) (cx (tcur t) + m) (blankCell (eraseStyle (pen t))))
      (\<lambda>x. wp (gidx x (t_w t - 1)) (\<lambda>xa. wp (if Width xa = 2 then gset x (t_w t - 1) (blankCell
      (eraseStyle (CStyle xa))) else Some x) (\<lambda>x. wp (set_row (cy (tcur t)) (rw\<lparr>cells := x\<rparr>) t)
      (\<lambda>t'. wf_term w h P M t' \<and> tcur t' = tcur t))))))"
    proof (rule wp_blit [OF rw(2,1)], goal_cases)
      case (7 cs)
      show ?case
      proof (rule wp_gfill_all [OF 7], goal_cases)
        case (4 cs')
        with sz show ?case by (simp add: wp_simps row list_all_update)
      qed (use m c in auto)
    qed (use m c sz rw in auto)
  qed
qed

lemma blank_like_ok:
  assumes "glen cs = w" "list_all cell_ok cs" "0 \<le> x" "x < w"
  shows "wp (blank_like cs x) (\<lambda>cs'. glen cs' = w \<and> list_all cell_ok cs')"
  using assms by (auto simp: blank_like_def wp_simps intro!: list_all_update)

lemma put_cells_ok:
  assumes "glen cs = w" "list_all cell_ok cs" "0 \<le> x" "x < w" "t_w t = w"
    and width: "width = 1 \<or> width = 2 \<and> x + 1 < w"
  shows "wp (put_cells r width x t cs) (\<lambda>cs'. glen cs' = w \<and> list_all cell_ok cs')"
proof -
  define ok where "ok cs \<longleftrightarrow> glen cs = w \<and> list_all cell_ok cs" for cs :: "Cell list"
  have blank: "ok cs \<Longrightarrow> 0 \<le> z \<Longrightarrow> z < w \<Longrightarrow> wp (blank_like cs z) ok" for cs z
    using blank_like_ok [of cs w z] by (simp add: ok_def [abs_def])
  have idx: "ok cs \<Longrightarrow> 0 \<le> z \<Longrightarrow> z < w \<Longrightarrow> wp (gidx cs z) (\<lambda>_. True)" for cs z
    by (simp add: ok_def wp_simps)
  have put: "ok cs \<Longrightarrow> 0 \<le> z \<Longrightarrow> z < w \<Longrightarrow> cell_ok c \<Longrightarrow> wp (gset cs z c) ok" for cs z c
    by (simp add: ok_def wp_simps list_all_update)
  have cell: "cell_ok \<lparr>Ch = char_bytes r, Width = width, CStyle = pen t, Link = link t\<rparr>"
    "cell_ok \<lparr>Ch = [], Width = 0, CStyle = pen t, Link = link t\<rparr>"
    using width by (auto simp: cell_ok_def)
  have left: "wp (if b \<and> 0 < x then blank_like cs (x - 1) else Some cs) ok" if "ok cs" for b cs
    using that assms(3,4) by (simp add: blank)
  have right: "wp (if a \<and> x + 1 < t_w t \<and> b then blank_like cs (x + 1) else Some cs) ok" if "ok cs" for a b cs
    using that assms(3-5) by (simp add: blank)
  have next2: "wp (if x + 2 < t_w t then do { c1 \<leftarrow> gidx cs (x + 1); if Width c1 = 2 then blank_like cs (x + 2)
      else Some cs } else Some cs) ok" if "ok cs" for cs
    using that assms(3-5) by (auto simp: blank intro!: wp_bindI [OF idx])
  have second: "wp (if width = 2 then do { cs \<leftarrow> (if x + 2 < t_w t then do { c1 \<leftarrow> gidx cs (x + 1);
      if Width c1 = 2 then blank_like cs (x + 2) else Some cs } else Some cs);
      gset cs (x + 1) \<lparr>Ch = [], Width = 0, CStyle = pen t, Link = link t\<rparr> } else Some cs) ok"
    if "ok cs" for cs
  proof (cases "width = 2")
    case True
    with width assms(3) show ?thesis
      unfolding if_P [OF True] by (intro wp_bindI [OF next2 [OF that]] put cell) auto
  next
    case False
    with that show ?thesis by simp
  qed
  have "ok cs" using assms by (simp add: ok_def)
  then have "wp (put_cells r width x t cs) ok"
    unfolding put_cells_def using assms(3,4)
    by (intro wp_bindI [OF idx] wp_bindI [OF left] wp_bindI [OF right] wp_bindI [OF put] second cell)
  then show ?thesis by (simp add: ok_def [abs_def])
qed

lemma wf_advance:
  assumes "wf_term w h P M t" "0 \<le> n"
  shows "wf_term w h P M (advance n t)"
  using wf_cur [OF assms(1)] wf_size [OF assms(1)] assms by (auto simp: advance_def Let_def)

lemma wf_print_cell:
  assumes "wf_term w h P M t" and "n = 1 \<or> n = 2 \<and> cx (tcur t) + 1 < w"
  shows "wp (print_cell r n t) (wf_term w h P M)"
proof -
  note c = wf_cur [OF assms(1)]
  have n: "0 \<le> n" using assms(2) by auto
  have ins: "wp (if insertMode t then insertCells n t else Some t)
      (\<lambda>t'. wf_term w h P M t' \<and> tcur t' = tcur t)"
    using wf_insertCells [OF assms(1) n] assms(1) by simp
  have rest: "wp (get_row (cy (tcur u)) u \<bind> (\<lambda>rw. put_cells r n (cx (tcur u)) u (cells rw) \<bind>
      (\<lambda>cs. set_row (cy (tcur u)) (rw\<lparr>cells := cs\<rparr>) u \<bind> (\<lambda>t. Some (advance n t)))))
      (wf_term w h P M)" if u: "wf_term w h P M u" "tcur u = tcur t" for u
    unfolding wp_bind
  proof (rule wp_get_row [OF u(1)], goal_cases)
    case (3 rw)
    note rw = row_wfD [OF 3]
    have "wp (put_cells r n (cx (tcur u)) u (cells rw)) (\<lambda>cs. glen cs = w \<and> list_all cell_ok cs)"
      using assms(2) c u wf_size [OF u(1)] by (intro put_cells_ok rw) auto
    then show ?case
    proof (rule wp_mono, goal_cases)
      case (1 cs)
      then show ?case using u n
        by (intro wp_mono [OF wf_set_row [OF u(1)]]) (auto simp: c row_wf_cells wf_advance)
    qed
  qed (simp_all add: u c)
  show ?thesis
    unfolding print_cell_def
  proof (rule wp_bindI [of _ "\<lambda>_. True"])
    show "wp (get_row (cy (tcur t)) t) (\<lambda>_. True)"
      by (rule wp_get_row [OF assms(1) c(3,4)]) simp
  qed (rule wp_bindI [OF ins], rule rest, simp_all)
qed

lemma wf_print_wrap:
  assumes "wf_term w h P M t"
  shows "wp (print_wrap t) (wf_term w h P M)"
  using assms wf_cur [OF assms] wf_size [OF assms]
  by (auto simp: print_wrap_def intro!: wp_mono [OF wp_wrapToNextLine])

lemma wf_print_wide_edge:
  assumes t: "wf_term w h P M t" and "2 \<le> w"
  shows "wp (print_wide_edge r 2 t) (wf_term w h P M)"
proof (cases "autowrap t")
  case True
  note c = wf_cur [OF t]
  have "wp (set_row (cy (tcur t)) (rw\<lparr>cells := (cells rw)[nat (cx (tcur t)) := blankCell (eraseStyle
      (pen t))]\<rparr>) t) (wf_term w h P M)" if "row_wf w rw" for rw
    using row_wfD [OF that] by (intro wf_set_row t c row_wf_cells list_all_update) auto
  then have "wp (do { rw \<leftarrow> get_row (cy (tcur t)) t;
      cs \<leftarrow> gset (cells rw) (cx (tcur t)) (blankCell (eraseStyle (pen t)));
      set_row (cy (tcur t)) (rw\<lparr>cells := cs\<rparr>) t }) (wf_term w h P M)"
    unfolding wp_bind using c by (auto intro!: wp_get_row [OF t] simp: wp_simps row_wfD)
  then have "wp (do { rw \<leftarrow> get_row (cy (tcur t)) t;
      cs \<leftarrow> gset (cells rw) (cx (tcur t)) (blankCell (eraseStyle (pen t)));
      set_row (cy (tcur t)) (rw\<lparr>cells := cs\<rparr>) t } \<bind> (\<lambda>t. wrapToNextLine t \<bind> print_cell r 2))
      (wf_term w h P M)"
    using assms(2) by (elim wp_bindI) (intro wp_bindI [OF wp_wrapToNextLine] wf_print_cell, auto)
  with True show ?thesis by (simp add: print_wide_edge_def)
next
  case False
  have "wp (print_cell r 2 (set_cur ((tcur t)\<lparr>cx := t_w t - 2\<rparr>) t)) (wf_term w h P M)"
    using t wf_cur [OF t] wf_size [OF t] assms(2) by (intro wf_print_cell) auto
  with False assms(2) wf_size [OF t] show ?thesis by (simp add: print_wide_edge_def Let_def)
qed

text \<open>Printing needs room for a character of two columns.\<close>

lemma wf_print_glyph:
  assumes "wf_term w h P M t" "2 \<le> w" "n = 1 \<or> n = 2"
  shows "wp (print_glyph r n t) (wf_term w h P M)"
  unfolding print_glyph_def
proof (rule wp_bindI [OF wf_print_wrap])
  fix u assume u: "wf_term w h P M u"
  show "wp (if n = 2 \<and> cx (tcur u) = t_w u - 1 then print_wide_edge r n u else print_cell r n u)
      (wf_term w h P M)"
    using assms(2,3) wf_cur [OF u] wf_size [OF u] wf_print_cell [OF u, of n r] by (auto simp: wf_print_wide_edge [OF u])
qed (simp add: assms)

lemma wf_print [wf_rules]:
  assumes "wf_term w h P M t" "2 \<le> w"
  shows "wp (print r t) (wf_term w h P M)"
proof -
  obtain n where "runeWidth (translate (charsets t ! nat (glIndex t)) r) = Some n" "n = 0 \<or> n = 1 \<or> n = 2"
    by (rule runeWidth_total)
  then show ?thesis
    using wf_modes [OF assms(1)] wf_combine [OF assms(1)] wf_print_glyph [OF assms]
    by (auto simp: print_def wp_simps)
qed

section \<open>Tab stops and controls\<close>

lemma split_first: "(x :: int) \<le> i \<Longrightarrow> i = x \<or> x + 1 \<le> i" and split_last: "i \<le> (x :: int) \<Longrightarrow> i = x \<or> i \<le> x - 1"
  by auto

text \<open>The loop over the tab stops stops at the next one, or at the right edge.\<close>

lemma tab_next_spec:
  assumes "0 \<le> x" "w \<le> glen ts"
  shows "wp (tab_next ts w x) (\<lambda>y. x \<le> y \<and> (x \<le> w \<longrightarrow> y \<le> w) \<and> (\<forall>i. x \<le> i \<and> i < y \<longrightarrow> \<not> ts ! nat i)
      \<and> (y < w \<longrightarrow> ts ! nat y))"
  using assms
proof (induction ts w x rule: tab_next.induct)
  case (1 ts w x)
  show ?case
  proof (cases "x < w \<and> \<not> ts ! nat x")
    case False
    then show ?thesis using "1.prems" by (subst tab_next.simps) (auto simp: wp_simps)
  next
    case True
    then have "wp (tab_next ts w (x + 1)) (\<lambda>y. x + 1 \<le> y \<and> (x + 1 \<le> w \<longrightarrow> y \<le> w)
        \<and> (\<forall>i. x + 1 \<le> i \<and> i < y \<longrightarrow> \<not> ts ! nat i) \<and> (y < w \<longrightarrow> ts ! nat y))"
      using "1.IH" [of "False"] "1.prems" by auto
    then have "wp (tab_next ts w (x + 1)) (\<lambda>y. x \<le> y \<and> (x \<le> w \<longrightarrow> y \<le> w)
        \<and> (\<forall>i. x \<le> i \<and> i < y \<longrightarrow> \<not> ts ! nat i) \<and> (y < w \<longrightarrow> ts ! nat y))"
      using True by (elim wp_mono) (auto dest: split_first)
    then show ?thesis using True "1.prems" by (subst tab_next.simps) (simp add: wp_simps)
  qed
qed

lemma tab_prev_spec:
  assumes "x < glen ts"
  shows "wp (tab_prev ts x) (\<lambda>y. y \<le> x \<and> (0 \<le> x \<longrightarrow> 0 \<le> y) \<and> (\<forall>i. y < i \<and> i \<le> x \<longrightarrow> \<not> ts ! nat i)
      \<and> (0 < y \<longrightarrow> ts ! nat y))"
  using assms
proof (induction ts x rule: tab_prev.induct)
  case (1 ts x)
  show ?case
  proof (cases "0 < x \<and> \<not> ts ! nat x")
    case False
    then show ?thesis using "1.prems" by (subst tab_prev.simps) (auto simp: wp_simps)
  next
    case True
    then have "wp (tab_prev ts (x - 1)) (\<lambda>y. y \<le> x - 1 \<and> (0 \<le> x - 1 \<longrightarrow> 0 \<le> y)
        \<and> (\<forall>i. y < i \<and> i \<le> x - 1 \<longrightarrow> \<not> ts ! nat i) \<and> (0 < y \<longrightarrow> ts ! nat y))"
      using "1.IH" [of "False"] "1.prems" by auto
    then have "wp (tab_prev ts (x - 1)) (\<lambda>y. y \<le> x \<and> (0 \<le> x \<longrightarrow> 0 \<le> y)
        \<and> (\<forall>i. y < i \<and> i \<le> x \<longrightarrow> \<not> ts ! nat i) \<and> (0 < y \<longrightarrow> ts ! nat y))"
      using True by (elim wp_mono) (auto dest: split_last)
    then show ?thesis using True "1.prems" by (subst tab_prev.simps) (simp add: wp_simps)
  qed
qed

lemma wf_tab_forward_n: "wf_term w h P M t \<Longrightarrow> wp (tab_forward_n n t) (wf_term w h P M)"
proof (induction n arbitrary: t)
  case (Suc n)
  note c = wf_cur [OF Suc.prems] and sz = wf_size [OF Suc.prems]
  show ?case
    unfolding tab_forward_n.simps
  proof (rule wp_bindI [OF tab_next_spec], goal_cases)
    case (3 x)
    then show ?case using c sz Suc.prems by (intro Suc.IH wf_set_curI) auto
  qed (use c sz wf_modes [OF Suc.prems] in auto)
qed simp

lemma wf_tab_backward_n: "wf_term w h P M t \<Longrightarrow> wp (tab_backward_n n t) (wf_term w h P M)"
proof (induction n arbitrary: t)
  case (Suc n)
  note c = wf_cur [OF Suc.prems] and sz = wf_size [OF Suc.prems]
  show ?case
    unfolding tab_backward_n.simps
  proof (rule wp_bindI [OF tab_prev_spec], goal_cases)
    case (2 x)
    then show ?case using c sz Suc.prems by (intro Suc.IH wf_set_curI) auto
  qed (use c sz wf_modes [OF Suc.prems] in auto)
qed simp

lemma wf_nowrap: "wf_term w h P M t \<Longrightarrow> wf_term w h P M (set_cur ((tcur t)\<lparr>pendingWrap := False\<rparr>) t)"
  by (rule wf_set_curI) (simp_all add: wf_cur)

lemma wf_tabForward [wf_rules]: "wf_term w h P M t \<Longrightarrow> wp (tabForward n t) (wf_term w h P M)"
  by (simp add: tabForward_def wf_tab_forward_n wf_nowrap)

lemma wf_tabBackward [wf_rules]: "wf_term w h P M t \<Longrightarrow> wp (tabBackward n t) (wf_term w h P M)"
  by (simp add: tabBackward_def wf_tab_backward_n wf_nowrap)

lemma wf_glIndex: "wf_term w h P M t \<Longrightarrow> n = 0 \<or> n = 1 \<Longrightarrow> wf_term w h P M (t\<lparr>glIndex := n\<rparr>)"
  by (auto simp: wf_term_def modes_wf_def)

lemma wf_charsets: "wf_term w h P M t \<Longrightarrow> length cs = 2 \<Longrightarrow> wf_term w h P M (t\<lparr>charsets := cs\<rparr>)"
  by (simp add: wf_term_def modes_wf_def)

lemma wf_tabStops: "wf_term w h P M t \<Longrightarrow> glen ts = w \<Longrightarrow> wf_term w h P M (t\<lparr>tabStops := ts\<rparr>)"
  by (simp add: wf_term_def modes_wf_def)

lemma wf_execute [wf_rules]:
  assumes "wf_term w h P M t"
  shows "wp (execute b t) (wf_term w h P M)"
proof -
  have lf: "wp (lineFeed t) (\<lambda>x. wf_term w h P M (if lineFeedNewline x then set_cur ((tcur x)\<lparr>cx := 0\<rparr>) x else x))"
    using wf_size [OF assms] by (intro wp_mono [OF wf_lineFeed [OF assms]]) (auto simp: wf_cur)
  show ?thesis
    using wf_cur [OF assms] wf_size [OF assms] assms wf_tabForward [OF assms] lf
    by (simp add: execute_def wp_simps wf_set_curI wf_glIndex)
qed

section \<open>The cursor\<close>

lemma wf_moveCursor [wf_rules]:
  assumes "wf_term w h P M t"
  shows "wf_term w h P M (moveCursor x y t)"
  using wf_region [OF assms] wf_size [OF assms] assms
  by (auto simp: moveCursor_def Let_def intro!: wf_set_curI)

lemma wf_cursorUp [wf_rules]:
  assumes "wf_term w h P M t" "0 \<le> n"
  shows "wf_term w h P M (cursorUp n t)"
  using wf_region [OF assms(1)] wf_size [OF assms(1)] wf_cur [OF assms(1)] assms
  by (auto simp: cursorUp_def Let_def intro!: wf_set_curI)

lemma wf_cursorDown [wf_rules]:
  assumes "wf_term w h P M t" "0 \<le> n"
  shows "wf_term w h P M (cursorDown n t)"
  using wf_region [OF assms(1)] wf_size [OF assms(1)] wf_cur [OF assms(1)] assms
  by (auto simp: cursorDown_def Let_def intro!: wf_set_curI)

lemma wf_saveCursor [wf_rules]:
  assumes "wf_term w h P M t"
  shows "wf_term w h P M (saveCursor t)"
  unfolding saveCursor_def
  using wf_act [OF assms] wf_cur [OF assms] wf_modes(1,2) [OF assms]
  by (intro wf_set_act assms) (simp add: screen_wf_def saved_wf_def region_wf_def)

lemma wf_restoreCursor [wf_rules]:
  assumes "wf_term w h P M t"
  shows "wf_term w h P M (restoreCursor t)"
proof -
  have sv: "saved_wf w h (saved (act t))" by (rule wf_act_facts [OF assms])
  show ?thesis
    using wf_moveCursor [OF assms] wf_size [OF assms] sv assms
    by (simp add: restoreCursor_def Let_def saved_wf_def)
      (auto intro!: wf_set_curI wf_charsets wf_glIndex)
qed

section \<open>Erase, insert, delete\<close>

lemma wp_clearRow_wf:
  assumes "wf_term w h P M t" "row_wf w r"
    and "\<And>r' t'. row_wf w r' \<Longrightarrow> wf_term w h P M t' \<Longrightarrow> act t' = act t \<Longrightarrow> wp (f (r', t')) Q"
  shows "wp (clearRow r a b t \<bind> f) Q"
  using assms clearRow_eq [OF assms(1), of r a b] row_wfD [OF assms(2)] by simp

lemma wf_eraseInLine [wf_rules]:
  assumes t: "wf_term w h P M t"
  shows "wp (eraseInLine mode t) (wf_term w h P M)"
proof -
  note c = wf_cur [OF t] and sz = wf_size [OF t]
  have y: "wp (set_row (cy (tcur t)) r u) (wf_term w h P M)" if "wf_term w h P M u" "row_wf w r" for r u
    using that c by (intro wf_set_row) auto
  show ?thesis
    unfolding eraseInLine_def Let_def wp_bind [of "get_row _ _"]
  proof (rule wp_get_row [OF t c(3,4)])
    fix r assume r: "row_wf w r"
    have "glen (cells r) = w" using r by (rule row_wfD)
    with r c sz t y [OF t] y [OF wf_cached [OF t]] clearRow_eq [OF t, of r]
    show "wp (if mode = 0 then do { (r', u) \<leftarrow> clearRow r (cx (tcur t)) (t_w t) t; set_row (cy (tcur t)) r' u }
      else if mode = 1 then do {
        fin \<leftarrow> (if cx (tcur t) + 1 < t_w t then do { c \<leftarrow> gidx (cells r) (cx (tcur t) + 1);
                Some (if Width c = 0 then cx (tcur t) + 2 else cx (tcur t) + 1) }
              else Some (cx (tcur t) + 1));
        set_row (cy (tcur t)) (row_clear r 0 fin (pen t)) t }
      else if mode = 2 then do { (r', u) \<leftarrow> clearRow r 0 (t_w t) t; set_row (cy (tcur t)) r' u }
      else Some t) (wf_term w h P M)"
      by (simp add: wp_simps)
  qed
qed

lemma wf_clear_rows:
  "wf_term w h P M t \<Longrightarrow> 0 \<le> y \<Longrightarrow> y + int n \<le> h \<Longrightarrow> wp (clear_rows n y t) (wf_term w h P M)"
proof (induction n arbitrary: y t)
  case (Suc n)
  show ?case
    unfolding clear_rows.simps wp_bind
  proof (rule wp_get_row [OF Suc.prems(1)])
    fix r assume "row_wf w r"
    then show "wp (set_row y ((row_clear r 0 (t_w t) (pen t))\<lparr>wrapped := False\<rparr>) t)
        (\<lambda>t. wp (clear_rows n (y + 1) t) (wf_term w h P M))"
      using Suc by (intro wp_mono [OF wf_set_row [OF Suc.prems(1)]]) auto
  qed (use Suc.prems in auto)
qed simp

lemma wf_clear_rows_cached:
  "wf_term w h P M t \<Longrightarrow> 0 \<le> y \<Longrightarrow> y + int n \<le> h \<Longrightarrow> wp (clear_rows_cached n y t) (wf_term w h P M)"
proof (induction n arbitrary: y t)
  case (Suc n)
  show ?case
    unfolding clear_rows_cached.simps wp_bind [of "get_row _ _"]
  proof (rule wp_get_row [OF Suc.prems(1)])
    fix r assume r: "row_wf w r"
    show "wp (do { (r, t) \<leftarrow> clearRow r 0 (t_w t) t; t \<leftarrow> set_row y (r\<lparr>wrapped := False\<rparr>) t;
          clear_rows_cached n (y + 1) t }) (wf_term w h P M)"
    proof (rule wp_clearRow_wf [OF Suc.prems(1) r], clarsimp simp: wp_bind)
      fix r' t' assume "row_wf w r'" and t': "wf_term w h P M t'"
      then show "wp (set_row y (r'\<lparr>wrapped := False\<rparr>) t')
          (\<lambda>x. wp (clear_rows_cached n (y + 1) x) (wf_term w h P M))"
        using Suc by (intro wp_mono [OF wf_set_row [OF t']]) auto
    qed
  qed (use Suc.prems in auto)
qed simp

lemma wf_eraseInDisplay [wf_rules]:
  assumes t: "wf_term w h P M t"
  shows "wp (eraseInDisplay mode t) (wf_term w h P M)"
proof -
  note c = wf_cur [OF t] and sz = wf_size [OF t]
  have "wp (eraseInLine 0 t \<bind> (\<lambda>t. clear_rows (nat (t_h t - (cy (tcur t0) + 1))) (cy (tcur t0) + 1) t))
      (wf_term w h P M)" if "tcur t0 = tcur t" for t0
  proof (rule wp_bindI [OF wf_eraseInLine [OF t]])
    fix u assume u: "wf_term w h P M u"
    then show "wp (clear_rows (nat (t_h u - (cy (tcur t0) + 1))) (cy (tcur t0) + 1) u) (wf_term w h P M)"
      using c wf_size [OF u] that by (intro wf_clear_rows) auto
  qed
  moreover have "wp (clear_rows (nat (cy (tcur t))) 0 t \<bind> eraseInLine 1) (wf_term w h P M)"
    using c by (intro wp_bindI [OF wf_clear_rows [OF t]] wf_eraseInLine) auto
  moreover have "wp (clear_rows_cached (nat (t_h t)) 0 t) (wf_term w h P M)"
    using sz by (intro wf_clear_rows_cached t) auto
  moreover have "wf_term w h P M (set_act ((act t)\<lparr>scrollback := []\<rparr>) t)"
    using wf_act [OF t] wf_modes(4) [OF t]
    by (intro wf_set_act t) (simp add: screen_wf_def region_wf_def scrollback_wf_def sb_bound_def split: scr.splits)
  ultimately show ?thesis using t by (simp add: eraseInDisplay_def Let_def)
qed

text \<open>A changed row of the cursor's line, then the pending wrap is dropped.\<close>

lemma wp_set_row_nowrap:
  assumes t: "wf_term w h P M t" and "row_wf w r"
  shows "wp (set_row (cy (tcur t)) r t \<bind> (\<lambda>t. Some (set_cur ((tcur t)\<lparr>pendingWrap := False\<rparr>) t)))
    (wf_term w h P M)"
  using assms wf_cur [OF t] by (intro wp_bindI [OF wf_set_row [OF t]]) (auto intro: wf_nowrap)

lemma wf_eraseChars [wf_rules]:
  assumes t: "wf_term w h P M t"
  shows "wp (eraseChars n t) (wf_term w h P M)"
  unfolding eraseChars_def Let_def wp_bind [of "get_row _ _"]
  by (intro wp_get_row [OF t] wf_cur [OF t] wp_set_row_nowrap t) simp

lemma wf_deleteChars [wf_rules]:
  assumes t: "wf_term w h P M t" and n: "0 \<le> n"
  shows "wp (deleteChars n t) (wf_term w h P M)"
proof -
  note c = wf_cur [OF t] and sz = wf_size [OF t]
  define m where "m = (if n > t_w t - cx (tcur t) then t_w t - cx (tcur t) else n)"
  have m: "0 \<le> m" "cx (tcur t) + m \<le> w" using n c sz by (auto simp: m_def)
  show ?thesis
    unfolding deleteChars_def Let_def m_def [symmetric] wp_bind [of "get_row _ _"]
      wp_bind [of "gslice _ _ _"] wp_bind [of "gcopy _ _ _ _"]
  proof (rule wp_get_row [OF t c(3,4)])
    fix r assume "row_wf w r"
    note r = row_wfD [OF this]
    show "wp (gslice (cells r) (cx (tcur t) + m) (glen (cells r))) (\<lambda>src. wp (gcopy (cells r) (cx (tcur t))
      (glen (cells r)) src) (\<lambda>cs. wp (set_row (cy (tcur t)) (row_clear (r\<lparr>cells := cs\<rparr>) (t_w t - m) (t_w t)
      (pen t)) t \<bind> (\<lambda>t. Some (set_cur ((tcur t)\<lparr>pendingWrap := False\<rparr>) t))) (wf_term w h P M)))"
      by (rule wp_blit [OF r(2,1)])
        (use m c r in \<open>simp_all add: wp_set_row_nowrap [OF t] row_wf_cells\<close>)
  qed
qed

lemma wf_lines_moved:
  assumes t: "wf_term w h P M t" and "list_all (row_wf w) rs" "glen rs = h"
  shows "wf_term w h P M (set_act ((act t)\<lparr>rows := rs, cur := (cur (act t))\<lparr>cx := 0, pendingWrap := False\<rparr>\<rparr>) t)"
  using assms wf_act [OF t] wf_size [OF t]
  by (intro wf_set_act t) (simp add: screen_wf_def region_wf_def rows_wf_def cursor_wf_def)

lemma wf_insertLines [wf_rules]:
  assumes t: "wf_term w h P M t" and n: "0 \<le> n"
  shows "wp (insertLines n t) (wf_term w h P M)"
proof (cases "cy (cur (act t)) < s_top (act t) \<or> cy (cur (act t)) > s_bot (act t)")
  case True
  with t show ?thesis by (simp add: insertLines_def Let_def)
next
  case False
  let ?y = "cy (cur (act t))"
  define m where "m = (if n > s_bot (act t) - ?y + 1 then s_bot (act t) - ?y + 1 else n)"
  note reg = wf_region [OF t] and rows = wf_act_facts(1) [OF t, unfolded rows_wf_def]
  have m: "0 \<le> m" "?y + m \<le> s_bot (act t) + 1" using False n by (auto simp: m_def)
  show ?thesis
    unfolding insertLines_def Let_def if_not_P [OF False] m_def [symmetric] wp_bind
  proof (rule wp_blit [where p = "row_wf w" and n = h], goal_cases)
    case (9 rs)
    show ?case
      by (rule wp_gfill_all [OF 9 penRow_wf [OF t]]) (use m reg False in \<open>simp_all add: wf_lines_moved [OF t]\<close>)
  qed (use m reg rows False in auto)
qed

lemma wf_deleteLines [wf_rules]:
  assumes t: "wf_term w h P M t" and n: "0 \<le> n"
  shows "wp (deleteLines n t) (wf_term w h P M)"
proof (cases "cy (cur (act t)) < s_top (act t) \<or> cy (cur (act t)) > s_bot (act t)")
  case True
  with t show ?thesis by (simp add: deleteLines_def Let_def)
next
  case False
  let ?y = "cy (cur (act t))"
  define m where "m = (if n > s_bot (act t) - ?y + 1 then s_bot (act t) - ?y + 1 else n)"
  note reg = wf_region [OF t] and rows = wf_act_facts(1) [OF t, unfolded rows_wf_def]
  have m: "0 \<le> m" "?y + m \<le> s_bot (act t) + 1" using False n by (auto simp: m_def)
  show ?thesis
    unfolding deleteLines_def Let_def if_not_P [OF False] m_def [symmetric] wp_bind
  proof (rule wp_blit [where p = "row_wf w" and n = h], goal_cases)
    case (9 rs)
    show ?case
      by (rule wp_gfill_all [OF 9 penRow_wf [OF t]]) (use m reg False in \<open>simp_all add: wf_lines_moved [OF t]\<close>)
  qed (use m reg rows False in auto)
qed

section \<open>The alternate screen and the resets\<close>

lemma wf_term_mono:
  "wf_term w h P M t \<Longrightarrow> (\<And>p. P p \<Longrightarrow> P' p) \<Longrightarrow> (\<And>s. M s \<Longrightarrow> M' s) \<Longrightarrow> wf_term w h P' M' t"
  by (auto simp: wf_term_def)

lemma cleared_rows_wf:
  "list_all (row_wf w) rs \<Longrightarrow> list_all (row_wf w) (map (\<lambda>r. (row_clear r a b st)\<lparr>wrapped := False\<rparr>) rs)"
  by (auto simp: list_all_iff)

lemma wf_enterAltScreen [wf_rules]:
  assumes t: "wf_term w h P M t" and M: "altActive t \<or> (\<forall>s. M s)"
  shows "wf_term w h P M (enterAltScreen sv t)"
proof (cases "altActive t")
  case True
  with t show ?thesis by (simp add: enterAltScreen_def)
next
  case False
  define u where "u = (if sv then saveCursor t else t)"
  have u: "wf_term w h P M u" using wf_saveCursor [OF t] t by (simp add: u_def)
  have all: "\<forall>s. M s" using M False by blast
  show ?thesis
    unfolding enterAltScreen_def if_not_P [OF False] Let_def u_def [symmetric]
    using u all by (auto simp: wf_term_def modes_wf_def screen_wf_def rows_wf_def cursor_wf_def
        region_wf_def cleared_rows_wf)
qed

lemma wf_leaveAltScreen [wf_rules]:
  assumes t: "wf_term w h P M t"
  shows "wf_term w h P M (leaveAltScreen rs t)"
proof (cases "altActive t")
  case False
  with t show ?thesis by (simp add: leaveAltScreen_def)
next
  case True
  define u where "u = t\<lparr>altActive := False, t_s := MainScr, t_main := (t_main t)\<lparr>cur :=
    \<lparr>cx = cx (cur (t_alt t)), cy = cy (cur (t_alt t)), pendingWrap = False\<rparr>\<rparr>\<rparr>"
  have "wf_term w h P M u"
    using t by (auto simp: u_def wf_term_def modes_wf_def screen_wf_def cursor_wf_def region_wf_def)
  with True show ?thesis
    by (simp add: leaveAltScreen_def u_def [symmetric] Let_def wf_restoreCursor)
qed

lemma zeroSaved_wf: "1 \<le> w \<Longrightarrow> 1 \<le> h \<Longrightarrow> saved_wf w h zeroSaved"
  by (simp add: saved_wf_def zeroSaved_def)

lemma wf_softReset [wf_rules]:
  assumes t: "wf_term w h P M t"
  shows "wf_term w h P M (softReset t)"
proof -
  define u where "u = t\<lparr>cursorVisible := True, origin := False, autowrap := True, insertMode := False,
               cursorKeys := False, pen := zeroStyle, link := [],
               charsets := [charsetASCII, charsetASCII], glIndex := 0\<rparr>"
  have u: "wf_term w h P M u"
    using t by (simp add: u_def wf_glIndex wf_charsets)
  show ?thesis
    unfolding softReset_def u_def [symmetric] Let_def
    using wf_act [OF u] wf_size [OF u]
    by (intro wf_set_act u) (simp add: screen_wf_def region_wf_def zeroSaved_wf cursor_wf_def)
qed

lemma newScreen_wf: "1 \<le> w \<Longrightarrow> 1 \<le> h \<Longrightarrow> 0 \<le> n \<Longrightarrow> screen_wf w h n (newScreen w h)"
  by (simp add: screen_wf_def newScreen_def rows_wf_def cursor_wf_def zeroCursor_def zeroSaved_wf
      region_wf_def scrollback_wf_def)

lemma init_wf:
  "0 \<le> maxScrollback t \<Longrightarrow> P zeroParser \<Longrightarrow> wf_term (max 1 w) (max 1 h) P M (init w h t)"
  by (auto simp: init_def Let_def resetTabStops_def wf_term_def modes_wf_def newScreen_wf max_def)

lemma New_wf: "P zeroParser \<Longrightarrow> wf_term (max 1 w) (max 1 h) P M (New w h)"
  by (simp add: New_def init_wf zeroTerminal_def DefaultScrollback_def)

lemma init_main: "maxScrollback (init w h t) = maxScrollback t" "altActive (init w h t) = False"
  by (simp_all add: init_def Let_def resetTabStops_def)

lemma wf_fullReset [wf_rules]:
  assumes t: "wf_term w h P M t" and "P zeroParser"
  shows "wf_term w h P M (fullReset t)"
proof -
  define u where "u = init (t_w t) (t_h t) t"
  have u: "wf_term w h P M u"
    using init_wf [of t P "t_w t" "t_h t" M] wf_modes(4) [OF t] wf_size [OF t] assms(2)
    by (simp add: u_def max_def)
  have sb: "scrollback_wf (maxScrollback u) (scrollback (t_main t))" "altActive u = False"
    using t by (simp_all add: u_def init_main wf_term_def screen_wf_def)
  show ?thesis
    unfolding fullReset_def Let_def u_def [symmetric]
    using u sb by (simp add: wf_term_def modes_wf_def screen_wf_def region_wf_def)
qed

lemma wf_SetMaxScrollback:
  assumes t: "wf_term w h P (\<lambda>_. True) t"
  shows "wf_term w h P (\<lambda>_. True) (SetMaxScrollback n t)"
proof -
  define m where "m = (if n < 0 then 0 else n)"
  define sb where "sb = scrollback (t_main t)"
  define keep where "keep = (if glen sb > m then drop (nat (glen sb - m)) sb else sb)"
  have "0 \<le> m" by (simp add: m_def)
  moreover have "list_all row_ok sb" using t by (simp add: sb_def wf_term_def screen_wf_def scrollback_wf_def)
  ultimately have keep: "scrollback_wf m keep"
    by (auto simp: scrollback_wf_def keep_def intro: list_all_dropI)
  have "SetMaxScrollback n t = t\<lparr>maxScrollback := m, t_main := (t_main t)\<lparr>scrollback := keep\<rparr>\<rparr>"
    by (simp add: SetMaxScrollback_def trimScrollback_def Let_def m_def [symmetric] keep_def sb_def)
  then show ?thesis
    using t keep \<open>0 \<le> m\<close> by (simp add: wf_term_def modes_wf_def screen_wf_def region_wf_def)
qed

section \<open>Resize\<close>

lemma strip_blank_spec:
  "0 \<le> y \<Longrightarrow> y < glen rs \<Longrightarrow> wp (strip_blank k y rs) (\<lambda>(rs', left). y < glen rs'
     \<and> left \<le> k \<and> length rs' + (k - left) = length rs \<and> rs' = take (length rs') rs)"
proof (induction k arbitrary: rs)
  case (Suc k)
  show ?case
  proof (cases "glen rs - 1 > y \<and> lastVisible (rs ! nat (glen rs - 1)) = 0")
    case False
    then show ?thesis using Suc.prems by (auto simp: wp_simps)
  next
    case True
    have "wp (strip_blank k y (butlast rs)) (\<lambda>(rs', left). y < glen rs'
       \<and> left \<le> k \<and> length rs' + (k - left) = length (butlast rs) \<and> rs' = take (length rs') (butlast rs))"
      using True Suc.prems by (intro Suc.IH) auto
    then have "wp (strip_blank k y (butlast rs)) (\<lambda>(rs', left). y < glen rs'
       \<and> left \<le> Suc k \<and> length rs' + (Suc k - left) = length rs \<and> rs' = take (length rs') rs)"
      using Suc.prems True by (elim wp_mono) (auto simp: butlast_conv_take min_def split: if_splits)
    moreover have "rs \<noteq> []" using Suc.prems by auto
    ultimately show ?thesis using True Suc.prems by (simp add: wp_simps)
  qed
qed simp

text \<open>The screen while its rows change: the cursors are only bounded by the rows present.\<close>

definition half_resized :: "int \<Rightarrow> int \<Rightarrow> screen \<Rightarrow> bool" where
  "half_resized w n s \<longleftrightarrow> list_all (row_wf w) (rows s) \<and> scrollback_wf n (scrollback s)
     \<and> 0 \<le> cx (cur s) \<and> cx (cur s) < w \<and> 0 \<le> cy (cur s) \<and> cy (cur s) < glen (rows s)
     \<and> 0 \<le> sv_x (saved s) \<and> sv_x (saved s) < w \<and> 0 \<le> sv_y (saved s)
     \<and> length (sv_g (saved s)) = 2 \<and> sv_charset (saved s) \<in> {0, 1}"

lemma resize_columns_half:
  assumes "screen_wf old h n s" "1 \<le> w"
  shows "half_resized w n (resize_columns old w s)" "glen (rows (resize_columns old w s)) = h"
proof -
  have "list_all (row_wf w) (map (\<lambda>r. fitted r w) (rows s))"
    using assms by (auto simp: screen_wf_def rows_wf_def list_all_iff row_wf_def [of old])
  with assms show "half_resized w n (resize_columns old w s)" "glen (rows (resize_columns old w s)) = h"
    by (auto simp: half_resized_def resize_columns_def screen_wf_def rows_wf_def cursor_wf_def saved_wf_def)
qed

lemma pull_back_half:
  assumes "half_resized w n s" "1 \<le> w"
  shows "half_resized w n (fst (pull_back k w s))
     \<and> glen (rows (fst (pull_back k w s))) + int (snd (pull_back k w s)) = glen (rows s) + int k"
  using assms
proof (induction k arbitrary: s)
  case (Suc k)
  show ?case
  proof (cases "scrollback s \<noteq> [] \<and> cy (cur s) = glen (rows s) - 1")
    case False
    then show ?thesis using Suc.prems by auto
  next
    case True
    define s' where "s' = s\<lparr>scrollback := butlast (scrollback s),
         rows := fitted (last (scrollback s)) w # rows s,
         cur := (cur s)\<lparr>cy := cy (cur s) + 1\<rparr>,
         saved := (saved s)\<lparr>sv_y := sv_y (saved s) + 1\<rparr>\<rparr>"
    have "half_resized w n s'"
      using Suc.prems True by (auto simp: half_resized_def s'_def scrollback_wf_def list_all_iff
          dest: in_set_butlastD)
    from Suc.IH [OF this Suc.prems(2)] True show ?thesis
      by (simp add: s'_def [symmetric]) (simp add: s'_def)
  qed
qed simp

lemma half_resized_shrunk:
  assumes "half_resized w n s" "scrollback_wf n sb" "rs = take k (rows s)" "cy (cur s) < glen rs"
    and "int m < glen rs"
  shows "half_resized w n (s\<lparr>scrollback := sb, rows := drop m rs,
    cur := (cur s)\<lparr>cy := max 0 (cy (cur s) - int m)\<rparr>,
    saved := (saved s)\<lparr>sv_y := max 0 (sv_y (saved s) - int m)\<rparr>\<rparr>)"
  using assms by (auto simp: half_resized_def intro: list_all_takeI list_all_dropI)

lemma resize_rows_half:
  assumes half: "half_resized w (sb_bound p t) (deref p t)" and wh: "1 \<le> w" "1 \<le> h"
    and n: "0 \<le> maxScrollback t"
  shows "\<exists>s'. resize_rows p w h useSb t = Some (assign p s' t) \<and> half_resized w (sb_bound p t) s'
     \<and> glen (rows s') = h"
proof -
  define s where "s = deref p t"
  consider "h = glen (rows s)" | "h > glen (rows s)" | "h < glen (rows s)" by linarith
  then show ?thesis
  proof cases
    case 1
    then show ?thesis
      using half by (intro exI [of _ s]) (simp add: resize_rows_def s_def [symmetric] Let_def, simp add: s_def)
  next
    case 2
    define d where "d = (if useSb then pull_back (nat (h - glen (rows s))) w s else (s, nat (h - glen (rows s))))"
    have d: "half_resized w (sb_bound p t) (fst d)" "glen (rows (fst d)) + int (snd d) = h"
      using pull_back_half [OF half wh(1), of "nat (h - glen (rows s))"] half 2
      by (auto simp: d_def s_def)
    then have "half_resized w (sb_bound p t) ((fst d)\<lparr>rows := rows (fst d) @ replicate (snd d) (newRow w)\<rparr>)"
      using wh by (auto simp: half_resized_def)
    with 2 d show ?thesis
      by (auto simp: resize_rows_def s_def [symmetric] Let_def d_def [symmetric] case_prod_beta)
  next
    case 3
    have "0 \<le> cy (cur s)" "cy (cur s) < glen (rows s)" using half by (auto simp: half_resized_def s_def)
    from strip_blank_spec [OF this, of "nat (glen (rows s) - h)"]
    obtain rs m where st: "strip_blank (nat (glen (rows s) - h)) (cy (cur s)) (rows s) = Some (rs, m)"
      and rs: "cy (cur s) < glen rs" "m \<le> nat (glen (rows s) - h)" "rs = take (length rs) (rows s)"
        "length rs + (nat (glen (rows s) - h) - m) = length (rows s)"
      by (auto simp: wp_ex)
    have len: "glen rs = h + int m" using rs(2,4) 3 by auto
    define sb where "sb = (if useSb then fold (pushed (maxScrollback t) p) (take m rs) (scrollback s) else scrollback s)"
    have "list_all row_ok rs"
      by (subst rs(3)) (use half in \<open>auto simp: half_resized_def s_def intro!: list_all_takeI rows_wf_ok\<close>)
    then have sb: "scrollback_wf (sb_bound p t) sb" "scrollback_wf (sb_bound p t) (scrollback s)"
      using half fold_pushed_wf [OF n list_all_takeI, of rs p "scrollback s" m]
      by (auto simp: sb_def sb_bound_def half_resized_def s_def)
    show ?thesis
    proof (cases "m = 0")
      case True
      have "half_resized w (sb_bound p t) (s\<lparr>rows := rs\<rparr>)"
        using half rs(1,3) by (auto simp: half_resized_def s_def intro: list_all_takeI
            dest: arg_cong [of rs _ "list_all (row_wf w)", THEN iffD2])
      with True 3 st len show ?thesis
        by (auto simp: resize_rows_def s_def [symmetric] Let_def)
    next
      case False
      define s' where "s' = s\<lparr>scrollback := sb, rows := drop m rs,
        cur := (cur s)\<lparr>cy := max 0 (cy (cur s) - int m)\<rparr>,
        saved := (saved s)\<lparr>sv_y := max 0 (sv_y (saved s) - int m)\<rparr>\<rparr>"
      have half': "half_resized w (sb_bound p t) s'"
        unfolding s'_def by (rule half_resized_shrunk [OF half [folded s_def] sb(1) rs(3,1)]) (use len wh in auto)
      have "resize_rows p w h useSb t = Some (assign p s' t)"
        using False 3 st len wh
        by (simp add: resize_rows_def s_def [symmetric] Let_def gslice_def s'_def sb_def fold_pushScrollback)
      moreover have "glen (rows s') = h" using len wh by (simp add: s'_def)
      ultimately show ?thesis using half' by blast
    qed
  qed
qed

lemma resizeScreen_wf:
  assumes "screen_wf (t_w t) oldH (sb_bound p t) (deref p t)" "1 \<le> w" "1 \<le> h" "0 \<le> maxScrollback t"
  shows "\<exists>s'. resizeScreen p w h useSb t = Some (assign p s' t) \<and> screen_wf w h (sb_bound p t) s'"
proof -
  define u where "u = assign p (resize_columns (t_w t) w (deref p t)) t"
  have b: "sb_bound p u = sb_bound p t" "maxScrollback u = maxScrollback t"
    by (cases p; simp add: u_def sb_bound_def)+
  have "half_resized w (sb_bound p u) (deref p u)"
    using resize_columns_half [OF assms(1,2)] unfolding b by (simp add: u_def)
  from resize_rows_half [OF this assms(2,3), of useSb] assms(4) b
  obtain s where s: "resize_rows p w h useSb u = Some (assign p s u)" "half_resized w (sb_bound p t) s"
    "glen (rows s) = h" by auto
  let ?s = "s\<lparr>cur := (cur s)\<lparr>cy := if cy (cur s) \<ge> h then h - 1 else cy (cur s), pendingWrap := False\<rparr>,
       saved := (saved s)\<lparr>sv_y := if sv_y (saved s) \<ge> h then h - 1 else sv_y (saved s)\<rparr>,
       s_top := 0, s_bot := h - 1\<rparr>"
  have "resizeScreen p w h useSb t = Some (assign p ?s t)"
    using s(1) unfolding resizeScreen_def Let_def u_def [symmetric] by (simp add: u_def)
  moreover have "screen_wf w h (sb_bound p t) ?s"
    using s(2,3) assms(3)
    by (auto simp: half_resized_def screen_wf_def rows_wf_def cursor_wf_def saved_wf_def region_wf_def)
  ultimately show ?thesis by blast
qed

text \<open>The new terminal has the requested size, at least one column and one row.\<close>

lemma wf_Resize:
  assumes t: "wf_term w h P M t"
  shows "wp (Resize w' h' t) (wf_term (max 1 w') (max 1 h') P (\<lambda>_. True))"
proof -
  define x where "x = (if w' < 1 then 1 else w')"
  define y where "y = (if h' < 1 then 1 else h')"
  have xy: "1 \<le> x" "1 \<le> y" "x = max 1 w'" "y = max 1 h'" by (auto simp: x_def y_def)
  have tt: "wf_term w h P (\<lambda>_. True) t" using t by (rule wf_term_mono) auto
  note sz = wf_size [OF t] and n = wf_modes(4) [OF t]
  show ?thesis
  proof (cases "x = t_w t \<and> y = t_h t")
    case True
    with tt sz show ?thesis
      by (simp add: Resize_def Let_def x_def [symmetric] y_def [symmetric] flip: xy(3,4))
  next
    case False
    obtain m where m: "resizeScreen MainScr x y True t = Some (assign MainScr m t)"
      "screen_wf x y (sb_bound MainScr t) m"
      using resizeScreen_wf [of t h MainScr x y True] wf_screen [OF t, of MainScr] sz xy n by auto
    have alt: "deref AltScr (assign MainScr m t) = deref AltScr t" by simp
    obtain a where a: "resizeScreen AltScr x y False (assign MainScr m t) = Some (assign AltScr a (assign MainScr m t))"
      "screen_wf x y 0 a"
      using resizeScreen_wf [of "assign MainScr m t" h AltScr x y False] wf_screen [OF t, of AltScr] sz xy n
      by (auto simp: sb_bound_def alt)
    have "Resize w' h' t = Some (resetTabStops ((assign AltScr a (assign MainScr m t))
        \<lparr>t_w := x, t_h := y, blankRow := []\<rparr>))"
      unfolding Resize_def Let_def x_def [symmetric] y_def [symmetric] if_not_P [OF False] m(1) a(1)
      by (simp add: m(1) a(1))
    then show ?thesis
      using tt m(2) a(2) xy
      by (simp add: resetTabStops_def wf_term_def modes_wf_def assign_def sb_bound_def)
  qed
qed

lemmas wf_editing = wf_eraseInLine wf_eraseInDisplay wf_eraseChars wf_deleteChars wf_insertLines
  wf_deleteLines

end
