(* ===== verification/Emulator_Safety.thy ===== *)
theory Emulator_Safety
  imports Terminal_Safety
begin

text \<open>
  The escape-sequence dispatcher and the byte machine on a well-formed terminal: every sequence
  returns and keeps the invariant, for every byte string, and with it the whole of \<open>Write\<close>. The
  contract \<open>safe_machine\<close> is interpreted on the terminal and its three public mutators.
\<close>

section \<open>Parameters\<close>

lemma wp_param:
  "parser_wf p \<Longrightarrow> 0 \<le> i \<Longrightarrow> 1 \<le> d \<Longrightarrow> (\<And>n. 1 \<le> n \<Longrightarrow> wp (f n) Q) \<Longrightarrow> wp (param p i d \<bind> f) Q"
  by (rule wp_bindI [OF param_bounds]) auto

lemma wp_rawParam:
  "parser_wf p \<Longrightarrow> 0 \<le> i \<Longrightarrow> (\<And>n. n = d \<or> 0 \<le> n \<and> n \<le> 2 ^ 24 \<Longrightarrow> wp (f n) Q)
     \<Longrightarrow> wp (rawParam p i d \<bind> f) Q"
  by (rule wp_bindI [OF rawParam_bounds]) auto

lemma wp_raw: "parser_wf p \<Longrightarrow> 0 \<le> i \<Longrightarrow> (\<And>n. Q n) \<Longrightarrow> wp (rawParam p i d) Q"
  by (rule wp_mono [OF rawParam_bounds]) auto

lemma parser_wf_lengths:
  "parser_wf p \<Longrightarrow> glen (isSub p) = 32 \<and> glen (hasValue p) = 32 \<and> nParams p \<le> 32 \<and> 0 \<le> nParams p"
  by (simp add: parser_wf_def maxParams_def)

section \<open>SGR\<close>

text \<open>\<open>used\<close> counts parameters that exist.\<close>

lemma extendedColor_used:
  assumes "parser_wf p" "0 \<le> i"
  shows "wp (extendedColor p i) (\<lambda>(c, used). used = 0 \<or> (0 < used \<and> used \<le> 5 \<and> i + used < nParams p))"
  using assms parser_wf_lengths [OF assms(1)] unfolding extendedColor_def Let_def
  by (auto intro!: wp_raw simp: wp_simps)

lemma sgr_underline_wp: "parser_wf p \<Longrightarrow> 0 \<le> i \<Longrightarrow> wp (sgr_underline p i) (\<lambda>_. True)"
  using parser_wf_lengths [of p] unfolding sgr_underline_def
  by (auto intro!: wp_raw simp: wp_simps)

lemma sgr_param_used:
  assumes "parser_wf p" "0 \<le> i"
  shows "wp (sgr_param p i v st) (\<lambda>(st', used). 0 \<le> used \<and> used \<le> 5)"
proof -
  have ext: "wp (extendedColor p i \<bind> (\<lambda>(c, used). if used > 0 then Some (f c, used) else Some (st, 0)))
      (\<lambda>(st', used). 0 \<le> used \<and> used \<le> 5)" for f
    by (rule wp_bindI [OF extendedColor_used [OF assms]]) auto
  have ul: "wp (sgr_underline p i \<bind> (\<lambda>u. Some (f u, 0))) (\<lambda>(st', used). 0 \<le> used \<and> used \<le> (5 :: int))" for f
    by (rule wp_bindI [OF sgr_underline_wp [OF assms]]) simp
  show ?thesis
    unfolding sgr_param_def by (intro wp_ifI ext ul) simp_all
qed

lemma sgr_loop_returns: "parser_wf p \<Longrightarrow> 0 \<le> i \<Longrightarrow> wp (sgr_loop p i st) (\<lambda>_. True)"
proof (induction p i st rule: sgr_loop.induct)
  case (1 p i st)
  show ?case
  proof (cases "i < nParams p")
    case False
    then show ?thesis by (simp add: sgr_loop.simps)
  next
    case True
    have g: "gidx (isSub p) i = Some (isSub p ! nat i)"
      using True "1.prems" parser_wf_lengths [OF "1.prems"(1)] by simp
    show ?thesis
    proof (cases "isSub p ! nat i")
      case sub: True
      with True g "1.IH"(1) [OF True g] "1.prems" show ?thesis
        by (subst sgr_loop.simps) simp
    next
      case False
      have "wp (sgr_param p i v st \<bind> (\<lambda>(st', used). sgr_loop p (i + max 0 used + 1) st')) (\<lambda>_. True)"
        if v: "rawParam p i 0 = Some v" for v
      proof (rule wp_bindI)
        show "wp (sgr_param p i v st) (\<lambda>x. sgr_param p i v st = Some x)"
          using sgr_param_used [OF "1.prems", of v st] by (auto simp: wp_ex)
        fix x assume "sgr_param p i v st = Some x"
        then show "wp (case x of (st', used) \<Rightarrow> sgr_loop p (i + max 0 used + 1) st') (\<lambda>_. True)"
          using "1.IH"(2) [OF True g False v] "1.prems" by (cases x) auto
      qed
      then show ?thesis
        using True g False rawParam_bounds [OF "1.prems", of 0]
        by (subst sgr_loop.simps) (auto simp: wp_ex)
    qed
  qed
qed

lemma wf_sgr [wf_rules]:
  assumes "wf_term w h P M t" "parser_wf (t_p t)"
  shows "wp (sgr t) (wf_term w h P M)"
  using sgr_loop_returns [OF assms(2), of 0 "pen t"] assms(1)
  by (auto simp: sgr_def wp_ex)

section \<open>Modes\<close>

lemma each_param_inv:
  assumes "\<And>v t. I t \<Longrightarrow> I (f v t)" "\<And>t. I t \<Longrightarrow> parser_wf (t_p t)"
  shows "I t \<Longrightarrow> 0 \<le> i \<Longrightarrow> wp (each_param n i f t) I"
proof (induction n arbitrary: i t)
  case (Suc n)
  then show ?case
    unfolding each_param.simps by (intro wp_rawParam assms Suc.IH) auto
qed simp

lemma wf_set_mode [wf_rules]: "wf_term w h P M t \<Longrightarrow> wf_term w h P M (set_mode on v t)"
  by (simp add: set_mode_def)

lemma altActive_moveCursor [simp]: "altActive (moveCursor x y t) = altActive t"
  by (simp add: moveCursor_def Let_def)

lemma altActive_enter [simp]: "altActive (enterAltScreen sv t)"
  by (simp add: enterAltScreen_def Let_def)

lemma set_private_mode_alt: "altActive t \<Longrightarrow> altActive (set_private_mode True v t)"
  by (simp add: set_private_mode_def)

lemma wf_set_private_mode [wf_rules]:
  assumes "wf_term w h P M t" "on \<longrightarrow> altActive t \<or> (\<forall>s. M s)"
  shows "wf_term w h P M (set_private_mode on v t)"
  using assms unfolding set_private_mode_def
  by (auto intro: wf_moveCursor wf_enterAltScreen wf_leaveAltScreen)

lemma wf_setModes [wf_rules]:
  assumes "wf_term w h P M t" "parser_wf (t_p t)"
  shows "wp (setModes on t) (wf_term w h P M)"
proof -
  have "wp (setModes on t) (wf_term w h (\<lambda>p. P p \<and> p = t_p t) M)"
    unfolding setModes_def using assms
    by (intro each_param_inv wf_set_mode) (auto simp: wf_term_def)
  then show ?thesis by (rule wp_mono) (auto elim: wf_term_mono)
qed

lemma wf_setPrivateModes [wf_rules]:
  assumes "wf_term w h P M t" "parser_wf (t_p t)" "altActive t \<or> (\<forall>s. M s)"
  shows "wp (setPrivateModes on t) (wf_term w h P M)"
proof -
  have "wp (setPrivateModes on t) (\<lambda>u. wf_term w h (\<lambda>p. P p \<and> p = t_p t) M u
      \<and> (on \<longrightarrow> altActive u \<or> (\<forall>s. M s)))"
    unfolding setPrivateModes_def using assms
    by (intro each_param_inv conjI wf_set_private_mode)
      (auto simp: wf_term_def set_private_mode_alt)
  then show ?thesis by (rule wp_mono) (auto elim: wf_term_mono)
qed

section \<open>CSI, ESC and OSC\<close>

lemma wf_print_n:
  "wf_term w h P M t \<Longrightarrow> 2 \<le> w \<Longrightarrow> wp (print_n n r t) (wf_term w h P M)"
  by (induction n arbitrary: t) (auto simp: wp_bind intro!: wp_mono [OF wf_print])

lemma wf_set_x:
  assumes "wf_term w h P M t" "0 \<le> x" "x < w"
  shows "wf_term w h P M (set_x x t)" "wf_term w h P M (set_x_nowrap x t)"
  using assms wf_cur [OF assms(1)] by (auto simp: set_x_def set_x_nowrap_def intro!: wf_set_curI)

lemma wf_region_set:
  assumes t: "wf_term w h P M t" and "0 \<le> a" "a \<le> b" "b < h"
  shows "wf_term w h P M (set_act ((act t)\<lparr>s_top := a, s_bot := b\<rparr>) t)"
  using wf_act [OF t] assms(2-)
  by (intro wf_set_act t) (simp add: screen_wf_def region_wf_def)

lemma wf_csiDispatch:
  assumes t: "wf_term w h P M t" and p: "parser_wf (t_p t)" and "2 \<le> w"
    and M: "altActive t \<or> (\<forall>s. M s)"
  shows "wp (csiDispatch b t) (wf_term w h P M)"
proof -
  note c = wf_cur [OF t] and sz = wf_size [OF t]
  have ich: "wp (insertCells n t \<bind> (\<lambda>t. Some (set_cur ((tcur t)\<lparr>pendingWrap := False\<rparr>) t))) (wf_term w h P M)"
    if "1 \<le> n" for n
    using that by (intro wp_bindI [OF wf_insertCells [OF t]]) (auto dest: wf_nowrap)
  have right: "wf_term w h P M (set_x_nowrap (if x > t_w t - 1 then t_w t - 1 else x) t)" if "0 \<le> x" for x
    using that t sz by (intro wf_set_x) auto
  have left: "wf_term w h P M (set_x_nowrap (if x < 0 then 0 else x) t)" if "x < w" for x
    using that t sz by (intro wf_set_x) auto
  have rep: "wp (print_n k r t) (wf_term w h P M)" for k r
    using assms by (intro wf_print_n)
  have ts: "wp (gset (tabStops t) (cx (tcur t)) v \<bind> (\<lambda>ts. Some (t\<lparr>tabStops := ts\<rparr>))) (wf_term w h P M)" for v
    using wf_modes(3) [OF t] c t by (simp add: wp_simps wf_tabStops)
  have ts0: "wf_term w h P M (t\<lparr>tabStops := map (\<lambda>_. False) (tabStops t)\<rparr>)"
    using wf_modes(3) [OF t] t by (simp add: wf_tabStops)
  have sd: "wp (scrollDown n t) (wf_term w h P M)" for n
    by (rule wp_mono [OF wf_scrollDown [OF t]]) simp
  note rules = wp_ifI sd wp_param [OF p] wp_rawParam [OF p] t ich rep ts
    wf_softReset wf_setPrivateModes wf_setModes wf_cursorUp wf_cursorDown wf_moveCursor
    wf_tabForward wf_tabBackward wf_eraseInDisplay wf_eraseInLine wf_insertLines wf_deleteLines wf_deleteChars
    wf_scrollUp wf_eraseChars wf_sgr wf_saveCursor wf_restoreCursor p M wf_set_x
  show ?thesis
    unfolding csiDispatch_def Let_def
    by (intro rules) (use c sz(1) in \<open>simp_all add: t p M right left ts0 rep wf_region_set wf_moveCursor wf_cursorUp wf_cursorDown
          wf_set_x wf_softReset wf_saveCursor wf_restoreCursor\<close>)
qed

lemma wf_decaln_rows:
  "wf_term w h P M t \<Longrightarrow> 0 \<le> y \<Longrightarrow> y + int n \<le> h \<Longrightarrow> wp (decaln_rows n y t) (wf_term w h P M)"
proof (induction n arbitrary: y t)
  case (Suc n)
  note sz = wf_size [OF Suc.prems(1)]
  have e: "cell_ok (zeroCell\<lparr>Ch := [0x45], Width := 1\<rparr>)"
    by (simp add: cell_ok_def)
  show ?case
    unfolding decaln_rows.simps wp_bind
  proof (rule wp_get_row [OF Suc.prems(1)])
    fix r assume "row_wf w r"
    note r = row_wfD [OF this]
    show "wp (gfill (cells r) 0 (t_w t) (zeroCell\<lparr>Ch := [0x45], Width := 1\<rparr>)) (\<lambda>cs.
        wp (set_row y \<lparr>cells = cs, wrapped = False\<rparr> t) (\<lambda>t. wp (decaln_rows n (y + 1) t) (wf_term w h P M)))"
      using Suc.prems sz
      by (intro wp_gfill_all [OF r(2,1) e] wp_mono [OF wf_set_row [OF Suc.prems(1)]] Suc.IH)
        (auto simp: row_wf_def row_ok_def)
  qed (use Suc.prems in auto)
qed simp

lemma wf_escDispatch:
  assumes t: "wf_term w h P M t" and "P zeroParser"
  shows "wp (escDispatch imd b t) (wf_term w h P M)"
proof -
  note c = wf_cur [OF t] and sz = wf_size [OF t] and m = wf_modes [OF t]
  have nel: "wp (lineFeed t \<bind> (\<lambda>t. Some (set_x 0 t))) (wf_term w h P M)"
    using sz by (intro wp_bindI [OF wf_lineFeed [OF t]]) (simp add: wf_set_x)
  have hts: "wp (gset (tabStops t) (cx (tcur t)) True \<bind> (\<lambda>ts. Some (t\<lparr>tabStops := ts\<rparr>))) (wf_term w h P M)"
    using m(3) c t by (simp add: wp_simps wf_tabStops)
  have scs: "wp (gset (charsets t) i v \<bind> (\<lambda>cs. Some (t\<lparr>charsets := cs\<rparr>))) (wf_term w h P M)"
    if "i = 0 \<or> i = 1" for i v
    using that m(2) t by (auto simp: wp_simps wf_charsets)
  have aln: "wp (decaln_rows (nat (t_h t)) 0 t \<bind> (\<lambda>t. Some (moveCursor 0 0 (set_act ((act t)
      \<lparr>s_top := 0, s_bot := t_h t - 1\<rparr>) t)))) (wf_term w h P M)"
    using sz by (intro wp_bindI [OF wf_decaln_rows [OF t]])
      (auto intro!: wf_moveCursor wf_region_set dest: wf_size)
  show ?thesis
    unfolding escDispatch_def
    by (intro wp_ifI nel hts scs aln wf_lineFeed wf_reverseIndex t)
      (simp_all add: t assms(2) wf_saveCursor wf_restoreCursor wf_fullReset)
qed

lemma wf_dispatchOSC [wf_rules]: "wf_term w h P M t \<Longrightarrow> wf_term w h P M (dispatchOSC t)"
  by (simp add: dispatchOSC_def Let_def split: option.splits)

section \<open>Bytes\<close>

text \<open>The parser between two bytes of one write: no bytes are held back.\<close>

definition parser_idle :: "parser \<Rightarrow> bool" where
  "parser_idle p \<longleftrightarrow> parser_wf p \<and> nPart p = 0"

lemma wf_parser:
  "wf_term w h P M t \<Longrightarrow> P' p \<Longrightarrow> wf_term w h P' M (t\<lparr>t_p := p\<rparr>)"
  by (simp add: wf_term_def modes_wf_def)

lemma wf_parserD: "wf_term w h P M t \<Longrightarrow> P (t_p t)"
  by (simp add: wf_term_def)

lemma idle_updates [simp]:
  "parser_idle (p\<lparr>pstate := st\<rparr>) = parser_idle p" "parser_idle (p\<lparr>intermediate := i\<rparr>) = parser_idle p"
  "parser_idle (p\<lparr>priv := i\<rparr>) = parser_idle p"
  by (simp_all add: parser_idle_def parser_wf_def)

lemma idle_osc: "parser_idle p \<Longrightarrow> glen bs \<le> 4099 \<Longrightarrow> parser_idle (p\<lparr>osc := bs\<rparr>)"
  by (simp add: parser_idle_def parser_wf_def maxOSCBytes_def)

lemma idle_resetCSI [simp]: "parser_idle p \<Longrightarrow> parser_idle (resetCSI p)"
  by (simp add: parser_idle_def resetCSI_wf)

lemma idle_zero [simp]: "parser_idle zeroParser"
  by (simp add: parser_idle_def zeroParser_wf) (simp add: zeroParser_def)

abbreviation wf_idle :: "int \<Rightarrow> int \<Rightarrow> (screen \<Rightarrow> bool) \<Rightarrow> Terminal \<Rightarrow> bool" where
  "wf_idle w h M \<equiv> wf_term w h parser_idle M"

lemma wf_idle_states [simp]:
  assumes t: "wf_idle w h M t"
  shows "wf_idle w h M (set_pstate st t)" "wf_idle w h M (set_intermediate b st t)"
    "wf_idle w h M (begin_escape t)"
  using wf_parserD [OF t]
  by (auto simp: set_pstate_def set_intermediate_def begin_escape_def intro!: wf_parser [OF t])

lemma wf_osc_append:
  assumes t: "wf_idle w h M t" and "length bs \<le> 4"
  shows "wf_idle w h M (osc_append bs t)"
  using wf_parserD [OF t] assms
  by (auto simp: osc_append_def maxOSCBytes_def intro!: wf_parser [OF t] idle_osc)

lemma wf_feedRune:
  assumes "wf_idle w h M t" "2 \<le> w"
  shows "wp (feedRune r t) (wf_idle w h M)"
  using wf_print [OF assms] wf_osc_append [OF assms(1) rune_bytes_length [THEN conjunct2]] assms(1)
  by (auto simp: feedRune_def split: parserState.split)

lemma wf_feed_control:
  assumes "wf_idle w h M t"
  shows "wp (feed_control b t) (wf_idle w h M)"
  using assms by (auto simp: feed_control_def Let_def wf_dispatchOSC intro!: wf_execute split: parserState.split)

lemma wf_with_parser:
  assumes t: "wf_idle w h M t" and "\<And>p. parser_wf p \<Longrightarrow> wp (f p) (\<lambda>p'. parser_wf p' \<and> pstate p' = pstate p \<and> nPart p' = nPart p)"
  shows "wp (with_parser f t) (wf_idle w h M)"
proof -
  have p: "parser_wf (t_p t)" "nPart (t_p t) = 0" using wf_parserD [OF t] by (simp_all add: parser_idle_def)
  show ?thesis
    unfolding with_parser_def
    by (rule wp_bindI [OF assms(2) [OF p(1)]]) (simp add: p parser_idle_def wf_parser [OF t])
qed

lemma wf_csi: 
  assumes t: "wf_idle w h M t" and "2 \<le> w" "altActive t \<or> (\<forall>s. M s)"
  shows "wp (csiDispatch b (set_pstate st t)) (wf_idle w h M)"
  using wf_parserD [OF wf_idle_states(1) [OF t, of st]] assms(2,3) wf_idle_states(1) [OF t, of st]
  by (intro wf_csiDispatch) (simp_all add: parser_idle_def, simp add: set_pstate_def)

lemma wf_feed_csi_param:
  assumes t: "wf_idle w h M t" and "2 \<le> w" "altActive t \<or> (\<forall>s. M s)"
  shows "wp (feed_csi_param b t) (wf_idle w h M)"
  using assms wf_with_parser [OF t pushDigit_wf] wf_with_parser [OF t nextParam_wf]
  by (simp add: feed_csi_param_def wf_csi)

lemma altActive_set_pstate [simp]: "altActive (set_pstate st t) = altActive t"
  by (simp add: set_pstate_def)

lemma altActive_begin_escape [simp]: "altActive (begin_escape t) = altActive t"
  by (simp add: begin_escape_def)

lemma wf_feed_csi_entry:
  assumes t: "wf_idle w h M t" and "2 \<le> w" "altActive t \<or> (\<forall>s. M s)"
  shows "wp (feed_csi_entry b t) (wf_idle w h M)"
  using assms wf_parserD [OF t] wf_feed_csi_param [OF wf_idle_states(1) [OF t]]
  by (simp add: feed_csi_entry_def wf_csi wf_parser [OF t])

lemma wf_feed_escape:
  assumes t: "wf_idle w h M t"
  shows "wp (feed_escape b t) (wf_idle w h M)"
  using t wf_parserD [OF t] idle_osc [of "t_p t" "[]"]
  by (auto simp: feed_escape_def intro!: wf_escDispatch wf_parser [OF t])

lemma wf_feedByte:
  assumes t: "wf_idle w h M t" and "2 \<le> w" "altActive t \<or> (\<forall>s. M s)"
  shows "wp (feedByte b t) (wf_idle w h M)"
proof -
  have 1: "wp (feed_escape_intermediate b t) (wf_idle w h M)" "wp (feed_csi_intermediate b t) (wf_idle w h M)"
    using assms wf_parserD [OF t]
    by (auto simp: feed_escape_intermediate_def feed_csi_intermediate_def
        intro!: wf_escDispatch wf_csi wf_parser [OF t])
  show ?thesis
    using assms 1 wf_osc_append [OF t, of "[b]"]
    by (auto simp: feedByte_def Let_def wf_feed_control wf_print wf_feed_escape wf_feed_csi_entry
        wf_feed_csi_param wf_dispatchOSC split: parserState.split)
qed

section \<open>Write\<close>

text \<open>
  Between two writes, the bytes held back are an incomplete rune that started in a text state.
\<close>

definition carry_ok :: "parser \<Rightarrow> bool" where
  "carry_ok p \<longleftrightarrow> parser_wf p \<and>
     (0 < nPart p \<longrightarrow> text_state (pstate p) \<and> \<not> FullRune (take (nat (nPart p)) (partial p)))"

definition held :: "parser \<Rightarrow> bytes" where
  "held p = take (nat (nPart p)) (partial p)"

lemma carry_idle: "parser_idle p \<Longrightarrow> carry_ok p"
  by (simp add: parser_idle_def carry_ok_def)

lemma wf_carry_idle: "wf_idle w h M t \<Longrightarrow> wf_term w h carry_ok M t"
  by (erule wf_term_mono) (simp_all add: carry_idle)

lemma carry_cut:
  assumes p: "parser_idle p" and "text_state (pstate p)" and nf: "\<not> FullRune data"
  shows "carry_ok (p\<lparr>partial := take 4 data @ drop (length data) (partial p), nPart := min 4 (glen data)\<rparr>)"
  using assms not_FullRune_length [OF nf]
  by (auto simp: carry_ok_def parser_idle_def parser_wf_def min_def)

lemma wf_write_loop:
  assumes "2 \<le> w" "\<forall>s. M s"
  shows "wf_idle w h M t \<Longrightarrow> wp (write_loop data t) (wf_term w h carry_ok M)"
proof (induction data t rule: write_loop.induct)
  case (1 data t)
  note t = "1.prems"
  show ?case
  proof (cases data)
    case Nil
    then show ?thesis using t by (simp add: write_loop.simps wf_carry_idle)
  next
    case (Cons b rest)
    let ?plain = "b < 0x80 \<or> \<not> text_state (pstate (t_p t))"
    consider ?plain | "\<not> ?plain" "DecodeRune data = (RuneError, 1)" "\<not> FullRune data"
      | "\<not> ?plain" "DecodeRune data = (RuneError, 1)" "FullRune data"
      | "\<not> ?plain" "DecodeRune data \<noteq> (RuneError, 1)" by blast
    then show ?thesis
    proof cases
      case a: 1
      have "wp (feedByte b t \<bind> write_loop rest) (wf_term w h carry_ok M)"
      proof (rule wp_bind_Some [OF wf_feedByte [OF t assms(1)]])
        show "altActive t \<or> (\<forall>s. M s)" using assms(2) by blast
      qed (rule "1.IH"(1) [OF Cons a])
      with a Cons show ?thesis by (subst write_loop.simps) simp
    next
      case 2
      then have "wf_term w h carry_ok M (t\<lparr>t_p := (t_p t)\<lparr>partial := take 4 data @ drop (length data)
          (partial (t_p t)), nPart := min 4 (glen data)\<rparr>\<rparr>)"
        using wf_parserD [OF t] by (intro wf_parser [OF t] carry_cut) auto
      with 2 Cons show ?thesis by (subst write_loop.simps) simp
    next
      case 3
      with "1.IH"(2) [OF Cons] t Cons show ?thesis by (subst write_loop.simps) simp
    next
      case 4
      have "wp (feedRune (fst (DecodeRune data)) t \<bind> write_loop (drop (max 1 (snd (DecodeRune data))) data))
          (wf_term w h carry_ok M)"
        using "1.IH"(3) [OF Cons 4] by (intro wp_bind_Some [OF wf_feedRune [OF t assms(1)]]) auto
      with 4 Cons show ?thesis by (subst write_loop.simps) simp
    qed
  qed
qed

lemma wf_feed_rest:
  assumes "2 \<le> w"
  shows "wf_idle w h M t \<Longrightarrow> wp (feed_rest bs t) (wf_idle w h M)"
proof (induction bs t rule: feed_rest.induct)
  case (1 bs t)
  show ?case
  proof (cases "bs = []")
    case True
    with "1.prems" show ?thesis by (simp add: feed_rest.simps)
  next
    case False
    then have "wp (feedRune (fst (DecodeRune bs)) t \<bind> feed_rest (drop (max 1 (snd (DecodeRune bs))) bs))
        (wf_idle w h M)"
      using "1.IH" [OF False] by (intro wp_bind_Some [OF wf_feedRune [OF "1.prems" assms]]) auto
    with False show ?thesis by (subst feed_rest.simps) simp
  qed
qed

text \<open>The carry grows until it is a full rune or the write is used up.\<close>

definition filled :: "parser \<Rightarrow> bytes \<Rightarrow> bytes \<times> parser \<Rightarrow> bool" where
  "filled p data = (\<lambda>(rest, q). \<exists>k. q = p\<lparr>partial := partial q, nPart := nPart p + int k\<rparr>
     \<and> length (partial q) = 4 \<and> k \<le> length data \<and> rest = drop k data \<and> nPart q \<le> 4
     \<and> held q = held p @ take k data \<and> (FullRune (held q) \<or> rest = [] \<and> nPart q \<le> 3)
     \<and> (0 < k \<longrightarrow> \<not> FullRune (held p @ take (k - 1) data)))"

lemma fill_partial_spec:
  assumes "parser_wf p" "\<not> FullRune (held p)"
  shows "wp (fill_partial data p) (filled p data)"
  using assms
proof (induction data arbitrary: p)
  case Nil
  then show ?case by (auto simp: parser_wf_def filled_def)
next
  case (Cons b rest)
  define q where "q = p\<lparr>partial := (partial p)[nat (nPart p) := b], nPart := nPart p + 1\<rparr>"
  have p: "0 \<le> nPart p" "nPart p \<le> 3" "length (partial p) = 4"
    using Cons.prems by (auto simp: parser_wf_def)
  then have hq: "held q = held p @ [b]"
    by (simp add: held_def q_def nat_add_distrib take_Suc_conv_app_nth)
  have sl: "gslice (partial q) 0 (nPart q) = Some (held q)"
    using p by (simp add: gslice_def q_def held_def)
  have eq: "fill_partial (b # rest) p = do { held \<leftarrow> gslice (partial q) 0 (nPart q);
      if FullRune held then Some (rest, q) else fill_partial rest q }"
    using p unfolding q_def fill_partial.simps Let_def by simp
  show ?case
  proof (cases "FullRune (held q)")
    case True
    have "filled p (b # rest) (rest, q)"
      unfolding filled_def split_conv
    proof (intro exI [of _ 1] conjI)
      show "q = p\<lparr>partial := partial q, nPart := nPart p + int 1\<rparr>" by (simp add: q_def)
      show "length (partial q) = 4" "nPart q \<le> 4" using p by (simp_all add: q_def)
    qed (use True hq Cons.prems(2) in simp_all)
    then show ?thesis unfolding eq sl using True by simp
  next
    case False
    have "length (held q) \<le> 3" using not_FullRune_length [OF False] .
    then have q3: "nPart q \<le> 3" using p by (simp add: held_def q_def min_def split: if_splits)
    have "parser_wf q" using Cons.prems p q3 by (simp add: parser_wf_def q_def)
    from Cons.IH [OF this False] obtain r s where
      rs: "fill_partial rest q = Some (r, s)" "filled q rest (r, s)"
      by (auto simp: wp_ex)
    from rs(2) obtain k where k: "s = q\<lparr>partial := partial s, nPart := nPart q + int k\<rparr>"
        "length (partial s) = 4" "k \<le> length rest" "r = drop k rest" "nPart s \<le> 4"
        "held s = held q @ take k rest" "FullRune (held s) \<or> r = [] \<and> nPart s \<le> 3"
        "0 < k \<longrightarrow> \<not> FullRune (held q @ take (k - 1) rest)"
      unfolding filled_def split_conv by blast
    have "filled p (b # rest) (r, s)"
      unfolding filled_def split_conv
    proof (intro exI [of _ "Suc k"] conjI)
      show "s = p\<lparr>partial := partial s, nPart := nPart p + int (Suc k)\<rparr>"
        by (subst k(1)) (simp add: q_def)
      show "FullRune (held s) \<or> r = [] \<and> nPart s \<le> 3" by (rule k(7))
      show "0 < Suc k \<longrightarrow> \<not> FullRune (held p @ take (Suc k - 1) (b # rest))"
        using k(8) Cons.prems(2) False hq by (cases k) auto
      show "r = drop (Suc k) (b # rest)" by (simp add: k(4))
      show "held s = held p @ take (Suc k) (b # rest)" by (simp add: k(6) hq)
    qed (use k(2,3,5) in simp_all)
    then show ?thesis unfolding eq sl using False rs(1) by simp
  qed
qed

lemma wf_Write:
  assumes t: "wf_term w h carry_ok M t" and w: "2 \<le> w" and M: "\<forall>s. M s"
  shows "wp (Write data t) (wf_term w h carry_ok M)"
proof (cases "nPart (t_p t) > 0")
  case False
  have "carry_ok (t_p t)" using t by (rule wf_parserD)
  with False have "parser_idle (t_p t)" by (auto simp: carry_ok_def parser_idle_def parser_wf_def)
  then have "wf_idle w h M t" using t by (simp add: wf_term_def)
  from wf_write_loop [OF w M this] False show ?thesis by (simp add: Write_def)
next
  case True
  define p where "p = t_p t"
  have p: "carry_ok p" "parser_wf p" "text_state (pstate p)" "\<not> FullRune (held p)" "0 < nPart p"
    using wf_parserD [OF t] True by (simp_all add: p_def carry_ok_def held_def)
  from fill_partial_spec [OF p(2,4), of data] obtain rest q where
    fp: "fill_partial data p = Some (rest, q)" "filled p data (rest, q)"
    by (auto simp: wp_ex)
  from fp obtain k where
    q: "fill_partial data p = Some (rest, q)" "q = p\<lparr>partial := partial q, nPart := nPart p + int k\<rparr>"
      "length (partial q) = 4" "nPart q \<le> 4" "FullRune (held q) \<or> rest = [] \<and> nPart q \<le> 3"
    unfolding filled_def split_conv by blast
  have np: "nPart q = nPart p + int k" "pstate q = pstate p" by (subst q(2), simp)+
  then have n: "0 < nPart q" using p(5) by simp
  have sl: "gslice (partial q) 0 (nPart q) = Some (held q)"
    using q(3,4) n by (simp add: gslice_def held_def)
  have wfq: "parser_wf (q\<lparr>nPart := j\<rparr>)" if "0 \<le> j" "j \<le> 3" for j
    by (subst q(2)) (use p(2) q(3) that in \<open>simp add: parser_wf_def\<close>)
  show ?thesis
  proof (cases "FullRune (held q)")
    case False
    with q(5) have "nPart q \<le> 3" by simp
    from wfq [OF _ this] n have "parser_wf q" by simp
    with False have "carry_ok q" using p(3) np by (simp add: carry_ok_def held_def)
    then show ?thesis
      using True q(1) sl False by (simp add: Write_def p_def [symmetric] wf_parser [OF t])
  next
    case full: True
    obtain r size where d: "DecodeRune (held q) = (r, size)" by (cases "DecodeRune (held q)") auto
    have "held q \<noteq> []" using full by auto
    from DecodeRune_size [OF this d] have size: "size \<le> length (held q)" "length (held q) \<le> nat (nPart q)"
      by (auto simp: held_def)
    have rest: "\<exists>b. gslice (partial q) (int size) (nPart q) = Some b"
      using size q(3,4) n by (auto simp: gslice_def)
    have "wf_idle w h M (t\<lparr>t_p := q\<lparr>nPart := 0\<rparr>\<rparr>)"
      using wfq [of 0] by (intro wf_parser [OF t]) (simp add: parser_idle_def)
    then have "wp (feedRune r (t\<lparr>t_p := q\<lparr>nPart := 0\<rparr>\<rparr>) \<bind> (\<lambda>t. feed_rest bs t \<bind> write_loop rest))
        (wf_term w h carry_ok M)" for bs
      by (intro wp_bindI [OF wf_feedRune [OF _ w]] wp_bindI [OF wf_feed_rest [OF w]] wf_write_loop w M)
    with rest show ?thesis
      using True q(1) sl full d by (auto simp: Write_def p_def [symmetric])
  qed
qed

section \<open>The terminal as a safe machine\<close>

text \<open>The public operations that change a terminal.\<close>

datatype vt_event = WriteEv bytes | ResizeEv int int | ScrollbackEv int

primrec vt_step :: "vt_event \<Rightarrow> Terminal \<Rightarrow> Terminal option" where
  "vt_step (WriteEv bs) t = Write bs t"
| "vt_step (ResizeEv w h) t = Resize w h t"
| "vt_step (ScrollbackEv n) t = Some (SetMaxScrollback n t)"

definition vt_wf :: "Terminal \<Rightarrow> bool" where
  "vt_wf t \<longleftrightarrow> 2 \<le> t_w t \<and> wf_term (t_w t) (t_h t) carry_ok (\<lambda>_. True) t"

primrec vt_admissible :: "vt_event \<Rightarrow> bool" where
  "vt_admissible (WriteEv bs) = True"
| "vt_admissible (ResizeEv w h) = (2 \<le> w)"
| "vt_admissible (ScrollbackEv n) = True"

lemma vt_wfI: "wf_term w h carry_ok (\<lambda>_. True) t \<Longrightarrow> 2 \<le> w \<Longrightarrow> vt_wf t"
  using wf_size [of w h carry_ok "\<lambda>_. True" t] by (simp add: vt_wf_def)

lemma vt_New: "2 \<le> w \<Longrightarrow> vt_wf (New w h)"
  using New_wf [of carry_ok w h "\<lambda>_. True"]
  by (intro vt_wfI [of "max 1 w" "max 1 h"]) (simp_all add: carry_idle)

lemma vt_step_safe:
  assumes "vt_wf t" "vt_admissible e"
  shows "wp (vt_step e t) vt_wf"
proof (cases e)
  case (WriteEv bs)
  with assms show ?thesis
    by (auto simp: vt_wf_def [of t] intro!: wp_mono [OF wf_Write] vt_wfI)
next
  case (ResizeEv w h)
  with assms show ?thesis
    by (auto simp: vt_wf_def [of t] intro!: wp_mono [OF wf_Resize] vt_wfI)
next
  case (ScrollbackEv n)
  with assms show ?thesis
    by (auto simp: vt_wf_def [of t] intro!: vt_wfI wf_SetMaxScrollback)
qed

interpretation vt: safe_machine vt_wf vt_admissible vt_step
  by unfold_locales (rule vt_step_safe)

end
