(* ===== verification/Sgr.thy ===== *)
theory Sgr
  imports Emulator_Safety
begin

unbundle bit_operations_syntax

text \<open>
  What an SGR sequence means, as a function of the list of its parameters: \<open>sgr_spec\<close> reads the
  list once, with no index and no array. \<open>sgr_loop_spec\<close> shows that the code's index loop over
  the parser's arrays computes it.
\<close>

section \<open>The parameters as a list\<close>

text \<open>One parameter: its value, whether it has digits, whether a colon introduced it.\<close>

type_synonym csi_param = "int \<times> bool \<times> bool"

definition view :: "parser \<Rightarrow> csi_param list" where
  "view p = map (\<lambda>i. (params p ! i, hasValue p ! i, isSub p ! i)) [0..<nat (nParams p)]"

definition value_or :: "int \<Rightarrow> csi_param \<Rightarrow> int" where
  "value_or d q = (case q of (v, has, sub) \<Rightarrow> if has then v else d)"

definition is_sub :: "csi_param \<Rightarrow> bool" where
  "is_sub q = snd (snd q)"

text \<open>The value of the parameter at position \<open>k\<close>, if there is one.\<close>

definition value_at :: "csi_param list \<Rightarrow> nat \<Rightarrow> int \<Rightarrow> int" where
  "value_at qs k d = (if k < length qs then value_or d (qs ! k) else d)"

definition sub_at :: "csi_param list \<Rightarrow> nat \<Rightarrow> bool" where
  "sub_at qs k \<longleftrightarrow> k < length qs \<and> is_sub (qs ! k)"

section \<open>The meaning of a parameter\<close>

text \<open>
  The colour of a 38, 48 or 58, from the parameters that follow it, and how many of them it
  uses; 0 for none. With colons the colour space may be given, empty, before the components.
\<close>

definition color_spec :: "csi_param list \<Rightarrow> (Color \<times> nat)" where
  "color_spec qs =
    (let mode = value_at qs 0 (- 1) in
     if mode = 5 then
       let n = value_at qs 1 0
       in if 1 < length qs \<and> 0 \<le> n \<and> n \<le> 255 then (IndexedColor (of_int n), 2) else (0, 0)
     else if mode = 2 then
       let k = (if sub_at qs 0 \<and> sub_at qs 4 \<and> \<not> fst (snd (qs ! 1)) then 2 else 1);
           r = value_at qs k 0; g = value_at qs (k + 1) 0; b = value_at qs (k + 2) 0
       in if k + 2 < length qs \<and> r \<le> 255 \<and> g \<le> 255 \<and> b \<le> 255
          then (RGBColor (of_int r) (of_int g) (of_int b), k + 3) else (0, 0)
     else (0, 0))"

definition underline_spec :: "csi_param list \<Rightarrow> Underline" where
  "underline_spec qs = (if sub_at qs 0 then underline_of (value_at qs 0 1) else UnderlineSingle)"

definition with_color :: "(Color \<Rightarrow> Style) \<Rightarrow> Style \<Rightarrow> csi_param list \<Rightarrow> Style \<times> nat" where
  "with_color f st qs = (let (c, k) = color_spec qs in if 0 < k then (f c, k) else (st, 0))"

definition sgr_one :: "int \<Rightarrow> csi_param list \<Rightarrow> Style \<Rightarrow> Style \<times> nat" where
  "sgr_one v qs st =
    (if v = 38 then with_color (\<lambda>c. st\<lparr>Fg := c\<rparr>) st qs
     else if v = 48 then with_color (\<lambda>c. st\<lparr>Bg := c\<rparr>) st qs
     else if v = 58 then with_color (\<lambda>c. st\<lparr>Ul := c\<rparr>) st qs
     else (if v = 0 then zeroStyle
       else if v = 1 then set_attr AttrBold st
       else if v = 2 then set_attr AttrDim st
       else if v = 3 then set_attr AttrItalic st
       else if v = 4 then st\<lparr>Underline := underline_spec qs\<rparr>
       else if v = 5 \<or> v = 6 then set_attr AttrBlink st
       else if v = 7 then set_attr AttrInverse st
       else if v = 8 then set_attr AttrHidden st
       else if v = 9 then set_attr AttrStrike st
       else if v = 21 then st\<lparr>Underline := UnderlineDouble\<rparr>
       else if v = 22 then clear_attr (AttrBold OR AttrDim) st
       else if v = 23 then clear_attr AttrItalic st
       else if v = 24 then st\<lparr>Underline := UnderlineNone\<rparr>
       else if v = 25 then clear_attr AttrBlink st
       else if v = 27 then clear_attr AttrInverse st
       else if v = 28 then clear_attr AttrHidden st
       else if v = 29 then clear_attr AttrStrike st
       else if 30 \<le> v \<and> v \<le> 37 then st\<lparr>Fg := IndexedColor (of_int (v - 30))\<rparr>
       else if v = 39 then st\<lparr>Fg := 0\<rparr>
       else if 40 \<le> v \<and> v \<le> 47 then st\<lparr>Bg := IndexedColor (of_int (v - 40))\<rparr>
       else if v = 49 then st\<lparr>Bg := 0\<rparr>
       else if v = 59 then st\<lparr>Ul := 0\<rparr>
       else if 90 \<le> v \<and> v \<le> 97 then st\<lparr>Fg := IndexedColor (of_int (v - 82))\<rparr>
       else if 100 \<le> v \<and> v \<le> 107 then st\<lparr>Bg := IndexedColor (of_int (v - 92))\<rparr>
       else st, 0))"

fun sgr_spec :: "csi_param list \<Rightarrow> Style \<Rightarrow> Style" where
  "sgr_spec [] st = st"
| "sgr_spec (q # qs) st =
    (if is_sub q then sgr_spec qs st
     else let (st', k) = sgr_one (value_or 0 q) qs st in sgr_spec (drop k qs) st')"

section \<open>The loop computes it\<close>

lemma length_view [simp]: "length (view p) = nat (nParams p)"
  by (simp add: view_def)

lemma view_nth: "i < nat (nParams p) \<Longrightarrow> view p ! i = (params p ! i, hasValue p ! i, isSub p ! i)"
  by (simp add: view_def)

lemma rawParam_view:
  assumes "parser_wf p" "0 \<le> i"
  shows "rawParam p i d = Some (value_at (view p) (nat i) d)"
  using assms parser_wf_lengths [OF assms(1)]
  by (auto simp: rawParam_def value_at_def value_or_def view_nth parser_wf_def)

lemma isSub_view:
  assumes "parser_wf p" "0 \<le> i" "i < nParams p"
  shows "gidx (isSub p) i = Some (sub_at (view p) (nat i))"
  using assms parser_wf_lengths [OF assms(1)]
  by (simp add: sub_at_def is_sub_def view_nth)

lemma value_at_drop: "value_at (drop n qs) k d = value_at qs (n + k) d"
  by (auto simp: value_at_def)

lemma sub_at_drop: "sub_at (drop n qs) k \<longleftrightarrow> sub_at qs (n + k)"
  by (auto simp: sub_at_def)

lemma of_nat_cases:
  assumes "0 \<le> (i :: int)" obtains n where "i = int n" 
  using assms by (metis zero_le_imp_eq_int)

lemma extendedColor_spec:
  assumes "parser_wf p" "int n < nParams p"
  shows "extendedColor p (int n) = Some (map_prod id int (color_spec (drop (Suc n) (view p))))"
proof -
  note len = parser_wf_lengths [OF assms(1)]
  have raw: "rawParam p (int n + int k) d = Some (value_at (drop (Suc n) (view p)) (k - 1) d)" if "0 < k" for k d
    using that rawParam_view [OF assms(1), of "int n + int k" d]
    by (simp add: value_at_drop nat_add_distrib)
  have sub: "gidx (isSub p) (int n + int k) = Some (sub_at (drop (Suc n) (view p)) (k - 1))"
    if "0 < k" "int n + int k < nParams p" for k
    using that isSub_view [OF assms(1), of "int n + int k"]
    by (simp add: sub_at_drop nat_add_distrib)
  have has: "gidx (hasValue p) (int n + int k) = Some (fst (snd (drop (Suc n) (view p) ! (k - 1))))"
    if "0 < k" "int n + int k < nParams p" for k
    using that len assms(2) by (auto simp: view_nth nat_add_distrib)
  define qs where "qs = drop (Suc n) (view p)"
  have l: "int n + int k < nParams p \<longleftrightarrow> k \<le> length qs" if "0 < k" for k
    using that len assms(2) by (auto simp: qs_def)
  have sub0: "(if int n + 1 < nParams p then gidx (isSub p) (int n + 1) else Some False) = Some (sub_at qs 0)"
    using sub [of 1] l [of 1] by (auto simp: qs_def sub_at_def)
  have empty: "(if sub_at qs 0 \<and> int n + 5 < nParams p then do {
                   sub5 \<leftarrow> gidx (isSub p) (int n + 5);
                   if sub5 then do { hv \<leftarrow> gidx (hasValue p) (int n + 2); Some (\<not> hv) }
                   else Some False
                 }
                 else Some False) = Some (sub_at qs 0 \<and> sub_at qs 4 \<and> \<not> fst (snd (qs ! 1)))"
    using sub [of 5] has [of 2] l [of 5] by (auto simp: qs_def sub_at_def)
  have nz: "0 \<le> value_at qs k 0" for k
    using assms(1) len by (auto simp: qs_def value_at_drop value_at_def value_or_def view_nth parser_wf_def
        list_all_length param_ok_def)
  have raw1: "rawParam p (int n + 1) d = Some (value_at qs 0 d)" for d
    using raw [of 1] by (simp add: qs_def)
  define em where "em \<longleftrightarrow> sub_at qs 0 \<and> sub_at qs 4 \<and> \<not> fst (snd (qs ! 1))"
  have raws: "rawParam p (int n + 2) d = Some (value_at qs 1 d)" "rawParam p (int n + 3) d = Some (value_at qs 2 d)"
    "rawParam p (int n + 4) d = Some (value_at qs 3 d)" "rawParam p (int n + 5) d = Some (value_at qs 4 d)" for d
    using raw [of 2] raw [of 3] raw [of 4] raw [of 5] by (simp_all add: qs_def)
  have le: "nParams p \<le> int n + 2 \<longleftrightarrow> \<not> 1 < length qs" "nParams p \<le> int n + 4 \<longleftrightarrow> \<not> 3 < length qs"
    "nParams p \<le> int n + 5 \<longleftrightarrow> \<not> 4 < length qs"
    using l [of 2] l [of 4] l [of 5] by auto
  have ix: "int n + 2 + 2 = int n + 4" "int n + 3 + 2 = int n + 5" "int n + 2 + 1 = int n + 3" "int n + 3 + 1 = int n + 4"
    by simp_all
  show ?thesis
  proof (cases em)
    case True
    then show ?thesis
      unfolding extendedColor_def sub0 bind.bind_lunit raw1 empty Let_def qs_def [symmetric] color_spec_def
        em_def [symmetric] if_P [OF True] ix raws le
      using nz [of 1] by (auto simp: not_le)
  next
    case False
    then show ?thesis
      unfolding extendedColor_def sub0 bind.bind_lunit raw1 empty Let_def qs_def [symmetric] color_spec_def
        em_def [symmetric] if_not_P [OF False] ix raws le
      using nz [of 1] by (auto simp: not_le numeral_2_eq_2 numeral_3_eq_3)
  qed
qed

lemma sgr_underline_spec:
  assumes "parser_wf p" "int n < nParams p"
  shows "sgr_underline p (int n) = Some (underline_spec (drop (Suc n) (view p)))"
  using isSub_view [OF assms(1), of "int n + 1"] rawParam_view [OF assms(1), of "int n + 1" 1]
  by (auto simp: sgr_underline_def underline_spec_def sub_at_drop value_at_drop nat_add_distrib sub_at_def)

lemma sgr_param_spec:
  assumes "parser_wf p" "int n < nParams p"
  shows "sgr_param p (int n) v st = Some (map_prod id int (sgr_one v (drop (Suc n) (view p)) st))"
proof -
  have m: "v - 90 + 8 = v - 82" "v - 100 + 8 = v - 92" by simp_all
  consider "v = 38" | "v = 48" | "v = 58" | "v \<noteq> 38" "v \<noteq> 48" "v \<noteq> 58" by blast
  then show ?thesis
  proof cases
    case 4
    then show ?thesis
      unfolding sgr_param_def sgr_one_def sgr_underline_spec [OF assms] m by simp
  qed (simp_all add: sgr_param_def sgr_one_def with_color_def extendedColor_spec [OF assms] split: prod.splits)
qed

theorem sgr_loop_spec:
  "parser_wf p \<Longrightarrow> sgr_loop p (int n) st = Some (sgr_spec (drop n (view p)) st)"
proof (induction "length (view p) - n" arbitrary: n st rule: less_induct)
  case less
  show ?case
  proof (cases "int n < nParams p")
    case False
    then show ?thesis by (simp add: sgr_loop.simps)
  next
    case True
    let ?qs = "drop (Suc n) (view p)"
    have dr: "drop n (view p) = view p ! n # ?qs"
      using True by (simp add: Cons_nth_drop_Suc)
    have nn: "n < nat (nParams p)" using True by linarith
    then have "sub_at (view p) n = is_sub (view p ! n)" by (simp add: sub_at_def)
    then have sub: "gidx (isSub p) (int n) = Some (is_sub (view p ! n))"
      using isSub_view [OF less.prems, of "int n"] True by (simp only: nat_int of_nat_0_le_iff)
    have val: "rawParam p (int n) 0 = Some (value_or 0 (view p ! n))"
      using rawParam_view [OF less.prems, of "int n" 0] nn by (simp add: value_at_def)
    obtain st' k where one: "sgr_one (value_or 0 (view p ! n)) ?qs st = (st', k)" by fastforce
    have step: "sgr_loop p (int (Suc n + j)) st'' = Some (sgr_spec (drop (Suc n + j) (view p)) st'')" for j st''
      using True less.prems by (intro less.hyps) auto
    show ?thesis
      using True sub val one step [of 0] step [of k] sgr_param_spec [OF less.prems True]
      by (subst sgr_loop.simps) (simp add: dr add.commute)
  qed
qed

lemma sgr_view:
  assumes "parser_wf (t_p t)"
  shows "sgr t = Some (t\<lparr>pen := (if view (t_p t) = [] then zeroStyle else sgr_spec (view (t_p t)) (pen t))\<rparr>)"
proof -
  have "view (t_p t) = [] \<longleftrightarrow> nParams (t_p t) = 0"
    using parser_wf_lengths [OF assms] by (simp flip: length_0_conv) auto
  with sgr_loop_spec [OF assms, of 0 "pen t"] show ?thesis by (simp add: sgr_def)
qed

section \<open>What a segment of the list does\<close>

text \<open>Colours and styles a terminal can hold.\<close>

definition color_ok :: "Color \<Rightarrow> bool" where
  "color_ok c \<longleftrightarrow> c = 0 \<or> c \<in> range IndexedColor \<or> (\<exists>r g b. c = RGBColor r g b)"

definition style_ok :: "Style \<Rightarrow> bool" where
  "style_ok st \<longleftrightarrow> color_ok (Fg st) \<and> color_ok (Bg st) \<and> color_ok (Ul st) \<and> Attrs st AND 0x80 = 0"

lemma color_okI [simp]: "color_ok 0" "color_ok (IndexedColor i)" "color_ok (RGBColor r g b)"
  by (auto simp: color_ok_def)

lemma style_ok_zero [simp]: "style_ok zeroStyle"
  by (simp add: style_ok_def zeroStyle_def)

lemma color_spec_ok: "color_ok (fst (color_spec qs))"
  by (simp add: color_spec_def Let_def)

lemma set_attr_ok: "style_ok st \<Longrightarrow> a AND 0x80 = 0 \<Longrightarrow> style_ok (set_attr a st)"
  by (simp add: style_ok_def set_attr_def word_ao_dist)

lemma clear_attr_ok: "style_ok st \<Longrightarrow> style_ok (clear_attr a st)"
  by (simp add: style_ok_def clear_attr_def and.assoc and.commute [of "NOT a"])
   (simp flip: and.assoc)

lemma style_ok_updates [simp]:
  "style_ok st \<Longrightarrow> color_ok c \<Longrightarrow> style_ok (st\<lparr>Fg := c\<rparr>)" "style_ok st \<Longrightarrow> color_ok c \<Longrightarrow> style_ok (st\<lparr>Bg := c\<rparr>)"
  "style_ok st \<Longrightarrow> color_ok c \<Longrightarrow> style_ok (st\<lparr>Ul := c\<rparr>)" "style_ok st \<Longrightarrow> style_ok (st\<lparr>Underline := u\<rparr>)"
  by (simp_all add: style_ok_def)

lemma sgr_one_ok: "style_ok st \<Longrightarrow> style_ok (fst (sgr_one v qs st))"
proof -
  obtain c k where "color_spec qs = (c, k)" "color_ok c"
    using color_spec_ok [of qs] by (cases "color_spec qs") auto
  then show "style_ok st \<Longrightarrow> ?thesis"
    by (simp add: sgr_one_def with_color_def set_attr_ok clear_attr_ok attr_defs)
qed

lemma sgr_spec_ok: "style_ok st \<Longrightarrow> style_ok (sgr_spec qs st)"
proof (induction qs st rule: sgr_spec.induct)
  case (2 q qs st)
  then show ?case using sgr_one_ok [of st "value_or 0 q" qs] by (auto split: prod.splits)
qed simp
text \<open>The parameters \<open>n\<close> and \<open>:n\<close>.\<close>

definition plain :: "int \<Rightarrow> csi_param" where "plain n = (n, True, False)"
definition subp :: "int \<Rightarrow> csi_param" where "subp n = (n, True, True)"

lemma param_simps [simp]:
  "value_or d (plain n) = n" "value_or d (subp n) = n" "\<not> is_sub (plain n)" "is_sub (subp n)"
  by (simp_all add: plain_def subp_def value_or_def is_sub_def)

lemma sub_at_0 [simp]: "\<not> sub_at [] k" "sub_at (q # qs) 0 = is_sub q" "sub_at (q # qs) (Suc k) = sub_at qs k"
  by (simp_all add: sub_at_def)

lemma value_at_simps [simp]:
  "value_at (q # qs) 0 d = value_or d q" "value_at (q # qs) (Suc k) d = value_at qs k d"
  by (simp_all add: value_at_def)

lemma uint_byte_le: "uint (b :: byte) \<le> 255"
  using uint_byte_bounds(2) [of b] by linarith

lemma color_indexed:
  "color_spec (plain 5 # plain (uint i) # rest) = (IndexedColor i, 2)" for i :: byte
  using uint_byte_le [of i] by (simp add: color_spec_def Let_def)

lemma color_rgb:
  "color_spec (plain 2 # plain (uint r) # plain (uint g) # plain (uint b) # rest) = (RGBColor r g b, 4)"
  for r g b :: byte
  using uint_byte_le [of r] uint_byte_le [of g] uint_byte_le [of b]
  by (simp add: color_spec_def Let_def numeral_2_eq_2 numeral_3_eq_3)

lemma byte_masks: "(0xff :: 'a::len word) = mask 8"
  by (simp add: mask_eq_exp_minus_1)

lemma bit_byte: "bit (i :: byte) n \<Longrightarrow> n < 8"
  using bit_imp_le_length [of i n] by simp

lemma bit_kinds:
  "bit colorKindIndexed n \<longleftrightarrow> n = 24" "bit colorKindRGB n \<longleftrightarrow> n = 25"
  "bit colorKindMask n \<longleftrightarrow> 24 \<le> n \<and> n < 32"
proof -
  have k: "colorKindIndexed = 2 ^ 24" "colorKindRGB = 2 ^ 25"
    by (simp_all add: colorKindIndexed_def colorKindRGB_def)
  show "bit colorKindIndexed n \<longleftrightarrow> n = 24" "bit colorKindRGB n \<longleftrightarrow> n = 25"
    by (simp_all only: k bit_exp_iff) (auto simp: bit_exp_iff)
  show "bit colorKindMask n \<longleftrightarrow> 24 \<le> n \<and> n < 32"
    unfolding colorKindMask_def byte_masks by (auto simp: bit_simps)
qed

lemma IndexedColor_fields:
  "IndexedColor i AND colorKindMask = colorKindIndexed" "unat (IndexedColor i AND 0xff) = unat i"
  "IndexedColor i \<noteq> 0"
proof -
  have 1: "(ucast i :: Color) AND colorKindMask = 0" "colorKindIndexed AND colorKindMask = colorKindIndexed"
    "colorKindIndexed AND 0xff = 0" "(ucast i :: Color) AND 0xff = ucast i"
    unfolding byte_masks
    by (auto intro!: bit_word_eqI simp: bit_simps bit_kinds dest!: bit_byte)
  then show 2: "IndexedColor i AND colorKindMask = colorKindIndexed" "unat (IndexedColor i AND 0xff) = unat i"
    using unsigned_less [of i, where ?'a = nat]
    by (simp_all add: IndexedColor_def word_ao_dist unsigned_ucast_eq take_bit_nat_eq_self)
  show "IndexedColor i \<noteq> 0" using 2(1) by (auto simp: colorKindIndexed_def)
qed

lemma RGBColor_fields:
  "RGBColor r g b AND colorKindMask = colorKindRGB" "drop_bit 16 (RGBColor r g b) AND 0xff = ucast r"
  "drop_bit 8 (RGBColor r g b) AND 0xff = ucast g" "RGBColor r g b AND 0xff = ucast b" "RGBColor r g b \<noteq> 0"
proof -
  show 1: "RGBColor r g b AND colorKindMask = colorKindRGB"
    unfolding RGBColor_def byte_masks
    by (auto intro!: bit_word_eqI simp: bit_simps bit_kinds dest: bit_byte dest!: bit_byte)
  show "drop_bit 16 (RGBColor r g b) AND 0xff = ucast r" "drop_bit 8 (RGBColor r g b) AND 0xff = ucast g"
    "RGBColor r g b AND 0xff = ucast b"
    unfolding RGBColor_def byte_masks
    by (auto intro!: bit_word_eqI simp: bit_simps bit_kinds dest: bit_byte dest!: bit_byte)
  show "RGBColor r g b \<noteq> 0" using 1 by (auto simp: colorKindRGB_def)
qed
section \<open>The list a style is written as\<close>

definition attr_params :: "Style \<Rightarrow> Attr \<Rightarrow> int \<Rightarrow> csi_param list" where
  "attr_params st a n = (if Attrs st AND a \<noteq> 0 then [plain n] else [])"

definition underline_params :: "Underline \<Rightarrow> csi_param list" where
  "underline_params u = (case u of
       UnderlineNone \<Rightarrow> [] | UnderlineSingle \<Rightarrow> [plain 4] | UnderlineDouble \<Rightarrow> [plain 21]
     | UnderlineCurly \<Rightarrow> [plain 4, subp 3] | UnderlineDotted \<Rightarrow> [plain 4, subp 4]
     | UnderlineDashed \<Rightarrow> [plain 4, subp 5])"

definition color_params :: "Color \<Rightarrow> int \<Rightarrow> int \<Rightarrow> int \<Rightarrow> csi_param list" where
  "color_params c ext base bright =
    (if c AND colorKindMask = colorKindIndexed then
       let i = int (unat (c AND 0xff))
       in if base \<noteq> 0 \<and> i < 8 then [plain (base + i)]
          else if bright \<noteq> 0 \<and> i \<ge> 8 \<and> i < 16 then [plain (bright + i - 8)]
          else [plain ext, plain 5, plain i]
     else if c AND colorKindMask = colorKindRGB then
       [plain ext, plain 2, plain (uint (drop_bit 16 c AND 0xff)), plain (uint (drop_bit 8 c AND 0xff)),
        plain (uint (c AND 0xff))]
     else [])"

definition style_params :: "Style \<Rightarrow> csi_param list" where
  "style_params st = [plain 0] @ attr_params st AttrBold 1 @ attr_params st AttrDim 2
     @ attr_params st AttrItalic 3 @ underline_params (Underline st)
     @ attr_params st AttrBlink 5 @ attr_params st AttrInverse 7
     @ attr_params st AttrHidden 8 @ attr_params st AttrStrike 9
     @ color_params (Fg st) 38 30 90 @ color_params (Bg st) 48 40 100 @ color_params (Ul st) 58 0 0"

text \<open>None of the segments starts with a sub-parameter.\<close>

lemma heads [simp]:
  "sub_at (attr_params st a n @ qs) 0 \<longleftrightarrow> Attrs st AND a = 0 \<and> sub_at qs 0"
  "\<not> sub_at qs 0 \<Longrightarrow> \<not> sub_at (underline_params u @ qs) 0"
  "\<not> sub_at qs 0 \<Longrightarrow> \<not> sub_at (color_params c e b br @ qs) 0"
  by (auto simp: attr_params_def underline_params_def color_params_def Let_def split: Underline.splits)

definition attr_codes :: "(Attr \<times> int) set" where
  "attr_codes = {(AttrBold, 1), (AttrDim, 2), (AttrItalic, 3), (AttrBlink, 5), (AttrInverse, 7),
     (AttrHidden, 8), (AttrStrike, 9)}"

lemma sgr_one_attr:
  "sgr_one 1 qs s = (set_attr AttrBold s, 0)" "sgr_one 2 qs s = (set_attr AttrDim s, 0)"
  "sgr_one 3 qs s = (set_attr AttrItalic s, 0)" "sgr_one 5 qs s = (set_attr AttrBlink s, 0)"
  "sgr_one 7 qs s = (set_attr AttrInverse s, 0)" "sgr_one 8 qs s = (set_attr AttrHidden s, 0)"
  "sgr_one 9 qs s = (set_attr AttrStrike s, 0)"
  by (simp_all add: sgr_one_def)

definition when_attr :: "Style \<Rightarrow> Attr \<Rightarrow> Style \<Rightarrow> Style" where
  "when_attr st a s = (if Attrs st AND a \<noteq> 0 then set_attr a s else s)"

lemma attr_seg:
  assumes "(a, n) \<in> attr_codes"
  shows "sgr_spec (attr_params st a n @ qs) s = sgr_spec qs (when_attr st a s)"
proof -
  have "sgr_one n qs s = (set_attr a s, 0)"
    using assms unfolding attr_codes_def by (auto simp only: insert_iff prod.inject empty_iff sgr_one_attr)
  then show ?thesis by (simp add: attr_params_def when_attr_def)
qed

lemma underline_seg:
  "\<not> sub_at qs 0 \<Longrightarrow> sgr_spec (underline_params u @ qs) s
     = sgr_spec qs (if u = UnderlineNone then s else s\<lparr>Underline := u\<rparr>)"
  by (cases u) (simp_all add: underline_params_def sgr_one_def underline_spec_def underline_of_def)

lemma zero_seg: "sgr_spec (plain 0 # qs) s = sgr_spec qs zeroStyle"
  by (simp add: sgr_one_def)

text \<open>The colour a 38, 48 or 58 sets.\<close>

definition set_color :: "int \<Rightarrow> Color \<Rightarrow> Style \<Rightarrow> Style" where
  "set_color n c s = (if n = 38 then s\<lparr>Fg := c\<rparr> else if n = 48 then s\<lparr>Bg := c\<rparr> else s\<lparr>Ul := c\<rparr>)"

definition color_codes :: "(int \<times> int \<times> int) set" where
  "color_codes = {(38, 30, 90), (48, 40, 100), (58, 0, 0)}"

lemma sgr_spec_plain: "sgr_spec (plain n # qs) s = (case sgr_one n qs s of (s', k) \<Rightarrow> sgr_spec (drop k qs) s')"
  by (simp add: Let_def)

lemma sgr_one_ext:
  "n = 38 \<or> n = 48 \<or> n = 58 \<Longrightarrow> sgr_one n qs s = with_color (\<lambda>c. set_color n c s) s qs"
  by (elim disjE; simp add: sgr_one_def set_color_def)

lemma sgr_one_palette:
  "0 \<le> i \<Longrightarrow> i < 8 \<Longrightarrow> sgr_one (30 + i) qs s = (s\<lparr>Fg := IndexedColor (of_int i)\<rparr>, 0)"
  "0 \<le> i \<Longrightarrow> i < 8 \<Longrightarrow> sgr_one (40 + i) qs s = (s\<lparr>Bg := IndexedColor (of_int i)\<rparr>, 0)"
  "8 \<le> i \<Longrightarrow> i < 16 \<Longrightarrow> sgr_one (90 + i - 8) qs s = (s\<lparr>Fg := IndexedColor (of_int i)\<rparr>, 0)"
  "8 \<le> i \<Longrightarrow> i < 16 \<Longrightarrow> sgr_one (100 + i - 8) qs s = (s\<lparr>Bg := IndexedColor (of_int i)\<rparr>, 0)"
  by (simp_all add: sgr_one_def)

lemma color_params_indexed:
  "color_params (IndexedColor i) ext base bright = (if base \<noteq> 0 \<and> uint i < 8 then [plain (base + uint i)]
     else if bright \<noteq> 0 \<and> uint i \<ge> 8 \<and> uint i < 16 then [plain (bright + uint i - 8)]
     else [plain ext, plain 5, plain (uint i)])"
  unfolding color_params_def IndexedColor_fields Let_def by simp

lemma color_params_rgb:
  "color_params (RGBColor r g b) ext base bright
     = [plain ext, plain 2, plain (uint r), plain (uint g), plain (uint b)]"
proof -
  have "uint (ucast x :: Color) = uint x" for x :: byte
    using less_trans [OF uint_byte_bounds(2) [of x], of "2 ^ 32"]
    by (simp add: unsigned_ucast_eq take_bit_int_eq_self_iff)
  then show ?thesis
    unfolding color_params_def RGBColor_fields by (simp add: colorKindRGB_def colorKindIndexed_def)
qed

lemma color_seg:
  assumes "color_ok c" and codes: "(n, base, bright) \<in> color_codes"
  shows "sgr_spec (color_params c n base bright @ qs) s = sgr_spec qs (if c = 0 then s else set_color n c s)"
proof -
  have n: "n = 38 \<or> n = 48 \<or> n = 58" using codes by (auto simp: color_codes_def)
  note ext = sgr_spec_plain sgr_one_ext [OF n] with_color_def
  consider "c = 0" | i where "c = IndexedColor i" | r g b where "c = RGBColor r g b"
    using assms by (auto simp: color_ok_def)
  then show ?thesis
  proof cases
    case 1
    then show ?thesis by (simp add: color_params_def colorKindIndexed_def colorKindRGB_def)
  next
    case 2
    have e: "sgr_spec (plain n # plain 5 # plain (uint i) # qs) s = sgr_spec qs (set_color n c s)"
      unfolding ext color_indexed by (simp add: 2 numeral_2_eq_2)
    note nz = IndexedColor_fields(3) [of i] and pal = sgr_one_palette [of "uint i"]
    consider "n = 38" "base = 30" "bright = 90" | "n = 48" "base = 40" "bright = 100"
      | "n = 58" "base = 0" "bright = 0" using codes by (auto simp: color_codes_def)
    then show ?thesis
    proof cases
      case 1
      with e nz pal(1,3) show ?thesis
        by (simp add: 2 color_params_indexed sgr_spec_plain set_color_def del: sgr_spec.simps)
    next
      case c2: 2
      with e nz pal(2,4) show ?thesis
        by (simp add: 2 color_params_indexed sgr_spec_plain set_color_def del: sgr_spec.simps)
    next
      case 3
      with e nz show ?thesis
        by (simp add: 2 color_params_indexed del: sgr_spec.simps)
    qed
  next
    case 3
    have e: "sgr_spec (plain n # plain 2 # plain (uint r) # plain (uint g) # plain (uint b) # qs) s
        = sgr_spec qs (set_color n c s)"
      unfolding ext color_rgb by (simp add: 3)
    then show ?thesis using RGBColor_fields(5) by (simp add: 3 color_params_rgb del: sgr_spec.simps)
  qed
qed
text \<open>The seven flags together are all the flags.\<close>

definition pick :: "Attr \<Rightarrow> Attr \<Rightarrow> Attr" where
  "pick x a = (if x AND a \<noteq> 0 then a else 0)"

lemma attrs_union:
  assumes "x AND 0x80 = 0"
  shows "pick x AttrBold OR pick x AttrDim OR pick x AttrItalic OR pick x AttrBlink
     OR pick x AttrInverse OR pick x AttrHidden OR pick x AttrStrike = x"
proof -
  have flag: "pick x (2 ^ k) = of_bool (bit x k) * 2 ^ k" for k
    by (simp add: pick_def and_exp_eq_0_iff_not_bit)
  have b: "bit (pick x (2 ^ k)) n \<longleftrightarrow> bit x k \<and> n = k \<and> k < 8" for k n
    by (auto simp: flag bit_exp_iff)
  have top: "\<not> bit x 7" using assms and_exp_eq_0_iff_not_bit [of x 7] by simp
  have pw: "AttrBold = 2 ^ 0" "AttrDim = 2 ^ 1" "AttrItalic = 2 ^ 2" "AttrBlink = 2 ^ 3" "AttrInverse = 2 ^ 4"
    "AttrHidden = 2 ^ 5" "AttrStrike = 2 ^ 6"
    by (simp_all add: attr_defs)
  show ?thesis
  proof (rule bit_word_eqI)
    fix n assume "n < LENGTH(8)"
    then have "n \<in> {0, 1, 2, 3, 4, 5, 6, 7}" by auto
    then show "bit (pick x AttrBold OR pick x AttrDim OR pick x AttrItalic OR pick x AttrBlink
       OR pick x AttrInverse OR pick x AttrHidden OR pick x AttrStrike) n \<longleftrightarrow> bit x n"
      unfolding pw bit_or_iff b using top by auto
  qed
qed

lemma when_attr_eq: "when_attr st a s = s\<lparr>Attrs := Attrs s OR pick (Attrs st) a\<rparr>"
  by (simp add: when_attr_def set_attr_def pick_def)

text \<open>Reading the list a style is written as gives the style back, whatever the pen was.\<close>

theorem sgr_spec_style_params:
  assumes "style_ok st"
  shows "sgr_spec (style_params st) s = st"
proof -
  have c: "color_ok (Fg st)" "color_ok (Bg st)" "color_ok (Ul st)" "Attrs st AND 0x80 = 0"
    using assms by (simp_all add: style_ok_def)
  have codes: "(AttrBold, 1) \<in> attr_codes" "(AttrDim, 2) \<in> attr_codes" "(AttrItalic, 3) \<in> attr_codes"
    "(AttrBlink, 5) \<in> attr_codes" "(AttrInverse, 7) \<in> attr_codes" "(AttrHidden, 8) \<in> attr_codes"
    "(AttrStrike, 9) \<in> attr_codes" by (simp_all add: attr_codes_def)
  have ccodes: "(38, 30, 90) \<in> color_codes" "(48, 40, 100) \<in> color_codes" "(58, 0, 0) \<in> color_codes"
    by (simp_all add: color_codes_def)
  have ul: "sgr_spec (color_params (Ul st) 58 0 0) s' = (if Ul st = 0 then s' else set_color 58 (Ul st) s')" for s'
    using color_seg [OF c(3) ccodes(3), of "[]"] by simp
  have nosub: "\<not> sub_at (color_params (Ul st) 58 0 0) 0"
    using heads(3) [of "[]" "Ul st" 58 0 0] by simp
  have res: "sgr_spec (style_params st) s =
    (let u = (zeroStyle\<lparr>Attrs := pick (Attrs st) AttrBold OR pick (Attrs st) AttrDim OR pick (Attrs st) AttrItalic
         OR pick (Attrs st) AttrBlink OR pick (Attrs st) AttrInverse OR pick (Attrs st) AttrHidden
         OR pick (Attrs st) AttrStrike, Underline := Underline st\<rparr>);
       u = (if Fg st = 0 then u else set_color 38 (Fg st) u);
       u = (if Bg st = 0 then u else set_color 48 (Bg st) u)
     in (if Ul st = 0 then u else set_color 58 (Ul st) u))"
    unfolding style_params_def append_Cons append_Nil zero_seg
    by (simp add: attr_seg codes underline_seg nosub color_seg [OF c(1) ccodes(1)] color_seg [OF c(2) ccodes(2)] ul
        when_attr_eq Let_def del: sgr_spec.simps)
      (simp add: zeroStyle_def set_color_def or.assoc)
  then show ?thesis
    unfolding attrs_union [OF c(4)] by (simp add: Let_def set_color_def zeroStyle_def)
qed
end
