(* ===== verification/Snapshot.thy ===== *)
theory Snapshot
  imports Emulator
begin

unbundle bit_operations_syntax

text \<open>
  \<open>src/internal/vterm/snapshot.go\<close>: the terminal state as an ANSI byte stream. The string
  builder is the list of bytes written so far; \<open>writeRow\<close> returns what it appends together with
  the pen and link it leaves. Literals are written as ASCII text with \<open>esc\<close> in front.
\<close>

definition ascii :: "string \<Rightarrow> bytes" where
  "ascii s = map of_char s"

definition esc :: "string \<Rightarrow> bytes" where
  "esc s = 0x1b # ascii s"

section \<open>SGR\<close>

definition appendColor :: "bytes list \<Rightarrow> Color \<Rightarrow> nat \<Rightarrow> nat \<Rightarrow> nat \<Rightarrow> bytes list" where
  "appendColor parts c ext base bright =
    (if c AND colorKindMask = colorKindIndexed then
       let i = unat (c AND 0xff)
       in if base \<noteq> 0 \<and> i < 8 then parts @ [Itoa (int (base + i))]
          else if bright \<noteq> 0 \<and> i \<ge> 8 \<and> i < 16 then parts @ [Itoa (int (bright + i - 8))]
          else parts @ [Itoa (int ext) @ ascii '';5;'' @ Itoa (int i)]
     else if c AND colorKindMask = colorKindRGB then
       parts @ [Itoa (int ext) @ ascii '';2;'' @ Itoa (uint (drop_bit 16 c AND 0xff)) @ ascii '';''
         @ Itoa (uint (drop_bit 8 c AND 0xff)) @ ascii '';'' @ Itoa (uint (c AND 0xff))]
     else parts)"

definition underline_parts :: "Underline \<Rightarrow> bytes list" where
  "underline_parts u = (case u of
       UnderlineNone \<Rightarrow> []
     | UnderlineSingle \<Rightarrow> [ascii ''4'']
     | UnderlineDouble \<Rightarrow> [ascii ''21'']
     | UnderlineCurly \<Rightarrow> [ascii ''4:3'']
     | UnderlineDotted \<Rightarrow> [ascii ''4:4'']
     | UnderlineDashed \<Rightarrow> [ascii ''4:5''])"

definition attr_part :: "Style \<Rightarrow> Attr \<Rightarrow> string \<Rightarrow> bytes list" where
  "attr_part st a s = (if Attrs st AND a \<noteq> 0 then [ascii s] else [])"

text \<open>\<open>strings.Join(parts, ";")\<close>\<close>

fun join_semi :: "bytes list \<Rightarrow> bytes" where
  "join_semi [] = []"
| "join_semi [p] = p"
| "join_semi (p # q # ps) = p @ [0x3b] @ join_semi (q # ps)"

definition sgr_parts :: "Style \<Rightarrow> bytes list" where
  "sgr_parts st =
    (let parts = [ascii ''0''] @ attr_part st AttrBold ''1'' @ attr_part st AttrDim ''2''
           @ attr_part st AttrItalic ''3'' @ underline_parts (Underline st)
           @ attr_part st AttrBlink ''5'' @ attr_part st AttrInverse ''7''
           @ attr_part st AttrHidden ''8'' @ attr_part st AttrStrike ''9'';
         parts = appendColor parts (Fg st) 38 30 90;
         parts = appendColor parts (Bg st) 48 40 100
     in if \<not> IsDefault (Ul st) then appendColor parts (Ul st) 58 0 0 else parts)"

definition sgrSequence :: "Style \<Rightarrow> bytes" where
  "sgrSequence st = (if IsZero st then esc ''[0m'' else esc ''['' @ join_semi (sgr_parts st) @ ascii ''m'')"

definition cup :: "int \<Rightarrow> int \<Rightarrow> bytes" where
  "cup x y = esc ''['' @ Itoa (y + 1) @ ascii '';'' @ Itoa (x + 1) @ ascii ''H''"

definition osc_link :: "bytes \<Rightarrow> bytes" where
  "osc_link l = esc '']8;;'' @ l @ esc [CHR 0x5c]"

section \<open>Rows and screens\<close>

text \<open>The loop over the cells of a row.\<close>

primrec write_cells :: "Cell list \<Rightarrow> Style \<Rightarrow> bytes \<Rightarrow> bytes \<times> Style \<times> bytes" where
  "write_cells [] st l = ([], st, l)"
| "write_cells (c # cs) st l =
    (if Width c = 0 then write_cells cs st l
     else
       let (out, st', l') = write_cells cs (CStyle c) (Link c)
       in ((if CStyle c \<noteq> st then sgrSequence (CStyle c) else [])
           @ (if Link c \<noteq> l then osc_link (Link c) else [])
           @ (if Ch c = [] then [0x20] else Ch c) @ out, st', l'))"

definition writeRow :: "row \<Rightarrow> bool \<Rightarrow> Style \<Rightarrow> bytes \<Rightarrow> bytes \<times> Style \<times> bytes" where
  "writeRow r full st l =
    write_cells (take (if full then length (cells r) else lastVisible r) (cells r)) st l"

text \<open>
  Rows in order; \<open>next\<close> of a row says whether the row below it continues it. After the last
  scrollback row comes the first row of the screen; after the last row of the screen, nothing.
\<close>

fun write_rows :: "row list \<Rightarrow> bool \<Rightarrow> bool \<Rightarrow> Style \<Rightarrow> bytes \<Rightarrow> bytes \<times> Style \<times> bytes" where
  "write_rows [] lastNext lastBreak st l = ([], st, l)"
| "write_rows (r # rs) lastNext lastBreak st l =
    (let next = (case rs of [] \<Rightarrow> lastNext | r' # _ \<Rightarrow> wrapped r');
         (out, st, l) = writeRow r next st l;
         brk = (if \<not> next \<and> (rs \<noteq> [] \<or> lastBreak) then [0x0d, 0x0a] else []);
         (rest, st, l) = write_rows rs lastNext lastBreak st l
     in (out @ brk @ rest, st, l))"

definition write_saved :: "savedCursor \<Rightarrow> bytes" where
  "write_saved sv = (if sv_valid sv
     then sgrSequence (sv_pen sv) @ cup (sv_x sv) (sv_y sv) @ esc ''7'' @ esc ''[0m'' else [])"

definition write_pending :: "int \<Rightarrow> screen \<Rightarrow> bytes option" where
  "write_pending w s =
    (if pendingWrap (cur s) then do {
       r \<leftarrow> gidx (rows s) (cy (cur s));
       lst \<leftarrow> gidx (cells r) (w - 1);
       Some (if Width lst = 1 \<and> Ch lst \<noteq> [] then sgrSequence (CStyle lst) @ Ch lst @ esc ''[0m'' else [])
     }
     else Some [])"

definition writeScreen :: "Terminal \<Rightarrow> scr \<Rightarrow> bool \<Rightarrow> bytes option" where
  "writeScreen t p withScrollback =
    (let s = deref p t in do {
       (sb, st, l) \<leftarrow> (if withScrollback \<and> scrollback s \<noteq> []
          then do { r0 \<leftarrow> gidx (rows s) 0;
                    Some (write_rows (scrollback s) (wrapped r0) True zeroStyle []) }
          else Some ([], zeroStyle, []));
       let (body, st, l) = write_rows (rows s) False False st l;
       pend \<leftarrow> write_pending (t_w t) s;
       Some (sb @ body
         @ (if \<not> IsZero st then esc ''[0m'' else [])
         @ (if l \<noteq> [] then osc_link [] else [])
         @ write_saved (saved s)
         @ (if s_top s \<noteq> 0 \<or> s_bot s \<noteq> t_h t - 1
            then esc ''['' @ Itoa (s_top s + 1) @ ascii '';'' @ Itoa (s_bot s + 1) @ ascii ''r'' else [])
         @ (if origin t \<and> p = t_s t then esc ''[?6h'' @ cup (cx (cur s)) (cy (cur s) - s_top s)
            else cup (cx (cur s)) (cy (cur s)))
         @ pend)
     })"

section \<open>The snapshot\<close>

definition emit_if :: "bool \<Rightarrow> bytes \<Rightarrow> bytes" where
  "emit_if b s = (if b then s else [])"

definition write_modes :: "Terminal \<Rightarrow> bytes option" where
  "write_modes t = do {
     c0 \<leftarrow> gidx (charsets t) 0;
     c1 \<leftarrow> gidx (charsets t) 1;
     Some (sgrSequence (pen t)
       @ emit_if (link t \<noteq> []) (osc_link (link t))
       @ emit_if (c0 = charsetDECGraphics) (esc ''(0'')
       @ emit_if (c1 = charsetDECGraphics) (esc '')0'')
       @ emit_if (glIndex t = 1) [0x0e]
       @ emit_if (insertMode t) (esc ''[4h'')
       @ emit_if (lineFeedNewline t) (esc ''[20h'')
       @ emit_if (cursorKeys t) (esc ''[?1h'')
       @ emit_if (\<not> autowrap t) (esc ''[?7l'')
       @ emit_if (bracketedPaste t) (esc ''[?2004h'')
       @ emit_if (focusEvents t) (esc ''[?1004h'')
       @ emit_if (mouse t \<noteq> 0) (esc ''[?'' @ Itoa (uint (mouse t)) @ ascii ''h'')
       @ emit_if (mouseEnc t \<noteq> 0) (esc ''[?'' @ Itoa (uint (mouseEnc t)) @ ascii ''h'')
       @ emit_if (cursorStyle t \<noteq> 0) (esc ''['' @ Itoa (cursorStyle t) @ ascii '' q'')
       @ emit_if (title t \<noteq> []) (esc '']0;'' @ title t @ esc [CHR 0x5c])
       @ emit_if (cursorVisible t) (esc ''[?25h''))
   }"

definition Snapshot :: "Terminal \<Rightarrow> bytes option" where
  "Snapshot t = do {
     main \<leftarrow> writeScreen t MainScr True;
     alt \<leftarrow> (if altActive t then writeScreen t AltScr False else Some []);
     modes \<leftarrow> write_modes t;
     Some (esc ''[0m'' @ esc ''[?7h'' @ esc ''[?6l'' @ esc ''[?25l'' @ main
       @ emit_if (altActive t) (esc ''[?1049h'' @ alt) @ modes)
   }"

end
