(* ===== verification/Csi_Feed.thy ===== *)
theory Csi_Feed
  imports Sgr Snapshot
begin

text \<open>
  Feeding the text of a control sequence to the byte machine. A list of parameters is written
  with \<open>render\<close>; \<open>csi_feed\<close> shows that \<open>ESC [\<close>, the rendered list and a final byte amount to
  one call of \<open>csiDispatch\<close> on a parser that holds exactly this list. The sequences the snapshot
  is made of (\<open>sgrSequence\<close>, \<open>cup\<close>, the modes) are instances.
\<close>

section \<open>ASCII text in a write\<close>

lemma write_loop_plain:
  "b < 0x80 \<or> \<not> text_state (pstate (t_p t)) \<Longrightarrow> write_loop (b # rest) t = feedByte b t \<bind> write_loop rest"
  by (subst write_loop.simps) simp

lemma write_loop_ascii:
  "list_all (\<lambda>b. b < 0x80) bs \<Longrightarrow> write_loop (bs @ rest) t = run feedByte bs t \<bind> write_loop rest"
  by (induction bs arbitrary: t) (auto simp: write_loop_plain cong: Option.bind_cong)

lemma write_loop_Nil [simp]: "write_loop [] t = Some t"
  by (simp add: write_loop.simps)

lemma bind_write_loop_Nil [simp]: "m \<bind> write_loop [] = m"
  by (cases m) simp_all

lemma bind_run_Nil [simp]: "m \<bind> run step [] = m"
  by (cases m) simp_all

lemma Write_ascii:
  "nPart (t_p t) = 0 \<Longrightarrow> list_all (\<lambda>b. b < 0x80) bs \<Longrightarrow> Write bs t = run feedByte bs t"
  using write_loop_ascii [of bs "[]" t] by (simp add: Write_def)

section \<open>The parser while it reads parameters\<close>

text \<open>The list read so far; before the first digit, one empty parameter.\<close>

definition open_view :: "parser \<Rightarrow> csi_param list" where
  "open_view p = (if nParams p = 0 then [(0, False, False)] else view p)"

definition reading :: "byte \<Rightarrow> csi_param list \<Rightarrow> parser \<Rightarrow> bool" where
  "reading pv qs p \<longleftrightarrow> parser_idle p \<and> pstate p = stateCSIParam \<and> \<not> poverflow p \<and> intermediate p = 0
     \<and> priv p = pv \<and> open_view p = qs
     \<and> (nParams p = 0 \<longrightarrow> params p ! 0 = 0 \<and> \<not> hasValue p ! 0 \<and> \<not> isSub p ! 0)"

definition put_in :: "parser \<Rightarrow> int \<Rightarrow> parser" where
  "put_in p n = p\<lparr>nParams := n\<rparr>"

lemma open_view_nParams:
  assumes "parser_wf p" "nParams p = 0 \<longrightarrow> params p ! 0 = 0 \<and> \<not> hasValue p ! 0 \<and> \<not> isSub p ! 0"
    and "q = (if nParams p = 0 then p\<lparr>nParams := 1\<rparr> else p)"
  shows "view q = open_view p" "1 \<le> nParams q" "nParams q \<le> 32" "params q = params p"
    "hasValue q = hasValue p" "isSub q = isSub p" "length (open_view p) = nat (nParams q)"
  using assms by (auto simp: open_view_def view_def parser_wf_def maxParams_def)

lemma view_nth_update:
  assumes "i < nat (nParams p)" "nat (nParams p) \<le> length (params p)" "nat (nParams p) \<le> length (hasValue p)"
  shows "view (p\<lparr>params := (params p)[i := v], hasValue := (hasValue p)[i := h]\<rparr>)
    = (view p)[i := (v, h, isSub p ! i)]"
  using assms by (intro nth_equalityI) (auto simp: view_def nth_list_update)

lemma reading_digit:
  assumes r: "reading pv (qs @ [(v, h, s)]) p"
  shows "wp (pushDigit b p) (reading pv (qs @ [(push_value v b, True, s)]))"
proof -
  define q where "q = (if nParams p = 0 then p\<lparr>nParams := 1\<rparr> else p)"
  have p: "parser_wf p" "\<not> poverflow p" "open_view p = qs @ [(v, h, s)]" "nPart p = 0"
    "nParams p = 0 \<longrightarrow> params p ! 0 = 0 \<and> \<not> hasValue p ! 0 \<and> \<not> isSub p ! 0"
    using r by (simp_all add: reading_def parser_idle_def)
  note q = open_view_nParams [OF p(1,5) q_def]
  define i where "i = nat (nParams q - 1)"
  have i: "i = length qs" "i < nat (nParams q)" using q p(3) by (auto simp: i_def)
  have last: "view q ! i = (v, h, s)" using q(1) p(3) i(1) by simp
  then have el: "params q ! i = v" "isSub q ! i = s" using view_nth [OF i(2)] by simp_all
  let ?p' = "q\<lparr>params := (params q)[i := push_value v b], hasValue := (hasValue q)[i := True]\<rparr>"
  have push: "pushDigit b p = Some ?p'"
    using pushDigit_eq [OF p(1,2) q_def, of i b] el by (simp add: i_def)
  have "view ?p' = (view q)[i := (push_value v b, True, s)]"
    using view_nth_update [OF i(2), where v = "push_value v b" and h = True] q el p(1) by (auto simp: parser_wf_def)
  also have "\<dots> = qs @ [(push_value v b, True, s)]"
    using q(1) p(3) i(1) by simp
  finally have view: "open_view ?p' = qs @ [(push_value v b, True, s)]"
    using q(2) by (simp add: open_view_def)
  have "parser_idle ?p'"
    using pushDigit_wf [OF p(1), of b] p(4) by (simp add: push parser_idle_def)
  then show ?thesis
    using view r q(2) unfolding push by (auto simp: reading_def q_def)
qed

lemma reading_next:
  assumes r: "reading pv qs p" and "length qs < 32"
  shows "wp (nextParam sub p) (reading pv (qs @ [(0, False, sub)]))"
proof -
  define q where "q = (if nParams p = 0 then p\<lparr>nParams := 1\<rparr> else p)"
  have p: "parser_wf p" "\<not> poverflow p" "open_view p = qs" "nPart p = 0"
    "nParams p = 0 \<longrightarrow> params p ! 0 = 0 \<and> \<not> hasValue p ! 0 \<and> \<not> isSub p ! 0"
    using r by (simp_all add: reading_def parser_idle_def)
  note q = open_view_nParams [OF p(1,5) q_def]
  define n where "n = nat (nParams q)"
  have n: "nParams q = int n" "n < 32" using q p(3) assms(2) by (auto simp: n_def)
  have len: "length (params q) = 32" "length (hasValue q) = 32" "length (isSub q) = 32"
    using p(1) q by (simp_all add: parser_wf_def)
  let ?p' = "q\<lparr>params := (params q)[n := 0], hasValue := (hasValue q)[n := False], isSub := (isSub q)[n := sub],
    nParams := nParams q + 1\<rparr>"
  have nx: "nextParam sub p = Some ?p'"
    using p(2) n len unfolding nextParam_def q_def [symmetric] Let_def
    by (simp add: maxParams_def)
  have nn: "nat (nParams q + 1) = Suc n" using n by simp
  have "view ?p' = view q @ [(0, False, sub)]"
    using n len by (auto simp: view_def nn nth_list_update intro!: nth_equalityI simp: nth_append)
  then have view: "open_view ?p' = qs @ [(0, False, sub)]"
    using q(1,2) p(3) by (simp add: open_view_def)
  have "parser_idle ?p'"
    using nextParam_wf [OF p(1), of sub] p(4) by (simp add: nx parser_idle_def)
  then show ?thesis
    using view r q(2) unfolding nx by (auto simp: reading_def q_def)
qed

lemma resetCSI_fresh:
  "parser_wf p \<Longrightarrow> params (resetCSI p) ! 0 = 0 \<and> \<not> hasValue (resetCSI p) ! 0 \<and> \<not> isSub (resetCSI p) ! 0"
  by (auto simp: resetCSI_def Let_def fill_prefix_def parser_wf_def maxParams_def nth_append min_def)

section \<open>Rendering a list of parameters\<close>

fun render_tail :: "csi_param list \<Rightarrow> bytes" where
  "render_tail [] = []"
| "render_tail (q # qs) = (if is_sub q then 0x3a else 0x3b) # Itoa (fst q) @ render_tail qs"

fun render :: "csi_param list \<Rightarrow> bytes" where
  "render [] = []"
| "render (q # qs) = Itoa (fst q) @ render_tail qs"

text \<open>A parameter with digits, inside the range the parser keeps.\<close>

definition shown :: "csi_param \<Rightarrow> bool" where
  "shown q \<longleftrightarrow> 0 \<le> fst q \<and> fst q \<le> 2 ^ 24 \<and> fst (snd q)"

lemma shown_eq: "shown q \<Longrightarrow> q = (fst q, True, is_sub q)"
  by (cases q) (simp add: shown_def is_sub_def)

lemma shown_plain [simp]: "shown (plain n) \<longleftrightarrow> 0 \<le> n \<and> n \<le> 2 ^ 24" "shown (subp n) \<longleftrightarrow> 0 \<le> n \<and> n \<le> 2 ^ 24"
  by (simp_all add: shown_def plain_def subp_def)

lemma fold_push_value:
  "0 \<le> v \<Longrightarrow> list_all is_digit ds \<Longrightarrow>
     foldl push_value (min (2 ^ 24) v) ds = min (2 ^ 24) (foldl (\<lambda>a d. a * 10 + digit_val d) v ds)"
proof (induction ds arbitrary: v)
  case (Cons d ds)
  have d: "0 \<le> digit_val d" by (simp add: digit_val_def)
  define k where "k = uint (d - 0x30)"
  have "0 \<le> k" by (simp add: k_def)
  then have "push_value (min (2 ^ 24) v) d = min (2 ^ 24) (v * 10 + digit_val d)"
    using Cons.prems(1) unfolding push_value_def digit_val_def k_def [symmetric] by (auto simp: min_def)
  then show ?case
    using Cons.IH [of "v * 10 + digit_val d"] Cons.prems d by simp
qed simp

lemma fold_push_Itoa: "0 \<le> n \<Longrightarrow> n \<le> 2 ^ 24 \<Longrightarrow> foldl push_value 0 (Itoa n) = n"
  using fold_push_value [of 0 "digits (nat n)"] digits_are_digits [of "nat n"] digits_val_digits [of "nat n"]
  by (simp add: Itoa_def digits_val_def)

lemma Itoa_digits: "0 \<le> n \<Longrightarrow> list_all is_digit (Itoa n)"
  by (simp add: Itoa_def digits_are_digits)

lemma digit_range: "is_digit b \<Longrightarrow> 0x30 \<le> b \<and> b \<le> 0x39"
  by (simp add: is_digit_def)

lemma digit_plain: "is_digit b \<Longrightarrow> \<not> b < 0x20 \<and> b \<noteq> 0x7f \<and> b < 0x80 \<and> b \<le> 0x3b"
  unfolding is_digit_def by (auto simp: word_le_nat_alt word_less_nat_alt)

section \<open>The terminal while it reads parameters\<close>

text \<open>Only the parser of \<open>t0\<close> has changed.\<close>

definition reads :: "Terminal \<Rightarrow> byte \<Rightarrow> csi_param list \<Rightarrow> Terminal \<Rightarrow> bool" where
  "reads t0 pv qs t \<longleftrightarrow> (\<exists>p. t = t0\<lparr>t_p := p\<rparr> \<and> reading pv qs p \<and> osc p = osc (t_p t0))"

lemma pushDigit_osc: "pushDigit b p = Some p' \<Longrightarrow> osc p' = osc p"
  by (auto simp: pushDigit_def Let_def bind_eq_Some_conv split: if_splits)

lemma nextParam_osc: "nextParam s p = Some p' \<Longrightarrow> osc p' = osc p"
  by (auto simp: nextParam_def Let_def bind_eq_Some_conv split: if_splits)

lemma feed_digit:
  assumes r: "reads t0 pv (qs @ [(v, h, s)]) t" and b: "is_digit b"
  shows "wp (feedByte b t) (reads t0 pv (qs @ [(push_value v b, True, s)]))"
proof -
  from r obtain p where p: "t = t0\<lparr>t_p := p\<rparr>" "reading pv (qs @ [(v, h, s)]) p" "osc p = osc (t_p t0)"
    by (auto simp: reads_def)
  from reading_digit [OF p(2), of b] obtain p' where
    p': "pushDigit b p = Some p'" "reading pv (qs @ [(push_value v b, True, s)]) p'" by (auto simp: wp_ex)
  have "pstate p = stateCSIParam" using p(2) by (simp add: reading_def)
  then have "feedByte b t = Some (t0\<lparr>t_p := p'\<rparr>)"
    using digit_plain [OF b] b p'(1)
    by (simp add: p(1) feedByte_def feed_csi_param_def with_parser_def)
  with p p' pushDigit_osc [OF p'(1)] show ?thesis by (auto simp: reads_def)
qed

lemma feed_sep:
  assumes r: "reads t0 pv qs t" and "length qs < 32"
  shows "wp (feedByte (if sub then 0x3a else 0x3b) t) (reads t0 pv (qs @ [(0, False, sub)]))"
proof -
  from r obtain p where p: "t = t0\<lparr>t_p := p\<rparr>" "reading pv qs p" "osc p = osc (t_p t0)"
    by (auto simp: reads_def)
  from reading_next [OF p(2) assms(2), of sub] obtain p' where
    p': "nextParam sub p = Some p'" "reading pv (qs @ [(0, False, sub)]) p'" by (auto simp: wp_ex)
  have "pstate p = stateCSIParam" using p(2) by (simp add: reading_def)
  then have "feedByte (if sub then 0x3a else 0x3b) t = Some (t0\<lparr>t_p := p'\<rparr>)"
    using p'(1) by (cases sub) (simp_all add: p(1) feedByte_def feed_csi_param_def with_parser_def is_digit_def)
  with p p' nextParam_osc [OF p'(1)] show ?thesis by (auto simp: reads_def)
qed

lemma run_wp_append:
  "wp (run step xs s) P \<Longrightarrow> (\<And>u. P u \<Longrightarrow> wp (run step ys u) Q) \<Longrightarrow> wp (run step (xs @ ys) s) Q"
  by (auto simp: run_append intro: wp_bindI)

lemma feed_digits:
  "list_all is_digit ds \<Longrightarrow> ds \<noteq> [] \<Longrightarrow> reads t0 pv (qs @ [(v, h, s)]) t \<Longrightarrow>
     wp (run feedByte ds t) (reads t0 pv (qs @ [(foldl push_value v ds, True, s)]))"
proof (induction ds arbitrary: v h t)
  case (Cons d ds)
  from Cons.prems have d: "is_digit d" "list_all is_digit ds" by simp_all
  have "wp (run feedByte ds u) (reads t0 pv (qs @ [(foldl push_value (push_value v d) ds, True, s)]))"
    if "reads t0 pv (qs @ [(push_value v d, True, s)]) u" for u
    using Cons.IH [OF d(2) _ that] that by (cases ds) auto
  with feed_digit [OF Cons.prems(3) d(1)] show ?case
    by (auto intro: wp_bindI)
qed simp

lemma feed_number:
  assumes "0 \<le> n" "n \<le> 2 ^ 24" "reads t0 pv (qs @ [(0, h, s)]) t"
  shows "wp (run feedByte (Itoa n) t) (reads t0 pv (qs @ [(n, True, s)]))"
  using feed_digits [OF Itoa_digits [OF assms(1)] _ assms(3)] fold_push_Itoa [OF assms(1,2)] assms(1)
  by (simp add: Itoa_def)

lemma feed_tail:
  "list_all shown rs \<Longrightarrow> length qs + length rs \<le> 32 \<Longrightarrow> reads t0 pv qs t \<Longrightarrow>
     wp (run feedByte (render_tail rs) t) (reads t0 pv (qs @ rs))"
proof (induction rs arbitrary: qs t)
  case (Cons r rs)
  have r: "0 \<le> fst r" "fst r \<le> 2 ^ 24" "(fst r, True, is_sub r) = r"
    using Cons.prems(1) shown_eq [of r] by (simp_all add: shown_def)
  have num: "wp (run feedByte (Itoa (fst r)) u) (reads t0 pv (qs @ [r]))"
    if "reads t0 pv (qs @ [(0, False, is_sub r)]) u" for u
    using feed_number [OF r(1,2) that] unfolding r(3) .
  have tl: "wp (run feedByte (render_tail rs) u) (reads t0 pv (qs @ r # rs))"
    if "reads t0 pv (qs @ [r]) u" for u
    using Cons.IH [OF _ _ that] Cons.prems by simp
  have len: "length qs < 32" using Cons.prems(2) by simp
  show ?case
    unfolding render_tail.simps run.simps
    by (rule wp_bindI [OF feed_sep [OF Cons.prems(3) len]]) (rule run_wp_append [OF num tl])
qed simp

section \<open>Whole sequences\<close>

text \<open>The private marker, or none.\<close>

definition csi_prefix :: "byte \<Rightarrow> bytes" where
  "csi_prefix pv = (if pv = 0 then [] else [pv])"

lemma feed_intro:
  assumes t: "parser_idle (t_p t)" "pstate (t_p t) = stateGround" and pv: "pv = 0 \<or> pv = 0x3f" and d: "is_digit d"
  shows "\<exists>u. reads t pv [(0, False, False)] u \<and> run feedByte (0x1b # 0x5b # csi_prefix pv @ d # ds) t = run feedByte (d # ds) u"
proof -
  define p where "p = (resetCSI (t_p t))\<lparr>priv := pv, pstate := stateCSIParam\<rparr>"
  have wf: "parser_wf (t_p t)" using t(1) by (simp add: parser_idle_def)
  have fresh: "params p ! 0 = 0 \<and> \<not> hasValue p ! 0 \<and> \<not> isSub p ! 0"
    using resetCSI_fresh [OF wf] by (simp add: p_def)
  have idle: "parser_idle p"
    using t(1) by (simp add: p_def)
  have pp: "pstate p = stateCSIParam" by (simp add: p_def)
  have rd: "reading pv [(0, False, False)] p"
    using fresh idle by (simp add: reading_def open_view_def) (simp add: p_def)
  have entry: "run feedByte [0x1b, 0x5b] t = Some (t\<lparr>t_p := (resetCSI (t_p t))\<lparr>pstate := stateCSIEntry\<rparr>\<rparr>)"
    using t(2) by (simp add: feedByte_def feed_control_def begin_escape_def feed_escape_def is_intermediate_def
        set_pstate_def)
  have pre: "run feedByte (0x1b # 0x5b # zs) t = run feedByte zs (t\<lparr>t_p := (resetCSI (t_p t))\<lparr>pstate := stateCSIEntry\<rparr>\<rparr>)" for zs
    using run_append [of feedByte "[0x1b, 0x5b]" zs t] unfolding entry by simp
  have dp: "\<not> d < 0x20 \<and> d \<noteq> 0x7f \<and> 0x30 \<le> d \<and> d \<le> 0x3b" using digit_plain [OF d] digit_range [OF d] by auto
  have "run feedByte (0x1b # 0x5b # csi_prefix pv @ d # ds) t = run feedByte (d # ds) (t\<lparr>t_p := p\<rparr>)"
  proof (cases "pv = 0")
    case True
    have "resetCSI (t_p t)\<lparr>pstate := stateCSIParam\<rparr> = p" using True by (simp add: p_def resetCSI_def Let_def)
    then show ?thesis
      unfolding pre using dp True pp by (simp add: csi_prefix_def feedByte_def [of d] feed_csi_entry_def set_pstate_def)
  next
    case False
    then have "pv = 0x3f" using pv by simp
    then show ?thesis
      unfolding pre by (simp add: csi_prefix_def feedByte_def [of "0x3f"] feed_csi_entry_def p_def)
  qed
  with rd show ?thesis by (intro exI [of _ "t\<lparr>t_p := p\<rparr>"]) (auto simp: reads_def p_def)
qed

text \<open>\<open>ESC [\<close>, the marker, the parameters and a final byte are one dispatch.\<close>

theorem csi_feed:
  assumes t: "parser_idle (t_p t)" "pstate (t_p t) = stateGround" and pv: "pv = 0 \<or> pv = 0x3f"
    and qs: "qs \<noteq> []" "list_all shown qs" "length qs \<le> 32" "\<not> is_sub (hd qs)"
    and f: "0x40 \<le> f" "f \<le> 0x7e"
  shows "\<exists>p. run feedByte (0x1b # 0x5b # csi_prefix pv @ render qs @ [f]) t = csiDispatch f (t\<lparr>t_p := p\<rparr>)
    \<and> parser_idle p \<and> pstate p = stateGround \<and> intermediate p = 0 \<and> priv p = pv \<and> view p = qs
    \<and> osc p = osc (t_p t)"
proof -
  obtain q rs where q: "qs = q # rs" using qs(1) by (cases qs) auto
  have sh: "0 \<le> fst q" "fst q \<le> 2 ^ 24" "(fst q, True, False) = q"
    using qs(2,4) shown_eq [of q] by (simp_all add: q shown_def)
  obtain d ds where d: "Itoa (fst q) = d # ds" "is_digit d"
    using Itoa_digits [OF sh(1)] sh(1) by (cases "Itoa (fst q)") (auto simp: Itoa_def)
  from feed_intro [OF t pv d(2), of "ds @ render_tail rs @ [f]"] obtain u where
    u: "reads t pv [(0, False, False)] u"
      "run feedByte (0x1b # 0x5b # csi_prefix pv @ render qs @ [f]) t = run feedByte (render qs @ [f]) u"
    by (auto simp: q d(1))
  have "wp (run feedByte (Itoa (fst q)) u) (reads t pv [q])"
    using feed_number [OF sh(1,2), of t pv "[]" False False u] u(1) sh(3) by simp
  moreover have "wp (run feedByte (render_tail rs) v) (reads t pv qs)" if "reads t pv [q] v" for v
    using feed_tail [of rs "[q]" t pv v] qs(2,3) that by (simp add: q)
  ultimately have "wp (run feedByte (render qs) u) (reads t pv qs)"
    unfolding q render.simps by (rule run_wp_append)
  then obtain p where p: "run feedByte (render qs) u = Some (t\<lparr>t_p := p\<rparr>)" "reading pv qs p" "osc p = osc (t_p t)"
    by (auto simp: wp_ex reads_def)
  have np: "nParams p \<noteq> 0"
    using p(2) qs(2) q by (auto simp: reading_def open_view_def shown_def split: if_splits)
  have fb: "\<not> f < 0x20" "f \<noteq> 0x7f" "\<not> is_digit f" "f \<noteq> 0x3b" "f \<noteq> 0x3a" "\<not> f \<le> 0x3f"
    "\<not> is_intermediate f"
    using f by (auto simp: is_digit_def is_intermediate_def word_le_nat_alt word_less_nat_alt)
  have "pstate p = stateCSIParam" using p(2) by (simp add: reading_def)
  then have "feedByte f (t\<lparr>t_p := p\<rparr>) = csiDispatch f (t\<lparr>t_p := p\<lparr>pstate := stateGround\<rparr>\<rparr>)"
    using fb by (simp add: feedByte_def feed_csi_param_def set_pstate_def)
  moreover have "view (p\<lparr>pstate := stateGround\<rparr>) = qs"
    using p(2) np by (simp add: reading_def open_view_def view_def)
  ultimately show ?thesis
    using u(2) p by (intro exI [of _ "p\<lparr>pstate := stateGround\<rparr>"])
      (simp add: run_append reading_def)
qed
section \<open>The sequences of the snapshot\<close>

lemma ascii_simps [simp]: "ascii [] = []" "ascii (c # s) = of_char c # ascii s"
  by (simp_all add: ascii_def)

text \<open>The text of \<open>sgrSequence\<close> is the rendered list \<open>style_params\<close>.\<close>

definition part :: "csi_param list \<Rightarrow> bytes" where "part = render"

lemma join_semi_append:
  "ps \<noteq> [] \<Longrightarrow> qs \<noteq> [] \<Longrightarrow> join_semi (ps @ qs) = join_semi ps @ 0x3b # join_semi qs"
  by (induction ps rule: join_semi.induct) (auto split: list.splits, cases qs, auto)

lemma render_append:
  "ps \<noteq> [] \<Longrightarrow> qs \<noteq> [] \<Longrightarrow> \<not> is_sub (hd qs) \<Longrightarrow> render (ps @ qs) = render ps @ 0x3b # render qs"
proof -
  have "render_tail (ps @ qs) = render_tail ps @ render_tail qs" for ps qs
    by (induction ps) auto
  then show "ps \<noteq> [] \<Longrightarrow> qs \<noteq> [] \<Longrightarrow> \<not> is_sub (hd qs) \<Longrightarrow> ?thesis"
    by (cases ps; cases qs) auto
qed

text \<open>A list of parts that renders as a list of parameters, either both empty or neither.\<close>

definition renders :: "bytes list \<Rightarrow> csi_param list \<Rightarrow> bool" where
  "renders ps qs \<longleftrightarrow> (ps = [] \<longleftrightarrow> qs = []) \<and> join_semi ps = render qs \<and> (qs \<noteq> [] \<longrightarrow> \<not> is_sub (hd qs))"

lemma renders_append: "renders ps qs \<Longrightarrow> renders ps' qs' \<Longrightarrow> renders (ps @ ps') (qs @ qs')"
  by (cases "ps = []"; cases "ps' = []") (auto simp: renders_def join_semi_append render_append)

lemma Itoa_small: "0 \<le> n \<Longrightarrow> n < 10 \<Longrightarrow> Itoa n = [0x30 + of_int n]"
proof -
  assume "0 \<le> n" "n < 10"
  then have "Itoa n = [of_nat (0x30 + nat n)]"
    by (simp add: Itoa_def digits.simps [of "nat n"])
  also have "\<dots> = [0x30 + of_int n]" using \<open>0 \<le> n\<close> by (simp add: of_nat_nat)
  finally show ?thesis .
qed

lemma Itoa_21: "Itoa 21 = ascii ''21''"
  by (simp add: Itoa_def digits.simps)

lemma renders_attr: "Itoa n = ascii s \<Longrightarrow> renders (attr_part st a s) (attr_params st a n)"
  by (simp add: renders_def attr_part_def attr_params_def plain_def is_sub_def)

lemma renders_underline: "renders (underline_parts u) (underline_params u)"
  by (cases u) (simp_all add: renders_def underline_parts_def underline_params_def Itoa_small Itoa_21
      plain_def subp_def is_sub_def)

lemma appendColor_Cons: "appendColor (x # parts) c e b br = x # parts @ appendColor [] c e b br"
  by (simp add: appendColor_def Let_def)

lemma renders_single: "renders [Itoa n] [plain n]"
  by (simp add: renders_def plain_def is_sub_def)

lemma renders_color:
  "renders (appendColor [] c e b br) (color_params c (int e) (int b) (int br))"
proof -
  define i where "i = unat (c AND 0xff)"
  have idx: "renders [Itoa (int e) @ ascii '';5;'' @ Itoa (int i)] [plain (int e), plain 5, plain (int i)]"
    by (simp add: renders_def plain_def is_sub_def Itoa_small)
  have rgb: "renders [Itoa (int e) @ ascii '';2;'' @ Itoa r @ ascii '';'' @ Itoa g @ ascii '';'' @ Itoa x]
     [plain (int e), plain 2, plain r, plain g, plain x]" for r g x
    by (simp add: renders_def plain_def is_sub_def Itoa_small)
  have br: "int (br + i - 8) = int br + int i - 8" if "8 \<le> i" using that by simp
  have lt: "int i < 8 \<longleftrightarrow> i < 8" "8 \<le> int i \<longleftrightarrow> 8 \<le> i" "int i < 16 \<longleftrightarrow> i < 16" by simp_all
  show ?thesis
    unfolding appendColor_def color_params_def Let_def i_def [symmetric] lt of_nat_eq_0_iff append_Nil
    using idx rgb renders_single [of "int (b + i)"] renders_single [of "int (br + i - 8)"] br
    by (auto simp: renders_def [of "[]" "[]"])
qed

lemma sgr_parts_renders: "renders (sgr_parts st) (style_params st)"
proof -
  have z: "renders [ascii ''0''] [plain 0]"
    using renders_single [of 0] by (simp add: Itoa_small)
  have at: "Itoa 1 = ascii ''1''" "Itoa 2 = ascii ''2''" "Itoa 3 = ascii ''3''" "Itoa 5 = ascii ''5''"
    "Itoa 7 = ascii ''7''" "Itoa 8 = ascii ''8''" "Itoa 9 = ascii ''9''"
    by (simp_all add: Itoa_small)
  have "appendColor [] (Ul st) 58 0 0 = []" if "IsDefault (Ul st)"
    using that by (simp add: IsDefault_def appendColor_def colorKindIndexed_def colorKindRGB_def)
  then have "sgr_parts st = [ascii ''0''] @ attr_part st AttrBold ''1'' @ attr_part st AttrDim ''2''
     @ attr_part st AttrItalic ''3'' @ underline_parts (Underline st)
     @ attr_part st AttrBlink ''5'' @ attr_part st AttrInverse ''7''
     @ attr_part st AttrHidden ''8'' @ attr_part st AttrStrike ''9''
     @ appendColor [] (Fg st) 38 30 90 @ appendColor [] (Bg st) 48 40 100 @ appendColor [] (Ul st) 58 0 0"
    unfolding sgr_parts_def Let_def
    by (simp add: appendColor_Cons)
  then show ?thesis
    unfolding style_params_def
    using renders_color [of "Fg st" 38 30 90] renders_color [of "Bg st" 48 40 100] renders_color [of "Ul st" 58 0 0]
    by (simp only: of_nat_numeral of_nat_0 semiring_1_class.of_nat_0) (intro renders_append z renders_attr at renders_underline, assumption+)
qed
text \<open>What the list needs to pass through the parser.\<close>

lemma uint_and_ff: "uint (x AND 0xff :: Color) \<le> 255"
proof -
  have "uint (x AND 0xff :: Color) \<le> uint (0xff :: Color)"
    using word_and_le1 [of x "0xff"] by (simp add: word_le_def)
  then show ?thesis by simp
qed

lemma color_params_shown:
  "0 \<le> e \<Longrightarrow> e \<le> 1000 \<Longrightarrow> 0 \<le> b \<Longrightarrow> b \<le> 1000 \<Longrightarrow> 0 \<le> br \<Longrightarrow> br \<le> 1000 \<Longrightarrow> list_all shown (color_params c e b br)"
  using uint_and_ff [of c] uint_and_ff [of "drop_bit 8 c"] uint_and_ff [of "drop_bit 16 c"]
  unfolding color_params_def by (simp add: Let_def)

lemma style_params_shown: "list_all shown (style_params st)" "length (style_params st) \<le> 32"
  "style_params st \<noteq> []" "\<not> is_sub (hd (style_params st))"
proof -
  show "list_all shown (style_params st)"
    by (auto simp: style_params_def attr_params_def underline_params_def color_params_shown split: Underline.splits)
  have c: "length (color_params c e b br) \<le> 5" for c e b br by (simp add: color_params_def Let_def)
  have a: "length (attr_params st a n) \<le> 1" for a n by (simp add: attr_params_def)
  have u: "length (underline_params u) \<le> 2" for u by (simp add: underline_params_def split: Underline.splits)
  show "length (style_params st) \<le> 32"
    using c [of "Fg st" 38 30 90] c [of "Bg st" 48 40 100] c [of "Ul st" 58 0 0] u [of "Underline st"]
      a [of AttrBold 1] a [of AttrDim 2] a [of AttrItalic 3] a [of AttrBlink 5] a [of AttrInverse 7]
      a [of AttrHidden 8] a [of AttrStrike 9]
    by (simp add: style_params_def)
qed (simp_all add: style_params_def)

text \<open>The only part of the terminal a sequence may touch besides what it sets is the parser.\<close>

definition parser_ready :: "parser \<Rightarrow> bool" where
  "parser_ready p \<longleftrightarrow> parser_idle p \<and> pstate p = stateGround"

lemma Itoa_0: "Itoa 0 = [0x30]"
  by (simp add: Itoa_small)

lemma csi_dispatch_sgr:
  "intermediate (t_p t) = 0 \<Longrightarrow> priv (t_p t) = 0 \<Longrightarrow> csiDispatch 0x6d t = sgr t"
  by (simp add: csiDispatch_def)

lemma feed_sgr:
  assumes "parser_ready (t_p t)" "style_ok st"
  shows "\<exists>p. run feedByte (sgrSequence st) t = Some (t\<lparr>t_p := p, pen := st\<rparr>) \<and> parser_ready p \<and> osc p = osc (t_p t)"
proof -
  define qs where "qs = (if IsZero st then [plain 0] else style_params st)"
  have ready: "parser_idle (t_p t)" "pstate (t_p t) = stateGround" using assms(1) by (simp_all add: parser_ready_def)
  have seq: "sgrSequence st = 0x1b # 0x5b # csi_prefix 0 @ render qs @ [0x6d]"
    using sgr_parts_renders [of st]
    by (simp add: sgrSequence_def esc_def csi_prefix_def renders_def qs_def plain_def Itoa_0)
  have sh: "qs \<noteq> []" "list_all shown qs" "length qs \<le> 32" "\<not> is_sub (hd qs)"
    using style_params_shown [of st] by (auto simp: qs_def)
  have spec: "sgr_spec qs s = st" for s
    using sgr_spec_style_params [OF assms(2)] by (simp add: qs_def IsZero_def sgr_one_def)
  from csi_feed [OF ready _ sh, of 0 "0x6d"] obtain p where p:
    "run feedByte (sgrSequence st) t = csiDispatch 0x6d (t\<lparr>t_p := p\<rparr>)" "parser_idle p" "pstate p = stateGround"
    "intermediate p = 0" "priv p = 0" "view p = qs" "osc p = osc (t_p t)"
    by (auto simp: seq)
  have "csiDispatch 0x6d (t\<lparr>t_p := p\<rparr>) = Some (t\<lparr>t_p := p, pen := st\<rparr>)"
    using p sgr_view [of "t\<lparr>t_p := p\<rparr>"] sh(1) spec
    by (simp add: csi_dispatch_sgr parser_idle_def)
  with p show ?thesis by (auto simp: parser_ready_def)
qed

text \<open>Cursor positions.\<close>

lemma feed_cup:
  assumes ready: "parser_ready (t_p t)" and org: "\<not> origin t"
    and xy: "0 \<le> x" "x < 2 ^ 24" "0 \<le> y" "y < 2 ^ 24"
  shows "\<exists>p. run feedByte (cup x y) t = Some (moveCursor x y (t\<lparr>t_p := p\<rparr>)) \<and> parser_ready p \<and> osc p = osc (t_p t)"
proof -
  have r: "parser_idle (t_p t)" "pstate (t_p t) = stateGround" using ready by (simp_all add: parser_ready_def)
  let ?qs = "[plain (y + 1), plain (x + 1)]"
  have "cup x y = 0x1b # 0x5b # csi_prefix 0 @ render ?qs @ [0x48]"
    by (simp add: cup_def esc_def csi_prefix_def plain_def is_sub_def)
  moreover have "list_all shown ?qs" using xy by simp
  ultimately obtain p where p:
      "run feedByte (cup x y) t = csiDispatch 0x48 (t\<lparr>t_p := p\<rparr>)" "parser_idle p" "pstate p = stateGround"
      "intermediate p = 0" "priv p = 0" "view p = ?qs" "osc p = osc (t_p t)"
    using csi_feed [OF r, of 0 ?qs "0x48"] by auto
  have wf: "parser_wf p" using p(2) by (simp add: parser_idle_def)
  have n: "nParams p = 2" using arg_cong [OF p(6), of length] parser_wf_lengths [OF wf] by simp
  have "view p ! 0 = plain (y + 1)" "view p ! 1 = plain (x + 1)" using p(6) by simp_all
  then have v: "params p ! 0 = y + 1" "hasValue p ! 0" "params p ! 1 = x + 1" "hasValue p ! 1"
    using view_nth [of 0 p] view_nth [of 1 p] n by (simp_all add: plain_def)
  have "param p 0 1 = Some (y + 1)" "param p 1 1 = Some (x + 1)"
    using v n xy wf by (simp_all add: param_def parser_wf_def)
  with p org show ?thesis
    by (intro exI [of _ p]) (simp add: csiDispatch_def parser_ready_def)
qed

end
