(* ===== verification/Edits.thy ===== *)
theory Edits
  imports Emulator_Safety
begin

text \<open>
  What the editing operations of \<open>src/internal/vterm/term.go\<close> leave on the screen, in closed form.
  Every insertion and deletion of the source, of lines or of cells, is a pair of a \<open>copy\<close> inside
  one slice and a fill of what the copy left behind; \<open>open_gap\<close> and \<open>close_gap\<close> are the two
  results. One lemma for each operation gives its result as an equation, so that a proof about a
  sequence of operations can rewrite with it.
\<close>

section \<open>Gaps in a list\<close>

text \<open>
  Inside \<open>xs[a:b]\<close>, \<open>n\<close> copies of \<open>c\<close> are inserted at the front and the last \<open>n\<close> elements fall off, or
  the first \<open>n\<close> elements are removed and \<open>n\<close> copies of \<open>c\<close> follow.
\<close>

definition open_gap :: "nat \<Rightarrow> nat \<Rightarrow> nat \<Rightarrow> 'a \<Rightarrow> 'a list \<Rightarrow> 'a list" where
  "open_gap a b n c xs = take a xs @ replicate n c @ take (b - a - n) (drop a xs) @ drop b xs"

definition close_gap :: "nat \<Rightarrow> nat \<Rightarrow> nat \<Rightarrow> 'a \<Rightarrow> 'a list \<Rightarrow> 'a list" where
  "close_gap a b n c xs = take a xs @ take (b - a - n) (drop (a + n) xs) @ replicate n c @ drop b xs"

lemma gap_length:
  assumes "a + n \<le> b" "b \<le> length xs"
  shows "length (open_gap a b n c xs) = length xs" "length (close_gap a b n c xs) = length xs"
  using assms by (auto simp: open_gap_def close_gap_def)

lemma open_gap_nth:
  assumes "a + n \<le> b" "b \<le> length xs" "i < length xs"
  shows "open_gap a b n c xs ! i =
    (if a \<le> i \<and> i < a + n then c else if a + n \<le> i \<and> i < b then xs ! (i - n) else xs ! i)"
  using assms by (auto simp: open_gap_def nth_append min_def)

lemma close_gap_nth:
  assumes "a + n \<le> b" "b \<le> length xs" "i < length xs"
  shows "close_gap a b n c xs ! i =
    (if a \<le> i \<and> i < b - n then xs ! (i + n) else if b - n \<le> i \<and> i < b then c else xs ! i)"
  using assms by (auto simp: close_gap_def nth_append min_def add.commute)

lemma close_open_gap:
  assumes "a + n \<le> b" "b \<le> length xs"
  shows "close_gap a b n c (open_gap a b n c' xs) = take (b - n) xs @ replicate n c @ drop b xs"
proof (rule nth_equalityI)
  show "length (close_gap a b n c (open_gap a b n c' xs)) = length (take (b - n) xs @ replicate n c @ drop b xs)"
    using assms by (simp add: gap_length)
  fix i assume "i < length (close_gap a b n c (open_gap a b n c' xs))"
  then have i: "i < length xs" using assms by (simp add: gap_length)
  with assms show "close_gap a b n c (open_gap a b n c' xs) ! i = (take (b - n) xs @ replicate n c @ drop b xs) ! i"
    by (auto simp: close_gap_nth open_gap_nth gap_length nth_append)
qed

lemma set_gap:
  "set (open_gap a b n c xs) \<subseteq> insert c (set xs)" "set (close_gap a b n c xs) \<subseteq> insert c (set xs)"
  by (auto simp: open_gap_def close_gap_def dest: in_set_takeD in_set_dropD)

text \<open>The two pairs of primitives.\<close>

lemma blit_open:
  assumes "0 \<le> a" "0 \<le> n" "a + n \<le> b" "b \<le> glen xs"
  shows "gslice xs a (b - n) \<bind> (\<lambda>src. gcopy xs (a + n) b src \<bind> (\<lambda>ys. gfill ys a (a + n) c \<bind> f))
    = f (open_gap (nat a) (nat b) (nat n) c xs)"
proof -
  obtain a' n' b' where n: "a = int a'" "n = int n'" "b = int b'"
    using assms by (metis nonneg_int_cases order_trans add_nonneg_nonneg)
  have d: "nat (int b' - int n' - int a') = b' - a' - n'" "nat (int a' + int n') = a' + n'"
    "nat (int b' - (int a' + int n')) = b' - a' - n'"
    using assms(3) unfolding n by linarith+
  define src where "src = take (b' - a' - n') (drop a' xs)"
  have src: "take (b' - (a' + n')) (drop a' xs) = src" by (simp add: src_def)
  have l: "length src = b' - a' - n'" "a' + n' \<le> b'" "b' \<le> length xs" "a' + n' + (b' - a' - n') = b'"
    using assms n by (auto simp: src_def)
  have 1: "gslice xs (int a') (int b' - int n') = Some src"
    using assms unfolding n by (simp add: gslice_def d src_def)
  have 2: "gcopy xs (int a' + int n') (int b') src = Some (take (a' + n') xs @ src @ drop b' xs)"
    using l by (simp add: gcopy_def d)
  have 3: "gfill (take (a' + n') xs @ src @ drop b' xs) (int a') (int a' + int n') c = Some (open_gap a' b' n' c xs)"
    using l src by (cases "n' = 0") (auto simp: gfill_def fill_def open_gap_def src d min_def)
  show ?thesis unfolding n using 1 2 3 by simp
qed

lemma blit_close:
  assumes "0 \<le> a" "0 \<le> n" "a + n \<le> b" "b \<le> glen xs"
  shows "gslice xs (a + n) b \<bind> (\<lambda>src. gcopy xs a (glen xs) src \<bind> (\<lambda>ys. gfill ys (b - n) b c \<bind> f))
    = f (close_gap (nat a) (nat b) (nat n) c xs)"
proof -
  obtain a' n' b' where n: "a = int a'" "n = int n'" "b = int b'"
    using assms by (metis nonneg_int_cases order_trans add_nonneg_nonneg)
  have d: "nat (int b' - (int a' + int n')) = b' - a' - n'" "nat (int a' + int n') = a' + n'"
    "nat (int b' - int n') = b' - n'" "nat (glen xs - int a') = length xs - a'"
    using assms(3) unfolding n by linarith+
  have l: "length (take (b' - a' - n') (drop (a' + n') xs)) = b' - a' - n'" "a' + n' \<le> b'" "b' \<le> length xs"
    "a' + (b' - a' - n') = b' - n'" "b' - a' - n' \<le> length xs - a'"
    using assms n by auto
  have f: "gfill ys (int b' - int n') (int b') c = Some (take (b' - n') ys @ replicate n' c @ drop b' ys)"
    if "length ys = length xs" for ys
    using that l by (auto simp: gfill_def fill_def d)
  have m: "min (length xs - a') (b' - a' - n') = b' - a' - n'" using l by simp
  show ?thesis
    using assms l unfolding n
    by (simp add: gslice_def gcopy_def d Let_def m f close_gap_def drop_append add.commute)
qed


section \<open>Lines\<close>

text \<open>How many lines an operation on \<open>[y, bot]\<close> moves.\<close>

definition clip :: "int \<Rightarrow> int \<Rightarrow> int \<Rightarrow> nat" where
  "clip y b n = nat (min n (b - y + 1))"

lemma clip_bounds: "1 \<le> n \<Longrightarrow> y \<le> b \<Longrightarrow> 0 \<le> y \<Longrightarrow> 1 \<le> clip y b n \<and> nat y + clip y b n \<le> nat (b + 1)"
  unfolding clip_def min_def by (auto simp: nat_add_distrib [symmetric] nat_le_iff)

lemma scrollDown_eq:
  assumes wf: "wf_term w h P M t" and n: "1 \<le> n"
  shows "scrollDown n t = Some (set_act ((act t)\<lparr>rows :=
    open_gap (nat (s_top (act t))) (nat (s_bot (act t) + 1)) (clip (s_top (act t)) (s_bot (act t)) n) (penRow t) (rows (act t))\<rparr>) t)"
proof -
  define m where "m = (if n > s_bot (act t) - s_top (act t) + 1 then s_bot (act t) - s_top (act t) + 1 else n)"
  note reg = wf_region [OF wf] and rows = wf_act_facts(1) [OF wf, unfolded rows_wf_def]
  have m: "0 \<le> m" "s_top (act t) + m \<le> s_bot (act t) + 1" "nat m = clip (s_top (act t)) (s_bot (act t)) n"
    using n reg by (auto simp: m_def clip_def min_def)
  have len: "s_bot (act t) + 1 \<le> glen (rows (act t))" using reg rows by simp
  show ?thesis
    unfolding scrollDown_def Let_def m_def [symmetric] blit_open [OF reg(1) m(1,2) len] m(3)
    using n by simp
qed

lemma insertLines_eq:
  assumes wf: "wf_term w h P M t" and n: "1 \<le> n" and y: "s_top (act t) \<le> cy (tcur t)" "cy (tcur t) \<le> s_bot (act t)"
  shows "insertLines n t = Some (set_act ((act t)\<lparr>rows :=
      open_gap (nat (cy (tcur t))) (nat (s_bot (act t) + 1)) (clip (cy (tcur t)) (s_bot (act t)) n) (penRow t) (rows (act t)),
    cur := (tcur t)\<lparr>cx := 0, pendingWrap := False\<rparr>\<rparr>) t)"
proof -
  define m where "m = (if n > s_bot (act t) - cy (cur (act t)) + 1 then s_bot (act t) - cy (cur (act t)) + 1 else n)"
  note reg = wf_region [OF wf] and rows = wf_act_facts(1) [OF wf, unfolded rows_wf_def]
  have y': "0 \<le> cy (cur (act t))" "\<not> (cy (cur (act t)) < s_top (act t) \<or> cy (cur (act t)) > s_bot (act t))"
    using wf_cur(3) [OF wf] y by (auto simp: tcur_def)
  have m: "0 \<le> m" "cy (cur (act t)) + m \<le> s_bot (act t) + 1" "nat m = clip (cy (cur (act t))) (s_bot (act t)) n"
    using n y' by (auto simp: m_def clip_def min_def)
  have len: "s_bot (act t) + 1 \<le> glen (rows (act t))" using reg rows by simp
  show ?thesis
    unfolding insertLines_def Let_def m_def [symmetric] blit_open [OF y'(1) m(1,2) len] m(3)
    using y' by (simp add: tcur_def)
qed

lemma deleteLines_eq:
  assumes wf: "wf_term w h P M t" and n: "1 \<le> n" and y: "s_top (act t) \<le> cy (tcur t)" "cy (tcur t) \<le> s_bot (act t)"
  shows "deleteLines n t = Some (set_act ((act t)\<lparr>rows :=
      close_gap (nat (cy (tcur t))) (nat (s_bot (act t) + 1)) (clip (cy (tcur t)) (s_bot (act t)) n) (penRow t) (rows (act t)),
    cur := (tcur t)\<lparr>cx := 0, pendingWrap := False\<rparr>\<rparr>) t)"
proof -
  define m where "m = (if n > s_bot (act t) - cy (cur (act t)) + 1 then s_bot (act t) - cy (cur (act t)) + 1 else n)"
  note reg = wf_region [OF wf] and rows = wf_act_facts(1) [OF wf, unfolded rows_wf_def]
  have y': "0 \<le> cy (cur (act t))" "\<not> (cy (cur (act t)) < s_top (act t) \<or> cy (cur (act t)) > s_bot (act t))"
    using wf_cur(3) [OF wf] y by (auto simp: tcur_def)
  have m: "0 \<le> m" "cy (cur (act t)) + m \<le> s_bot (act t) + 1" "nat m = clip (cy (cur (act t))) (s_bot (act t)) n"
    using n y' by (auto simp: m_def clip_def min_def)
  have len: "s_bot (act t) + 1 \<le> glen (rows (act t))" using reg rows by simp
  have s: "s_bot (act t) - m + 1 = s_bot (act t) + 1 - m" by simp
  show ?thesis
    unfolding deleteLines_def Let_def m_def [symmetric] s blit_close [OF y'(1) m(1,2) len] m(3)
    using y' by (simp add: tcur_def)
qed

text \<open>A recycled row, cleared, is a fresh one.\<close>

lemma cleared_penRow:
  assumes "wf_term w h P M t" "row_wf w r"
  shows "(row_clear r 0 (t_w t) (pen t))\<lparr>wrapped := False\<rparr> = penRow t"
  using assms wf_size [OF assms(1)]
  by (simp add: penRow_def row_clear_def Let_def newRow_def row_wf_def fill_all flip: assms(2) [unfolded row_wf_def, THEN conjunct1])

lemma cached_idem [simp]: "cached (cached t) = cached t"
  by (simp add: cached_def newRow_def)

lemma cached_set_act: "cached (set_act s t) = set_act s (cached t)"
proof (cases "Bg (pen t) = 0 \<and> glen (blankRow t) < t_w t")
  case True
  then show ?thesis by (cases "t_s t") (simp_all add: cached_def set_act_def assign_def)
next
  case False
  then have "\<not> (Bg (pen (set_act s t)) = 0 \<and> glen (blankRow (set_act s t)) < t_w (set_act s t))" by simp
  then show ?thesis unfolding cached_def if_not_P [OF False] by (simp only: if_False)
qed

lemma scroll_fill_eq:
  assumes "wf_term w h P M t" "list_all (row_wf w) rs" "0 \<le> y" "y + glen rs \<le> h"
  shows "scroll_fill rs y t = Some (if rs = [] then t else cached (set_act ((act t)\<lparr>rows :=
    take (nat y) (rows (act t)) @ replicate (length rs) (penRow t) @ drop (nat y + length rs) (rows (act t))\<rparr>) t))"
  using assms
proof (induction rs arbitrary: y t)
  case Nil
  then show ?case by simp
next
  case (Cons r rs)
  note wf = Cons.prems(1)
  have r: "row_wf w r" and rs: "list_all (row_wf w) rs" using Cons.prems(2) by simp_all
  then have rl: "glen (cells r) \<le> w" by (simp add: row_wf_def)
  have len: "glen (rows (act t)) = h" using wf_act_facts(1) [OF wf] by (simp add: rows_wf_def)
  have y: "0 \<le> y" "y < h" using Cons.prems by auto
  define u where "u = set_act ((act t)\<lparr>rows := (rows (act t))[nat y := penRow t]\<rparr>) (cached t)"
  have step: "set_row y (penRow t) (cached t) = Some u"
    using y len by (simp add: set_row_def u_def)
  have "wf_term w h P M u"
    using wf_set_rows [OF wf_cached [OF wf]] rows_wf_update [OF wf_act_facts(1) [OF wf] penRow_wf [OF wf]]
    by (simp add: u_def)
  then have u: "wf_term w h P M u" "act u = (act t)\<lparr>rows := (rows (act t))[nat y := penRow t]\<rparr>"
    "penRow u = penRow t" "cached u = u"
    by (simp_all add: u_def penRow_def cached_set_act)
  have "scroll_fill rs (y + 1) u = Some (if rs = [] then u else cached (set_act ((act u)\<lparr>rows :=
    take (nat (y + 1)) (rows (act u)) @ replicate (length rs) (penRow u) @ drop (nat (y + 1) + length rs) (rows (act u))\<rparr>) u))"
    using Cons.prems by (intro Cons.IH [OF u(1) rs]) auto
  moreover have "take (nat y) (rows (act t)) @ replicate (length (r # rs)) (penRow t) @ drop (nat y + length (r # rs)) (rows (act t))
     = take (nat (y + 1)) (rows (act u)) @ replicate (length rs) (penRow u) @ drop (nat (y + 1) + length rs) (rows (act u))"
    using y len unfolding u(2,3)
    by (simp add: nat_add_distrib take_Suc_conv_app_nth upd_conv_take_nth_drop add.commute)
  ultimately show ?case
    using step cleared_penRow [OF wf r]
    by (simp add: clearRow_eq [OF wf rl] cached_set_act u_def)
qed


text \<open>A scroll removes lines at the top of the region; those that leave the screen go to the scrollback.\<close>

definition unwrap_at :: "nat \<Rightarrow> row list \<Rightarrow> row list" where
  "unwrap_at i rs = rs[i := (rs ! i)\<lparr>wrapped := False\<rparr>]"

definition scrolled :: "nat \<Rightarrow> bool \<Rightarrow> Terminal \<Rightarrow> screen" where
  "scrolled m keep t = (let s = act t in s\<lparr>
     rows := unwrap_at (nat (s_top s)) (close_gap (nat (s_top s)) (nat (s_bot s + 1)) m (penRow t) (rows s)),
     scrollback := (if keep \<and> s_top s = 0
       then fold (pushed (maxScrollback t) (t_s t)) (take m (rows s)) (scrollback s) else scrollback s)\<rparr>)"

lemma pushed_act:
  "fold (pushScrollback (t_s t)) rs t =
    set_act ((act t)\<lparr>scrollback := fold (pushed (maxScrollback t) (t_s t)) rs (scrollback (act t))\<rparr>) t"
  by (simp add: fold_pushScrollback set_act_def act_def)

lemma screen_commute: "s\<lparr>scrollback := sb, rows := rs\<rparr> = s\<lparr>rows := rs, scrollback := sb\<rparr>"
  by (cases s) simp

lemma scroll_eq:
  assumes wf: "wf_term w h P M t" and n: "1 \<le> n"
  shows "scroll n keep t = Some (set_act (scrolled (clip (s_top (act t)) (s_bot (act t)) n) keep t) (cached t))"
proof -
  obtain a b where ab: "s_top (act t) = int a" "s_bot (act t) = int b" "a \<le> b" "int b < h"
    using wf_region [OF wf] by (metis nonneg_int_cases of_nat_le_iff order_trans)
  define m where "m = clip (int a) (int b) n"
  have m: "1 \<le> m" "a + m \<le> Suc b"
    using n ab(3) by (auto simp: m_def clip_def nat_le_iff min_def le_nat_iff split: if_splits)
  have mi: "(if n > int b - int a + 1 then int b - int a + 1 else n) = int m"
    using n ab(3) by (auto simp: m_def clip_def min_def)
  note rows = wf_act_facts(1) [OF wf, unfolded rows_wf_def]
  define xs where "xs = rows (act t)"
  have len: "Suc b \<le> length xs" "glen xs = h" using rows ab(4) by (auto simp: xs_def)
  define rec where "rec = take m (drop a xs)"
  define sb where "sb = (if keep \<and> int a = 0 then fold (pushed (maxScrollback t) (t_s t)) rec (scrollback (act t)) else scrollback (act t))"
  define u where "u = set_act ((act t)\<lparr>scrollback := sb\<rparr>) t"
  have rec: "list_all (row_wf w) rec" "length rec = m" "rec \<noteq> []"
    using rows m len by (auto simp: rec_def xs_def intro: list_all_takeI list_all_dropI)
  define mid where "mid = take (Suc b - (a + m)) (drop (a + m) xs)"
  have mid: "length mid = Suc b - (a + m)" "a + length mid = Suc b - m" "a + length mid \<le> length xs"
    using len m by (auto simp: mid_def)
  have sl: "gslice xs (int a) (int a + int m) = Some rec" "gslice xs (int a + int m) (int b + 1) = Some mid"
    using len m by (auto simp: gslice_def rec_def mid_def nat_add_distrib nat_diff_distrib)
  define ys where "ys = take a xs @ mid @ drop (a + length mid) xs"
  have ml: "min (length xs - a) (length mid) = length mid" using mid by simp
  have cp: "gcopy xs (int a) (glen xs) mid = Some ys"
    using mid(3) by (simp add: gcopy_def ys_def nat_diff_distrib ml Let_def)
  have push: "(if keep \<and> int a = 0 then fold (pushScrollback (t_s t)) rec t else t) = u"
    by (simp add: pushed_act u_def sb_def)
  define v where "v = set_act ((act u)\<lparr>rows := ys\<rparr>) u"
  have u: "wf_term w h P M u" "s_top (act u) = int a" "s_bot (act u) = int b" "rows (act u) = xs"
    using wf wf_push_act(1) [OF wf rows_wf_ok [OF rec(1)]] ab
    by (auto simp: u_def sb_def pushed_act xs_def)
  have "rows_wf w h ys"
    using rows len mid(3) by (auto simp: rows_wf_def ys_def mid_def xs_def intro: list_all_takeI list_all_dropI)
  then have v: "wf_term w h P M v" unfolding v_def by (rule wf_set_rows [OF u(1)])
  define zs where "zs = close_gap a (Suc b) m (penRow t) xs"
  have vs: "v = set_act ((act t)\<lparr>rows := ys, scrollback := sb\<rparr>) t"
    by (simp add: v_def u_def screen_commute)
  have nb: "nat (int b - int m + 1) = Suc b - m" "int b - int m + 1 = int (Suc b - m)" using m by auto
  have zs: "take (Suc b - m) ys @ replicate m (penRow t) @ drop (Suc b - m + m) ys = zs"
    using mid m len by (simp add: ys_def zs_def close_gap_def mid_def add.commute)
  have "scroll_fill rec (int b - int m + 1) v = Some (cached (set_act ((act v)\<lparr>rows :=
      take (nat (int b - int m + 1)) (rows (act v)) @ replicate (length rec) (penRow v)
      @ drop (nat (int b - int m + 1) + length rec) (rows (act v))\<rparr>) v))"
    using scroll_fill_eq [OF v rec(1), of "int b - int m + 1"] rec m ab(4) by simp
  also have "\<dots> = Some (set_act ((act t)\<lparr>rows := zs, scrollback := sb\<rparr>) (cached t))"
    using zs rec(2) by (simp add: nb(1) vs cached_set_act penRow_def screen_commute)
  finally have fill: "scroll_fill rec (int b - int m + 1) v = Some (set_act ((act t)\<lparr>rows := zs, scrollback := sb\<rparr>) (cached t))" .
  have az: "a < length zs" using m len by (simp add: zs_def gap_length)
  have n0: "\<not> n \<le> 0" using n by simp
  have ht: "int a < t_h t" using ab wf_size [OF wf] by simp
  have res: "scrolled m keep t = (act t)\<lparr>rows := unwrap_at a zs, scrollback := sb\<rparr>"
    using ab len m by (simp add: scrolled_def Let_def zs_def xs_def sb_def rec_def nat_add_distrib)
  show ?thesis
    unfolding scroll_def Let_def if_not_P [OF n0] ab(1,2) mi m_def [symmetric] xs_def [symmetric] sl Option.bind.simps push res
    using u(2,3,4) sl(2) cp fill az ht ab(3)
    by (simp add: v_def [symmetric] get_row_def set_row_def unwrap_at_def screen_commute)
qed


section \<open>Cells\<close>

text \<open>The row under the cursor, and the terminal with it replaced.\<close>

definition cur_row :: "Terminal \<Rightarrow> row" where
  "cur_row t = rows (act t) ! nat (cy (tcur t))"

definition put_row :: "row \<Rightarrow> Terminal \<Rightarrow> Terminal" where
  "put_row r t = set_act ((act t)\<lparr>rows := (rows (act t))[nat (cy (tcur t)) := r]\<rparr>) t"

lemma put_row_simps [simp]:
  "tcur (put_row r t) = tcur t" "pen (put_row r t) = pen t" "t_w (put_row r t) = t_w t" "t_h (put_row r t) = t_h t"
  "rows (act (put_row r t)) = (rows (act t))[nat (cy (tcur t)) := r]"
  by (simp_all add: put_row_def) (simp add: tcur_def)

lemma cur_row_wf: "wf_term w h P M t \<Longrightarrow> row_wf w (cur_row t)"
  using rows_wf_nth [OF wf_act_facts(1) wf_cur(3,4)] by (simp add: cur_row_def)

lemma cur_row_access:
  assumes "wf_term w h P M t"
  shows "get_row (cy (tcur t)) t = Some (cur_row t)" "set_row (cy (tcur t)) r t = Some (put_row r t)"
  using wf_cur [OF assms] wf_act_facts(1) [OF assms]
  by (simp_all add: get_row_def set_row_def cur_row_def put_row_def rows_wf_def)

lemma insertCells_eq:
  assumes wf: "wf_term w h P M t" and n: "1 \<le> n"
  shows "insertCells n t = Some (put_row ((cur_row t)\<lparr>cells :=
    (let cs = open_gap (nat (cx (tcur t))) (nat w) (clip (cx (tcur t)) (w - 1) n) (blankCell (eraseStyle (pen t))) (cells (cur_row t))
     in if Width (last cs) = 2 then butlast cs @ [blankCell (eraseStyle (CStyle (last cs)))] else cs)\<rparr>) t)"
proof -
  define m where "m = (if n > t_w t - cx (tcur t) then t_w t - cx (tcur t) else n)"
  note c = wf_cur [OF wf] and sz = wf_size [OF wf] and len = row_wfD(1) [OF cur_row_wf [OF wf]]
  have m: "0 \<le> m" "cx (tcur t) + m \<le> t_w t" "nat m = clip (cx (tcur t)) (w - 1) n"
    using n c sz by (auto simp: m_def clip_def min_def)
  have le: "t_w t \<le> glen (cells (cur_row t))" "glen (cells (cur_row t)) = t_w t" using len sz by simp_all
  define cs where "cs = open_gap (nat (cx (tcur t))) (nat w) (nat m) (blankCell (eraseStyle (pen t))) (cells (cur_row t))"
  have l: "length cs = nat w" "cs \<noteq> []" "nat (w - 1) = length cs - 1"
  proof -
    have "length cs = length (cells (cur_row t))"
      unfolding cs_def using m c sz len by (intro gap_length(1)) (auto simp: nat_add_distrib [symmetric])
    then show "length cs = nat w" using len by simp
    then show "cs \<noteq> []" "nat (w - 1) = length cs - 1" using sz by auto
  qed
  have last: "gidx cs (w - 1) = Some (last cs)" "gset cs (w - 1) v = Some (butlast cs @ [v])" for v
    using l sz by (auto simp: gidx_def gset_def last_conv_nth list_update_append1 butlast_list_update
        intro!: nth_equalityI simp: nth_append nth_list_update nth_butlast)
  show ?thesis
    unfolding insertCells_def Let_def cur_row_access(1) [OF wf] Option.bind.simps m_def [symmetric] le(2)
      blit_open [OF c(1) m(1,2) le(1)]
    using last sz m(3) by (simp add: cs_def cur_row_access(2) [OF wf])
qed

lemma deleteChars_eq:
  assumes wf: "wf_term w h P M t" and n: "1 \<le> n"
  shows "deleteChars n t = Some (set_cur ((tcur t)\<lparr>pendingWrap := False\<rparr>) (put_row ((cur_row t)\<lparr>cells :=
    close_gap (nat (cx (tcur t))) (nat w) (clip (cx (tcur t)) (w - 1) n) (blankCell (eraseStyle (pen t))) (cells (cur_row t))\<rparr>) t))"
proof -
  define m where "m = (if n > t_w t - cx (tcur t) then t_w t - cx (tcur t) else n)"
  note c = wf_cur [OF wf] and sz = wf_size [OF wf] and len = row_wfD(1) [OF cur_row_wf [OF wf]]
  have m: "0 \<le> m" "cx (tcur t) + m \<le> t_w t" "nat m = clip (cx (tcur t)) (w - 1) n" "1 \<le> m"
    using n c sz by (auto simp: m_def clip_def min_def)
  have le: "t_w t \<le> glen (cells (cur_row t))" "glen (cells (cur_row t)) = t_w t" using len sz by simp_all
  have f: "row_clear (r\<lparr>cells := cs\<rparr>) (t_w t - m) (t_w t) st = r\<lparr>cells := ds\<rparr>"
    if "gfill cs (t_w t - m) (t_w t) (blankCell (eraseStyle st)) = Some ds" "glen cs = t_w t" for r cs st ds
    using that m c sz by (auto simp: row_clear_def Let_def gfill_def split: if_splits)
  obtain src cs ds where s: "gslice (cells (cur_row t)) (cx (tcur t) + m) (t_w t) = Some src"
    "gcopy (cells (cur_row t)) (cx (tcur t)) (t_w t) src = Some cs"
    "gfill cs (t_w t - m) (t_w t) (blankCell (eraseStyle (pen t))) = Some ds"
    "ds = close_gap (nat (cx (tcur t))) (nat (t_w t)) (nat m) (blankCell (eraseStyle (pen t))) (cells (cur_row t))"
    using blit_close [OF c(1) m(1,2) le(1), of "blankCell (eraseStyle (pen t))" Some]
    by (auto simp: bind_eq_Some_conv le(2))
  have "glen cs = t_w t" using gcopy_length [OF s(2)] le by simp
  note f' = f [OF s(3) this]
  show ?thesis
    unfolding deleteChars_def Let_def cur_row_access(1) [OF wf] Option.bind.simps m_def [symmetric] le(2) s(1,2) f'
    using s(4) m(3) sz by (simp add: cur_row_access(2) [OF wf])
qed

lemma eraseChars_eq:
  assumes wf: "wf_term w h P M t"
  shows "eraseChars n t = Some (set_cur ((tcur t)\<lparr>pendingWrap := False\<rparr>)
    (put_row (row_clear (cur_row t) (cx (tcur t)) (min w (cx (tcur t) + n)) (pen t)) t))"
  using wf_size [OF wf]
  by (simp add: eraseChars_def Let_def cur_row_access [OF wf] min_def)


text \<open>The columns \<open>eraseInLine\<close> clears: a wide character is not cut in half at its end.\<close>

definition erase_to :: "Terminal \<Rightarrow> int" where
  "erase_to t = (let x = cx (tcur t) in
     if x + 1 < t_w t \<and> Width (cells (cur_row t) ! nat (x + 1)) = 0 then x + 2 else x + 1)"

definition line_erased :: "int \<Rightarrow> Terminal \<Rightarrow> row" where
  "line_erased mode t =
    (if mode = 0 then row_clear (cur_row t) (cx (tcur t)) (t_w t) (pen t)
     else if mode = 1 then row_clear (cur_row t) 0 (erase_to t) (pen t)
     else if mode = 2 then row_clear (cur_row t) 0 (t_w t) (pen t)
     else cur_row t)"

text \<open>The cached blank row is rebuilt by the modes that use it.\<close>

definition recached :: "bool \<Rightarrow> Terminal \<Rightarrow> Terminal" where
  "recached b t = (if b then cached t else t)"

lemma put_row_cached: "put_row r (cached t) = cached (put_row r t)"
  by (simp add: put_row_def cached_set_act)

lemma put_row_same: "wf_term w h P M t \<Longrightarrow> put_row (cur_row t) t = t"
  by (simp add: put_row_def cur_row_def)

lemma eraseInLine_eq:
  assumes wf: "wf_term w h P M t"
  shows "eraseInLine mode t = Some (recached (mode = 0 \<or> mode = 2) (put_row (line_erased mode t) t))"
proof -
  note c = wf_cur [OF wf] and sz = wf_size [OF wf] and len = row_wfD(1) [OF cur_row_wf [OF wf]]
  have cl: "clearRow (cur_row t) a b t = Some (row_clear (cur_row t) a b (pen t), cached t)" for a b
    using len by (intro clearRow_eq [OF wf]) simp
  have sr: "set_row (cy (tcur t)) r (cached t) = Some (cached (put_row r t))" for r
    using cur_row_access(2) [OF wf_cached [OF wf]] by (simp add: put_row_cached)
  consider "mode = 0" | "mode = 2" | "mode = 1" | "mode \<noteq> 0" "mode \<noteq> 1" "mode \<noteq> 2" by blast
  then show ?thesis
  proof cases
    case 3
    show ?thesis
    proof (cases "cx (tcur t) + 1 < t_w t")
      case True
      then have "gidx (cells (cur_row t)) (cx (tcur t) + 1) = Some (cells (cur_row t) ! nat (cx (tcur t) + 1))"
        using c sz len by simp
      with True 3 show ?thesis
        by (simp add: eraseInLine_def Let_def cur_row_access [OF wf] line_erased_def erase_to_def recached_def)
    qed (simp add: 3 eraseInLine_def Let_def cur_row_access [OF wf] line_erased_def erase_to_def recached_def)
  qed (simp_all add: eraseInLine_def Let_def cur_row_access [OF wf] line_erased_def recached_def cl sr put_row_same [OF wf])
qed

text \<open>Rows \<open>[y, y + n)\<close> replaced by fresh ones.\<close>

definition blank_rows :: "nat \<Rightarrow> nat \<Rightarrow> Terminal \<Rightarrow> Terminal" where
  "blank_rows y n t = set_act ((act t)\<lparr>rows :=
     take y (rows (act t)) @ replicate n (penRow t) @ drop (y + n) (rows (act t))\<rparr>) t"


lemma blank_rows_simps [simp]:
  "tcur (blank_rows y n t) = tcur t" "pen (blank_rows y n t) = pen t" "t_w (blank_rows y n t) = t_w t"
  "t_h (blank_rows y n t) = t_h t" "penRow (blank_rows y n t) = penRow t" "blank_rows y 0 t = t"
  "blank_rows y n (cached t) = cached (blank_rows y n t)"
  by (simp_all add: blank_rows_def penRow_def cached_set_act) (simp add: tcur_def)


lemma blank_rows_step:
  assumes "y < length (rows (act t))"
  shows "blank_rows (Suc y) n (set_act ((act t)\<lparr>rows := (rows (act t))[y := penRow t]\<rparr>) t) = blank_rows y (Suc n) t"
proof -
  have "take (Suc y) ((rows (act t))[y := penRow t]) = take y (rows (act t)) @ [penRow t]"
    using assms by (simp add: take_Suc_conv_app_nth)
  then show ?thesis by (simp add: blank_rows_def penRow_def)
qed

lemma blank_rows_wf:
  assumes wf: "wf_term w h P M t" and "y + n \<le> nat h"
  shows "wf_term w h P M (blank_rows y n t)"
  using wf_act_facts(1) [OF wf] penRow_wf [OF wf] assms(2) unfolding blank_rows_def
  by (intro wf_set_rows [OF wf]) (auto simp: rows_wf_def intro: list_all_takeI list_all_dropI)

lemma set_penRow:
  assumes wf: "wf_term w h P M t" and y: "0 \<le> y" "y < h"
  obtains r where "get_row y t = Some r" "row_wf w r" "(row_clear r 0 (t_w t) (pen t))\<lparr>wrapped := False\<rparr> = penRow t"
    "set_row y (penRow t) t = Some (blank_rows (nat y) 1 t)" "nat y < length (rows (act t))"
proof -
  note rows = wf_act_facts(1) [OF wf]
  have l: "nat y < length (rows (act t))" using rows y by (auto simp: rows_wf_def)
  have r: "row_wf w (rows (act t) ! nat y)" by (rule rows_wf_nth [OF rows y])
  have "blank_rows (nat y) 1 t = set_act ((act t)\<lparr>rows := (rows (act t))[nat y := penRow t]\<rparr>) t"
    using l by (simp add: blank_rows_def upd_conv_take_nth_drop)
  with l y r cleared_penRow [OF wf r] show ?thesis
    by (intro that [of "rows (act t) ! nat y"]) (simp_all add: get_row_def set_row_def)
qed

lemma blank_rows_one: "y < length (rows (act t)) \<Longrightarrow> blank_rows (Suc y) n (blank_rows y 1 t) = blank_rows y (Suc n) t"
  using blank_rows_step [of y t n] by (simp add: blank_rows_def [of y "Suc 0"] upd_conv_take_nth_drop)

lemma clear_rows_eq:
  "wf_term w h P M t \<Longrightarrow> 0 \<le> y \<Longrightarrow> y + int n \<le> h \<Longrightarrow> clear_rows n y t = Some (blank_rows (nat y) n t)"
proof (induction n arbitrary: y t)
  case (Suc n)
  from set_penRow [OF Suc.prems(1,2)] Suc.prems(3) obtain r where
    r: "get_row y t = Some r" "(row_clear r 0 (t_w t) (pen t))\<lparr>wrapped := False\<rparr> = penRow t"
      "set_row y (penRow t) t = Some (blank_rows (nat y) 1 t)" "nat y < length (rows (act t))" by auto
  have "wf_term w h P M (blank_rows (nat y) 1 t)"
    using Suc.prems by (intro blank_rows_wf) auto
  from Suc.IH [OF this, of "y + 1"] Suc.prems r blank_rows_one [OF r(4)] show ?case
    by (simp add: nat_add_distrib)
qed simp

lemma clear_rows_cached_eq:
  "wf_term w h P M t \<Longrightarrow> 0 \<le> y \<Longrightarrow> y + int n \<le> h \<Longrightarrow>
     clear_rows_cached n y t = Some (if n = 0 then t else cached (blank_rows (nat y) n t))"
proof (induction n arbitrary: y t)
  case (Suc n)
  note wf = wf_cached [OF Suc.prems(1)]
  from set_penRow [OF wf Suc.prems(2)] Suc.prems(3) obtain r where
    r: "get_row y (cached t) = Some r" "row_wf w r" "(row_clear r 0 (t_w t) (pen t))\<lparr>wrapped := False\<rparr> = penRow t"
      "set_row y (penRow t) (cached t) = Some (blank_rows (nat y) 1 (cached t))" "nat y < length (rows (act t))"
    by (auto simp: penRow_def)
  have cl: "clearRow r 0 (t_w t) t = Some (row_clear r 0 (t_w t) (pen t), cached t)"
    using r(2) by (intro clearRow_eq [OF Suc.prems(1)]) (simp add: row_wf_def)
  have g: "get_row y t = Some r" using r(1) by (simp add: get_row_def)
  have "wf_term w h P M (blank_rows (nat y) 1 (cached t))"
    using Suc.prems by (intro blank_rows_wf wf) auto
  from Suc.IH [OF this, of "y + 1"] Suc.prems r g cl blank_rows_one [of "nat y" t] show ?case
    by (simp add: nat_add_distrib)
qed simp

definition display_erased :: "int \<Rightarrow> Terminal \<Rightarrow> Terminal" where
  "display_erased mode t =
    (let y = nat (cy (tcur t)) in
     if mode = 0 then blank_rows (Suc y) (nat (t_h t) - Suc y) (cached (put_row (line_erased 0 t) t))
     else if mode = 1 then put_row (line_erased 1 t) (blank_rows 0 y t)
     else if mode = 2 then cached (blank_rows 0 (nat (t_h t)) t)
     else if mode = 3 then set_act ((act t)\<lparr>scrollback := []\<rparr>) t
     else t)"


lemma cur_row_blank_rows: "y \<le> nat (cy (tcur t)) \<Longrightarrow> nat (cy (tcur t)) < length (rows (act t)) \<Longrightarrow>
    cur_row (blank_rows 0 y t) = cur_row t"
  by (simp add: cur_row_def blank_rows_def nth_append tcur_def)

lemma eraseInDisplay_eq:
  assumes wf: "wf_term w h P M t"
  shows "eraseInDisplay mode t = Some (display_erased mode t)"
proof -
  note c = wf_cur [OF wf] and sz = wf_size [OF wf]
  have l: "nat (cy (tcur t)) < length (rows (act t))" using wf_act_facts(1) [OF wf] c by (auto simp: rows_wf_def)
  consider "mode = 0" | "mode = 1" | "mode = 2" | "mode \<noteq> 0" "mode \<noteq> 1" "mode \<noteq> 2" by blast
  then show ?thesis
  proof cases
    case 1
    have "wp (eraseInLine 0 t) (wf_term w h P M)" by (rule wf_eraseInLine [OF wf])
    then have "wf_term w h P M (cached (put_row (line_erased 0 t) t))"
      by (simp add: eraseInLine_eq [OF wf] recached_def)
    from clear_rows_eq [OF this, of "cy (tcur t) + 1" "nat (h - (cy (tcur t) + 1))"] c sz 1
    show ?thesis
      by (simp add: eraseInDisplay_def Let_def eraseInLine_eq [OF wf] display_erased_def recached_def
          nat_add_distrib nat_diff_distrib)
  next
    case 2
    have "wf_term w h P M (blank_rows 0 (nat (cy (tcur t))) t)" using c by (intro blank_rows_wf [OF wf]) simp
    from eraseInLine_eq [OF this, of 1] clear_rows_eq [OF wf, of 0 "nat (cy (tcur t))"] c 2
      cur_row_blank_rows [OF order_refl l]
    show ?thesis
      by (simp add: eraseInDisplay_def Let_def display_erased_def recached_def line_erased_def erase_to_def)
  next
    case 3
    with clear_rows_cached_eq [OF wf, of 0 "nat h"] sz show ?thesis
      by (auto simp: eraseInDisplay_def Let_def display_erased_def)
  qed (simp add: eraseInDisplay_def Let_def display_erased_def)
qed

end
