(* ===== verification/Printing.thy ===== *)
theory Printing
  imports Edits
begin

text \<open>
  Printing in closed form (\<open>print\<close> of \<open>src/internal/vterm/term.go\<close>): what \<open>put_cells\<close> leaves in
  every column, the invariant that a row never holds half of a wide character, and text: writing
  the UTF-8 encoding of printable runes is printing the runes one after the other.
\<close>

section \<open>Wide characters stay whole\<close>

text \<open>
  A cell of width 2 is followed by its continuation (width 0), and every continuation follows a
  cell of width 2.
\<close>

definition wide_start :: "Cell list \<Rightarrow> nat \<Rightarrow> bool" where
  "wide_start cs i \<longleftrightarrow> i < length cs \<and> Width (cs ! i) = 2"

definition wide_end :: "Cell list \<Rightarrow> nat \<Rightarrow> bool" where
  "wide_end cs i \<longleftrightarrow> i < length cs \<and> Width (cs ! i) = 0"

definition paired :: "Cell list \<Rightarrow> bool" where
  "paired cs \<longleftrightarrow> \<not> wide_end cs 0 \<and> list_all (\<lambda>i. wide_start cs i = wide_end cs (Suc i)) [0..<length cs]"

lemma paired_iff: "paired cs \<longleftrightarrow> \<not> wide_end cs 0 \<and> (\<forall>i < length cs. wide_start cs i = wide_end cs (Suc i))"
  by (auto simp: paired_def list_all_iff)

lemma pairedD: "paired cs \<Longrightarrow> wide_start cs i = wide_end cs (Suc i)"
  by (cases "i < length cs") (auto simp: paired_iff wide_start_def wide_end_def)

text \<open>The width each column has after a character was stored at column \<open>x\<close>.\<close>

definition width_after :: "int \<Rightarrow> nat \<Rightarrow> Cell list \<Rightarrow> nat \<Rightarrow> int" where
  "width_after width x cs i =
    (if i = x then width
     else if width = 2 \<and> i = Suc x then 0
     else if Suc i = x \<and> Width (cs ! x) = 0 then 1
     else if width = 1 \<and> i = Suc x \<and> Width (cs ! x) = 2 then 1
     else if width = 2 \<and> i = Suc (Suc x) \<and> Width (cs ! Suc x) = 2 then 1
     else Width (cs ! i))"

lemma blank_like_some:
  "x < length cs \<Longrightarrow> blank_like cs (int x) = Some (cs[x := blankCell (eraseStyle (CStyle (cs ! x)))])"
  by (simp add: blank_like_def)

lemma width_blank [simp]: "Width (blankCell st) = 1"
  by (simp add: blankCell_def)

lemma put_cells_widths:
  assumes x: "x < length cs" and w: "t_w t = glen cs" and width: "width = 1 \<or> width = 2 \<and> Suc x < length cs"
  shows "\<exists>cs'. put_cells r width (int x) t cs = Some cs' \<and> length cs' = length cs
    \<and> (\<forall>i < length cs. Width (cs' ! i) = width_after width x cs i)"
proof -
  define c1 where "c1 = (if Width (cs ! x) = 0 \<and> 0 < x then cs[x - 1 := blankCell (eraseStyle (CStyle (cs ! (x - 1))))] else cs)"
  define c2 where "c2 = (if width = 1 \<and> Suc x < length cs \<and> Width (cs ! x) = 2
    then c1[Suc x := blankCell (eraseStyle (CStyle (c1 ! Suc x)))] else c1)"
  define c3 where "c3 = c2[x := \<lparr>Ch = char_bytes r, Width = width, CStyle = pen t, Link = link t\<rparr>]"
  define c4 where "c4 = (if Suc (Suc x) < length cs \<and> Width (c3 ! Suc x) = 2
    then c3[Suc (Suc x) := blankCell (eraseStyle (CStyle (c3 ! Suc (Suc x))))] else c3)"
  define c5 where "c5 = c4[Suc x := \<lparr>Ch = [], Width = 0, CStyle = pen t, Link = link t\<rparr>]"
  have len: "length c1 = length cs" "length c2 = length cs" "length c3 = length cs" "length c4 = length cs"
    by (simp_all add: c1_def c2_def c3_def c4_def)
  have xi: "c1 ! x = cs ! x" by (auto simp: c1_def)
  have s1: "(if Width (cs ! x) = 0 \<and> int x > 0 then blank_like cs (int x - 1) else Some cs) = Some c1"
    using x by (cases x) (simp_all add: c1_def blank_like_some)
  have n: "int x + 1 = int (Suc x)" "int x + 2 = int (Suc (Suc x))" by simp_all
  have s2: "(if width = 1 \<and> int x + 1 < t_w t \<and> Width (c1 ! x) = 2 then blank_like c1 (int x + 1) else Some c1) = Some c2"
    using x w len unfolding c2_def xi n by (simp add: blank_like_some del: of_nat_Suc)
  have s4: "(if int x + 2 < t_w t then do { d \<leftarrow> gidx c3 (int x + 1); if Width d = 2 then blank_like c3 (int x + 2) else Some c3 }
      else Some c3) = Some c4"
    using x w len unfolding c4_def n by (simp add: blank_like_some del: of_nat_Suc)
  have nx: "nat (int x + 1) = Suc x" by simp
  have eq: "put_cells r width (int x) t cs = Some (if width = 2 then c5 else c3)"
    unfolding put_cells_def using x len s1 s2 s4 width by (auto simp: c3_def c5_def nx)
  have "length (if width = 2 then c5 else c3) = length cs" using len by (simp add: c5_def)
  moreover have "Width ((if width = 2 then c5 else c3) ! i) = width_after width x cs i" if i: "i < length cs" for i
  proof -
    have w1: "Width (c1 ! j) = (if Suc j = x \<and> Width (cs ! x) = 0 then 1 else Width (cs ! j))" if "j < length cs" for j
      using that x by (cases "Suc j = x") (auto simp: c1_def)
    have w2: "Width (c2 ! j) = (if width = 1 \<and> j = Suc x \<and> Width (cs ! x) = 2 then 1 else Width (c1 ! j))" if "j < length cs" for j
      using that len by (cases "j = Suc x") (auto simp: c2_def)
    have w3: "Width (c3 ! j) = (if j = x then width else Width (c2 ! j))" if "j < length cs" for j
      using that len by (cases "j = x") (simp_all add: c3_def)
    have w4: "Width (c4 ! j) = (if j = Suc (Suc x) \<and> Width (c3 ! Suc x) = 2 then 1 else Width (c3 ! j))" if "j < length cs" for j
      using that len by (cases "j = Suc (Suc x)") (auto simp: c4_def)
    have w5: "Width (c5 ! j) = (if j = Suc x then 0 else Width (c4 ! j))" if "j < length cs" for j
      using that len by (cases "j = Suc x") (simp_all add: c5_def)
    have nx: "Width (c3 ! Suc x) = Width (cs ! Suc x)" if "width = 2"
      using that width w3 [of "Suc x"] w2 [of "Suc x"] w1 [of "Suc x"] by simp
    show ?thesis
    proof (cases "width = 2")
      case True
      then show ?thesis using i by (simp add: w5 w4 nx w3 w2 w1 width_after_def)
    next
      case False
      then show ?thesis using i width by (simp add: w3 w2 w1 width_after_def)
    qed
  qed
  ultimately show ?thesis using eq by blast
qed


lemma put_cells_paired:
  assumes p: "paired cs" and x: "x < length cs" and w: "t_w t = glen cs"
    and width: "width = 1 \<or> width = 2 \<and> Suc x < length cs"
  shows "wp (put_cells r width (int x) t cs) (\<lambda>cs'. paired cs' \<and> length cs' = length cs)"
proof -
  from put_cells_widths [OF x w width, of r] obtain cs' where
    cs': "put_cells r width (int x) t cs = Some cs'" "length cs' = length cs"
      "\<And>i. i < length cs \<Longrightarrow> Width (cs' ! i) = width_after width x cs i" by blast
  have pr: "Width (cs ! i) = 2 \<longleftrightarrow> Suc i < length cs \<and> Width (cs ! Suc i) = 0" if "i < length cs" for i
    using pairedD [OF p, of i] that by (auto simp: wide_start_def wide_end_def)
  have p0: "Width (cs ! 0) \<noteq> 0" using p x by (auto simp: paired_iff wide_end_def)
  have "\<not> wide_end cs' 0"
    using cs'(2) cs'(3) [of 0] p0 width x by (auto simp: wide_end_def width_after_def split: if_splits)
  moreover have "wide_start cs' i = wide_end cs' (Suc i)" if "i < length cs'" for i
  proof -
    have a: "Width (cs' ! i) = width_after width x cs i" using that cs'(2,3) by simp
    have b: "Width (cs' ! Suc i) = width_after width x cs (Suc i)" if "Suc i < length cs" using that cs'(3) by simp
    consider "i = x" | "i = Suc x" | "Suc i = x" | "i = Suc (Suc x)" | "Suc (Suc i) = x"
      | "i \<noteq> x" "i \<noteq> Suc x" "Suc i \<noteq> x" "i \<noteq> Suc (Suc x)" "Suc (Suc i) \<noteq> x"
      by blast
    then show ?thesis
      unfolding wide_start_def wide_end_def cs'(2)
      using that width x pr [of i] pr [of x] pr [of "Suc x"] pr [of "Suc i"] cs'(2) a b
      by cases (auto simp: width_after_def split: if_splits)
  qed
  ultimately have "paired cs'" by (simp add: paired_iff)
  with cs' show ?thesis by simp
qed


section \<open>Text\<close>

text \<open>A rune that is not a control character, and that UTF-8 can encode.\<close>

definition printable :: "rune \<Rightarrow> bool" where
  "printable r \<longleftrightarrow> valid_rune r \<and> 0x20 \<le> r \<and> r \<noteq> 0x7f"

lemma rune_bytes_ascii:
  assumes "printable r" "r < 0x80"
  obtains b where "rune_bytes r = [b]" "uint b = r" "b < 0x80" "\<not> (b < 0x20 \<or> b = 0x7f)"
proof -
  have r: "0 \<le> r" "r < 256" using assms by (auto simp: printable_def)
  then have u: "uint (word_of_int r :: byte) = r" by (rule uint_word_of_int_byte)
  moreover have "rune_bytes r = [word_of_int r]" using assms r by (simp add: rune_bytes_def)
  ultimately show ?thesis
    using assms by (intro that [of "word_of_int r"]) (auto simp: printable_def word_less_def word_uint_eq_iff)
qed

lemma rune_bytes_high:
  assumes "valid_rune r" "0x80 \<le> r"
  shows "\<exists>b q. rune_bytes r = b # q \<and> \<not> b < 0x80 \<and> q \<noteq> []"
proof -
  have h: "\<not> (word_of_int k :: byte) < 0x80" if "0x80 \<le> k" "k < 256" for k
    using that by (simp add: word_less_def uint_word_of_int_byte)
  have "r div 64 < 32" if "r \<le> 0x7FF" using that by linarith
  moreover have "r div 4096 < 16" if "r \<le> 0xFFFF" using that by linarith
  moreover have "r div 262144 < 5" using assms by (auto simp: valid_rune_def)
  ultimately show ?thesis
    using assms h [of "192 + r div 64"] h [of "224 + r div 4096"] h [of "240 + r div 262144"]
    by (auto simp: rune_bytes_def simp del: of_int_add)
qed

text \<open>One rune at the head of the data.\<close>

lemma write_loop_rune:
  assumes r: "printable r" and g: "pstate (t_p t) = stateGround"
  shows "write_loop (rune_bytes r @ q) t = print r t \<bind> write_loop q"
proof (cases "r < 0x80")
  case True
  from rune_bytes_ascii [OF r this] obtain b where
    b: "rune_bytes r = [b]" "uint b = r" "b < 0x80" "\<not> (b < 0x20 \<or> b = 0x7f)" by blast
  then show ?thesis using g by (subst write_loop.simps) (simp add: feedByte_def)
next
  case False
  from r have v: "valid_rune r" by (simp add: printable_def)
  from rune_bytes_high [OF v] False obtain b p where b: "rune_bytes r = b # p" "\<not> b < 0x80" "p \<noteq> []" by auto
  have d: "DecodeRune (b # p @ q) = (r, Suc (length p))"
    using DecodeRune_rune_bytes [OF v, of q] b(1) by simp
  show ?thesis
    unfolding b(1) using b(2,3) d g
    by (subst write_loop.simps) (simp add: text_state_def feedRune_def)
qed

lemma write_loop_text:
  assumes "wf_term w h (\<lambda>p. p = p0) M t" "2 \<le> w" "pstate p0 = stateGround" "list_all printable rs"
  shows "write_loop (concat (map rune_bytes rs)) t = run print rs t"
  using assms(1,4)
proof (induction rs arbitrary: t)
  case (Cons r rs)
  have p: "t_p t = p0" using wf_parserD [OF Cons.prems(1)] by simp
  from wf_print [OF Cons.prems(1) assms(2)] obtain u where u: "print r t = Some u" "wf_term w h (\<lambda>p. p = p0) M u"
    by (auto simp: wp_ex)
  from Cons.IH [OF u(2)] Cons.prems(2) u(1) show ?case
    by (simp add: write_loop_rune p assms(3))
qed (simp add: write_loop.simps)

end
