(* ===== verification/Vt_Properties.thy ===== *)
theory Vt_Properties
  imports Csi_Feed Printing
begin

text \<open>
  What the terminal emulator of \<open>src/internal/vterm\<close> guarantees, stated over its public operations
  and over the operations the escape sequences call.
\<close>

text \<open>A new terminal is well formed, for every frame its parser and main screen satisfy.\<close>

lemma New_ok:
  assumes "1 \<le> w" "1 \<le> h"
  shows "wf_term w h (\<lambda>_. True) (\<lambda>_. True) (New w h)" "wf_idle w h M (New w h)"
    "wf_term w h (\<lambda>p. p = zeroParser) M (New w h)"
  using New_wf [of "\<lambda>_. True" w h "\<lambda>_. True"] New_wf [of parser_idle w h M]
    New_wf [of "\<lambda>p. p = zeroParser" w h M] assms
  by (simp_all add: max_def)

section \<open>Robustness\<close>

text \<open>C1: Whatever bytes a program writes, and however the terminal is resized or its scrollback
  bounded in between, the emulator of a terminal of at least two columns never panics on an index,
  and stays well formed.\<close>

theorem emulator_never_panics:
  assumes "2 \<le> w" "list_all vt_admissible es"
  shows "\<exists>t. run vt_step es (New w h) = Some t \<and> vt_wf t"
  using vt.run_returns [OF vt_New [OF assms(1)] assms(2)] .

theorem emulator_never_panics_witness:
  "\<exists>t. run vt_step [WriteEv [0x68, 0x69, 0x1b, 0x5b, 0x32, 0x4a], ResizeEv 3 1, ScrollbackEv 1, WriteEv [0xe6, 0xbc, 0xa2]] (New 4 2)
     = Some t \<and> vt_wf t"
  by (rule emulator_never_panics) simp_all

text \<open>On a terminal of one column the guarantee fails: a character of two columns makes \<open>print\<close>
  write past the end of the row.\<close>

theorem one_column_wide_char_panics:
  "Write (rune_bytes 0x6f22) (New 1 1) = None"
  by code_simp

text \<open>\<open>Resize\<close> succeeds on every well-formed terminal and gives it exactly the requested size,
  at least one column and one row.\<close>

theorem resize_gives_size:
  assumes "wf_term w h P M t"
  shows "\<exists>t'. Resize w' h' t = Some t' \<and> wf_term (max 1 w') (max 1 h') P (\<lambda>_. True) t'"
  using wf_Resize [OF assms, of w' h'] by (simp add: wp_ex)

theorem resize_gives_size_witness:
  "\<exists>t'. Resize 2 0 (New 4 3) = Some t' \<and> wf_term (max 1 2) (max 1 0) (\<lambda>_. True) (\<lambda>_. True) t'"
  by (rule resize_gives_size [OF New_ok(1) [of 4 3]]) simp_all

text \<open>C2: While the alternate screen is shown, no byte of input changes the hidden main screen (its
  lines, its scrollback, its saved cursor), unless that byte ends the sequence that leaves the
  alternate screen.\<close>

theorem hidden_main_screen_untouched:
  assumes "wf_idle w h (\<lambda>_. True) t" "2 \<le> w" "altActive t"
  shows "\<exists>t'. feedByte b t = Some t' \<and> (altActive t' \<longrightarrow> t_main t' = t_main t)"
proof -
  have "wf_idle w h (\<lambda>s. s = t_main t) t" using assms(1) by (simp add: wf_term_def)
  from wf_feedByte [OF this assms(2), of b] assms(3) show ?thesis
    by (auto simp: wp_ex wf_term_def)
qed

lemma alt_example: "wf_idle 2 1 (\<lambda>_. True) (enterAltScreen True (New 2 1))"
  using New_ok(2) [of 2 1 "\<lambda>_. True"] by (intro wf_enterAltScreen) auto

lemma alt_example_run: "map_option altActive (feedByte 0x41 (enterAltScreen True (New 2 1))) = Some True"
  by code_simp

theorem hidden_main_screen_untouched_witness:
  "\<exists>t'. feedByte 0x41 (enterAltScreen True (New 2 1)) = Some t' \<and> t_main t' = t_main (enterAltScreen True (New 2 1))"
  using hidden_main_screen_untouched [OF alt_example, of "0x41"] alt_example_run by auto

text \<open>C33: After any input, the parser's memory is bounded: at most 32 parameters, each between 0 and
  \<open>2 ^ 24\<close>, at most 4099 bytes of OSC string, at most 3 bytes of an unfinished rune; and the
  scrollback holds at most as many lines as it was told to.\<close>

theorem parser_memory_bounded:
  assumes "2 \<le> w" "list_all vt_admissible es" "run vt_step es (New w h) = Some t"
  shows "nParams (t_p t) \<le> 32 \<and> list_all (\<lambda>v. 0 \<le> v \<and> v \<le> 2 ^ 24) (params (t_p t)) \<and> glen (osc (t_p t)) \<le> 4099
    \<and> nPart (t_p t) \<le> 3 \<and> ScrollbackLen t \<le> maxScrollback t"
proof -
  from vt.run_safe [OF vt_New [OF assms(1), of h] assms(2)] assms(3) have "vt_wf t" by auto
  then have "parser_wf (t_p t)" "scrollback_wf (maxScrollback t) (scrollback (t_main t))"
    by (auto simp: vt_wf_def wf_term_def carry_ok_def screen_wf_def)
  then show ?thesis
    by (auto simp: parser_wf_def maxParams_def maxOSCBytes_def ScrollbackLen_def scrollback_wf_def
        list_all_iff param_ok_def)
qed

definition long_csi :: bytes where
  "long_csi = [0x1b, 0x5b] @ replicate 12 0x39 @ replicate 40 0x3b @ [0x35]"

lemma long_csi_run:
  "map_option (\<lambda>t. (nParams (t_p t), params (t_p t) ! 0)) (run vt_step [WriteEv long_csi] (New 2 1)) = Some (32, 2 ^ 24)"
  by code_simp

theorem parser_memory_bounded_witness:
  "\<exists>t. run vt_step [WriteEv long_csi] (New 2 1) = Some t \<and> nParams (t_p t) = 32 \<and> params (t_p t) ! 0 = 2 ^ 24
     \<and> glen (osc (t_p t)) \<le> 4099 \<and> ScrollbackLen t \<le> maxScrollback t"
  using long_csi_run parser_memory_bounded [of 2 "[WriteEv long_csi]" 1] by auto

section \<open>The screen\<close>

text \<open>Clearing a row by copying from the cached blank row, the fast path, is clearing it cell by
  cell.\<close>

theorem clearRow_is_clear:
  assumes "wf_term w h P M t" "glen (cells r) \<le> w"
  shows "\<exists>t'. clearRow r a b t = Some (row_clear r a b (pen t), t') \<and> act t' = act t \<and> pen t' = pen t"
  using clearRow_eq [OF assms, of a b] by simp

theorem clearRow_is_clear_witness:
  "\<exists>t'. clearRow (newRow 4) 1 3 (New 4 1) = Some (row_clear (newRow 4) 1 3 (pen (New 4 1)), t')
     \<and> act t' = act (New 4 1) \<and> pen t' = pen (New 4 1)"
  by (rule clearRow_is_clear [OF New_ok(1) [of 4 1]]) simp_all

text \<open>C26: A scroll of the region by \<open>n\<close> lines: the region loses its first lines (no more than it
  has), the rest moves up, fresh rows with the pen's background fill the bottom, the lines outside
  stay; the cursor stays; only a kept scroll from the top of the screen feeds the scrollback.\<close>

theorem scroll_moves_region_up:
  assumes "wf_term w h P M t" "1 \<le> n"
    and "a = nat (s_top (act t))" "b = nat (s_bot (act t) + 1)" "m = nat (min n (s_bot (act t) - s_top (act t) + 1))"
    and "rs = rows (act t)"
  shows "\<exists>t'. scroll n keep t = Some t' \<and> tcur t' = tcur t \<and> s_top (act t') = s_top (act t)
    \<and> s_bot (act t') = s_bot (act t)
    \<and> rows (act t') = unwrap_at a (take a rs @ take (b - a - m) (drop (a + m) rs) @ replicate m (penRow t) @ drop b rs)
    \<and> scrollback (act t') = (if keep \<and> s_top (act t) = 0
         then fold (pushed (maxScrollback t) (t_s t)) (take m rs) (scrollback (act t)) else scrollback (act t))"
  using scroll_eq [OF assms(1,2), of keep]
  by (simp add: scrolled_def Let_def clip_def close_gap_def assms(3-6)) (simp add: tcur_def)

theorem scroll_moves_region_up_witness:
  "\<exists>t'. scroll 1 True (New 2 2) = Some t' \<and> rows (act t') = unwrap_at 0 (take 1 (drop 1 (rows (act (New 2 2)))) @ [penRow (New 2 2)])
     \<and> scrollback (act t') = fold (pushed 2000 MainScr) (take 1 (rows (act (New 2 2)))) []"
proof -
  have n: "s_top (act (New 2 2)) = 0" "s_bot (act (New 2 2)) = 1" "length (rows (act (New 2 2))) = 2"
    "maxScrollback (New 2 2) = 2000" "t_s (New 2 2) = MainScr" "scrollback (act (New 2 2)) = []"
    by code_simp+
  show ?thesis
    using scroll_moves_region_up [OF New_ok(1) [of 2 2], of 1 _ _ _ _ True] n by fastforce
qed


text \<open>\<open>deleteLines n\<close> inside the region: the \<open>n\<close> lines from the cursor on (no more than the region
  has left) disappear, the rest of the region moves up, fresh rows fill its bottom, and the cursor
  goes to the first column.\<close>

theorem deleteLines_rows:
  assumes "wf_term w h P M t" "1 \<le> n" "s_top (act t) \<le> cy (tcur t)" "cy (tcur t) \<le> s_bot (act t)"
    and "y = nat (cy (tcur t))" "b = nat (s_bot (act t) + 1)" "m = nat (min n (s_bot (act t) - cy (tcur t) + 1))"
    and "rs = rows (act t)"
  shows "\<exists>t'. deleteLines n t = Some t' \<and> tcur t' = (tcur t)\<lparr>cx := 0, pendingWrap := False\<rparr>
    \<and> rows (act t') = take y rs @ take (b - y - m) (drop (y + m) rs) @ replicate m (penRow t) @ drop b rs"
  using deleteLines_eq [OF assms(1-4)] by (simp add: clip_def close_gap_def assms(5-8))

theorem deleteLines_rows_witness:
  "\<exists>t'. deleteLines 1 (New 2 3) = Some t' \<and> tcur t' = (tcur (New 2 3))\<lparr>cx := 0, pendingWrap := False\<rparr>
    \<and> rows (act t') = take 2 (drop 1 (rows (act (New 2 3)))) @ [penRow (New 2 3)]"
proof -
  have n: "s_top (act (New 2 3)) = 0" "s_bot (act (New 2 3)) = 2" "cy (tcur (New 2 3)) = 0"
    "length (rows (act (New 2 3))) = 3"
    by code_simp+
  show ?thesis
    using deleteLines_rows [OF New_ok(1) [of 2 3], of 1 0 3 1] n by fastforce
qed

text \<open>Inserting lines and deleting as many at the same place gives every line back but the last
  ones of the region, which the insertion pushed out.\<close>

theorem insert_then_delete_lines:
  assumes "wf_term w h P M t" "1 \<le> n" "s_top (act t) \<le> cy (tcur t)" "cy (tcur t) \<le> s_bot (act t)"
    and "b = nat (s_bot (act t) + 1)" "m = nat (min n (s_bot (act t) - cy (tcur t) + 1))" "rs = rows (act t)"
  shows "\<exists>u t'. insertLines n t = Some u \<and> deleteLines n u = Some t'
    \<and> rows (act t') = take (b - m) rs @ replicate m (penRow t) @ drop b rs"
proof -
  note wf = assms(1) and c = wf_cur [OF assms(1)] and reg = wf_region [OF assms(1)]
  define y where "y = nat (cy (tcur t))"
  have wp: "wp (insertLines n t) (wf_term w h P M)" using assms(2) by (intro wf_insertLines wf) simp_all
  define u where "u = set_act ((act t)\<lparr>rows := open_gap y b m (penRow t) rs,
    cur := (tcur t)\<lparr>cx := 0, pendingWrap := False\<rparr>\<rparr>) t"
  have u: "insertLines n t = Some u"
    using insertLines_eq [OF assms(1-4)] by (simp add: u_def y_def assms(5-7) clip_def)
  with wp have wu: "wf_term w h P M u" by simp
  have us: "s_top (act u) = s_top (act t)" "s_bot (act u) = s_bot (act t)" "cy (tcur u) = cy (tcur t)"
    "penRow u = penRow t" "rows (act u) = open_gap y b m (penRow t) rs"
    by (simp_all add: u_def penRow_def)
  from deleteLines_rows [OF wu assms(2), of y b m "rows (act u)"] assms(3-6) us y_def
  obtain t' where t': "deleteLines n u = Some t'"
    "rows (act t') = close_gap y b m (penRow t) (open_gap y b m (penRow t) rs)"
    by (auto simp: close_gap_def)
  have "y + m \<le> b" "b \<le> length rs"
    using assms(2-7) c reg wf_act_facts(1) [OF wf] by (auto simp: y_def rows_wf_def nat_le_iff min_def nat_add_distrib [symmetric])
  with u t' show ?thesis by (simp add: close_open_gap)
qed


theorem insert_then_delete_lines_witness:
  "\<exists>u t'. insertLines 1 (New 2 3) = Some u \<and> deleteLines 1 u = Some t'
    \<and> rows (act t') = take 2 (rows (act (New 2 3))) @ [penRow (New 2 3)]"
proof -
  have n: "s_top (act (New 2 3)) = 0" "s_bot (act (New 2 3)) = 2" "cy (tcur (New 2 3)) = 0"
    "length (rows (act (New 2 3))) = 3"
    by code_simp+
  show ?thesis
    using insert_then_delete_lines [OF New_ok(1) [of 2 3], of 1 3 1] n by fastforce
qed

text \<open>\<open>deleteChars n\<close> removes \<open>n\<close> cells at the cursor, closes the gap and blanks the end of the
  row with the pen's background; no other row changes.\<close>

theorem deleteChars_cells:
  assumes "wf_term w h P M t" "1 \<le> n"
    and "x = nat (cx (tcur t))" "y = nat (cy (tcur t))" "m = nat (min n (w - cx (tcur t)))" "cs = cells (rows (act t) ! y)"
  shows "\<exists>t'. deleteChars n t = Some t' \<and> cx (tcur t') = cx (tcur t) \<and> cy (tcur t') = cy (tcur t)
    \<and> rows (act t') = (rows (act t))[y := (rows (act t) ! y)\<lparr>cells :=
         take x cs @ drop (x + m) cs @ replicate m (blankCell (eraseStyle (pen t)))\<rparr>]"
proof -
  have len: "length cs = nat w" using cur_row_wf [OF assms(1)] wf_size [OF assms(1)] by (auto simp: row_wf_def cur_row_def assms(4,6))
  have "x + m \<le> nat w" using wf_cur(1,2) [OF assms(1)] assms(2) by (auto simp: assms(3,5) min_def nat_add_distrib [symmetric])
  then have "close_gap x (nat w) m c cs = take x cs @ drop (x + m) cs @ replicate m c" for c
    using len by (simp add: close_gap_def)
  then show ?thesis
    using deleteChars_eq [OF assms(1,2)] by (simp add: put_row_def cur_row_def clip_def assms(3-6))
qed

theorem deleteChars_cells_witness:
  "\<exists>t'. deleteChars 1 (New 3 1) = Some t' \<and> cx (tcur t') = 0
    \<and> cells (rows (act t') ! 0) = drop 1 (cells (rows (act (New 3 1)) ! 0)) @ [blankCell (eraseStyle (pen (New 3 1)))]"
proof -
  have n: "cx (tcur (New 3 1)) = 0" "cy (tcur (New 3 1)) = 0" "length (rows (act (New 3 1))) = 1" by code_simp+
  show ?thesis
    using deleteChars_cells [OF New_ok(1) [of 3 1], of 1 0 0 1] n by fastforce
qed

lemma put_row_view: "cur (act (put_row r t)) = tcur t" "penRow (put_row r t) = penRow t" "penRow (cached t) = penRow t"
  by (simp_all add: put_row_def penRow_def tcur_def)

text \<open>\<open>eraseInDisplay\<close> clears exactly what its mode names: from the cursor to the end, from the
  start to the cursor (never half of a wide character at the end), or everything; the cursor stays.\<close>

theorem eraseInDisplay_rows:
  assumes "wf_term w h P M t" and "y = nat (cy (tcur t))" "rs = rows (act t)"
  shows "(\<exists>t'. eraseInDisplay 0 t = Some t' \<and> tcur t' = tcur t
      \<and> rows (act t') = take y rs @ [row_clear (rs ! y) (cx (tcur t)) w (pen t)] @ replicate (nat h - Suc y) (penRow t))
    \<and> (\<exists>t'. eraseInDisplay 1 t = Some t' \<and> tcur t' = tcur t
      \<and> rows (act t') = replicate y (penRow t) @ [row_clear (rs ! y) 0 (erase_to t) (pen t)] @ drop (Suc y) rs)
    \<and> (\<exists>t'. eraseInDisplay 2 t = Some t' \<and> tcur t' = tcur t \<and> rows (act t') = replicate (nat h) (penRow t))"
    (is "?below \<and> ?above \<and> ?all")
proof (intro conjI)
  note wf = assms(1) and c = wf_cur [OF assms(1)] and sz = wf_size [OF assms(1)]
  have l: "length rs = nat h" "y < length rs" using wf_act_facts(1) [OF wf] c by (auto simp: rows_wf_def assms(2,3))
  note eqs = eraseInDisplay_eq [OF wf] display_erased_def Let_def line_erased_def cur_row_def assms(2,3) [symmetric]
  show ?below
    using l sz by (simp add: eqs blank_rows_def put_row_view take_Suc_conv_app_nth)
  have "(replicate y p @ drop y rs)[y := r] = replicate y p @ r # drop (Suc y) rs" for p r
    using l by (simp add: list_update_append Cons_nth_drop_Suc [symmetric])
  then show ?above
    using l by (simp add: eqs) (simp add: blank_rows_def assms(3) [symmetric])
  show ?all
    using l sz by (simp add: eqs) (simp add: blank_rows_def assms(3) [symmetric])
qed

theorem eraseInDisplay_rows_witness:
  "\<exists>t'. eraseInDisplay 2 (New 3 2) = Some t' \<and> tcur t' = tcur (New 3 2) \<and> rows (act t') = replicate 2 (penRow (New 3 2))"
  using eraseInDisplay_rows [OF New_ok(1) [of 3 2] refl refl] by simp


text \<open>A line that leaves the screen is appended, trimmed, to the scrollback; at the bound, the
  oldest eighth of the history (at least one line) goes in one batch, and nothing else is lost.\<close>

theorem pushScrollback_keeps_recent:
  assumes "0 < maxScrollback t" "glen (scrollback (t_main t)) \<le> maxScrollback t" "sb = scrollback (t_main t)"
  shows "\<exists>k. t_main (pushScrollback MainScr r t) = (t_main t)\<lparr>scrollback := drop k (sb @ [trimmed r])\<rparr>
    \<and> k = (if glen sb < maxScrollback t then 0 else nat (max 1 (maxScrollback t div 8)))
    \<and> glen (drop k (sb @ [trimmed r])) \<le> maxScrollback t"
proof -
  define n where "n = maxScrollback t"
  have n: "0 < n" "n div 8 \<le> n" "0 \<le> n div 8" "glen sb \<le> n" using assms by (simp_all add: n_def)
  define k where "k = (if glen sb < n then 0 else nat (max 1 (n div 8)))"
  have "drop_batch n (sb @ [trimmed r]) = drop k (sb @ [trimmed r])"
  proof (cases "glen sb < n")
    case False
    then have e: "glen sb = n" using n by simp
    show ?thesis
    proof (cases "1 < n div 8")
      case True
      then show ?thesis using e n(2) by (simp add: drop_batch_def k_def max_def)
    next
      case f: False
      then show ?thesis using e n(1,3) by (simp add: drop_batch_def k_def max_def)
    qed
  qed (simp add: drop_batch_def k_def)
  moreover have "glen (drop k (sb @ [trimmed r])) \<le> n"
    using n by (simp add: k_def max_def)
  moreover have "t_main (pushScrollback MainScr r t) = (t_main t)\<lparr>scrollback := drop_batch n (sb @ [trimmed r])\<rparr>"
    using n(1) by (simp add: pushScrollback_def deref_def assign_def n_def assms(3) Let_def)
  ultimately show ?thesis
    by (intro exI [of _ k] conjI) (simp_all only: k_def n_def)
qed

theorem pushScrollback_keeps_recent_witness:
  "\<exists>k. t_main (pushScrollback MainScr (newRow 2) (New 2 1)) = (t_main (New 2 1))\<lparr>scrollback := drop k [trimmed (newRow 2)]\<rparr>
    \<and> k = 0 \<and> glen (drop k [trimmed (newRow 2)]) \<le> maxScrollback (New 2 1)"
proof -
  have "maxScrollback (New 2 1) = 2000" "scrollback (t_main (New 2 1)) = []" by code_simp+
  then show ?thesis using pushScrollback_keeps_recent [of "New 2 1" "[]" "newRow 2"] by auto
qed

text \<open>A tab moves the cursor right to the nearest tab stop, or to the last column when there is
  none; it never moves left and skips no stop.\<close>

theorem tab_goes_to_next_stop:
  assumes "wf_term w h P M t"
  shows "\<exists>t' x. tabForward 1 t = Some t' \<and> x = cx (tcur t') \<and> cy (tcur t') = cy (tcur t)
    \<and> cx (tcur t) \<le> x \<and> x < w \<and> (x = w - 1 \<or> tabStops t ! nat x)
    \<and> (\<forall>i. cx (tcur t) < i \<and> i < x \<longrightarrow> \<not> tabStops t ! nat i)"
proof -
  define u where "u = set_cur ((tcur t)\<lparr>pendingWrap := False\<rparr>) t"
  note c = wf_cur [OF assms] and m = wf_modes(3) [OF assms] and sz = wf_size [OF assms]
  from tab_next_spec [of "cx (tcur t) + 1" w "tabStops t"] c m obtain x where
    x: "tab_next (tabStops t) w (cx (tcur t) + 1) = Some x" "cx (tcur t) + 1 \<le> x" "x \<le> w"
      "\<forall>i. cx (tcur t) + 1 \<le> i \<and> i < x \<longrightarrow> \<not> tabStops t ! nat i" "x < w \<longrightarrow> tabStops t ! nat x"
    by (auto simp: wp_ex)
  have "tabForward 1 t = Some (set_cur ((tcur u)\<lparr>cx := if x \<ge> t_w t then t_w t - 1 else x\<rparr>) u)"
    using x(1) sz by (simp add: tabForward_def u_def)
  with x c sz show ?thesis by (auto simp: u_def)
qed

theorem tab_goes_to_next_stop_witness:
  "\<exists>t'. tabForward 1 (New 20 1) = Some t' \<and> cx (tcur t') < 20 \<and> (cx (tcur t') = 19 \<or> tabStops (New 20 1) ! nat (cx (tcur t')))"
  using tab_goes_to_next_stop [OF New_ok(1) [of 20 1]] by auto

text \<open>Restoring the cursor brings back position, pen, hyperlink, character sets and origin mode as
  they were when it was saved, whatever was done to the terminal in between.\<close>

theorem restore_undoes_to_save:
  assumes "wf_term w h P M t" "t_w u = w" "t_h u = h" "saved (act u) = saved (act (saveCursor t))"
  shows "(let r = restoreCursor u in Cursor r = Cursor t \<and> pen r = pen t \<and> link r = link t \<and> glIndex r = glIndex t
    \<and> charsets r = charsets t \<and> origin r = origin t \<and> \<not> pendingWrap (tcur r) \<and> rows (act r) = rows (act u))"
  using wf_cur [OF assms(1)] assms(2-4)
  by (simp add: restoreCursor_def saveCursor_def Let_def Cursor_def)

theorem restore_undoes_to_save_witness:
  "(let t = New 5 2; u = moveCursor 3 1 (saveCursor t); r = restoreCursor u in Cursor r = Cursor t \<and> rows (act r) = rows (act u))"
  using restore_undoes_to_save [OF New_ok(1) [of 5 2], of "moveCursor 3 1 (saveCursor (New 5 2))"] wf_size [OF New_ok(1) [of 5 2]]
  by (simp add: Let_def moveCursor_def saveCursor_def)

text \<open>Leaving the alternate screen brings back the lines, the scroll region and the scrollback of
  the main screen and the cursor and pen that were saved on entry, whatever was drawn on the
  alternate screen.\<close>

theorem alt_screen_round_trip:
  assumes "wf_term w h P M t" "\<not> altActive t"
    and "altActive u" "t_w u = w" "t_h u = h" "t_main u = t_main (enterAltScreen True t)"
  shows "(let r = leaveAltScreen True u in \<not> altActive r \<and> rows (act r) = rows (act t) \<and> scrollback (act r) = scrollback (act t)
    \<and> s_top (act r) = s_top (act t) \<and> s_bot (act r) = s_bot (act t)
    \<and> Cursor r = Cursor t \<and> pen r = pen t \<and> link r = link t \<and> charsets r = charsets t)"
proof -
  have m: "t_s t = MainScr" using assms(1,2) by (cases "t_s t") (auto simp: wf_term_def modes_wf_def)
  have a: "act t = t_main t" by (simp add: act_def deref_def m)
  have u: "t_main u = (t_main t)\<lparr>saved := \<lparr>sv_x = cx (tcur t), sv_y = cy (tcur t), sv_pen = pen t,
      sv_link = link t, sv_charset = glIndex t, sv_g = charsets t, sv_origin = origin t, sv_valid = True\<rparr>\<rparr>"
    using assms(6) by (simp add: enterAltScreen_def assms(2) saveCursor_def set_act_def assign_def m a Let_def)
  show ?thesis
    using wf_cur [OF assms(1)] assms(3-5)
    by (simp add: leaveAltScreen_def Let_def restoreCursor_def act_def deref_def u a Cursor_def tcur_def set_cur_def
        set_act_def assign_def m)
qed


theorem alt_screen_round_trip_witness:
  "(let t = New 2 1; u = enterAltScreen True t; r = leaveAltScreen True u in \<not> altActive r \<and> rows (act r) = rows (act t))"
proof -
  have n: "\<not> altActive (New 2 1)" "altActive (enterAltScreen True (New 2 1))"
    "t_w (enterAltScreen True (New 2 1)) = 2" "t_h (enterAltScreen True (New 2 1)) = 1"
    by code_simp+
  show ?thesis
    using alt_screen_round_trip [OF New_ok(1) [of 2 1] n(1,2,3,4) refl] by (simp add: Let_def)
qed

text \<open>A full reset is a new terminal of the same size that keeps the scrollback, its bound, the
  title and the last printed character.\<close>

theorem full_reset_is_new:
  assumes "wf_term w h P M t"
  shows "fullReset t = (New w h)\<lparr>t_main := (newScreen w h)\<lparr>scrollback := scrollback (t_main t)\<rparr>,
    maxScrollback := maxScrollback t, title := title t, lastPrinted := lastPrinted t\<rparr>"
  using wf_size [OF assms]
  by (simp add: fullReset_def New_def init_def resetTabStops_def zeroTerminal_def Let_def)

theorem full_reset_is_new_witness:
  "fullReset (New 3 2) = (New 3 2)\<lparr>t_main := (newScreen 3 2)\<lparr>scrollback := scrollback (t_main (New 3 2))\<rparr>,
    maxScrollback := maxScrollback (New 3 2), title := title (New 3 2), lastPrinted := lastPrinted (New 3 2)\<rparr>"
  by (rule full_reset_is_new [OF New_ok(1) [of 3 2]]) simp_all

section \<open>Printing\<close>

text \<open>Storing a character in a row never leaves half of a wide character: if every wide character
  of the row was whole before, every one is after.\<close>

theorem printing_keeps_wide_chars_whole:
  assumes "paired cs" "x < length cs" "t_w t = glen cs" "width = 1 \<or> width = 2 \<and> Suc x < length cs"
  shows "\<exists>cs'. put_cells r width (int x) t cs = Some cs' \<and> paired cs' \<and> length cs' = length cs"
  using put_cells_paired [OF assms, of r] by (simp add: wp_ex)

theorem printing_keeps_wide_chars_whole_witness:
  "\<exists>cs'. put_cells 0x6f22 2 (int 0) (New 4 1) (cells (newRow 4)) = Some cs' \<and> paired cs' \<and> length cs' = length (cells (newRow 4))"
proof -
  have "paired (cells (newRow 4))" "t_w (New 4 1) = 4" by code_simp+
  then show ?thesis by (intro printing_keeps_wide_chars_whole) simp_all
qed

text \<open>Writing the UTF-8 encoding of a text without control characters, from a terminal that is not
  inside a sequence, prints its characters one after the other.\<close>

theorem write_text_prints_runes:
  assumes "wf_term w h (\<lambda>p. p = p0) M t" "2 \<le> w" "pstate p0 = stateGround" "nPart p0 = 0" "list_all printable rs"
  shows "Write (concat (map rune_bytes rs)) t = run print rs t"
  using write_loop_text [OF assms(1,2,3,5)] wf_parserD [OF assms(1)] assms(4) by (simp add: Write_def)

theorem write_text_prints_runes_witness:
  "Write (concat (map rune_bytes [0x68, 0xe9, 0x6f22, 0x1f600])) (New 5 1) = run print [0x68, 0xe9, 0x6f22, 0x1f600] (New 5 1)"
  by (rule write_text_prints_runes [OF New_ok(3) [of 5 1]])
    (simp_all add: zeroParser_def printable_def valid_rune_def)

text \<open>The binary search of \<open>isWide\<close> terminates without running out of the table and decides
  membership in one of the 92 ranges.\<close>

theorem isWide_decides_ranges:
  "isWide r = Some (list_ex (\<lambda>(lo, hi). lo \<le> r \<and> r \<le> hi) wideRanges)"
  by (simp add: isWide_correct in_ranges_def)

section \<open>Renditions\<close>

text \<open>C27: The parameter loop of \<open>sgr\<close>, with its look-ahead for colours and underlines, computes the
  reference semantics of SGR over the list of parameters.\<close>

theorem sgr_implements_reference:
  assumes "parser_wf (t_p t)"
  shows "sgr t = Some (t\<lparr>pen := if view (t_p t) = [] then zeroStyle else sgr_spec (view (t_p t)) (pen t)\<rparr>)"
  using sgr_view [OF assms] .

theorem sgr_implements_reference_witness:
  "sgr (New 2 1) = Some ((New 2 1)\<lparr>pen := if view (t_p (New 2 1)) = [] then zeroStyle
     else sgr_spec (view (t_p (New 2 1))) (pen (New 2 1))\<rparr>)"
  by (rule sgr_implements_reference) (simp add: New_def init_def resetTabStops_def Let_def zeroParser_wf)

text \<open>C25: The escape sequence \<open>sgrSequence\<close> writes for a style, fed byte by byte to a terminal whose
  pen is anything, sets the pen to exactly that style and changes nothing else but the parser.\<close>

theorem sgr_sequence_round_trip:
  assumes "parser_ready (t_p t)" "style_ok st"
  shows "\<exists>p. run feedByte (sgrSequence st) t = Some (t\<lparr>t_p := p, pen := st\<rparr>) \<and> parser_ready p"
  using feed_sgr [OF assms] by blast

theorem sgr_sequence_round_trip_witness:
  "\<exists>p. run feedByte (sgrSequence (zeroStyle\<lparr>Fg := IndexedColor 9, Bg := RGBColor 1 2 3, Attrs := AttrBold OR AttrStrike, Underline := UnderlineCurly\<rparr>)) (New 2 1)
     = Some ((New 2 1)\<lparr>t_p := p, pen := zeroStyle\<lparr>Fg := IndexedColor 9, Bg := RGBColor 1 2 3, Attrs := AttrBold OR AttrStrike, Underline := UnderlineCurly\<rparr>\<rparr>) \<and> parser_ready p"
proof (rule sgr_sequence_round_trip)
  show "parser_ready (t_p (New 2 1))"
    by (simp add: New_def init_def resetTabStops_def Let_def parser_ready_def) (simp add: zeroParser_def)
qed (simp add: style_ok_def attr_defs zeroStyle_def)

text \<open>The cursor address \<open>cup\<close> writes moves the cursor there (clamped to the screen) and changes
  nothing else but the parser, when origin mode is off.\<close>

theorem cup_round_trip:
  assumes "wf_term w h P M t" "parser_ready (t_p t)" "\<not> origin t" "0 \<le> x" "x < w" "x < 2 ^ 24" "0 \<le> y" "y < h" "y < 2 ^ 24"
  shows "\<exists>p. run feedByte (cup x y) t = Some (set_cur \<lparr>cx = x, cy = y, pendingWrap = False\<rparr> (t\<lparr>t_p := p\<rparr>))"
proof -
  from feed_cup [OF assms(2,3,4,6,7,9)] obtain p where
    "run feedByte (cup x y) t = Some (moveCursor x y (t\<lparr>t_p := p\<rparr>))" by blast
  then show ?thesis
    using wf_size [OF assms(1)] assms(3-9) by (auto simp: moveCursor_def Let_def)
qed

theorem cup_round_trip_witness:
  "\<exists>p. run feedByte (cup 3 1) (New 5 2) = Some (set_cur \<lparr>cx = 3, cy = 1, pendingWrap = False\<rparr> ((New 5 2)\<lparr>t_p := p\<rparr>))"
proof -
  have "parser_ready (t_p (New 5 2))" "\<not> origin (New 5 2)"
    by (simp_all add: New_def init_def resetTabStops_def Let_def parser_ready_def) (simp add: zeroParser_def)
  then show ?thesis by (intro cup_round_trip [OF New_ok(1) [of 5 2]]) simp_all
qed

end
