(* ===== verification/Parser_Frame.thy ===== *)
theory Parser_Frame
  imports Emulator_Safety
begin

text \<open>
  The operations of \<open>term.go\<close> neither read nor write the parser: each commutes with an update of it.
  The dispatcher and the byte machine do not look at \<open>partial\<close>, the buffer of \<open>Write\<close>: they commute
  with replacing it (\<open>feedByte_kept\<close>; a full reset forgets the replacement).
\<close>

named_theorems tp_frame "operations commute with replacing the parser"


section \<open>Mapping over computations\<close>

lemma map_option_bind: "map_option f (m \<bind> g) = m \<bind> (\<lambda>x. map_option f (g x))"
  by (cases m) simp_all

lemma bind_map_option: "map_option f m \<bind> g = m \<bind> (\<lambda>x. g (f x))"
  by (cases m) simp_all

lemma map_option_if: "map_option f (if b then m else m') = (if b then map_option f m else map_option f m')"
  by simp

lemma map_option_case_prod: "map_option f (case x of (a, b) \<Rightarrow> g a b) = (case x of (a, b) \<Rightarrow> map_option f (g a b))"
  by (cases x) simp

lemmas map_laws = map_option_bind bind_map_option map_option_if map_option_case_prod option.map

section \<open>The state accessors\<close>

lemma deref_tp [tp_frame]: "deref p (t_p_update g t) = deref p t"
  by (simp add: deref_def split: scr.splits)

lemma assign_tp [tp_frame]: "assign p s (t_p_update g t) = t_p_update g (assign p s t)"
  by (simp add: assign_def split: scr.splits)

lemma commute_updates [tp_frame]:
  "t_w_update f0 (t_p_update g t) = t_p_update g (t_w_update f0 t)"
  "t_h_update f1 (t_p_update g t) = t_p_update g (t_h_update f1 t)"
  "t_main_update f2 (t_p_update g t) = t_p_update g (t_main_update f2 t)"
  "t_alt_update f3 (t_p_update g t) = t_p_update g (t_alt_update f3 t)"
  "t_s_update f4 (t_p_update g t) = t_p_update g (t_s_update f4 t)"
  "altActive_update f5 (t_p_update g t) = t_p_update g (altActive_update f5 t)"
  "maxScrollback_update f6 (t_p_update g t) = t_p_update g (maxScrollback_update f6 t)"
  "pen_update f7 (t_p_update g t) = t_p_update g (pen_update f7 t)"
  "link_update f8 (t_p_update g t) = t_p_update g (link_update f8 t)"
  "lastPrinted_update f9 (t_p_update g t) = t_p_update g (lastPrinted_update f9 t)"
  "cursorKeys_update f10 (t_p_update g t) = t_p_update g (cursorKeys_update f10 t)"
  "origin_update f11 (t_p_update g t) = t_p_update g (origin_update f11 t)"
  "autowrap_update f12 (t_p_update g t) = t_p_update g (autowrap_update f12 t)"
  "cursorVisible_update f13 (t_p_update g t) = t_p_update g (cursorVisible_update f13 t)"
  "insertMode_update f14 (t_p_update g t) = t_p_update g (insertMode_update f14 t)"
  "lineFeedNewline_update f15 (t_p_update g t) = t_p_update g (lineFeedNewline_update f15 t)"
  "bracketedPaste_update f16 (t_p_update g t) = t_p_update g (bracketedPaste_update f16 t)"
  "focusEvents_update f17 (t_p_update g t) = t_p_update g (focusEvents_update f17 t)"
  "mouse_update f18 (t_p_update g t) = t_p_update g (mouse_update f18 t)"
  "mouseEnc_update f19 (t_p_update g t) = t_p_update g (mouseEnc_update f19 t)"
  "cursorStyle_update f20 (t_p_update g t) = t_p_update g (cursorStyle_update f20 t)"
  "title_update f21 (t_p_update g t) = t_p_update g (title_update f21 t)"
  "charsets_update f22 (t_p_update g t) = t_p_update g (charsets_update f22 t)"
  "glIndex_update f23 (t_p_update g t) = t_p_update g (glIndex_update f23 t)"
  "tabStops_update f24 (t_p_update g t) = t_p_update g (tabStops_update f24 t)"
  "blankRow_update f25 (t_p_update g t) = t_p_update g (blankRow_update f25 t)"
  by simp_all

lemma observers_tp [tp_frame]:
  "act (t_p_update g t) = act t" "tcur (t_p_update g t) = tcur t"
  by (simp_all add: act_def tcur_def deref_def split: scr.split)

lemma pull_if [tp_frame]: "(if b then t_p_update g t else t_p_update g u) = t_p_update g (if b then t else u)"
  by simp

lemma set_act_tp [tp_frame]: "set_act s (t_p_update g t) = t_p_update g (set_act s t)"
  by (simp add: set_act_def tp_frame cong: if_cong)

lemma set_cur_tp [tp_frame]: "set_cur c (t_p_update g t) = t_p_update g (set_cur c t)"
  by (simp add: set_cur_def tp_frame cong: if_cong)

lemma get_row_tp [tp_frame]: "get_row y (t_p_update g t) = get_row y t"
  by (simp add: get_row_def tp_frame)

lemma set_row_tp [tp_frame]: "set_row y r (t_p_update g t) = map_option (t_p_update g) (set_row y r t)"
  by (simp add: set_row_def tp_frame map_laws cong: if_cong)

section \<open>The operations of term.go\<close>

lemma pushScrollback_tp [tp_frame]: "pushScrollback p r (t_p_update g t) = t_p_update g (pushScrollback p r t)"
  by (simp add: pushScrollback_def Let_def tp_frame cong: if_cong)

lemma fold_push_tp [tp_frame]: "fold (pushScrollback p) rs (t_p_update g t) = t_p_update g (fold (pushScrollback p) rs t)"
  by (induction rs arbitrary: t) (simp_all add: tp_frame cong: if_cong)

lemma clearRow_tp [tp_frame]:
  "clearRow r a b (t_p_update g t) = map_option (\<lambda>(r, t). (r, t_p_update g t)) (clearRow r a b t)"
  by (simp add: clearRow_def Let_def tp_frame map_laws cong: if_cong)

lemma bind_clearRow_tp:
  "clearRow r a b (t_p_update g t) \<bind> f = clearRow r a b t \<bind> (\<lambda>(r', t'). f (r', t_p_update g t'))"
  by (cases "clearRow r a b t") (auto simp: tp_frame)

lemma scroll_fill_tp [tp_frame]: "scroll_fill rs y (t_p_update g t) = map_option (t_p_update g) (scroll_fill rs y t)"
proof (induction rs arbitrary: y t)
  case (Cons r rs)
  then show ?case
    by (simp add: bind_clearRow_tp tp_frame map_laws case_prod_beta cong: if_cong)
qed simp

lemma scroll_tp [tp_frame]: "scroll n keep (t_p_update g t) = map_option (t_p_update g) (scroll n keep t)"
  by (simp add: scroll_def Let_def tp_frame map_laws cong: if_cong)

lemma scrollUp_tp [tp_frame]: "scrollUp n (t_p_update g t) = map_option (t_p_update g) (scrollUp n t)"
  by (simp add: scrollUp_def tp_frame cong: if_cong)

lemma penRow_tp [tp_frame]: "penRow (t_p_update g t) = penRow t"
  by (simp add: penRow_def cong: if_cong)

lemma scrollDown_tp [tp_frame]: "scrollDown n (t_p_update g t) = map_option (t_p_update g) (scrollDown n t)"
  by (simp add: scrollDown_def Let_def tp_frame map_laws cong: if_cong)

lemma lineFeed_tp [tp_frame]: "lineFeed (t_p_update g t) = map_option (t_p_update g) (lineFeed t)"
  by (simp add: lineFeed_def Let_def tp_frame cong: if_cong)

lemma reverseIndex_tp [tp_frame]: "reverseIndex (t_p_update g t) = map_option (t_p_update g) (reverseIndex t)"
  by (simp add: reverseIndex_def Let_def tp_frame cong: if_cong)

lemma wrapToNextLine_tp [tp_frame]: "wrapToNextLine (t_p_update g t) = map_option (t_p_update g) (wrapToNextLine t)"
  by (simp add: wrapToNextLine_def Let_def tp_frame map_laws cong: if_cong)

lemma combine_at_tp [tp_frame]: "combine_at x r rw (t_p_update g t) = map_option (t_p_update g) (combine_at x r rw t)"
  by (simp add: combine_at_def Let_def tp_frame map_laws cong: if_cong)

lemma combine_tp [tp_frame]: "combine r (t_p_update g t) = map_option (t_p_update g) (combine r t)"
  by (simp add: combine_def Let_def tp_frame map_laws cong: if_cong)

lemma insertCells_tp [tp_frame]: "insertCells n (t_p_update g t) = map_option (t_p_update g) (insertCells n t)"
  by (simp add: insertCells_def Let_def tp_frame map_laws cong: if_cong)

lemma put_cells_tp [tp_frame]: "put_cells r n x (t_p_update g t) cs = put_cells r n x t cs"
  by (simp add: put_cells_def cong: if_cong)

lemma advance_tp [tp_frame]: "advance n (t_p_update g t) = t_p_update g (advance n t)"
  by (simp add: advance_def Let_def tp_frame cong: if_cong)

lemma print_cell_tp [tp_frame]: "print_cell r n (t_p_update g t) = map_option (t_p_update g) (print_cell r n t)"
  by (simp add: print_cell_def tp_frame map_laws cong: if_cong)

lemma print_wrap_tp [tp_frame]: "print_wrap (t_p_update g t) = map_option (t_p_update g) (print_wrap t)"
  by (simp add: print_wrap_def tp_frame cong: if_cong)

lemma print_wide_edge_tp [tp_frame]: "print_wide_edge r n (t_p_update g t) = map_option (t_p_update g) (print_wide_edge r n t)"
  by (simp add: print_wide_edge_def Let_def tp_frame map_laws cong: if_cong)

lemma print_glyph_tp [tp_frame]: "print_glyph r n (t_p_update g t) = map_option (t_p_update g) (print_glyph r n t)"
  by (simp add: print_glyph_def tp_frame map_laws cong: if_cong)

lemma print_tp [tp_frame]: "print r (t_p_update g t) = map_option (t_p_update g) (print r t)"
  by (simp add: print_def Let_def tp_frame map_laws cong: if_cong)

lemma tab_forward_n_tp [tp_frame]: "tab_forward_n n (t_p_update g t) = map_option (t_p_update g) (tab_forward_n n t)"
  by (induction n arbitrary: t) (simp_all add: tp_frame map_laws cong: if_cong)

lemma tab_backward_n_tp [tp_frame]: "tab_backward_n n (t_p_update g t) = map_option (t_p_update g) (tab_backward_n n t)"
  by (induction n arbitrary: t) (simp_all add: tp_frame map_laws cong: if_cong)

lemma tabs_tp [tp_frame]:
  "tabForward n (t_p_update g t) = map_option (t_p_update g) (tabForward n t)"
  "tabBackward n (t_p_update g t) = map_option (t_p_update g) (tabBackward n t)"
  by (simp_all add: tabForward_def tabBackward_def tp_frame cong: if_cong)

lemma execute_tp [tp_frame]: "execute b (t_p_update g t) = map_option (t_p_update g) (execute b t)"
  by (simp add: execute_def tp_frame map_laws cong: if_cong)

lemma cursor_tp [tp_frame]:
  "moveCursor x y (t_p_update g t) = t_p_update g (moveCursor x y t)" "cursorUp n (t_p_update g t) = t_p_update g (cursorUp n t)"
  "cursorDown n (t_p_update g t) = t_p_update g (cursorDown n t)" "saveCursor (t_p_update g t) = t_p_update g (saveCursor t)"
  by (simp_all add: moveCursor_def cursorUp_def cursorDown_def saveCursor_def Let_def tp_frame cong: if_cong)

lemma restoreCursor_tp [tp_frame]: "restoreCursor (t_p_update g t) = t_p_update g (restoreCursor t)"
  by (simp add: restoreCursor_def Let_def tp_frame cong: if_cong)

lemma eraseInLine_tp [tp_frame]: "eraseInLine m (t_p_update g t) = map_option (t_p_update g) (eraseInLine m t)"
  by (simp add: eraseInLine_def Let_def bind_clearRow_tp tp_frame map_laws case_prod_beta cong: if_cong)

lemma clear_rows_tp [tp_frame]: "clear_rows n y (t_p_update g t) = map_option (t_p_update g) (clear_rows n y t)"
  by (induction n arbitrary: y t) (simp_all add: tp_frame map_laws cong: if_cong)

lemma clear_rows_cached_tp [tp_frame]:
  "clear_rows_cached n y (t_p_update g t) = map_option (t_p_update g) (clear_rows_cached n y t)"
  by (induction n arbitrary: y t) (simp_all add: bind_clearRow_tp tp_frame map_laws case_prod_beta cong: if_cong)

lemma eraseInDisplay_tp [tp_frame]: "eraseInDisplay m (t_p_update g t) = map_option (t_p_update g) (eraseInDisplay m t)"
  by (simp add: eraseInDisplay_def Let_def tp_frame map_laws cong: if_cong)

lemma edits_tp [tp_frame]:
  "eraseChars n (t_p_update g t) = map_option (t_p_update g) (eraseChars n t)"
  "deleteChars n (t_p_update g t) = map_option (t_p_update g) (deleteChars n t)"
  "insertLines n (t_p_update g t) = map_option (t_p_update g) (insertLines n t)"
  "deleteLines n (t_p_update g t) = map_option (t_p_update g) (deleteLines n t)"
  by (simp_all add: eraseChars_def deleteChars_def insertLines_def deleteLines_def Let_def tp_frame map_laws cong: if_cong)

lemma alt_tp [tp_frame]:
  "enterAltScreen b (t_p_update g t) = t_p_update g (enterAltScreen b t)"
  "leaveAltScreen b (t_p_update g t) = t_p_update g (leaveAltScreen b t)"
  "softReset (t_p_update g t) = t_p_update g (softReset t)"
  by (simp_all add: enterAltScreen_def leaveAltScreen_def softReset_def Let_def tp_frame cong: if_cong)

lemma set_x_tp [tp_frame]:
  "set_x x (t_p_update g t) = t_p_update g (set_x x t)" "set_x_nowrap x (t_p_update g t) = t_p_update g (set_x_nowrap x t)"
  by (simp_all add: set_x_def set_x_nowrap_def tp_frame cong: if_cong)

lemma print_n_tp [tp_frame]: "print_n n r (t_p_update g t) = map_option (t_p_update g) (print_n n r t)"
  by (induction n arbitrary: t) (simp_all add: tp_frame map_laws cong: if_cong)

lemma decaln_rows_tp [tp_frame]: "decaln_rows n y (t_p_update g t) = map_option (t_p_update g) (decaln_rows n y t)"
  by (induction n arbitrary: y t) (simp_all add: tp_frame map_laws cong: if_cong)

lemma set_modes_tp [tp_frame]:
  "set_mode on v (t_p_update g t) = t_p_update g (set_mode on v t)"
  "set_private_mode on v (t_p_update g t) = t_p_update g (set_private_mode on v t)"
  by (simp_all add: set_mode_def set_private_mode_def tp_frame cong: if_cong split del: if_split)

section \<open>Dispatch: only the held bytes are replaced\<close>

abbreviation parted :: "bytes \<Rightarrow> Terminal \<Rightarrow> Terminal" where
  "parted q \<equiv> t_p_update (partial_update (\<lambda>_. q))"

lemma param_parted [tp_frame]:
  "param (partial_update f p) i d = param p i d" "rawParam (partial_update f p) i d = rawParam p i d"
  by (simp_all add: param_def rawParam_def cong: if_cong)

lemma extendedColor_parted [tp_frame]: "extendedColor (partial_update f p) i = extendedColor p i"
  by (simp add: extendedColor_def tp_frame cong: if_cong)

lemma sgr_param_parted [tp_frame]: "sgr_param (partial_update f p) i v st = sgr_param p i v st"
  by (simp add: sgr_param_def sgr_underline_def tp_frame cong: if_cong)

lemma sgr_loop_parted [tp_frame]: "sgr_loop (partial_update f p) i st = sgr_loop p i st"
proof (induction p i st rule: sgr_loop.induct)
  case (1 p i st)
  show ?case
    by (subst (1 2) sgr_loop.simps) (auto simp: tp_frame intro!: bind_option_cong 1)
qed

lemma sgr_parted [tp_frame]: "sgr (parted q t) = map_option (parted q) (sgr t)"
  by (simp add: sgr_def tp_frame map_laws)

lemma each_param_parted [tp_frame]:
  assumes "\<And>v t. f v (parted q t) = parted q (f v t)"
  shows "each_param n i f (parted q t) = map_option (parted q) (each_param n i f t)"
  by (induction n arbitrary: i t) (simp_all add: tp_frame map_laws assms)

lemma modes_parted [tp_frame]:
  "setModes on (parted q t) = map_option (parted q) (setModes on t)"
  "setPrivateModes on (parted q t) = map_option (parted q) (setPrivateModes on t)"
  by (simp_all add: setModes_def setPrivateModes_def tp_frame)


lemma csiDispatch_parted [tp_frame]: "csiDispatch b (parted q t) = map_option (parted q) (csiDispatch b t)"
  unfolding csiDispatch_def Let_def
  by (simp add: tp_frame map_laws case_prod_beta cong: if_cong split del: if_split)

lemma escDispatch_parted [tp_frame]:
  "\<not> (imd = 0 \<and> b = 0x63) \<Longrightarrow> escDispatch imd b (parted q t) = map_option (parted q) (escDispatch imd b t)"
  unfolding escDispatch_def Let_def
  by (simp add: tp_frame map_laws cong: if_cong)

lemma escDispatch_reset: "escDispatch 0 0x63 (parted q t) = escDispatch 0 0x63 t"
  by (simp add: escDispatch_def fullReset_def init_def Let_def resetTabStops_def)

lemma dispatchOSC_parted [tp_frame]: "dispatchOSC (parted q t) = parted q (dispatchOSC t)"
  by (simp add: dispatchOSC_def Let_def tp_frame split: option.split cong: if_cong)

section \<open>Bytes\<close>

lemma parser_updates_parted [tp_frame]:
  "set_pstate st (parted q t) = parted q (set_pstate st t)"
  "set_intermediate b st (parted q t) = parted q (set_intermediate b st t)"
  "begin_escape (parted q t) = parted q (begin_escape t)"
  "osc_append bs (parted q t) = parted q (osc_append bs t)"
  by (simp_all add: set_pstate_def set_intermediate_def begin_escape_def osc_append_def resetCSI_def Let_def)

lemma commute_partial:
  "partial_update f p\<lparr>nParams := n\<rparr> = partial_update f (p\<lparr>nParams := n\<rparr>)"
  "partial_update f p\<lparr>params := ps\<rparr> = partial_update f (p\<lparr>params := ps\<rparr>)"
  "partial_update f p\<lparr>hasValue := hv\<rparr> = partial_update f (p\<lparr>hasValue := hv\<rparr>)"
  "partial_update f p\<lparr>isSub := sb\<rparr> = partial_update f (p\<lparr>isSub := sb\<rparr>)"
  "partial_update f p\<lparr>poverflow := v\<rparr> = partial_update f (p\<lparr>poverflow := v\<rparr>)"
  by simp_all

lemma pushes_parted [tp_frame]:
  "pushDigit b (partial_update f p) = map_option (partial_update f) (pushDigit b p)"
  "nextParam s (partial_update f p) = map_option (partial_update f) (nextParam s p)"
  by (simp_all add: pushDigit_def nextParam_def Let_def map_laws commute_partial cong: if_cong)

lemma with_parser_parted [tp_frame]:
  "with_parser (pushDigit b) (parted q t) = map_option (parted q) (with_parser (pushDigit b) t)"
  "with_parser (nextParam s) (parted q t) = map_option (parted q) (with_parser (nextParam s) t)"
  by (simp_all add: with_parser_def tp_frame map_laws o_def)

lemma feedRune_parted [tp_frame]: "feedRune r (parted q t) = map_option (parted q) (feedRune r t)"
  by (simp add: feedRune_def tp_frame split: parserState.split)

lemma feed_control_parted [tp_frame]: "feed_control b (parted q t) = map_option (parted q) (feed_control b t)"
  by (simp add: feed_control_def Let_def tp_frame map_laws split: parserState.split cong: if_cong)

lemma feed_csi_parted [tp_frame]:
  "feed_csi_param b (parted q t) = map_option (parted q) (feed_csi_param b t)"
  "feed_csi_entry b (parted q t) = map_option (parted q) (feed_csi_entry b t)"
  "feed_csi_intermediate b (parted q t) = map_option (parted q) (feed_csi_intermediate b t)"
  by (simp_all add: feed_csi_param_def feed_csi_entry_def feed_csi_intermediate_def tp_frame map_laws cong: if_cong)


text \<open>One byte: the change of the buffer is kept, or the terminal is reset and it is gone.\<close>

definition kept :: "bytes \<Rightarrow> Terminal option \<Rightarrow> Terminal option \<Rightarrow> bool" where
  "kept q m m' \<longleftrightarrow> m' = map_option (parted q) m \<or> m' = m"

lemma escDispatch_kept: "kept q (escDispatch imd b t) (escDispatch imd b (parted q t))"
  by (cases "imd = 0 \<and> b = 0x63") (auto simp: kept_def escDispatch_reset escDispatch_parted)

lemma feed_escape_kept: "kept q (feed_escape b t) (feed_escape b (parted q t))"
  using escDispatch_kept [of q 0 b "set_pstate stateGround t"]
  by (simp add: feed_escape_def tp_frame) (simp add: kept_def)

lemma feed_escape_intermediate_kept:
  "kept q (feed_escape_intermediate b t) (feed_escape_intermediate b (parted q t))"
  using escDispatch_kept [of q "intermediate (t_p t)" b "set_pstate stateGround t"]
  by (simp add: feed_escape_intermediate_def tp_frame) (simp add: kept_def)

lemma feedByte_kept: "kept q (feedByte b t) (feedByte b (parted q t))"
proof (cases "b < 0x20 \<or> b = 0x7f")
  case True
  then show ?thesis unfolding feedByte_def by (simp only: if_True feed_control_parted kept_def simp_thms)
next
  case False
  have "pstate (t_p (parted q t)) = pstate (t_p t)" by simp
  then have f: "feedByte b u = (case pstate (t_p t) of
       stateGround \<Rightarrow> print (uint b) u
     | stateEscape \<Rightarrow> feed_escape b u
     | stateEscapeIntermediate \<Rightarrow> feed_escape_intermediate b u
     | stateCSIEntry \<Rightarrow> feed_csi_entry b u
     | stateCSIParam \<Rightarrow> feed_csi_param b u
     | stateCSIIntermediate \<Rightarrow> feed_csi_intermediate b u
     | stateCSIIgnore \<Rightarrow> Some (if 0x40 \<le> b \<and> b \<le> 0x7e then set_pstate stateGround u else u)
     | stateOSC \<Rightarrow> Some (osc_append [b] u)
     | stateOSCEscape \<Rightarrow> (if b = 0x5c then Some (dispatchOSC (set_pstate stateGround u))
          else feed_escape b (begin_escape (set_pstate stateGround u)))
     | stateString \<Rightarrow> Some u
     | stateStringEscape \<Rightarrow> (if b = 0x5c then Some (set_pstate stateGround u)
          else feed_escape b (begin_escape (set_pstate stateGround u))))" if "u = t \<or> u = parted q t" for u
    using False that unfolding feedByte_def Let_def by (elim disjE) (simp_all only: if_False)
  note e = feed_escape_kept [of q b t] feed_escape_kept [of q b "begin_escape (set_pstate stateGround t)"]
    feed_escape_intermediate_kept [of q b t]
  show ?thesis
    unfolding f [OF disjI1 [OF refl]] f [OF disjI2 [OF refl]]
    using e by (cases "pstate (t_p t)") (simp_all add: tp_frame kept_def)
qed

end
