(* ===== verification/Chunking.thy ===== *)
theory Chunking
  imports Parser_Frame Csi_Feed
begin

text \<open>
  \<open>Write\<close> in \<open>src/internal/vterm/parser.go\<close> is called with whatever a read from the PTY
  returned, so a rune may be cut anywhere. The bytes of \<open>partial\<close> beyond those held are what is left
  of earlier runes; \<open>forget\<close> drops them, and states that agree otherwise stay so
  (\<open>write_loop_forget\<close>). A write is the main loop on the bytes held followed by those written
  (\<open>Write_loop\<close>), the main loop can be interrupted at any clean cut (\<open>write_loop_cut\<close>), and
  in valid UTF-8 every cut is clean.
\<close>

definition forget :: "Terminal \<Rightarrow> Terminal" where
  "forget t = t\<lparr>t_p := (t_p t)\<lparr>partial := held (t_p t)\<rparr>\<rparr>"

definition released :: "Terminal \<Rightarrow> Terminal" where
  "released t = t\<lparr>t_p := (t_p t)\<lparr>nPart := 0\<rparr>\<rparr>"

lemma forget_parted: "nPart (t_p t) = 0 \<Longrightarrow> forget (parted q t) = forget t"
  by (simp add: forget_def held_def)

lemma forget_eqD:
  assumes "forget t = forget u"
  shows "held (t_p t) = held (t_p u)" "\<exists>q. released u = parted q (released t)"
proof -
  have p: "(t_p t)\<lparr>partial := held (t_p t)\<rparr> = (t_p u)\<lparr>partial := held (t_p u)\<rparr>"
    using arg_cong [OF assms, of t_p] by (simp add: forget_def)
  from arg_cong [OF p, of partial] show "held (t_p t) = held (t_p u)" by simp
  have "u = (forget u)\<lparr>t_p := (t_p (forget u))\<lparr>partial := partial (t_p u)\<rparr>\<rparr>"
    by (simp add: forget_def)
  also have "\<dots> = t\<lparr>t_p := (t_p t)\<lparr>partial := partial (t_p u)\<rparr>\<rparr>"
    by (simp add: assms [symmetric]) (simp add: forget_def)
  finally have "u = t\<lparr>t_p := (t_p t)\<lparr>partial := partial (t_p u)\<rparr>\<rparr>" .
  then have "released u = released (t\<lparr>t_p := (t_p t)\<lparr>partial := partial (t_p u)\<rparr>\<rparr>)" by (rule arg_cong)
  then have "released u = parted (partial (t_p u)) (released t)"
    by (simp add: released_def o_def)
  then show "\<exists>q. released u = parted q (released t)" ..
qed

abbreviation idle_ok :: "int \<Rightarrow> int \<Rightarrow> Terminal \<Rightarrow> bool" where
  "idle_ok w h \<equiv> wf_idle w h (\<lambda>_. True)"

lemma idle_nPart: "wf_term w h parser_idle M t \<Longrightarrow> nPart (t_p t) = 0"
  using wf_parserD [of w h parser_idle M t] by (simp add: parser_idle_def)

lemma loop_rune:
  assumes "\<not> hd data < 0x80" "text_state (pstate (t_p t))" "data \<noteq> []" "DecodeRune data \<noteq> (RuneError, 1)"
  shows "write_loop data t = feedRune (fst (DecodeRune data)) t \<bind> write_loop (drop (max 1 (snd (DecodeRune data))) data)"
  using assms by (cases data; subst write_loop.simps) simp_all

lemma write_loop_bad:
  assumes "\<not> b < 0x80" "text_state (pstate (t_p t))" "DecodeRune (b # rest) = (RuneError, 1)" "FullRune (b # rest)"
  shows "write_loop (b # rest) t = write_loop rest t"
  using assms by (subst write_loop.simps) simp

lemma write_loop_held:
  assumes "\<not> FullRune data" "text_state (pstate (t_p t))" "data \<noteq> []"
  shows "write_loop data t = Some (t\<lparr>t_p := (t_p t)\<lparr>partial := data @ drop (length data) (partial (t_p t)),
    nPart := glen data\<rparr>\<rparr>)"
proof -
  obtain b rest where d: "data = b # rest" using assms(3) by (cases data) auto
  have "\<not> b < 0x80" using not_FullRune_hd [OF assms(1,3)] by (simp add: d word_less_def)
  moreover have "min 4 (glen data) = glen data" "take 4 data = data" using not_FullRune_length [OF assms(1)] by simp_all
  ultimately show ?thesis
    using assms DecodeRune_not_full [OF assms(1,3)] unfolding d by (subst write_loop.simps) simp
qed

text \<open>Induction over the main loop from a well-formed terminal that holds nothing.\<close>

lemma write_loop_induct [consumes 2, case_names Nil byte cut bad rune]:
  assumes t: "idle_ok w h t" and w: "2 \<le> w"
    and Nil: "\<And>t. idle_ok w h t \<Longrightarrow> P [] t"
    and byte: "\<And>b rest t t'. idle_ok w h t \<Longrightarrow> b < 0x80 \<or> \<not> text_state (pstate (t_p t)) \<Longrightarrow> feedByte b t = Some t'
      \<Longrightarrow> idle_ok w h t' \<Longrightarrow> P rest t' \<Longrightarrow> P (b # rest) t"
    and cut: "\<And>data t. idle_ok w h t \<Longrightarrow> text_state (pstate (t_p t)) \<Longrightarrow> \<not> FullRune data \<Longrightarrow> data \<noteq> [] \<Longrightarrow> P data t"
    and bad: "\<And>b rest t. idle_ok w h t \<Longrightarrow> text_state (pstate (t_p t)) \<Longrightarrow> \<not> b < 0x80
      \<Longrightarrow> DecodeRune (b # rest) = (RuneError, 1) \<Longrightarrow> FullRune (b # rest) \<Longrightarrow> P rest t \<Longrightarrow> P (b # rest) t"
    and rune: "\<And>data t r n t'. idle_ok w h t \<Longrightarrow> text_state (pstate (t_p t)) \<Longrightarrow> \<not> hd data < 0x80 \<Longrightarrow> data \<noteq> []
      \<Longrightarrow> FullRune data \<Longrightarrow> DecodeRune data = (r, n) \<Longrightarrow> (r, n) \<noteq> (RuneError, 1) \<Longrightarrow> 1 \<le> n \<Longrightarrow> n \<le> length data
      \<Longrightarrow> feedRune r t = Some t' \<Longrightarrow> idle_ok w h t' \<Longrightarrow> P (drop n data) t' \<Longrightarrow> P data t"
  shows "P data t"
  using t
proof (induction data t rule: write_loop.induct)
  case (1 data t)
  note t = "1.prems"
  show ?case
  proof (cases data)
    case (Cons b rest)
    let ?plain = "b < 0x80 \<or> \<not> text_state (pstate (t_p t))"
    consider ?plain | "\<not> ?plain" "\<not> FullRune data"
      | "\<not> ?plain" "DecodeRune data = (RuneError, 1)" "FullRune data"
      | "\<not> ?plain" "DecodeRune data \<noteq> (RuneError, 1)" by blast
    then show ?thesis
    proof cases
      case a: 1
      obtain t' where t': "feedByte b t = Some t'" "idle_ok w h t'"
        using wf_feedByte [OF t w, of b] by (auto simp: wp_ex)
      from byte [OF t a t' "1.IH"(1) [OF Cons a t']] show ?thesis unfolding Cons .
    next
      case 2
      with cut [OF t] Cons show ?thesis by blast
    next
      case 3
      with bad [OF t, of b rest] "1.IH"(2) [OF Cons 3(1,2) _ t] show ?thesis unfolding Cons by blast
    next
      case 4
      obtain r n where d: "DecodeRune data = (r, n)" by (cases "DecodeRune data")
      have n: "data \<noteq> []" "1 \<le> n" "n \<le> length data" "FullRune data"
        using DecodeRune_size [OF _ d] DecodeRune_not_full [of data] 4(2) Cons by auto
      obtain t' where t': "feedRune r t = Some t'" "idle_ok w h t'"
        using wf_feedRune [OF t w, of r] by (auto simp: wp_ex)
      have "P (drop n data) t'" using "1.IH"(3) [OF Cons 4, of t'] t' d n(2) by (simp add: max_def)
      with rune [OF t _ _ n(1,4) d _ n(2,3) t'] 4 d Cons show ?thesis by auto
    qed
  qed (simp add: Nil t)
qed

lemma write_loop_forget:
  assumes "2 \<le> w" "idle_ok w h t"
  shows "map_option forget (write_loop data (parted q t)) = map_option forget (write_loop data t)"
  using assms(2,1)
proof (induction data t rule: write_loop_induct)
  case (Nil t)
  then show ?case using forget_parted [OF idle_nPart] by (simp add: write_loop.simps)
next
  case (byte b rest t t')
  with feedByte_kept [of q b t] show ?case
    by (auto simp: kept_def write_loop_plain)
next
  case (cut data t)
  then show ?case by (simp add: write_loop_held forget_def held_def)
next
  case (bad b rest t)
  then show ?case by (simp add: write_loop_bad)
next
  case (rune data t r n t')
  then show ?case by (simp add: loop_rune feedRune_parted max_def)
qed

section \<open>A write continues the rune that is held\<close>

lemma DecodeRune_lead:
  assumes "DecodeRune (b # q) \<noteq> (RuneError, 1)" "\<not> uint b < 0x80"
  shows "\<exists>lo hi. utf8_lead (uint b) = Some (snd (DecodeRune (b # q)), lo, hi)"
proof -
  obtain sz lo hi where l: "utf8_lead (uint b) = Some (sz, lo, hi)"
    using assms by (cases "utf8_lead (uint b)") (auto simp: DecodeRune_def Let_def)
  with utf8_lead_size [OF l] assms show ?thesis
    by (auto simp: DecodeRune_def Let_def split: if_splits)
qed

lemma completed_size:
  assumes "\<not> FullRune p" "p \<noteq> []" "FullRune (p @ [x])" "DecodeRune (p @ [x]) \<noteq> (RuneError, 1)"
  shows "snd (DecodeRune (p @ [x])) = Suc (length p)"
proof -
  obtain b q where p: "p = b # q" using assms(2) by (cases p) auto
  have b: "\<not> uint b < 0x80" using not_FullRune_hd [OF assms(1,2)] by (simp add: p)
  obtain lo hi where l: "utf8_lead (uint b) = Some (snd (DecodeRune (p @ [x])), lo, hi)"
    using DecodeRune_lead [of b "q @ [x]"] assms(4) b by (auto simp: p)
  then have "length p < snd (DecodeRune (p @ [x]))" using assms(1) by (simp add: FullRune_def p)
  moreover have "snd (DecodeRune (p @ [x])) \<le> length (p @ [x])"
    using DecodeRune_size [of "p @ [x]"] by (metis append_is_Nil_conv not_Cons_self2 prod.collapse)
  ultimately show ?thesis by simp
qed

definition completes :: "bytes \<Rightarrow> bytes \<Rightarrow> bool" where
  "completes p b \<longleftrightarrow> (p \<noteq> [] \<and> \<not> FullRune p \<and> FullRune (p @ b) \<longrightarrow> DecodeRune (p @ b) \<noteq> (RuneError, 1))"

lemma Write_loop:
  assumes t: "wf_term w h carry_ok (\<lambda>_. True) t" and w: "2 \<le> w" and c: "completes (held (t_p t)) data"
  shows "map_option forget (Write data t) = map_option forget (write_loop (held (t_p t) @ data) (released t))"
proof (cases "nPart (t_p t) > 0")
  case False
  have "carry_ok (t_p t)" using t by (rule wf_parserD)
  with False have "nPart (t_p t) = 0" by (auto simp: carry_ok_def parser_wf_def)
  moreover from this have "(t_p t)\<lparr>nPart := 0\<rparr> = t_p t" by (cases "t_p t") simp
  then have "released t = t" by (cases t) (simp add: released_def)
  ultimately show ?thesis by (simp add: Write_def held_def)
next
  case True
  define p where "p = t_p t"
  have p: "parser_wf p" "text_state (pstate p)" "\<not> FullRune (held p)" "0 < nPart p"
    using wf_parserD [OF t] True by (simp_all add: p_def carry_ok_def held_def)
  have h: "held p \<noteq> []" using p(1,4) by (auto simp: held_def parser_wf_def)
  have hd: "\<not> hd (held p @ bs) < 0x80" for bs
    using not_FullRune_hd [OF p(3) h] h by (simp add: word_less_def)
  from fill_partial_spec [OF p(1,3), of data] obtain rest q where
    fp: "fill_partial data p = Some (rest, q)" "filled p data (rest, q)" by (auto simp: wp_ex)
  from fp obtain k where
    q: "fill_partial data p = Some (rest, q)" "q = p\<lparr>partial := partial q, nPart := nPart p + int k\<rparr>"
      "length (partial q) = 4" "k \<le> length data" "rest = drop k data" "nPart q \<le> 4"
      "held q = held p @ take k data" "FullRune (held q) \<or> rest = [] \<and> nPart q \<le> 3"
      "0 < k \<longrightarrow> \<not> FullRune (held p @ take (k - 1) data)"
    unfolding filled_def split_conv by blast
  have np: "nPart q = nPart p + int k" by (subst q(2)) simp
  then have n: "0 < nPart q" using p(4) by simp
  have sl: "gslice (partial q) 0 (nPart q) = Some (held q)"
    using q(3,6) n by (simp add: gslice_def held_def)
  have lq: "glen (held q) = nPart q" using q(3,6) n by (simp add: held_def)
  show ?thesis
  proof (cases "FullRune (held q)")
    case False
    with q(5,7,8) have r: "rest = []" "held q = held p @ data" by auto
    have "Write data t = Some (t\<lparr>t_p := q\<rparr>)"
      using True q(1) sl False by (simp add: Write_def p_def [symmetric])
    moreover have "write_loop (held p @ data) (released t) = Some (released t\<lparr>t_p := (t_p (released t))\<lparr>partial :=
        (held p @ data) @ drop (length (held p @ data)) (partial (t_p (released t))), nPart := glen (held p @ data)\<rparr>\<rparr>)"
      using False r(2) h p(2) by (intro write_loop_held) (simp_all add: released_def p_def)
    moreover have "glen (held p @ data) = nPart q" using lq r(2) by simp
    moreover have "q\<lparr>partial := x\<rparr> = p\<lparr>partial := x, nPart := nPart q\<rparr>" for x
      by (subst (1) q(2)) (simp add: np)
    moreover have "nat (nPart q) = length (held q)" using lq by simp
    ultimately show ?thesis
      unfolding p_def [symmetric] using r(2)
      by (simp add: forget_def released_def p_def [symmetric] held_def [of "p\<lparr>partial := x, nPart := y\<rparr>" for x y])
  next
    case full: True
    have k: "0 < k" using q(4,7) p(3) full by (cases k) auto
    define p' x where "p' = held p @ take (k - 1) data" and "x = data ! (k - 1)"
    have x: "held q = p' @ [x]"
      using k q(4,7) by (cases k) (simp_all add: p'_def x_def take_Suc_conv_app_nth)
    have p': "\<not> FullRune p'" "p' \<noteq> []" using q(9) k h by (simp_all add: p'_def)
    have D: "held p @ data = held q @ rest" by (simp add: q(5,7))
    have dec: "DecodeRune (held q @ rest) = DecodeRune (held q)" using full by (rule DecodeRune_append)
    have good: "DecodeRune (held q) \<noteq> (RuneError, 1)"
      using c h p(3) FullRune_append [OF full, of rest] dec D by (auto simp: completes_def p_def [symmetric])
    have "snd (DecodeRune (held q)) = length (held q)"
      using completed_size [OF p', of x] full good unfolding x by simp
    then obtain r where r: "DecodeRune (held q) = (r, length (held q))" by (metis prod.collapse)
    have emp: "gslice (partial q) (int (length (held q))) (nPart q) = Some []"
      using q(3,6) n lq by (simp add: gslice_def)
    have ge: "1 \<le> length (held q)" and ne: "held q \<noteq> []" using x by simp_all
    have st: "t\<lparr>t_p := q\<lparr>nPart := 0\<rparr>\<rparr> = parted (partial q) (released t)"
      by (subst (1) q(2)) (simp add: released_def p_def o_def)
    have idle: "idle_ok w h (released t)"
      using p(1) by (auto simp: released_def parser_idle_def parser_wf_def p_def intro!: wf_parser [OF t])
    obtain t' where t': "feedRune r (released t) = Some t'" "idle_ok w h t'"
      using wf_feedRune [OF idle w, of r] by (auto simp: wp_ex)
    have "Write data t = feedRune r (parted (partial q) (released t)) \<bind> write_loop rest"
      using True q(1) sl full r emp by (simp add: Write_def p_def [symmetric] st feed_rest.simps)
    moreover have "write_loop (held p @ data) (released t) = feedRune r (released t) \<bind> write_loop rest"
      using loop_rune [OF hd [of data], of "released t"] good r ge h p(2) dec unfolding D
      by (simp add: released_def p_def max_def ne)
    ultimately show ?thesis
      using write_loop_forget [OF w t'(2)] t' by (simp add: feedRune_parted p_def)
  qed
qed


section \<open>The main loop can be cut\<close>

definition clean_cut :: "bytes \<Rightarrow> bytes \<Rightarrow> bool" where
  "clean_cut a b \<longleftrightarrow> (\<forall>q p. a = q @ p \<longrightarrow> completes p b)"

lemma clean_cut_drop: "clean_cut a b \<Longrightarrow> clean_cut (drop n a) b"
  unfolding clean_cut_def by (metis append.assoc append_take_drop_id)

lemma write_loop_held_suffix:
  assumes "idle_ok w h t" "2 \<le> w"
  shows "write_loop data t = Some u \<Longrightarrow> \<exists>q. data = q @ held (t_p u)"
  using assms
proof (induction data t rule: write_loop_induct)
  case (Nil t)
  then show ?case using idle_nPart [OF Nil.hyps(1)] by (simp add: write_loop.simps held_def)
next
  case (byte b rest t t')
  then obtain q where "rest = q @ held (t_p u)" by (auto simp: write_loop_plain)
  then show ?case by (metis append_Cons)
next
  case (cut data t)
  then have "held (t_p u) = data" by (auto simp: write_loop_held held_def)
  then show ?case by (metis append_Nil)
next
  case (bad b rest t)
  then obtain q where "rest = q @ held (t_p u)" by (auto simp: write_loop_bad)
  then show ?case by (metis append_Cons)
next
  case (rune data t r n t')
  then obtain q where "drop n data = q @ held (t_p u)" by (auto simp: loop_rune max_def)
  then show ?case by (metis append.assoc append_take_drop_id)
qed

lemma write_loop_cut:
  assumes "idle_ok w h t" "2 \<le> w"
  shows "clean_cut a b \<Longrightarrow> map_option forget (write_loop (a @ b) t) = map_option forget (write_loop a t \<bind> Write b)"
  using assms
proof (induction a t rule: write_loop_induct)
  case (Nil t)
  then show ?case using idle_nPart [OF Nil.hyps(1)] by (simp add: write_loop.simps [of "[]"] Write_def)
next
  case (byte c rest t t')
  then show ?case using clean_cut_drop [of "c # rest" b 1] by (simp add: write_loop_plain)
next
  case (cut a t)
  define u where "u = t\<lparr>t_p := (t_p t)\<lparr>partial := a @ drop (length a) (partial (t_p t)), nPart := glen a\<rparr>\<rparr>"
  have u: "write_loop a t = Some u" using cut by (simp add: write_loop_held u_def)
  have h: "held (t_p u) = a" by (simp add: u_def held_def)
  have "released u = parted (partial (t_p u)) t"
    using idle_nPart [OF cut.hyps(1)] by (cases t; cases "t_p t") (simp add: released_def u_def)
  moreover have "wf_term w h carry_ok (\<lambda>_. True) u"
    using wf_write_loop [OF assms(2) _ cut.hyps(1), of a] u by simp
  moreover have "completes (held (t_p u)) b" using cut.prems by (auto simp: h clean_cut_def)
  ultimately show ?case
    using Write_loop [of w h u b] write_loop_forget [OF assms(2) cut.hyps(1)] assms(2) by (simp add: u h)
next
  case (bad c rest t)
  moreover from bad.hyps(5) have "FullRune (c # rest @ b)" "DecodeRune (c # rest @ b) = (RuneError, 1)"
    using FullRune_append [of "c # rest" b] DecodeRune_append [of "c # rest" b] bad.hyps(4) by simp_all
  ultimately show ?case using clean_cut_drop [of "c # rest" b 1] by (simp add: write_loop_bad)
next
  case (rune a t r n t')
  moreover have "DecodeRune (a @ b) = (r, n)" using DecodeRune_append rune.hyps by simp
  moreover have "hd (a @ b) = hd a" using rune.hyps(4) by simp
  ultimately show ?case using clean_cut_drop [of a b n] by (simp add: loop_rune max_def)
qed


section \<open>In valid UTF-8 every cut is clean\<close>

definition utf8 :: "rune list \<Rightarrow> bytes" where
  "utf8 rs = concat (map rune_bytes rs)"

lemma continuation_no_lead:
  assumes "valid_rune r" "0 < i" "i < length (rune_bytes r)"
  shows "utf8_lead (uint (rune_bytes r ! i)) = None"
proof -
  have m: "0x80 \<le> 0x80 + k mod 64 \<and> 0x80 + k mod 64 < 256" "0x80 + k mod 64 < 0xC2" for k :: int
    by (simp_all add: pos_mod_bound [THEN less_trans])
  have u: "uint (word_of_int (0x80 + k mod 64) :: byte) = 0x80 + k mod 64" for k
    using m [of k] by (intro uint_word_of_int_byte) simp_all
  have l: "utf8_lead (uint (word_of_int (0x80 + k mod 64) :: byte)) = None" for k
    unfolding u using m [of k] by (simp add: utf8_lead_def)
  have "list_all (\<lambda>x. utf8_lead (uint x) = None) (tl (rune_bytes r))"
    unfolding rune_bytes_def using assms(1) by (simp only: l list.pred_inject list.sel split: if_split) simp
  then show ?thesis
    using assms(2,3) by (cases "rune_bytes r"; cases i) (auto simp: list_all_length)
qed

lemma utf8_completes:
  assumes "list_all valid_rune rs" "utf8 rs = q @ p @ b"
  shows "completes p b"
  using assms
proof (induction rs arbitrary: q)
  case Nil
  then show ?case by (simp add: utf8_def completes_def)
next
  case (Cons r rs)
  have e: "rune_bytes r @ utf8 rs = q @ p @ b" using Cons.prems(2) by (simp add: utf8_def)
  consider "q = []" | "q \<noteq> []" "length q < length (rune_bytes r)" | "length (rune_bytes r) \<le> length q" by linarith
  then show ?case
  proof cases
    case 1
    have "DecodeRune (p @ b) = (r, length (rune_bytes r))"
      using e 1 DecodeRune_rune_bytes [of r "utf8 rs"] Cons.prems(1) by simp
    moreover have "length (rune_bytes RuneError) = 3" by (simp add: rune_bytes_def RuneError_def valid_rune_def)
    ultimately show ?thesis by (auto simp: completes_def)
  next
    case 2
    show ?thesis
    proof (cases p)
      case (Cons x xs)
      have "(rune_bytes r @ utf8 rs) ! length q = x" unfolding e by (simp add: Cons)
      then have "rune_bytes r ! length q = x" using 2(2) by (simp add: nth_append)
      then have "utf8_lead (uint x) = None" using continuation_no_lead [of r "length q"] 2 Cons.prems(1) by simp
      then show ?thesis by (simp add: completes_def FullRune_def Cons)
    qed (simp add: completes_def)
  next
    case 3
    then have "q = rune_bytes r @ drop (length (rune_bytes r)) q"
      using e by (metis append_eq_append_conv_if append_take_drop_id)
    then have "utf8 rs = drop (length (rune_bytes r)) q @ p @ b" using e by (metis append.assoc same_append_eq)
    with Cons.IH Cons.prems(1) show ?thesis by simp
  qed
qed

lemma utf8_clean_cut: "list_all valid_rune rs \<Longrightarrow> utf8 rs = a @ b \<Longrightarrow> clean_cut a b"
  unfolding clean_cut_def using utf8_completes by (metis append.assoc)

lemma released_idle: "wf_term w h carry_ok (\<lambda>_. True) t \<Longrightarrow> idle_ok w h (released t)"
  using wf_parserD [of w h carry_ok "\<lambda>_. True" t]
  by (auto simp: released_def carry_ok_def parser_idle_def parser_wf_def intro: wf_parser)

lemma carried_loop:
  assumes "wf_term w h carry_ok (\<lambda>_. True) t"
  shows "map_option forget (write_loop (held (t_p t)) (released t)) = Some (forget t)"
proof (cases "held (t_p t) = []")
  case True
  have "nPart (t_p t) = 0"
    using True wf_parserD [OF assms] by (auto simp: carry_ok_def parser_wf_def held_def)
  then have "(t_p t)\<lparr>nPart := 0\<rparr> = t_p t" by (cases "t_p t") simp
  then have "released t = t" by (cases t) (simp add: released_def)
  with True show ?thesis by (simp add: write_loop.simps)
next
  case False
  have "text_state (pstate (t_p t))" "\<not> FullRune (held (t_p t))" "glen (held (t_p t)) = nPart (t_p t)"
    using False wf_parserD [OF assms] by (auto simp: carry_ok_def parser_wf_def held_def)
  with False show ?thesis
    by (simp add: write_loop_held released_def forget_def) (simp add: held_def)
qed


lemma completes_prefix: "completes p (b @ c) \<Longrightarrow> completes p b"
  using FullRune_append [of "p @ b" c] DecodeRune_append [of "p @ b" c] by (auto simp: completes_def)

lemma clean_cut_prefix: "clean_cut a (b @ c) \<Longrightarrow> clean_cut a b"
  unfolding clean_cut_def using completes_prefix by blast

section \<open>Writes\<close>

lemma Write_forget:
  assumes "wf_term w h carry_ok (\<lambda>_. True) t" "wf_term w h carry_ok (\<lambda>_. True) u" "2 \<le> w"
    and "forget t = forget u" "completes (held (t_p t)) data"
  shows "map_option forget (Write data t) = map_option forget (Write data u)"
proof -
  obtain q where q: "released u = parted q (released t)" using forget_eqD(2) [OF assms(4)] by blast
  from forget_eqD(1) [OF assms(4)] assms(5) show ?thesis
    using Write_loop [OF assms(1,3), of data] Write_loop [OF assms(2,3), of data]
      write_loop_forget [OF assms(3) released_idle [OF assms(1)], of "held (t_p u) @ data" q]
    by (simp add: q)
qed

lemma Snapshot_parser: "Snapshot (t_p_update g t) = Snapshot t"
  by (simp add: Snapshot_def writeScreen_def write_modes_def tp_frame Let_def cong: if_cong)

lemma Snapshot_forget: "Snapshot (forget t) = Snapshot t"
  by (simp add: forget_def Snapshot_parser)

lemma run_one_write: "run vt_step (map WriteEv [c]) t = Write c t"
  by (cases "Write c t") simp_all

lemma writes_loop:
  assumes t: "wf_term w h carry_ok (\<lambda>_. True) t" and w: "2 \<le> w" and rs: "list_all valid_rune rs"
  shows "utf8 rs = held (t_p t) @ concat cs @ later \<Longrightarrow>
    (\<exists>u. run vt_step (map WriteEv cs) t = Some u \<and> wf_term w h carry_ok (\<lambda>_. True) u) \<and>
    map_option forget (run vt_step (map WriteEv cs) t) = map_option forget (write_loop (held (t_p t) @ concat cs) (released t))"
proof (induction cs arbitrary: later rule: rev_induct)
  case Nil
  then show ?case using t by (simp add: carried_loop [OF t, symmetric])
next
  case (snoc c cs)
  let ?a = "held (t_p t) @ concat cs"
  from snoc.prems have s: "utf8 rs = ?a @ c @ later" by simp
  then have s': "utf8 rs = held (t_p t) @ concat cs @ c @ later" by simp
  from snoc.IH [OF s'] obtain u where u: "run vt_step (map WriteEv cs) t = Some u" "wf_term w h carry_ok (\<lambda>_. True) u"
    by blast
  have "map_option forget (write_loop ?a (released t)) = Some (forget u)"
    using snoc.IH [OF s', THEN conjunct2, symmetric] u(1) by (simp only: option.map)
  then obtain v where v: "write_loop ?a (released t) = Some v" "forget v = forget u" by auto
  have wv: "wf_term w h carry_ok (\<lambda>_. True) v"
    using wf_write_loop [OF w _ released_idle [OF t], of ?a] v(1) by simp
  have cl: "clean_cut ?a c" by (rule clean_cut_prefix [OF utf8_clean_cut [OF rs s]])
  moreover obtain q where "?a = q @ held (t_p v)"
    using write_loop_held_suffix [OF released_idle [OF t] w v(1)] by blast
  ultimately have "completes (held (t_p v)) c" unfolding clean_cut_def by blast
  from Write_forget [OF wv u(2) w v(2) this]
  have "map_option forget (Write c u) = map_option forget (write_loop (?a @ c) (released t))"
    using write_loop_cut [OF released_idle [OF t] w cl] v(1) by simp
  moreover obtain u' where "Write c u = Some u'" "wf_term w h carry_ok (\<lambda>_. True) u'"
    using wf_Write [OF u(2) w] by (auto simp: wp_ex)
  ultimately show ?case using u(1) by (simp add: run_append)
qed


text \<open>C4: However a valid UTF-8 stream is cut into writes (at any byte, so inside a rune or an escape
  sequence), the terminal ends in the state one write of the whole stream gives, up to the bytes of the
  carry buffer that are no longer held; a snapshot of either state is the same.\<close>

theorem writes_may_be_cut_anywhere:
  assumes "vt_wf t" "list_all valid_rune rs" "held (t_p t) @ concat cs = utf8 rs"
  shows "\<exists>u v. run vt_step (map WriteEv cs) t = Some u \<and> Write (concat cs) t = Some v \<and> forget u = forget v
    \<and> Snapshot u = Snapshot v"
proof -
  from assms(1) have t: "wf_term (t_w t) (t_h t) carry_ok (\<lambda>_. True) t" and w: "2 \<le> t_w t"
    by (simp_all add: vt_wf_def)
  from assms(3) have e: "utf8 rs = held (t_p t) @ concat ds @ []" if "concat ds = concat cs" for ds
    using that by simp
  from writes_loop [OF t w assms(2) e [of cs, OF refl]] obtain u where
    u: "run vt_step (map WriteEv cs) t = Some u" by blast
  note one = writes_loop [OF t w assms(2) e [of "[concat cs]"], unfolded run_one_write]
  then obtain v where v: "Write (concat cs) t = Some v" by auto
  have "map_option forget (run vt_step (map WriteEv cs) t) = map_option forget (Write (concat cs) t)"
    using writes_loop [OF t w assms(2) e [of cs, OF refl]] one by simp
  then have "forget u = forget v" using u v by simp
  moreover from this have "Snapshot u = Snapshot v" by (metis Snapshot_forget)
  ultimately show ?thesis using u v by blast
qed

lemma cut_text: "utf8 [0xE9, 0x1b, 0x4E2D] = [0xc3, 0xa9, 0x1b, 0xe4, 0xb8, 0xad]"
  by code_simp

theorem writes_may_be_cut_anywhere_witness:
  "\<exists>u v. run vt_step (map WriteEv [[0xc3], [0xa9, 0x1b, 0xe4], [0xb8, 0xad]]) (New 4 2) = Some u
     \<and> Write [0xc3, 0xa9, 0x1b, 0xe4, 0xb8, 0xad] (New 4 2) = Some v \<and> forget u = forget v \<and> Snapshot u = Snapshot v"
proof -
  have h: "held (t_p (New 4 2)) = []" by (simp add: held_def New_def init_def Let_def zeroParser_def)
  show ?thesis
    using writes_may_be_cut_anywhere [OF vt_New [of 4 2], of "[0xE9, 0x1b, 0x4E2D]"
        "[[0xc3], [0xa9, 0x1b, 0xe4], [0xb8, 0xad]]"] cut_text h
    by (simp add: valid_rune_def)
qed

text \<open>Outside UTF-8 this fails: behind an invalid lead byte that a write cut off, a line feed is taken
  for a character, while in one write it moves the cursor.\<close>

theorem cut_behind_invalid_byte:
  "map_option (\<lambda>t. cy (tcur t)) (run vt_step [WriteEv [0xe2, 0x0a]] (New 4 2)) = Some 1
   \<and> map_option (\<lambda>t. cy (tcur t)) (run vt_step [WriteEv [0xe2], WriteEv [0x0a]] (New 4 2)) = Some 0"
  by (rule conjI) code_simp+

end
