(* ===== verification/Snapshot_Safety.thy ===== *)
theory Snapshot_Safety
  imports Emulator_Safety Snapshot
begin

text \<open>
  A snapshot of a well-formed terminal can always be taken (\<open>Snapshot\<close> in
  \<open>src/internal/vterm/snapshot.go\<close> indexes rows, cells and character sets), and it is never
  empty, so a viewer that asks for a replay gets one.
\<close>

lemma write_pending_total:
  assumes "screen_wf w h n s"
  shows "wp (write_pending w s) (\<lambda>_. True)"
proof -
  have r: "0 \<le> cy (cur s)" "cy (cur s) < glen (rows s)" "1 \<le> w"
    using assms by (auto simp: screen_wf_def rows_wf_def cursor_wf_def)
  then have "row_wf w (rows s ! nat (cy (cur s)))"
    using assms by (auto simp: screen_wf_def rows_wf_def list_all_length)
  with r show ?thesis by (simp add: write_pending_def wp_simps row_wf_def)
qed

lemma writeScreen_total:
  assumes "wf_term w h P M t"
  shows "wp (writeScreen t p b) (\<lambda>_. True)"
proof -
  from wf_screen [OF assms, of p] wf_size [OF assms]
  have "wp (write_pending (t_w t) (deref p t)) (\<lambda>_. True)" "rows (deref p t) \<noteq> []"
    using write_pending_total by (auto simp: screen_wf_def rows_wf_def)
  then show ?thesis
    by (auto simp: writeScreen_def wp_simps Let_def split: prod.splits intro: wp_mono)
qed

lemma write_modes_total: "wf_term w h P M t \<Longrightarrow> wp (write_modes t) (\<lambda>_. True)"
  by (simp add: write_modes_def wp_simps wf_term_def modes_wf_def)

lemma Snapshot_total:
  assumes "wf_term w h P M t"
  shows "\<exists>d. Snapshot t = Some d \<and> d \<noteq> []"
proof -
  have "wp (Snapshot t) (\<lambda>d. d \<noteq> [])"
    using writeScreen_total [OF assms] write_modes_total [OF assms]
    by (auto simp: Snapshot_def wp_simps esc_def intro!: wp_mono [OF writeScreen_total [OF assms]] wp_mono [OF write_modes_total [OF assms]])
  then show ?thesis by (simp add: wp_ex)
qed

end
