(* ===== verification/Typed.thy ===== *)
theory Typed
  imports Chunking Snapshot_Safety
begin

text \<open>
  What an emulator can hold: the styles of its cells and pens, the text of its cells, links and title.
  The locale \<open>stored_types\<close> states what a choice of styles \<open>S\<close>, texts \<open>T\<close> and printed runes \<open>R\<close> has to be
  closed under; inside it every operation of \<open>term.go\<close>, \<open>dispatch.go\<close> and \<open>parser.go\<close> is shown to keep
  them. It is interpreted with the styles that SGR can set and with texts free of control bytes.
\<close>

section \<open>Typed cells, rows, screens and terminals\<close>

definition cell_typed :: "(Style \<Rightarrow> bool) \<Rightarrow> (bytes \<Rightarrow> bool) \<Rightarrow> Cell \<Rightarrow> bool" where
  "cell_typed S T c \<longleftrightarrow> S (CStyle c) \<and> T (Ch c) \<and> T (Link c)"

definition row_typed :: "(Style \<Rightarrow> bool) \<Rightarrow> (bytes \<Rightarrow> bool) \<Rightarrow> row \<Rightarrow> bool" where
  "row_typed S T r \<longleftrightarrow> list_all (cell_typed S T) (cells r)"

definition screen_typed :: "(Style \<Rightarrow> bool) \<Rightarrow> (bytes \<Rightarrow> bool) \<Rightarrow> screen \<Rightarrow> bool" where
  "screen_typed S T s \<longleftrightarrow> list_all (row_typed S T) (rows s) \<and> list_all (row_typed S T) (scrollback s)
     \<and> S (sv_pen (saved s)) \<and> T (sv_link (saved s))"

definition term_typed :: "(Style \<Rightarrow> bool) \<Rightarrow> (bytes \<Rightarrow> bool) \<Rightarrow> (rune \<Rightarrow> bool) \<Rightarrow> Terminal \<Rightarrow> bool" where
  "term_typed S T R t \<longleftrightarrow> screen_typed S T (t_main t) \<and> screen_typed S T (t_alt t) \<and> S (pen t) \<and> T (link t) \<and> T (title t)
     \<and> T (osc (t_p t)) \<and> (lastPrinted t = 0 \<or> R (lastPrinted t)) \<and> list_all (cell_typed S T) (blankRow t)"

section \<open>Partial correctness\<close>

text \<open>That an operation returns is shown elsewhere; here only what it returns matters.\<close>

definition after :: "'a option \<Rightarrow> ('a \<Rightarrow> bool) \<Rightarrow> bool" where
  "after m Q \<longleftrightarrow> (\<forall>x. m = Some x \<longrightarrow> Q x)"

named_theorems typed "every operation keeps the types"

lemma after_simps [simp]: "after (Some x) Q = Q x" "after None Q"
  by (simp_all add: after_def)

lemma after_bindI: "after m P \<Longrightarrow> (\<And>x. P x \<Longrightarrow> after (f x) Q) \<Longrightarrow> after (m \<bind> f) Q"
  by (cases m) (auto simp: after_def)

lemma after_mono: "after m P \<Longrightarrow> (\<And>x. P x \<Longrightarrow> Q x) \<Longrightarrow> after m Q"
  by (auto simp: after_def)

lemma after_ifI: "(b \<Longrightarrow> after m Q) \<Longrightarrow> (\<not> b \<Longrightarrow> after m' Q) \<Longrightarrow> after (if b then m else m') Q"
  by simp

lemma after_top: "after m (\<lambda>_. True)"
  by (simp add: after_def)

lemma after_free: "(\<And>x. after (f x) Q) \<Longrightarrow> after (m \<bind> f) Q"
  by (cases m) auto

lemma after_bind_valueI: "after m P \<Longrightarrow> (\<And>x. m = Some x \<Longrightarrow> P x \<Longrightarrow> after (f x) Q) \<Longrightarrow> after (m \<bind> f) Q"
  by (cases m) (auto simp: after_def)

lemma after_gidx: "list_all P xs \<Longrightarrow> after (gidx xs i) P"
  by (auto simp: after_def gidx_def list_all_length)

lemma after_gset: "list_all P xs \<Longrightarrow> P v \<Longrightarrow> after (gset xs i v) (list_all P)"
  by (auto simp: after_def gset_def list_all_update split: if_splits)

lemma after_gslice: "list_all P xs \<Longrightarrow> after (gslice xs i j) (list_all P)"
  by (auto simp: after_def gslice_def list_all_takeI list_all_dropI split: if_splits)

lemma after_gcopy: "list_all P xs \<Longrightarrow> list_all P src \<Longrightarrow> after (gcopy xs i j src) (list_all P)"
  by (auto simp: after_def gcopy_def Let_def list_all_takeI list_all_dropI split: if_splits)

lemma after_gfill: "list_all P xs \<Longrightarrow> P v \<Longrightarrow> after (gfill xs i j v) (list_all P)"
  by (auto simp: after_def gfill_def fill_def list_all_takeI list_all_dropI split: if_splits)


section \<open>Updates the types do not see\<close>

lemma screen_typed_frames [simp]:
  "screen_typed S T (s\<lparr>cur := c\<rparr>) = screen_typed S T s" "screen_typed S T (s\<lparr>s_top := i\<rparr>) = screen_typed S T s"
  "screen_typed S T (s\<lparr>s_bot := i\<rparr>) = screen_typed S T s"
  by (simp_all add: screen_typed_def)

lemma term_typed_act: "term_typed S T R t \<Longrightarrow> screen_typed S T (act t)"
  by (simp add: term_typed_def act_def deref_def split: scr.splits)

lemma term_typed_deref: "term_typed S T R t \<Longrightarrow> screen_typed S T (deref p t)"
  by (simp add: term_typed_def deref_def split: scr.splits)

lemma term_typed_assign: "term_typed S T R t \<Longrightarrow> screen_typed S T s \<Longrightarrow> term_typed S T R (assign p s t)"
  by (simp add: term_typed_def assign_def split: scr.splits)

lemma term_typed_set_act: "term_typed S T R t \<Longrightarrow> screen_typed S T s \<Longrightarrow> term_typed S T R (set_act s t)"
  by (simp add: set_act_def term_typed_assign)

lemma term_typed_set_cur [simp]: "term_typed S T R (set_cur c t) = term_typed S T R t"
  by (simp add: set_cur_def set_act_def assign_def act_def deref_def term_typed_def split: scr.splits)

lemma term_typed_frames [simp]:
  "term_typed S T R (t\<lparr>origin := b\<rparr>) = term_typed S T R t" "term_typed S T R (t\<lparr>autowrap := b\<rparr>) = term_typed S T R t"
  "term_typed S T R (t\<lparr>insertMode := b\<rparr>) = term_typed S T R t" "term_typed S T R (t\<lparr>lineFeedNewline := b\<rparr>) = term_typed S T R t"
  "term_typed S T R (t\<lparr>cursorKeys := b\<rparr>) = term_typed S T R t" "term_typed S T R (t\<lparr>cursorVisible := b\<rparr>) = term_typed S T R t"
  "term_typed S T R (t\<lparr>bracketedPaste := b\<rparr>) = term_typed S T R t" "term_typed S T R (t\<lparr>focusEvents := b\<rparr>) = term_typed S T R t"
  "term_typed S T R (t\<lparr>mouse := m\<rparr>) = term_typed S T R t" "term_typed S T R (t\<lparr>mouseEnc := e\<rparr>) = term_typed S T R t"
  "term_typed S T R (t\<lparr>cursorStyle := i\<rparr>) = term_typed S T R t" "term_typed S T R (t\<lparr>charsets := cs\<rparr>) = term_typed S T R t"
  "term_typed S T R (t\<lparr>glIndex := i\<rparr>) = term_typed S T R t" "term_typed S T R (t\<lparr>tabStops := ts\<rparr>) = term_typed S T R t"
  "term_typed S T R (t\<lparr>t_w := i\<rparr>) = term_typed S T R t" "term_typed S T R (t\<lparr>t_h := i\<rparr>) = term_typed S T R t"
  "term_typed S T R (t\<lparr>maxScrollback := i\<rparr>) = term_typed S T R t" "term_typed S T R (t\<lparr>altActive := b\<rparr>) = term_typed S T R t"
  "term_typed S T R (t\<lparr>t_s := p\<rparr>) = term_typed S T R t"
  by (simp_all add: term_typed_def)

lemma term_typed_moveCursor [simp]: "term_typed S T R (moveCursor x y t) = term_typed S T R t"
  by (simp add: moveCursor_def Let_def)

lemma term_typed_cursor_moves [simp]:
  "term_typed S T R (cursorUp n t) = term_typed S T R t" "term_typed S T R (cursorDown n t) = term_typed S T R t"
  "term_typed S T R (set_x x t) = term_typed S T R t" "term_typed S T R (set_x_nowrap x t) = term_typed S T R t"
  "term_typed S T R (advance w t) = term_typed S T R t"
  by (simp_all add: cursorUp_def cursorDown_def set_x_def set_x_nowrap_def advance_def Let_def)

lemma term_typed_pen: "term_typed S T R t \<Longrightarrow> S st \<Longrightarrow> term_typed S T R (t\<lparr>pen := st\<rparr>)"
  by (simp add: term_typed_def)

lemma term_typed_link: "term_typed S T R t \<Longrightarrow> T l \<Longrightarrow> term_typed S T R (t\<lparr>link := l\<rparr>)"
  by (simp add: term_typed_def)

lemma term_typed_parser: "term_typed S T R t \<Longrightarrow> T (osc p) \<Longrightarrow> term_typed S T R (t\<lparr>t_p := p\<rparr>)"
  by (simp add: term_typed_def)

lemma term_typed_last: "term_typed S T R t \<Longrightarrow> R r \<Longrightarrow> term_typed S T R (t\<lparr>lastPrinted := r\<rparr>)"
  by (simp add: term_typed_def)

lemma term_typed_blankRow: "term_typed S T R t \<Longrightarrow> list_all (cell_typed S T) cs \<Longrightarrow> term_typed S T R (t\<lparr>blankRow := cs\<rparr>)"
  by (simp add: term_typed_def)

lemma screen_typed_rows: "screen_typed S T s \<Longrightarrow> list_all (row_typed S T) rs \<Longrightarrow> screen_typed S T (s\<lparr>rows := rs\<rparr>)"
  by (simp add: screen_typed_def)

lemma screen_typed_saved:
  "screen_typed S T s \<Longrightarrow> S (sv_pen sv) \<Longrightarrow> T (sv_link sv) \<Longrightarrow> screen_typed S T (s\<lparr>saved := sv\<rparr>)"
  by (simp add: screen_typed_def)

lemma row_typed_simps [simp]:
  "row_typed S T (r\<lparr>wrapped := b\<rparr>) = row_typed S T r" "row_typed S T (r\<lparr>cells := cs\<rparr>) = list_all (cell_typed S T) cs"
  by (simp_all add: row_typed_def)

lemma row_typed_cells: "row_typed S T r \<Longrightarrow> list_all (cell_typed S T) (cells r)"
  by (simp add: row_typed_def)

lemma after_get_row: "term_typed S T R t \<Longrightarrow> after (get_row y t) (row_typed S T)"
  unfolding get_row_def by (intro after_gidx) (use term_typed_act screen_typed_def in blast)

lemma after_set_row: "term_typed S T R t \<Longrightarrow> row_typed S T r \<Longrightarrow> after (set_row y r t) (term_typed S T R)"
  unfolding set_row_def
  by (rule after_bindI [OF after_gset [of "row_typed S T"]])
    (auto intro!: term_typed_set_act screen_typed_rows term_typed_act dest: term_typed_act simp: screen_typed_def)


section \<open>The contract\<close>

locale stored_types =
  fixes S :: "Style \<Rightarrow> bool" and T :: "bytes \<Rightarrow> bool" and R :: "rune \<Rightarrow> bool"
  assumes style_zero: "S zeroStyle"
    and style_erase: "S st \<Longrightarrow> S (eraseStyle st)"
    and style_sgr: "S st \<Longrightarrow> sgr_loop p i st = Some st' \<Longrightarrow> S st'"
    and text_empty: "T []"
    and text_space: "T [0x20]"
    and text_E: "T [0x45]"
    and text_append: "T a \<Longrightarrow> T b \<Longrightarrow> T (a @ b)"
    and text_drop: "T a \<Longrightarrow> T (drop n a)"
    and text_rune: "R r \<Longrightarrow> T (rune_bytes r)"
    and rune_translate: "R r \<Longrightarrow> R (translate cs r)"
    and byte_printed: "0x20 \<le> x \<Longrightarrow> x \<noteq> 0x7f \<Longrightarrow> R (uint x) \<and> T [x]"
    and rune_decoded: "\<not> x < 0x80 \<Longrightarrow> R (fst (DecodeRune (x # xs)))"
begin

abbreviation "typed_cell \<equiv> cell_typed S T"
abbreviation "typed_row \<equiv> row_typed S T"
abbreviation "typed_screen \<equiv> screen_typed S T"
abbreviation "typed_term \<equiv> term_typed S T R"

lemma blank_typed: "S st \<Longrightarrow> typed_cell (blankCell st)"
  by (simp add: cell_typed_def blankCell_def zeroCell_def text_empty)

lemma erase_typed: "S st \<Longrightarrow> typed_cell (blankCell (eraseStyle st))"
  by (simp add: blank_typed style_erase)

lemma newRow_typed: "typed_row (newRow w)"
  by (simp add: newRow_def row_typed_def blank_typed style_zero)

lemma row_clear_typed: "typed_row r \<Longrightarrow> S st \<Longrightarrow> typed_row (row_clear r a b st)"
  by (auto simp: row_clear_def Let_def fill_def row_typed_def erase_typed list_all_takeI list_all_dropI)

lemma trimmed_typed: "typed_row r \<Longrightarrow> typed_row (trimmed r)"
  by (simp add: trimmed_def row_typed_def list_all_takeI)

lemma fitted_typed: "typed_row r \<Longrightarrow> typed_row (fitted r w)"
  by (auto simp: fitted_def row_typed_def Let_def blank_typed style_zero intro!: list_all_update list_all_takeI)

lemma pen_typed: "typed_term t \<Longrightarrow> S (pen t)" "typed_term t \<Longrightarrow> T (link t)" "typed_term t \<Longrightarrow> list_all typed_cell (blankRow t)"
  by (simp_all add: term_typed_def)

lemma penRow_typed: "typed_term t \<Longrightarrow> typed_row (penRow t)"
  by (simp add: penRow_def row_clear_typed newRow_typed pen_typed)

lemma newScreen_typed: "typed_screen (newScreen w h)"
  by (simp add: newScreen_def screen_typed_def newRow_typed zeroSaved_def style_zero text_empty)

lemma act_typed: "typed_term t \<Longrightarrow> typed_screen (act t)"
  by (rule term_typed_act)

lemma get_typed: "typed_term t \<Longrightarrow> after (get_row y t) typed_row"
  by (rule after_get_row)

lemma set_typed: "typed_term t \<Longrightarrow> typed_row r \<Longrightarrow> after (set_row y r t) typed_term"
  by (rule after_set_row)

lemma rows_typed: "typed_term t \<Longrightarrow> list_all typed_row (rows (act t))"
  by (drule term_typed_act) (simp add: screen_typed_def)

section \<open>Scrollback and resizing\<close>

lemma drop_batch_typed: "list_all P sb \<Longrightarrow> list_all P (drop_batch n sb)"
  by (simp add: drop_batch_def Let_def list_all_dropI)

lemma trimScrollback_typed: "typed_term t \<Longrightarrow> typed_term (trimScrollback t)"
  by (simp add: trimScrollback_def Let_def term_typed_def screen_typed_def list_all_dropI)

lemma SetMaxScrollback_typed: "typed_term t \<Longrightarrow> typed_term (SetMaxScrollback n t)"
  by (simp add: SetMaxScrollback_def Let_def trimScrollback_typed)

lemma pushScrollback_typed: "typed_term t \<Longrightarrow> typed_row r \<Longrightarrow> typed_term (pushScrollback p r t)"
  using term_typed_deref [of S T R t p]
  by (auto simp: pushScrollback_def Let_def screen_typed_def trimmed_typed intro!: term_typed_assign drop_batch_typed)

lemma fold_push_typed: "list_all typed_row rs \<Longrightarrow> typed_term t \<Longrightarrow> typed_term (fold (pushScrollback p) rs t)"
  by (induction rs arbitrary: t) (simp_all add: pushScrollback_typed)

lemma strip_blank_typed: "list_all typed_row rs \<Longrightarrow> after (strip_blank k y rs) (\<lambda>(rs', n). list_all typed_row rs')"
proof (induction k arbitrary: rs)
  case (Suc k)
  then have "list_all typed_row (butlast rs)" by (simp add: butlast_conv_take list_all_takeI)
  with Suc show ?case by (auto intro!: after_free)
qed simp

lemma pull_back_typed: "typed_screen s \<Longrightarrow> typed_screen (fst (pull_back k w s))"
proof (induction k arbitrary: s)
  case (Suc k)
  have "scrollback s \<noteq> [] \<Longrightarrow> typed_row (last (scrollback s))"
    using Suc.prems by (auto simp: screen_typed_def list_all_iff)
  moreover have "list_all typed_row (butlast (scrollback s))"
    using Suc.prems by (simp add: screen_typed_def butlast_conv_take list_all_takeI)
  ultimately show ?case
    using Suc by (simp add: screen_typed_def fitted_typed)
qed simp

lemma resize_columns_typed: "typed_screen s \<Longrightarrow> typed_screen (resize_columns old w s)"
  by (auto simp: resize_columns_def screen_typed_def list_all_iff fitted_typed)

end


context stored_types
begin

lemma resize_rows_typed:
  assumes t: "typed_term t"
  shows "after (resize_rows p w h u t) typed_term"
proof -
  let ?s = "deref p t"
  have s: "typed_screen ?s" using term_typed_deref [OF t] .
  show ?thesis
  proof (cases "h < glen (rows ?s)")
    case True
    have rs: "after (strip_blank (nat (glen (rows ?s) - h)) (cy (cur ?s)) (rows ?s)) (\<lambda>(rs', n). list_all typed_row rs')"
      using s by (intro strip_blank_typed) (simp add: screen_typed_def)
    show ?thesis
      unfolding resize_rows_def Let_def if_P [OF True]
    proof (rule after_bindI [OF rs], clarify, goal_cases)
      case (1 rs n)
      define t1 where "t1 = assign p (?s\<lparr>rows := rs\<rparr>) t"
      have t1: "typed_term t1" unfolding t1_def using t s 1 by (intro term_typed_assign screen_typed_rows)
      have fin: "typed_term (assign p ((deref p v)\<lparr>rows := rs', cur := c, saved := (saved (deref p v))\<lparr>sv_y := y\<rparr>\<rparr>) v)"
        if "typed_term v" "list_all typed_row rs'" for v rs' c y
        using that term_typed_deref [OF that(1), of p] by (intro term_typed_assign) (simp_all add: screen_typed_def)
      have t2: "typed_term (if u then fold (pushScrollback p) gone t1 else t1)" if "list_all typed_row gone" for gone
        using that t1 by (simp add: fold_push_typed)
      show ?case
        unfolding t1_def [symmetric] using t1 t2 fin 1
        by (cases "0 < n") (auto intro!: after_bindI [OF after_gslice])
    qed
  next
    case False
    have "typed_screen (fst (pull_back k w ?s))" for k using s by (rule pull_back_typed)
    then show ?thesis
      using False t s
      by (auto simp: resize_rows_def Let_def case_prod_beta screen_typed_def newRow_typed list_all_iff intro!: term_typed_assign)
  qed
qed

end


context stored_types
begin

lemma resizeScreen_typed: "typed_term t \<Longrightarrow> after (resizeScreen p w h u t) typed_term"
  unfolding resizeScreen_def Let_def
proof (rule after_bindI [OF resize_rows_typed], goal_cases)
  case 1
  then show ?case by (intro term_typed_assign resize_columns_typed term_typed_deref)
next
  case (2 v)
  then show ?case using term_typed_deref [of S T R v p] by (simp add: term_typed_assign screen_typed_def)
qed

lemma Resize_typed: "typed_term t \<Longrightarrow> after (Resize w h t) typed_term"
  unfolding Resize_def Let_def
  by (auto intro!: after_bindI [OF resizeScreen_typed] simp: resetTabStops_def term_typed_blankRow)

section \<open>Clearing and scrolling\<close>

lemma clearRow_typed:
  assumes "typed_row r" "typed_term t"
  shows "after (clearRow r a b t) (\<lambda>(r', t'). typed_row r' \<and> typed_term t')"
proof -
  define t1 where "t1 = (if glen (blankRow t) < t_w t then t\<lparr>blankRow := cells (newRow (t_w t))\<rparr> else t)"
  have t1: "typed_term t1"
    using assms newRow_typed [of "t_w t"] by (simp add: t1_def term_typed_blankRow row_typed_def)
  show ?thesis
    unfolding clearRow_def Let_def t1_def [symmetric]
    using assms t1 row_clear_typed [OF assms(1)] pen_typed(1) [OF assms(2)] pen_typed(3) [OF t1]
    by (auto intro!: after_bindI [OF after_gslice] after_bindI [OF after_gcopy] simp: row_typed_cells)
qed

lemma scroll_fill_typed: "list_all typed_row rs \<Longrightarrow> typed_term t \<Longrightarrow> after (scroll_fill rs y t) typed_term"
  by (induction rs arbitrary: y t)
    (auto intro!: after_bindI [OF clearRow_typed] after_bindI [OF set_typed])

lemma scroll_typed:
  assumes "typed_term t"
  shows "after (scroll n keep t) typed_term"
proof (cases "n \<le> 0")
  case False
  have g: "typed_term (if b then fold (pushScrollback p) rs t else t)" if "list_all typed_row rs" for b p rs
    using that assms by (simp add: fold_push_typed)
  show ?thesis
    unfolding scroll_def Let_def if_not_P [OF False]
    by (intro after_bindI [OF after_gslice [of typed_row]] after_bindI [OF after_gcopy [of typed_row]] after_bindI [OF scroll_fill_typed]
        rows_typed assms g term_typed_set_act screen_typed_rows act_typed)
      (auto intro!: after_bindI [OF get_typed] set_typed)
qed (simp add: scroll_def assms)

lemma scrollUp_typed: "typed_term t \<Longrightarrow> after (scrollUp n t) typed_term"
  by (simp add: scrollUp_def scroll_typed)

text \<open>Rows are moved inside the screen and the gap is filled with fresh ones.\<close>

lemma moved_rows_typed:
  assumes "typed_term t" "\<And>rs. list_all typed_row rs \<Longrightarrow> typed_term (f rs)"
  shows "after (gslice (rows (act t)) a b \<bind> (\<lambda>src. gcopy (rows (act t)) c d src \<bind> (\<lambda>rs. gfill rs i j (penRow t) \<bind> (\<lambda>rs. Some (f rs))))) typed_term"
  using assms
  by (intro after_bindI [OF after_gslice [of typed_row]] after_bindI [OF after_gcopy [of typed_row]] after_bindI [OF after_gfill [of typed_row]]
      rows_typed penRow_typed) simp_all

lemma scrollDown_typed: "typed_term t \<Longrightarrow> after (scrollDown n t) typed_term"
  unfolding scrollDown_def Let_def
  by (intro after_ifI moved_rows_typed) (simp_all add: term_typed_set_act screen_typed_rows act_typed)

lemma insertLines_typed: "typed_term t \<Longrightarrow> after (insertLines n t) typed_term"
  unfolding insertLines_def Let_def
  by (intro after_ifI moved_rows_typed) (simp_all add: term_typed_set_act screen_typed_rows act_typed)

lemma deleteLines_typed: "typed_term t \<Longrightarrow> after (deleteLines n t) typed_term"
  unfolding deleteLines_def Let_def
  by (intro after_ifI moved_rows_typed) (simp_all add: term_typed_set_act screen_typed_rows act_typed)

lemma lineFeed_typed: "typed_term t \<Longrightarrow> after (lineFeed t) typed_term"
  by (simp add: lineFeed_def Let_def scroll_typed)

lemma reverseIndex_typed: "typed_term t \<Longrightarrow> after (reverseIndex t) typed_term"
  by (simp add: reverseIndex_def Let_def scrollDown_typed)

lemma wrapToNextLine_typed: "typed_term t \<Longrightarrow> after (wrapToNextLine t) typed_term"
  unfolding wrapToNextLine_def Let_def
  by (rule after_bindI [OF lineFeed_typed]) (auto intro!: after_bindI [OF get_typed] set_typed)

end


context stored_types
begin

section \<open>Printing\<close>

lemma char_typed: "R r \<Longrightarrow> T (char_bytes r)"
  by (simp add: char_bytes_def text_empty text_rune)

lemma combine_at_typed:
  assumes "typed_row rw" "R r" "typed_term t"
  shows "after (combine_at x r rw t) typed_term"
proof -
  have c: "typed_cell ((if Ch c = [] then c\<lparr>Ch := [0x20]\<rparr> else c)\<lparr>Ch := Ch (if Ch c = [] then c\<lparr>Ch := [0x20]\<rparr> else c) @ rune_bytes r\<rparr>)"
    if "typed_cell c" for c
    using that assms(2) text_append [OF text_space text_rune, of r] by (simp add: cell_typed_def text_append text_rune)
  show ?thesis
    unfolding combine_at_def Let_def using assms c
    by (intro after_free after_bindI [OF after_gidx [of typed_cell]] after_ifI after_bindI [OF after_gset [of typed_cell]])
      (simp_all add: row_typed_cells set_typed)
qed

lemma combine_typed: "typed_term t \<Longrightarrow> R r \<Longrightarrow> after (combine r t) typed_term"
  unfolding combine_def Let_def
  by (intro after_bindI [OF get_typed] after_ifI combine_at_typed) simp_all

lemma insertCells_typed:
  assumes "typed_term t"
  shows "after (insertCells n t) typed_term"
proof -
  have e: "after (if Width c = 2 then gset cs x (blankCell (eraseStyle (CStyle c))) else Some cs) (list_all typed_cell)"
    if "list_all typed_cell cs" "typed_cell c" for cs c x
    using that by (intro after_ifI after_gset) (simp_all add: cell_typed_def [of S T c] erase_typed)
  show ?thesis
    unfolding insertCells_def Let_def using assms
    by (intro after_bindI [OF get_typed] after_bindI [OF after_gslice [of typed_cell]] after_bindI [OF after_gcopy [of typed_cell]]
        after_bindI [OF after_gfill [of typed_cell]] after_bindI [OF after_gidx [of typed_cell]] after_bindI [OF e])
      (simp_all add: row_typed_cells erase_typed pen_typed set_typed)
qed

lemma blank_like_typed: "list_all typed_cell cs \<Longrightarrow> after (blank_like cs x) (list_all typed_cell)"
  unfolding blank_like_def
  by (intro after_bindI [OF after_gidx [of typed_cell]] after_gset erase_typed) (simp_all add: cell_typed_def)

lemma put_cells_typed:
  assumes "list_all typed_cell cs" "typed_term t" "R r"
  shows "after (put_cells r n x t cs) (list_all typed_cell)"
proof -
  have b: "after (if b then blank_like cs y else Some cs) (list_all typed_cell)" if "list_all typed_cell cs" for b cs y
    using that by (intro after_ifI) (simp_all add: blank_like_typed)
  have c: "typed_cell \<lparr>Ch = char_bytes r, Width = n, CStyle = pen t, Link = link t\<rparr>" "typed_cell \<lparr>Ch = [], Width = 0, CStyle = pen t, Link = link t\<rparr>"
    using assms by (simp_all add: cell_typed_def char_typed pen_typed text_empty)
  have l: "after (if b then gidx cs y \<bind> (\<lambda>c. if Width c = 2 then blank_like cs z else Some cs) else Some cs) (list_all typed_cell)"
    if "list_all typed_cell cs" for b cs y z
    using that by (intro after_ifI after_free) (simp_all add: blank_like_typed)
  show ?thesis
    unfolding put_cells_def using assms c
    by (intro after_free after_bindI [OF b] after_bindI [OF after_gset [of typed_cell]] after_ifI after_bindI [OF l] after_gset) simp_all
qed

lemma print_cell_typed:
  assumes "typed_term t" "R r"
  shows "after (print_cell r n t) typed_term"
proof -
  have i: "after (if insertMode t then insertCells n t else Some t) typed_term"
    using assms by (intro after_ifI) (simp_all add: insertCells_typed)
  show ?thesis
    unfolding print_cell_def using assms
    by (intro after_free after_bindI [OF i] after_bindI [OF get_typed] after_bindI [OF put_cells_typed] after_bindI [OF set_typed])
      (simp_all add: row_typed_cells)
qed

lemma print_wrap_typed: "typed_term t \<Longrightarrow> after (print_wrap t) typed_term"
  unfolding print_wrap_def by (intro after_ifI) (simp_all add: wrapToNextLine_typed)

lemma print_wide_edge_typed:
  assumes "typed_term t" "R r"
  shows "after (print_wide_edge r n t) typed_term"
  unfolding print_wide_edge_def Let_def using assms
  by (intro after_ifI after_bindI [OF get_typed] after_bindI [OF after_gset [of typed_cell]] after_bindI [OF set_typed]
      after_bindI [OF wrapToNextLine_typed] print_cell_typed)
    (simp_all add: row_typed_cells erase_typed pen_typed)

lemma print_glyph_typed: "typed_term t \<Longrightarrow> R r \<Longrightarrow> after (print_glyph r n t) typed_term"
  unfolding print_glyph_def
  by (intro after_bindI [OF print_wrap_typed] after_ifI print_wide_edge_typed print_cell_typed) (simp_all add: term_typed_last)

lemma print_typed: "typed_term t \<Longrightarrow> R r \<Longrightarrow> after (print r t) typed_term"
  unfolding print_def Let_def
  by (intro after_free after_ifI combine_typed print_glyph_typed rune_translate)

lemma print_n_typed: "typed_term t \<Longrightarrow> R r \<Longrightarrow> after (print_n n r t) typed_term"
  by (induction n arbitrary: t) (auto intro!: after_bindI [OF print_typed])

section \<open>Tabs and controls\<close>

lemma tab_n_typed: "typed_term t \<Longrightarrow> after (tab_forward_n k t) typed_term" "typed_term t \<Longrightarrow> after (tab_backward_n k t) typed_term"
  by (induction k arbitrary: t) (auto intro!: after_free)

lemma tab_typed: "typed_term t \<Longrightarrow> after (tabForward n t) typed_term" "typed_term t \<Longrightarrow> after (tabBackward n t) typed_term"
  unfolding tabForward_def tabBackward_def by (rule tab_n_typed, simp)+

lemma execute_typed: "typed_term t \<Longrightarrow> after (execute b t) typed_term"
  unfolding execute_def
  by (intro after_ifI tab_typed after_bindI [OF lineFeed_typed]) simp_all

end


context stored_types
begin

section \<open>Saved cursors, erasing, screens\<close>

lemma saveCursor_typed: "typed_term t \<Longrightarrow> typed_term (saveCursor t)"
  unfolding saveCursor_def
  by (intro term_typed_set_act screen_typed_saved act_typed) (simp_all add: pen_typed)

lemma restoreCursor_typed: "typed_term t \<Longrightarrow> typed_term (restoreCursor t)"
  using act_typed [of t]
  by (simp add: restoreCursor_def Let_def screen_typed_def term_typed_pen term_typed_link style_zero text_empty)

lemma clear_rows_typed: "typed_term t \<Longrightarrow> after (clear_rows n y t) typed_term"
  by (induction n arbitrary: y t)
    (auto intro!: after_bindI [OF get_typed] after_bindI [OF set_typed] simp: row_clear_typed pen_typed)

lemma clear_rows_cached_typed: "typed_term t \<Longrightarrow> after (clear_rows_cached n y t) typed_term"
  by (induction n arbitrary: y t)
    (auto intro!: after_bindI [OF get_typed] after_bindI [OF clearRow_typed] after_bindI [OF set_typed])

lemma eraseInLine_typed: "typed_term t \<Longrightarrow> after (eraseInLine m t) typed_term"
  unfolding eraseInLine_def Let_def
  by (intro after_bindI [OF get_typed] after_ifI after_bindI [OF clearRow_typed] after_free set_typed)
    (auto simp: row_clear_typed pen_typed set_typed)

lemma eraseInDisplay_typed: "typed_term t \<Longrightarrow> after (eraseInDisplay m t) typed_term"
  unfolding eraseInDisplay_def Let_def
  by (intro after_ifI after_bindI [OF eraseInLine_typed] after_bindI [OF clear_rows_typed] clear_rows_typed eraseInLine_typed clear_rows_cached_typed)
    (use act_typed [of t] in \<open>simp_all add: term_typed_set_act screen_typed_def\<close>)

lemma eraseChars_typed: "typed_term t \<Longrightarrow> after (eraseChars n t) typed_term"
  unfolding eraseChars_def Let_def
  by (intro after_bindI [OF get_typed] after_bindI [OF set_typed]) (simp_all add: row_clear_typed pen_typed)

lemma deleteChars_typed: "typed_term t \<Longrightarrow> after (deleteChars n t) typed_term"
  unfolding deleteChars_def Let_def
  by (intro after_bindI [OF get_typed] after_bindI [OF after_gslice [of typed_cell]] after_bindI [OF after_gcopy [of typed_cell]]
      after_bindI [OF set_typed] row_clear_typed) (simp_all add: row_typed_cells pen_typed)

lemma enterAltScreen_typed: "typed_term t \<Longrightarrow> typed_term (enterAltScreen b t)"
proof -
  have e: "typed_screen (a\<lparr>rows := map (\<lambda>r. (row_clear r 0 w st)\<lparr>wrapped := False\<rparr>) (rows a), s_top := 0, s_bot := h, cur := c\<rparr>)"
    if "typed_screen a" "S st" for a w h st c
    using that by (auto simp: screen_typed_def list_all_iff row_clear_typed)
  assume t: "typed_term t"
  define u where "u = (if b then saveCursor t else t)"
  have u: "typed_term u" using t by (simp add: u_def saveCursor_typed)
  then have f: "typed_term (u\<lparr>altActive := True, t_s := AltScr, t_alt := a\<rparr>)" if "typed_screen a" for a
    using that by (simp add: term_typed_def)
  have a: "typed_screen (t_alt u)" "S (pen u)" using u by (simp_all add: term_typed_def)
  show "typed_term (enterAltScreen b t)"
  proof (cases "altActive t")
    case False
    show ?thesis
      unfolding enterAltScreen_def Let_def u_def [symmetric] if_not_P [OF False] by (intro f e a)
  qed (simp add: enterAltScreen_def t)
qed

lemma leaveAltScreen_typed: "typed_term t \<Longrightarrow> typed_term (leaveAltScreen b t)"
proof -
  assume t: "typed_term t"
  then have "typed_term (t\<lparr>altActive := False, t_s := MainScr, t_main := (t_main t)\<lparr>cur := c\<rparr>\<rparr>)" for c
    by (simp add: term_typed_def)
  with t show "typed_term (leaveAltScreen b t)" by (simp add: leaveAltScreen_def Let_def restoreCursor_typed)
qed

lemma softReset_typed: "typed_term t \<Longrightarrow> typed_term (softReset t)"
proof -
  assume t: "typed_term t"
  define u where "u = t\<lparr>cursorVisible := True, origin := False, autowrap := True, insertMode := False,
               cursorKeys := False, pen := zeroStyle, link := [], charsets := [charsetASCII, charsetASCII], glIndex := 0\<rparr>"
  have u: "typed_term u" unfolding u_def using t by (simp add: term_typed_pen term_typed_link style_zero text_empty)
  then show "typed_term (softReset t)"
    using act_typed [OF u] unfolding softReset_def Let_def u_def [symmetric]
    by (intro term_typed_set_act) (simp_all add: screen_typed_def zeroSaved_def style_zero text_empty)
qed

lemma init_typed: "T (title t) \<Longrightarrow> lastPrinted t = 0 \<or> R (lastPrinted t) \<Longrightarrow> typed_term (init w h t)"
  by (simp add: init_def Let_def resetTabStops_def term_typed_def newScreen_typed style_zero text_empty zeroParser_def)

lemma fullReset_typed: "typed_term t \<Longrightarrow> typed_term (fullReset t)"
proof -
  assume t: "typed_term t"
  then have i: "typed_term (init (t_w t) (t_h t) t)" by (intro init_typed) (simp_all add: term_typed_def)
  have "list_all typed_row (scrollback (t_main t))" "T (title t)" using t by (simp_all add: term_typed_def screen_typed_def)
  with i show "typed_term (fullReset t)" by (simp add: fullReset_def Let_def term_typed_def screen_typed_def)
qed

lemma New_typed: "typed_term (New w h)"
  unfolding New_def by (rule init_typed) (simp_all add: zeroTerminal_def text_empty)

end


context stored_types
begin

section \<open>Sequences\<close>

lemma modes_typed: "typed_term t \<Longrightarrow> typed_term (set_mode on v t)" "typed_term t \<Longrightarrow> typed_term (set_private_mode on v t)"
  by (simp_all add: set_mode_def set_private_mode_def enterAltScreen_typed leaveAltScreen_typed)

lemma each_param_typed:
  assumes "\<And>v t. typed_term t \<Longrightarrow> typed_term (f v t)"
  shows "typed_term t \<Longrightarrow> after (each_param n i f t) typed_term"
  by (induction n arbitrary: i t) (auto intro!: after_free simp: assms)

lemma sgr_typed:
  assumes "typed_term t"
  shows "after (sgr t) typed_term"
  using assms style_sgr [OF pen_typed(1) [OF assms]]
  by (auto simp: sgr_def after_def bind_eq_Some_conv term_typed_pen style_zero split: if_splits)

lemma csiDispatch_typed:
  assumes t: "typed_term t"
  shows "after (csiDispatch b t) typed_term"
proof -
  have rep: "after (if lastPrinted t \<noteq> 0 then param q 0 1 \<bind> (\<lambda>n. print_n (nat n) (lastPrinted t) t) else Some t) typed_term" for q
    using t by (intro after_ifI after_free print_n_typed) (simp_all add: term_typed_def)
  show ?thesis
    unfolding csiDispatch_def Let_def setModes_def setPrivateModes_def
    by (intro after_ifI rep after_free after_bindI [OF insertCells_typed] tab_typed eraseInDisplay_typed eraseInLine_typed insertLines_typed
        deleteLines_typed deleteChars_typed scrollUp_typed scrollDown_typed eraseChars_typed each_param_typed sgr_typed t)
      (use t act_typed [OF t] in \<open>simp_all add: modes_typed softReset_typed saveCursor_typed restoreCursor_typed term_typed_set_act\<close>)
qed

lemma decaln_rows_typed: "typed_term t \<Longrightarrow> after (decaln_rows n y t) typed_term"
proof (induction n arbitrary: y t)
  case (Suc n)
  have e: "typed_cell (zeroCell\<lparr>Ch := [0x45], Width := 1\<rparr>)"
    using style_zero text_E text_empty by (simp add: cell_typed_def zeroCell_def)
  show ?case
    unfolding decaln_rows.simps
    by (intro after_bindI [OF get_typed] after_bindI [OF after_gfill [of typed_cell]] after_bindI [OF set_typed] Suc.IH Suc.prems e)
      (simp_all add: row_typed_def)
qed simp

lemma escDispatch_typed: "typed_term t \<Longrightarrow> after (escDispatch i b t) typed_term"
  unfolding escDispatch_def
  by (intro after_ifI lineFeed_typed reverseIndex_typed after_bindI [OF lineFeed_typed] after_bindI [OF decaln_rows_typed] after_free)
    (simp_all add: saveCursor_typed restoreCursor_typed fullReset_typed term_typed_set_act act_typed)

lemma dispatchOSC_typed: "typed_term t \<Longrightarrow> typed_term (dispatchOSC t)"
  by (auto simp: dispatchOSC_def Let_def term_typed_def text_drop split: option.split)

section \<open>Bytes\<close>

lemma parser_updates_typed:
  assumes "typed_term t"
  shows "typed_term (set_pstate st t)" "typed_term (set_intermediate b st t)" "typed_term (begin_escape t)"
    "typed_term (t\<lparr>t_p := (t_p t)\<lparr>osc := [], pstate := st\<rparr>\<rparr>)" "typed_term (t\<lparr>t_p := (t_p t)\<lparr>intermediate := b\<rparr>\<rparr>)"
    "typed_term (t\<lparr>t_p := (t_p t)\<lparr>priv := b, pstate := st\<rparr>\<rparr>)"
  using assms by (simp_all add: set_pstate_def set_intermediate_def begin_escape_def term_typed_def resetCSI_def Let_def text_empty)

lemma osc_append_typed: "typed_term t \<Longrightarrow> T s \<Longrightarrow> typed_term (osc_append s t)"
  by (simp add: osc_append_def term_typed_def text_append)

lemma feedRune_typed: "typed_term t \<Longrightarrow> R r \<Longrightarrow> after (feedRune r t) typed_term"
  by (auto simp: feedRune_def print_typed osc_append_typed text_rune split: parserState.split)

lemma feed_control_typed: "typed_term t \<Longrightarrow> after (feed_control b t) typed_term"
  by (auto simp: feed_control_def Let_def parser_updates_typed dispatchOSC_typed execute_typed split: parserState.split)

end


context stored_types
begin

lemma with_parser_typed:
  assumes "typed_term t" "\<And>p. f (t_p t) = Some p \<Longrightarrow> osc p = osc (t_p t)"
  shows "after (with_parser f t) typed_term"
  using assms by (auto simp: with_parser_def after_def bind_eq_Some_conv term_typed_def)

lemma digits_typed:
  assumes "typed_term t"
  shows "after (with_parser (pushDigit b) t) typed_term" "after (with_parser (nextParam sub) t) typed_term"
  using assms by (auto intro!: with_parser_typed simp: pushDigit_def nextParam_def Let_def bind_eq_Some_conv split: if_splits)

lemma feed_escape_typed: "typed_term t \<Longrightarrow> after (feed_escape b t) typed_term"
  by (simp add: feed_escape_def parser_updates_typed escDispatch_typed)

lemma feed_csi_typed:
  assumes "typed_term t"
  shows "after (feed_csi_param b t) typed_term" "after (feed_csi_entry b t) typed_term" "after (feed_csi_intermediate b t) typed_term"
proof -
  have f: "after (feed_csi_param b u) typed_term" if "typed_term u" for u
    unfolding feed_csi_param_def using that
    by (intro after_ifI digits_typed csiDispatch_typed) (simp_all add: parser_updates_typed)
  show "after (feed_csi_param b t) typed_term" using assms by (rule f)
  show "after (feed_csi_entry b t) typed_term"
    unfolding feed_csi_entry_def using assms by (intro after_ifI f csiDispatch_typed) (simp_all add: parser_updates_typed)
  show "after (feed_csi_intermediate b t) typed_term"
    unfolding feed_csi_intermediate_def using assms by (intro after_ifI csiDispatch_typed) (simp_all add: parser_updates_typed)
qed

lemma feedByte_typed:
  assumes "typed_term t"
  shows "after (feedByte b t) typed_term"
proof (cases "b < 0x20 \<or> b = 0x7f")
  case True
  then show ?thesis using assms by (simp add: feedByte_def feed_control_typed)
next
  case False
  then have b: "R (uint b)" "T [b]" using byte_printed [of b] by (simp_all add: not_less)
  show ?thesis
    unfolding feedByte_def if_not_P [OF False] Let_def
    using assms b feed_csi_typed [OF assms]
    by (auto simp: print_typed feed_escape_typed parser_updates_typed escDispatch_typed osc_append_typed dispatchOSC_typed
        feed_escape_intermediate_def split: parserState.split)
qed

end


context stored_types
begin

section \<open>Writes\<close>

lemma held_typed: "typed_term t \<Longrightarrow> typed_term (t\<lparr>t_p := (t_p t)\<lparr>partial := b, nPart := n\<rparr>\<rparr>)"
  by (simp add: term_typed_def)

lemma write_loop_typed: "typed_term t \<Longrightarrow> after (write_loop data t) typed_term"
proof (induction data t rule: write_loop.induct)
  case (1 data t)
  note t = "1.prems"
  show ?case
  proof (cases data)
    case Nil
    then show ?thesis using t by (simp add: write_loop.simps)
  next
    case (Cons b rest)
    let ?direct = "b < 0x80 \<or> \<not> text_state (pstate (t_p t))"
    consider ?direct | "\<not> ?direct" "DecodeRune data = (RuneError, 1)" | "\<not> ?direct" "DecodeRune data \<noteq> (RuneError, 1)"
      by blast
    then show ?thesis
    proof cases
      case 1
      have "after (feedByte b t \<bind> write_loop rest) typed_term"
        using "1.IH"(1) [OF Cons 1] by (intro after_bind_valueI [OF feedByte_typed [OF t]])
      with Cons 1 show ?thesis by (subst write_loop.simps) auto
    next
      case 2
      have "after (write_loop rest t) typed_term" if "FullRune data"
        using "1.IH"(2) [OF Cons 2] that t by blast
      with Cons 2 t show ?thesis by (subst write_loop.simps) (simp add: held_typed)
    next
      case 3
      have R: "R (fst (DecodeRune data))" using rune_decoded [of b rest] Cons 3(1) by blast
      have "after (feedRune (fst (DecodeRune data)) t \<bind> write_loop (drop (max 1 (snd (DecodeRune data))) data)) typed_term"
        using "1.IH"(3) [OF Cons 3] by (intro after_bind_valueI [OF feedRune_typed [OF t R]])
      with Cons 3 show ?thesis by (subst write_loop.simps) simp
    qed
  qed
qed

text \<open>A write that completes no cut rune.\<close>

lemma Write_whole_typed: "typed_term t \<Longrightarrow> nPart (t_p t) \<le> 0 \<Longrightarrow> after (Write data t) typed_term"
  by (simp add: Write_def write_loop_typed)

text \<open>Any write, when every rune may be printed.\<close>

lemma feed_rest_typed:
  assumes R: "\<And>r. R r"
  shows "typed_term t \<Longrightarrow> after (feed_rest bs t) typed_term"
proof (induction bs t rule: feed_rest.induct)
  case (1 bs t)
  show ?case
  proof (cases "bs = []")
    case True
    then show ?thesis using "1.prems" by (simp add: feed_rest.simps)
  next
    case False
    have "after (feedRune (fst (DecodeRune bs)) t \<bind> feed_rest (drop (max 1 (snd (DecodeRune bs))) bs)) typed_term"
      using "1.IH" [OF False] by (intro after_bind_valueI [OF feedRune_typed [OF "1.prems" R]])
    with False show ?thesis by (subst feed_rest.simps) simp
  qed
qed

lemma fill_partial_osc: "after (fill_partial data p) (\<lambda>(rest, q). osc q = osc p)"
proof (induction data arbitrary: p)
  case (Cons b rest)
  show ?case
  proof (cases "nPart p < 4")
    case True
    have "after (if FullRune held then Some (rest, p\<lparr>partial := pt, nPart := nPart p + 1\<rparr>)
       else fill_partial rest (p\<lparr>partial := pt, nPart := nPart p + 1\<rparr>)) (\<lambda>(rest, q). osc q = osc p)" for pt held
      using Cons.IH [of "p\<lparr>partial := pt, nPart := nPart p + 1\<rparr>"] by simp
    with True show ?thesis unfolding fill_partial.simps Let_def if_P [OF True] by (intro after_free) blast
  qed simp
qed simp

lemma Write_typed:
  assumes R: "\<And>r. R r" and t: "typed_term t"
  shows "after (Write data t) typed_term"
proof (cases "nPart (t_p t) > 0")
  case True
  have rest: "after (case DecodeRune held of (r, n) \<Rightarrow> gslice (partial q) (int n) (nPart q) \<bind> (\<lambda>bs.
      feedRune r (t\<lparr>t_p := q, t_p := q\<lparr>nPart := 0\<rparr>\<rparr>) \<bind> (\<lambda>u. feed_rest bs u \<bind> write_loop more))) typed_term"
    if "osc q = osc (t_p t)" for held more and q :: parser
  proof -
    have u: "typed_term (t\<lparr>t_p := q, t_p := q\<lparr>nPart := 0\<rparr>\<rparr>)" using t that by (simp add: term_typed_def)
    have "after (feedRune r (t\<lparr>t_p := q, t_p := q\<lparr>nPart := 0\<rparr>\<rparr>) \<bind> (\<lambda>u. feed_rest bs u \<bind> write_loop more)) typed_term" for r bs
      by (intro after_bindI [OF feedRune_typed [OF u R]] after_bindI [OF feed_rest_typed [OF R]] write_loop_typed)
    then show ?thesis by (cases "DecodeRune held") (simp add: after_free)
  qed
  have u: "typed_term (t\<lparr>t_p := q\<rparr>)" if "osc q = osc (t_p t)" for q :: parser
    using t that by (simp add: term_typed_def)
  show ?thesis
    unfolding Write_def if_P [OF True] Let_def
  proof (rule after_bindI [OF fill_partial_osc], clarify)
    fix more and q :: parser
    assume q: "osc q = osc (t_p t)"
    show "after (gslice (partial q) 0 (nPart q) \<bind> (\<lambda>held. if \<not> FullRune held then Some (t\<lparr>t_p := q\<rparr>)
      else case DecodeRune held of (r, n) \<Rightarrow> gslice (partial q) (int n) (nPart q) \<bind> (\<lambda>bs.
        feedRune r (t\<lparr>t_p := q, t_p := q\<lparr>nPart := 0\<rparr>\<rparr>) \<bind> (\<lambda>u. feed_rest bs u \<bind> write_loop more)))) typed_term"
      using rest [OF q] u [OF q] by (intro after_free) simp
  qed
qed (simp add: Write_whole_typed t)

end

end
