(* ===== verification/Repaint.thy ===== *)
theory Repaint
  imports Chunking Printing
begin

text \<open>
  Feeding the pieces of a snapshot (\<open>src/internal/vterm/snapshot.go\<close>) to an emulator. The parser
  is between two sequences before and after each piece, so \<open>feeds\<close> leaves it out: it relates the
  rest of the terminal before to the rest after, whatever follows in the stream, and pieces compose
  (\<open>feeds_append\<close>).
\<close>

abbreviation at_parser :: "parser \<Rightarrow> Terminal \<Rightarrow> Terminal" where
  "at_parser p \<equiv> t_p_update (\<lambda>_. p)"

definition feeds :: "bytes \<Rightarrow> Terminal \<Rightarrow> Terminal \<Rightarrow> bool" where
  "feeds bs t u \<longleftrightarrow> (\<forall>p. parser_ready p \<longrightarrow>
     (\<exists>q. parser_ready q \<and> (\<forall>later. write_loop (bs @ later) (at_parser p t) = write_loop later (at_parser q u))))"

lemma feeds_Nil [simp, intro]: "feeds [] t t"
  by (auto simp: feeds_def)

lemma feeds_append: "feeds a t u \<Longrightarrow> feeds b u v \<Longrightarrow> feeds (a @ b) t v"
  unfolding feeds_def append_assoc by metis

lemma feeds_if: "(b \<Longrightarrow> feeds s t u) \<Longrightarrow> feeds (emit_if b s) t (if b then u else t)"
  by (simp add: emit_if_def)

lemma feeds_Write:
  assumes "feeds bs t u" "parser_ready p"
  shows "\<exists>q. Write bs (at_parser p t) = Some (at_parser q u) \<and> parser_ready q"
proof -
  from assms obtain q where q: "parser_ready q" "\<And>later. write_loop (bs @ later) (at_parser p t) = write_loop later (at_parser q u)"
    by (auto simp: feeds_def)
  have "nPart p = 0" using assms(2) by (simp add: parser_ready_def parser_idle_def)
  with q(2) [of "[]"] have "Write bs (at_parser p t) = Some (at_parser q u)" by (simp add: Write_def)
  with q(1) show ?thesis by blast
qed

text \<open>A piece of ASCII, from what the byte machine does with it.\<close>

lemma feeds_ascii:
  assumes "list_all (\<lambda>b. b < 0x80) bs"
    and "\<And>p. parser_ready p \<Longrightarrow> \<exists>q. run feedByte bs (at_parser p t) = Some (at_parser q u) \<and> parser_ready q"
  shows "feeds bs t u"
  unfolding feeds_def
proof (intro allI impI)
  fix p assume "parser_ready p"
  from assms(2) [OF this] obtain q where "run feedByte bs (at_parser p t) = Some (at_parser q u)" "parser_ready q" by blast
  then show "\<exists>q. parser_ready q \<and> (\<forall>later. write_loop (bs @ later) (at_parser p t) = write_loop later (at_parser q u))"
    by (intro exI [of _ q]) (simp add: write_loop_ascii [OF assms(1)])
qed

section \<open>Text and controls\<close>

lemma print_at_parser: "print r t = Some u \<Longrightarrow> print r (at_parser p t) = Some (at_parser p u)"
  by (simp add: print_tp)

lemma feeds_rune:
  assumes "printable r" "print r t = Some u"
  shows "feeds (rune_bytes r) t u"
  unfolding feeds_def
proof (intro allI impI)
  fix p assume p: "parser_ready p"
  have "pstate (t_p (at_parser p t)) = stateGround" using p by (simp add: parser_ready_def)
  from write_loop_rune [OF assms(1) this] show "\<exists>q. parser_ready q \<and> (\<forall>later. write_loop (rune_bytes r @ later) (at_parser p t) = write_loop later (at_parser q u))"
    using p print_at_parser [OF assms(2)] by (intro exI [of _ p]) simp
qed

lemma feeds_control:
  assumes "b < 0x20" "b \<noteq> 0x1b" "b \<noteq> 0x18" "b \<noteq> 0x1a" "execute b t = Some u"
  shows "feeds [b] t u"
proof (rule feeds_ascii)
  show "list_all (\<lambda>b. b < 0x80) [b]" using assms(1) by (auto simp: word_less_def)
  fix p assume p: "parser_ready p"
  then have "feedByte b (at_parser p t) = execute b (at_parser p t)"
    using assms(1-4) by (simp add: feedByte_def feed_control_def parser_ready_def)
  then show "\<exists>q. run feedByte [b] (at_parser p t) = Some (at_parser q u) \<and> parser_ready q"
    using p assms(5) by (intro exI [of _ p]) (simp add: execute_tp)
qed

section \<open>Control sequences\<close>

text \<open>A sequence of numbers, from what its dispatch does with them.\<close>

lemma Itoa_ascii: "0 \<le> n \<Longrightarrow> list_all (\<lambda>b. b < 0x80) (Itoa n)"
  using Itoa_digits [of n] digit_plain by (auto simp: list_all_iff)

lemma render_ascii: "list_all shown qs \<Longrightarrow> list_all (\<lambda>b. b < 0x80) (render qs)"
proof -
  have t: "list_all shown qs \<Longrightarrow> list_all (\<lambda>b. b < 0x80) (render_tail qs)" for qs
    by (induction qs) (auto simp: Itoa_ascii shown_def)
  show "list_all shown qs \<Longrightarrow> ?thesis" by (cases qs) (auto simp: t Itoa_ascii shown_def)
qed

lemma feeds_csi:
  assumes pv: "pv = 0 \<or> pv = 0x3f"
    and qs: "qs \<noteq> []" "list_all shown qs" "length qs \<le> 32" "\<not> is_sub (hd qs)"
    and f: "0x40 \<le> f" "f \<le> 0x7e"
    and d: "\<And>p. parser_ready p \<Longrightarrow> intermediate p = 0 \<Longrightarrow> priv p = pv \<Longrightarrow> view p = qs \<Longrightarrow> csiDispatch f (at_parser p t) = Some (at_parser p u)"
  shows "feeds (0x1b # 0x5b # csi_prefix pv @ render qs @ [f]) t u"
proof (rule feeds_ascii)
  have "f < 0x80" using f(2) by (simp add: word_less_nat_alt word_le_nat_alt)
  then show "list_all (\<lambda>b. b < 0x80) (0x1b # 0x5b # csi_prefix pv @ render qs @ [f])"
    using pv render_ascii [OF qs(2)] by (auto simp: csi_prefix_def)
  fix p assume p: "parser_ready p"
  then have "parser_idle (t_p (at_parser p t))" "pstate (t_p (at_parser p t)) = stateGround" by (simp_all add: parser_ready_def)
  from csi_feed [OF this pv qs f] d
  show "\<exists>q. run feedByte (0x1b # 0x5b # csi_prefix pv @ render qs @ [f]) (at_parser p t) = Some (at_parser q u) \<and> parser_ready q"
    by (auto simp: parser_ready_def)
qed

text \<open>What the dispatcher reads when the list is known.\<close>

lemma view_params:
  assumes "parser_ready p" "view p = qs" "list_all shown qs"
  shows "nParams p = glen qs" "i < length qs \<Longrightarrow> rawParam p (int i) d = Some (fst (qs ! i))"
    "i < length qs \<Longrightarrow> 0 < fst (qs ! i) \<Longrightarrow> param p (int i) d = Some (fst (qs ! i))"
proof -
  have wf: "parser_wf p" using assms(1) by (simp add: parser_ready_def parser_idle_def)
  have "nat (nParams p) = length qs" "0 \<le> nParams p"
    using parser_wf_lengths [OF wf] wf arg_cong [OF assms(2), of length] by (simp_all add: parser_wf_def)
  then show n: "nParams p = glen qs" by (metis nat_0_le)
  show "rawParam p (int i) d = Some (fst (qs ! i))" if i: "i < length qs"
  proof -
    have "i < nat (nParams p)" using i n by simp
    from view_nth [OF this] have "qs ! i = (params p ! i, hasValue p ! i, isSub p ! i)" by (simp add: assms(2))
    moreover have "shown (qs ! i)" using assms(3) i by (simp add: list_all_length)
    ultimately show ?thesis using i n wf by (simp add: rawParam_def shown_def parser_wf_def maxParams_def)
  qed
  show "param p (int i) d = Some (fst (qs ! i))" if i: "i < length qs" "0 < fst (qs ! i)"
  proof -
    have "i < nat (nParams p)" using i n by simp
    from view_nth [OF this] have "qs ! i = (params p ! i, hasValue p ! i, isSub p ! i)" by (simp add: assms(2))
    moreover have "shown (qs ! i)" using assms(3) i by (simp add: list_all_length)
    ultimately show ?thesis using i n wf by (simp add: param_def shown_def parser_wf_def maxParams_def)
  qed
qed


text \<open>The sequences that occur.\<close>

lemma feeds_sgr:
  assumes "style_ok st"
  shows "feeds (sgrSequence st) t (t\<lparr>pen := st\<rparr>)"
proof (rule feeds_ascii)
  show "list_all (\<lambda>b. b < 0x80) (sgrSequence st)"
    using sgr_parts_renders [of st] render_ascii [OF style_params_shown(1)]
    by (simp add: sgrSequence_def esc_def renders_def)
  fix p assume p: "parser_ready p"
  from feed_sgr [of "at_parser p t", OF _ assms] p obtain q where
    "run feedByte (sgrSequence st) (at_parser p t) = Some (at_parser q (at_parser p t)\<lparr>pen := st\<rparr>)" "parser_ready q"
    by auto
  then show "\<exists>q. run feedByte (sgrSequence st) (at_parser p t) = Some (at_parser q (t\<lparr>pen := st\<rparr>)) \<and> parser_ready q"
    by (intro exI [of _ q]) simp
qed

lemma feeds_reset: "feeds (esc ''[0m'') t (t\<lparr>pen := zeroStyle\<rparr>)"
  using feeds_sgr [of zeroStyle t] by (simp add: sgrSequence_def IsZero_def style_ok_zero)

lemma feeds_cup:
  assumes "\<not> origin t" "0 \<le> x" "x < 2 ^ 24" "0 \<le> y" "y < 2 ^ 24"
  shows "feeds (cup x y) t (moveCursor x y t)"
proof (rule feeds_ascii)
  show "list_all (\<lambda>b. b < 0x80) (cup x y)"
    using assms by (simp add: cup_def esc_def Itoa_ascii)
  fix p assume p: "parser_ready p"
  from feed_cup [of "at_parser p t"] p assms
  show "\<exists>q. run feedByte (cup x y) (at_parser p t) = Some (at_parser q (moveCursor x y t)) \<and> parser_ready q"
    by (auto simp: o_def cursor_tp)
qed

lemma not_sub_plain: "\<not> is_sub (plain n)"
  by (simp add: plain_def is_sub_def)

lemma feeds_private:
  assumes "0 \<le> n" "n \<le> 2 ^ 24"
  shows "feeds (esc ''[?'' @ Itoa n @ ascii ''h'') t (set_private_mode True n t)"
    "feeds (esc ''[?'' @ Itoa n @ ascii ''l'') t (set_private_mode False n t)"
proof -
  have f: "feeds (0x1b # 0x5b # csi_prefix 0x3f @ render [plain n] @ [if on then 0x68 else 0x6c]) t (set_private_mode on n t)" for on
  proof (rule feeds_csi)
    fix p assume p: "parser_ready p" "intermediate p = 0" "priv p = 0x3f" "view p = [plain n]"
    have s: "list_all shown [plain n]" using assms by simp
    from view_params(1) [OF p(1,4) s] view_params(2) [OF p(1,4) s, of 0] have v: "nParams p = 1" "rawParam p 0 (- 1) = Some n"
      by (simp_all add: plain_def)
    show "csiDispatch (if on then 0x68 else 0x6c) (at_parser p t) = Some (at_parser p (set_private_mode on n t))"
      using p v by (cases on) (simp_all add: csiDispatch_def setPrivateModes_def set_modes_tp)
  qed (use assms in \<open>simp_all add: not_sub_plain\<close>)
  show "feeds (esc ''[?'' @ Itoa n @ ascii ''h'') t (set_private_mode True n t)"
    "feeds (esc ''[?'' @ Itoa n @ ascii ''l'') t (set_private_mode False n t)"
    using f [of True] f [of False] by (simp_all add: esc_def csi_prefix_def plain_def)
qed

lemma feeds_mode:
  assumes "0 \<le> n" "n \<le> 2 ^ 24"
  shows "feeds (esc ''['' @ Itoa n @ ascii ''h'') t (set_mode True n t)"
proof -
  have "feeds (0x1b # 0x5b # csi_prefix 0 @ render [plain n] @ [0x68]) t (set_mode True n t)"
  proof (rule feeds_csi)
    fix p assume p: "parser_ready p" "intermediate p = 0" "priv p = 0" "view p = [plain n]"
    have s: "list_all shown [plain n]" using assms by simp
    from view_params(1) [OF p(1,4) s] view_params(2) [OF p(1,4) s, of 0] have v: "nParams p = 1" "rawParam p 0 (- 1) = Some n"
      by (simp_all add: plain_def)
    show "csiDispatch 0x68 (at_parser p t) = Some (at_parser p (set_mode True n t))"
      using p v by (simp add: csiDispatch_def setModes_def set_modes_tp)
  qed (use assms in \<open>simp_all add: not_sub_plain\<close>)
  then show ?thesis by (simp add: esc_def csi_prefix_def plain_def)
qed

lemma feeds_region:
  assumes "0 \<le> a" "a < b" "b < t_h t" "b < 2 ^ 24"
  shows "feeds (esc ''['' @ Itoa (a + 1) @ ascii '';'' @ Itoa (b + 1) @ ascii ''r'') t
    (moveCursor 0 0 (set_act ((act t)\<lparr>s_top := a, s_bot := b\<rparr>) t))"
proof -
  let ?qs = "[plain (a + 1), plain (b + 1)]"
  have "feeds (0x1b # 0x5b # csi_prefix 0 @ render ?qs @ [0x72]) t
    (moveCursor 0 0 (set_act ((act t)\<lparr>s_top := a, s_bot := b\<rparr>) t))"
  proof (rule feeds_csi)
    fix p assume p: "parser_ready p" "intermediate p = 0" "priv p = 0" "view p = ?qs"
    have s: "list_all shown ?qs" using assms by simp
    from view_params(3) [OF p(1,4) s, of 0 1] view_params(3) [OF p(1,4) s, of 1 "t_h t"] assms
    have v: "param p 0 1 = Some (a + 1)" "param p 1 (t_h t) = Some (b + 1)"
      by (simp_all add: plain_def)
    show "csiDispatch 0x72 (at_parser p t) = Some (at_parser p (moveCursor 0 0 (set_act ((act t)\<lparr>s_top := a, s_bot := b\<rparr>) t)))"
      using p v assms by (simp add: csiDispatch_def cursor_tp set_act_tp)
  qed (use assms in \<open>simp_all add: not_sub_plain\<close>)
  then show ?thesis by (simp add: esc_def csi_prefix_def plain_def is_sub_def)
qed


text \<open>Strings of OSC: runes are collected while the buffer is below its bound.\<close>

lemma osc_rune:
  assumes r: "printable r" and p: "pstate p = stateOSC" "glen (osc p) < maxOSCBytes"
  shows "write_loop (rune_bytes r @ later) (at_parser p t) = write_loop later (at_parser (p\<lparr>osc := osc p @ rune_bytes r\<rparr>) t)"
proof (cases "r < 0x80")
  case True
  from rune_bytes_ascii [OF r this] obtain b where
    b: "rune_bytes r = [b]" "uint b = r" "b < 0x80" "\<not> (b < 0x20 \<or> b = 0x7f)" by blast
  then show ?thesis using p by (simp add: write_loop_plain feedByte_def osc_append_def o_def)
next
  case False
  from r have v: "valid_rune r" by (simp add: printable_def)
  from rune_bytes_high [OF v] False obtain b q where b: "rune_bytes r = b # q" "\<not> b < 0x80" "q \<noteq> []" by auto
  have d: "DecodeRune (b # q @ later) = (r, Suc (length q))"
    using DecodeRune_rune_bytes [OF v, of later] b(1) by simp
  show ?thesis
    unfolding b(1) using b d p
    by (subst write_loop.simps) (simp add: text_state_def feedRune_def osc_append_def o_def)
qed

lemma osc_text:
  "list_all printable rs \<Longrightarrow> pstate p = stateOSC \<Longrightarrow> glen (osc p) + glen (utf8 rs) \<le> maxOSCBytes \<Longrightarrow>
    write_loop (utf8 rs @ later) (at_parser p t) = write_loop later (at_parser (p\<lparr>osc := osc p @ utf8 rs\<rparr>) t)"
proof (induction rs arbitrary: p)
  case (Cons r rs)
  have "1 \<le> length (rune_bytes r)" using rune_bytes_length by blast
  then have "glen (osc p) < maxOSCBytes" using Cons.prems(3) by (simp add: utf8_def)
  with Cons show ?case by (simp add: utf8_def osc_rune)
qed (simp add: utf8_def)

lemma feeds_osc:
  assumes "list_all printable rs" "s = utf8 rs" "glen s \<le> maxOSCBytes"
    and d: "\<And>p. osc p = s \<Longrightarrow> dispatchOSC (at_parser p t) = at_parser p u"
  shows "feeds (esc '']'' @ s @ esc [CHR 0x5c]) t u"
  unfolding feeds_def
proof (intro allI impI)
  fix p assume p: "parser_ready p"
  define p1 where "p1 = (resetCSI p)\<lparr>osc := [], pstate := stateOSC\<rparr>"
  define p2 where "p2 = p1\<lparr>osc := s\<rparr>"
  define q where "q = p2\<lparr>pstate := stateGround\<rparr>"
  have 1: "write_loop (esc '']'' @ bs) (at_parser p t) = write_loop bs (at_parser p1 t)" for bs
    using p by (simp add: esc_def write_loop_plain feedByte_def [of "0x1b"] feedByte_def [of "0x5d"] feed_control_def begin_escape_def
        feed_escape_def is_intermediate_def text_state_def parser_ready_def p1_def o_def)
  have 2: "write_loop (s @ bs) (at_parser p1 t) = write_loop bs (at_parser p2 t)" for bs
    using osc_text [OF assms(1), of p1 bs t] assms(2,3) by (simp add: p1_def p2_def)
  have "dispatchOSC (at_parser (p2\<lparr>pstate := stateGround\<rparr>) t) = at_parser q u"
    unfolding q_def by (rule d) (simp add: p2_def)
  then have 3: "write_loop (esc [CHR 0x5c] @ bs) (at_parser p2 t) = write_loop bs (at_parser q u)" for bs
    by (simp add: esc_def write_loop_plain feedByte_def [of "0x1b"] feedByte_def [of "0x5c"] feed_control_def set_pstate_def
        text_state_def p2_def p1_def o_def)
  have "parser_idle q"
    using p assms(3) by (simp add: q_def p2_def p1_def parser_ready_def idle_osc maxOSCBytes_def)
  then have "parser_ready q" by (simp add: parser_ready_def q_def)
  then show "\<exists>q. parser_ready q \<and> (\<forall>later. write_loop ((esc '']'' @ s @ esc [CHR 0x5c]) @ later) (at_parser p t) = write_loop later (at_parser q u))"
    by (intro exI [of _ q]) (simp only: append_assoc 1 2 3 simp_thms)
qed


text \<open>What can travel in an OSC string of the snapshot: printable runes, with room for the number.\<close>

function runes :: "bytes \<Rightarrow> rune list" where
  "runes s = (case s of [] \<Rightarrow> [] | b # _ \<Rightarrow> fst (DecodeRune s) # runes (drop (max 1 (snd (DecodeRune s))) s))"
  by pat_completeness auto
termination
  by (relation "measure length") auto

declare runes.simps [simp del]

definition osc_safe :: "bytes \<Rightarrow> bool" where
  "osc_safe s \<longleftrightarrow> list_all printable (runes s) \<and> utf8 (runes s) = s \<and> glen s \<le> maxOSCBytes - 3"

lemma osc_safe_Nil [simp]: "osc_safe []"
  by (simp add: osc_safe_def runes.simps utf8_def maxOSCBytes_def)

lemma utf8_append: "utf8 (rs @ ss) = utf8 rs @ utf8 ss"
  by (simp add: utf8_def)

lemma dispatch_numbered:
  assumes "IndexByte 0x3b (osc p) = Some 1" "Atoi (take 1 (osc p)) = Some n"
  shows "dispatchOSC (at_parser p t) = at_parser p (let arg = drop 2 (osc p) in
     if n = 0 \<or> n = 2 then t\<lparr>title := arg\<rparr>
     else if n = 8 then (case IndexByte 0x3b arg of None \<Rightarrow> t | Some psep \<Rightarrow> t\<lparr>link := drop (psep + 1) arg\<rparr>)
     else t)"
  using assms by (simp add: dispatchOSC_def Let_def numeral_2_eq_2 split: option.split)

lemma feeds_link:
  assumes "osc_safe l"
  shows "feeds (osc_link l) t (t\<lparr>link := l\<rparr>)"
proof -
  from assms obtain rs where rs: "list_all printable rs" "utf8 rs = l" "glen l \<le> maxOSCBytes - 3" by (auto simp: osc_safe_def)
  have u: "utf8 [0x38, 0x3b, 0x3b] = [0x38, 0x3b, 0x3b]" by code_simp
  have "feeds (esc '']'' @ ([0x38, 0x3b, 0x3b] @ l) @ esc [CHR 0x5c]) t (t\<lparr>link := l\<rparr>)"
  proof (rule feeds_osc)
    show "list_all printable ([0x38, 0x3b, 0x3b] @ rs)" using rs(1) by (simp add: printable_def valid_rune_def)
    show "[0x38, 0x3b, 0x3b] @ l = utf8 ([0x38, 0x3b, 0x3b] @ rs)" by (simp only: utf8_append u rs(2))
    show "glen ([0x38, 0x3b, 0x3b] @ l) \<le> maxOSCBytes" using rs(3) by simp
    fix p :: parser assume p: "osc p = [0x38, 0x3b, 0x3b] @ l"
    have "Atoi [0x38] = Some 8" by code_simp
    then show "dispatchOSC (at_parser p t) = at_parser p (t\<lparr>link := l\<rparr>)"
      using p by (subst dispatch_numbered [of _ 8]) simp_all
  qed
  then show ?thesis by (simp add: osc_link_def esc_def)
qed

lemma feeds_title:
  assumes "osc_safe s"
  shows "feeds (esc '']0;'' @ s @ esc [CHR 0x5c]) t (t\<lparr>title := s\<rparr>)"
proof -
  from assms obtain rs where rs: "list_all printable rs" "utf8 rs = s" "glen s \<le> maxOSCBytes - 3" by (auto simp: osc_safe_def)
  have u: "utf8 [0x30, 0x3b] = [0x30, 0x3b]" by code_simp
  have "feeds (esc '']'' @ ([0x30, 0x3b] @ s) @ esc [CHR 0x5c]) t (t\<lparr>title := s\<rparr>)"
  proof (rule feeds_osc)
    show "list_all printable ([0x30, 0x3b] @ rs)" using rs(1) by (simp add: printable_def valid_rune_def)
    show "[0x30, 0x3b] @ s = utf8 ([0x30, 0x3b] @ rs)" by (simp only: utf8_append u rs(2))
    show "glen ([0x30, 0x3b] @ s) \<le> maxOSCBytes" using rs(3) by simp
    fix p :: parser assume p: "osc p = [0x30, 0x3b] @ s"
    have "Atoi [0x30] = Some 0" by code_simp
    then show "dispatchOSC (at_parser p t) = at_parser p (t\<lparr>title := s\<rparr>)"
      using p by (subst dispatch_numbered [of _ 0]) simp_all
  qed
  then show ?thesis by (simp add: esc_def)
qed


section \<open>Modes\<close>

lemma feeds_cursor_style:
  assumes "0 \<le> n" "n \<le> 2 ^ 24"
  shows "feeds (esc ''['' @ Itoa n @ ascii '' q'') t (t\<lparr>cursorStyle := n\<rparr>)"
proof (rule feeds_ascii)
  show "list_all (\<lambda>b. b < 0x80) (esc ''['' @ Itoa n @ ascii '' q'')"
    using assms by (simp add: esc_def Itoa_ascii)
  fix p assume p: "parser_ready p"
  let ?t = "at_parser p t"
  from p have r: "parser_idle (t_p ?t)" "pstate (t_p ?t) = stateGround" by (simp_all add: parser_ready_def)
  obtain d ds where d: "Itoa n = d # ds" "is_digit d"
    using Itoa_digits [OF assms(1)] assms(1) by (cases "Itoa n") (auto simp: Itoa_def)
  from feed_intro [OF r, of 0 d "ds @ ascii '' q''"] d obtain u where
    u: "reads ?t 0 [(0, False, False)] u" "run feedByte (esc ''['' @ Itoa n @ ascii '' q'') ?t = run feedByte (Itoa n @ ascii '' q'') u"
    by (auto simp: esc_def csi_prefix_def)
  from feed_number [OF assms, of ?t 0 "[]" False False u] u(1) obtain v where
    v: "run feedByte (Itoa n) u = Some v" "reads ?t 0 [(n, True, False)] v" by (auto simp: wp_ex)
  then obtain q where q: "v = at_parser q t" "reading 0 [(n, True, False)] q" by (auto simp: reads_def o_def)
  define q' where "q' = q\<lparr>intermediate := 0x20, pstate := stateGround\<rparr>"
  have np: "nParams q \<noteq> 0" "view q = [(n, True, False)]"
    using q(2) by (auto simp: reading_def open_view_def split: if_splits)
  have idle: "parser_ready q'" using q(2) by (simp add: reading_def parser_ready_def q'_def)
  have vw: "view q' = [plain n]" using np(2) by (simp add: q'_def view_def plain_def)
  have sh: "list_all shown [plain n]" using assms by simp
  have iq: "intermediate q' = 0x20" by (simp add: q'_def)
  have raw: "rawParam q' 0 0 = Some n" using view_params(2) [OF idle vw sh, of 0 0] by (simp add: plain_def)
  define q1 where "q1 = q\<lparr>intermediate := 0x20, pstate := stateCSIIntermediate\<rparr>"
  have "feedByte 0x20 v = Some (at_parser q1 t)"
    using q(2) by (simp add: q(1) feedByte_def feed_csi_param_def is_digit_def is_intermediate_def
        set_intermediate_def reading_def q1_def o_def)
  moreover have "feedByte 0x71 (at_parser q1 t) = csiDispatch 0x71 (at_parser q' t)"
    by (simp add: feedByte_def feed_csi_intermediate_def is_intermediate_def set_pstate_def q1_def q'_def o_def)
  ultimately have "run feedByte (ascii '' q'') v = csiDispatch 0x71 (at_parser q' t)" by simp
  also have "\<dots> = Some (at_parser q' (t\<lparr>cursorStyle := n\<rparr>))"
    using raw iq by (simp add: csiDispatch_def)
  finally show "\<exists>q. run feedByte (esc ''['' @ Itoa n @ ascii '' q'') ?t = Some (at_parser q (t\<lparr>cursorStyle := n\<rparr>)) \<and> parser_ready q"
    using u(2) v(1) idle by (auto simp: run_append)
qed

lemma feeds_charset:
  assumes "length (charsets t) = 2"
  shows "feeds (esc ''(0'') t (t\<lparr>charsets := (charsets t)[0 := charsetDECGraphics]\<rparr>)"
    "feeds (esc '')0'') t (t\<lparr>charsets := (charsets t)[1 := charsetDECGraphics]\<rparr>)"
proof -
  have f: "feeds (esc [c, CHR 0x30]) t (t\<lparr>charsets := (charsets t)[i := charsetDECGraphics]\<rparr>)"
    if c: "(c = CHR 0x28 \<and> i = 0) \<or> (c = CHR 0x29 \<and> i = 1)" for c i
  proof (rule feeds_ascii)
    show "list_all (\<lambda>b. b < 0x80) (esc [c, CHR 0x30])" using c by (auto simp: esc_def)
    fix p assume p: "parser_ready p"
    define q where "q = (resetCSI p)\<lparr>intermediate := of_char c, pstate := stateGround\<rparr>"
    define q1 where "q1 = (resetCSI p)\<lparr>pstate := stateEscape\<rparr>"
    define q2 where "q2 = q1\<lparr>intermediate := of_char c, pstate := stateEscapeIntermediate\<rparr>"
    have cb: "(of_char c :: byte) = 0x28 \<or> (of_char c :: byte) = 0x29" using c by auto
    have s1: "feedByte 0x1b (at_parser p t) = Some (at_parser q1 t)"
      using p by (simp add: feedByte_def feed_control_def begin_escape_def parser_ready_def q1_def o_def)
    have s2: "feedByte b (at_parser q1 t) = Some (at_parser (q1\<lparr>intermediate := b, pstate := stateEscapeIntermediate\<rparr>) t)"
      if "b = 0x28 \<or> b = 0x29" for b
      using that by (elim disjE) (simp_all add: feedByte_def feed_escape_def is_intermediate_def set_intermediate_def q1_def o_def)
    have s3: "feedByte 0x30 (at_parser q2 t) = escDispatch (of_char c) 0x30 (at_parser q t)"
      by (simp add: feedByte_def feed_escape_intermediate_def is_intermediate_def set_pstate_def q1_def q2_def q_def o_def)
    have "run feedByte (esc [c, CHR 0x30]) (at_parser p t) = escDispatch (of_char c) 0x30 (at_parser q t)"
      using s1 s2 [OF cb, folded q2_def] s3 by (simp add: esc_def)
    also have "escDispatch b 0x30 (at_parser q t) = Some (at_parser q (t\<lparr>charsets := (charsets t)[i := charsetDECGraphics]\<rparr>))"
      if "(b = 0x28 \<and> i = 0) \<or> (b = 0x29 \<and> i = 1)" for b
      using that assms by (elim disjE conjE) (simp_all add: escDispatch_def designate_def)
    then have "escDispatch (of_char c) 0x30 (at_parser q t) = Some (at_parser q (t\<lparr>charsets := (charsets t)[i := charsetDECGraphics]\<rparr>))"
      using c by auto
    finally show "\<exists>q. run feedByte (esc [c, CHR 0x30]) (at_parser p t)
        = Some (at_parser q (t\<lparr>charsets := (charsets t)[i := charsetDECGraphics]\<rparr>)) \<and> parser_ready q"
      using p by (intro exI [of _ q]) (simp add: parser_ready_def q_def)
  qed
  show "feeds (esc ''(0'') t (t\<lparr>charsets := (charsets t)[0 := charsetDECGraphics]\<rparr>)"
    "feeds (esc '')0'') t (t\<lparr>charsets := (charsets t)[1 := charsetDECGraphics]\<rparr>)"
    using f [of "CHR 0x28" 0] f [of "CHR 0x29" 1] by simp_all
qed

lemma feeds_shift_out: "feeds [0x0e] t (t\<lparr>glIndex := 1\<rparr>)"
  by (rule feeds_control) (simp_all add: execute_def)

end
