(* ===== verification/Restore.thy ===== *)
theory Restore
  imports Repaint
begin

text \<open>
  What a snapshot (\<open>src/internal/vterm/snapshot.go\<close>) rebuilds when it is written into a new
  emulator of the same size. While the rows are painted the terminal is a new one but for the
  main screen, the pen and the link (\<open>painting\<close>); \<open>display\<close> is the screen after some lines.
\<close>

section \<open>Cells that can be painted\<close>

text \<open>The rune a cell shows; a blank cell has none and is painted as a space.\<close>

definition cell_rune :: "Cell \<Rightarrow> rune" where
  "cell_rune c = (if Ch c = [] then 0x20 else fst (DecodeRune (Ch c)))"

definition continuation :: "Cell \<Rightarrow> Cell" where
  "continuation c = \<lparr>Ch = [], Width = 0, CStyle = CStyle c, Link = Link c\<rparr>"

definition plain_cell :: "Cell \<Rightarrow> bool" where
  "plain_cell c \<longleftrightarrow> (Width c = 1 \<or> Width c = 2) \<and> printable (cell_rune c) \<and> runeWidth (cell_rune c) = Some (Width c)
     \<and> Ch c = char_bytes (cell_rune c) \<and> style_ok (CStyle c) \<and> osc_safe (Link c)"

text \<open>One printable rune in each cell, wide ones with the continuation \<open>print\<close> gives them.\<close>

fun plain_cells :: "Cell list \<Rightarrow> bool" where
  "plain_cells [] = True"
| "plain_cells (c # cs) = (plain_cell c \<and>
     (if Width c = 2 then cs \<noteq> [] \<and> hd cs = continuation c \<and> plain_cells (tl cs) else plain_cells cs))"

lemma plain_out: "plain_cell c \<Longrightarrow> (if Ch c = [] then [0x20] else Ch c) = rune_bytes (cell_rune c)"
  by (simp add: plain_cell_def char_bytes_def split: if_splits) (simp add: rune_bytes_def)

section \<open>The terminal while it is painted\<close>

definition painting :: "int \<Rightarrow> int \<Rightarrow> row list \<Rightarrow> row list \<Rightarrow> cursor \<Rightarrow> Style \<Rightarrow> bytes \<Rightarrow> Terminal \<Rightarrow> bool" where
  "painting w h rs sb c st l t \<longleftrightarrow> wf_term w h (\<lambda>_. True) (\<lambda>_. True) t \<and>
     (\<exists>lp b. t = (New w h)\<lparr>cursorVisible := False, t_main := (newScreen w h)\<lparr>rows := rs, cur := c, scrollback := sb\<rparr>,
       pen := st, link := l, lastPrinted := lp, blankRow := b\<rparr>)"

lemma paintingI:
  "wf_term w h (\<lambda>_. True) (\<lambda>_. True) t \<Longrightarrow> t = (New w h)\<lparr>cursorVisible := False, t_main := (newScreen w h)\<lparr>rows := rs, cur := c,
     scrollback := sb\<rparr>, pen := st, link := l, lastPrinted := lp, blankRow := b\<rparr> \<Longrightarrow> painting w h rs sb c st l t"
  unfolding painting_def by blast

lemma New_fields:
  assumes "1 \<le> w" "1 \<le> h"
  shows "t_w (New w h) = w" "t_h (New w h) = h" "t_s (New w h) = MainScr" "autowrap (New w h)" "\<not> insertMode (New w h)"
    "\<not> origin (New w h)" "charsets (New w h) = [charsetASCII, charsetASCII]" "glIndex (New w h) = 0" "\<not> lineFeedNewline (New w h)"
    "maxScrollback (New w h) = DefaultScrollback" "\<not> altActive (New w h)"
  using assms by (simp_all add: New_def init_def Let_def resetTabStops_def zeroTerminal_def)

lemma painting_simps:
  assumes "painting w h rs sb c st l t"
  shows "act t = (newScreen w h)\<lparr>rows := rs, cur := c, scrollback := sb\<rparr>" "tcur t = c" "t_w t = w" "t_h t = h" "t_s t = MainScr"
    "pen t = st" "link t = l" "autowrap t" "\<not> insertMode t" "\<not> origin t" "charsets t = [charsetASCII, charsetASCII]"
    "glIndex t = 0" "\<not> lineFeedNewline t" "maxScrollback t = DefaultScrollback" "rows_wf w h rs" "1 \<le> w" "1 \<le> h"
    "0 \<le> cx c" "cx c < w" "0 \<le> cy c" "cy c < h"
proof -
  obtain lp b where t: "wf_term w h (\<lambda>_. True) (\<lambda>_. True) t" "t = (New w h)\<lparr>cursorVisible := False,
    t_main := (newScreen w h)\<lparr>rows := rs, cur := c, scrollback := sb\<rparr>, pen := st, link := l, lastPrinted := lp, blankRow := b\<rparr>"
    using assms by (auto simp: painting_def)
  note sz = wf_size [OF t(1)]
  then show 1: "1 \<le> w" "1 \<le> h" by simp_all
  note n = New_fields [OF 1]
  show a: "act t = (newScreen w h)\<lparr>rows := rs, cur := c, scrollback := sb\<rparr>"
    by (simp add: t(2) act_def deref_def n)
  then show tc: "tcur t = c" by (simp add: tcur_def)
  show "rows_wf w h rs" using wf_act_facts(1) [OF t(1)] a by simp
  show "0 \<le> cx c" "cx c < w" "0 \<le> cy c" "cy c < h" using wf_cur [OF t(1)] tc by simp_all
  show "t_w t = w" "t_h t = h" "t_s t = MainScr" "pen t = st" "link t = l" "autowrap t" "\<not> insertMode t" "\<not> origin t"
    "charsets t = [charsetASCII, charsetASCII]" "glIndex t = 0" "\<not> lineFeedNewline t" "maxScrollback t = DefaultScrollback"
    by (simp_all add: t(2) n)
qed


text \<open>The updates that painting makes.\<close>

lemma paintingE:
  assumes "painting w h rs sb c st l t"
  obtains lp b where "wf_term w h (\<lambda>_. True) (\<lambda>_. True) t" "t = (New w h)\<lparr>cursorVisible := False,
    t_main := (newScreen w h)\<lparr>rows := rs, cur := c, scrollback := sb\<rparr>, pen := st, link := l, lastPrinted := lp, blankRow := b\<rparr>"
  using assms by (auto simp: painting_def)

lemma painting_pen:
  assumes "painting w h rs sb c st l t"
  shows "painting w h rs sb c st' l (t\<lparr>pen := st'\<rparr>)"
proof -
  obtain lp b where t: "wf_term w h (\<lambda>_. True) (\<lambda>_. True) t" "t = (New w h)\<lparr>cursorVisible := False,
    t_main := (newScreen w h)\<lparr>rows := rs, cur := c, scrollback := sb\<rparr>, pen := st, link := l, lastPrinted := lp, blankRow := b\<rparr>"
    using assms by (rule paintingE)
  have "wf_term w h (\<lambda>_. True) (\<lambda>_. True) (t\<lparr>pen := st'\<rparr>)" using t(1) by simp
  then show ?thesis by (rule paintingI [where lp = lp and b = b]) (simp only: t(2), simp)
qed

lemma painting_link:
  assumes "painting w h rs sb c st l t"
  shows "painting w h rs sb c st l' (t\<lparr>link := l'\<rparr>)"
proof -
  obtain lp b where t: "wf_term w h (\<lambda>_. True) (\<lambda>_. True) t" "t = (New w h)\<lparr>cursorVisible := False,
    t_main := (newScreen w h)\<lparr>rows := rs, cur := c, scrollback := sb\<rparr>, pen := st, link := l, lastPrinted := lp, blankRow := b\<rparr>"
    using assms by (rule paintingE)
  have "wf_term w h (\<lambda>_. True) (\<lambda>_. True) (t\<lparr>link := l'\<rparr>)" using t(1) by simp
  then show ?thesis by (rule paintingI [where lp = lp and b = b]) (simp only: t(2), simp)
qed

lemma painting_last:
  assumes "painting w h rs sb c st l t"
  shows "painting w h rs sb c st l (t\<lparr>lastPrinted := r\<rparr>)"
proof -
  obtain lp b where t: "wf_term w h (\<lambda>_. True) (\<lambda>_. True) t" "t = (New w h)\<lparr>cursorVisible := False,
    t_main := (newScreen w h)\<lparr>rows := rs, cur := c, scrollback := sb\<rparr>, pen := st, link := l, lastPrinted := lp, blankRow := b\<rparr>"
    using assms by (rule paintingE)
  have "wf_term w h (\<lambda>_. True) (\<lambda>_. True) (t\<lparr>lastPrinted := r\<rparr>)" using t(1) by simp
  then show ?thesis by (rule paintingI [where lp = r and b = b]) (simp only: t(2), simp)
qed

lemma painting_cached:
  assumes "painting w h rs sb c st l t"
  shows "painting w h rs sb c st l (cached t)"
proof -
  obtain lp b where t: "wf_term w h (\<lambda>_. True) (\<lambda>_. True) t" "t = (New w h)\<lparr>cursorVisible := False,
    t_main := (newScreen w h)\<lparr>rows := rs, cur := c, scrollback := sb\<rparr>, pen := st, link := l, lastPrinted := lp, blankRow := b\<rparr>"
    using assms by (rule paintingE)
  have wf: "wf_term w h (\<lambda>_. True) (\<lambda>_. True) (cached t)" using t(1) by simp
  have "cached t = t \<or> cached t = t\<lparr>blankRow := cells (newRow (t_w t))\<rparr>" by (simp add: cached_def)
  then show ?thesis
  proof
    assume "cached t = t\<lparr>blankRow := cells (newRow (t_w t))\<rparr>"
    moreover have "t\<lparr>blankRow := v\<rparr> = (New w h)\<lparr>cursorVisible := False, t_main := (newScreen w h)\<lparr>rows := rs, cur := c,
      scrollback := sb\<rparr>, pen := st, link := l, lastPrinted := lp, blankRow := v\<rparr>" for v
      by (simp only: t(2), simp)
    ultimately show ?thesis using wf by (intro paintingI [where b = "cells (newRow (t_w t))"]) simp_all
  qed (use assms in simp)
qed

lemma painting_set_act:
  assumes "painting w h rs sb c st l t" "s = (newScreen w h)\<lparr>rows := rs', cur := c', scrollback := sb'\<rparr>"
    and "wf_term w h (\<lambda>_. True) (\<lambda>_. True) (set_act s t)"
  shows "painting w h rs' sb' c' st l (set_act s t)"
proof -
  obtain lp b where t: "t = (New w h)\<lparr>cursorVisible := False,
    t_main := (newScreen w h)\<lparr>rows := rs, cur := c, scrollback := sb\<rparr>, pen := st, link := l, lastPrinted := lp, blankRow := b\<rparr>"
    using assms(1) by (auto simp: painting_def)
  have "set_act s t = (New w h)\<lparr>cursorVisible := False,
    t_main := (newScreen w h)\<lparr>rows := rs', cur := c', scrollback := sb'\<rparr>, pen := st, link := l, lastPrinted := lp, blankRow := b\<rparr>"
    using painting_simps(5) [OF assms(1)] by (simp add: set_act_def assign_def assms(2)) (simp add: t)
  with assms(3) show ?thesis by (rule paintingI)
qed

section \<open>One cell\<close>

text \<open>Where the cursor is after \<open>n\<close> columns of a row.\<close>

definition after_cols :: "int \<Rightarrow> int \<Rightarrow> nat \<Rightarrow> cursor" where
  "after_cols w y n = (if int n < w then \<lparr>cx = int n, cy = y, pendingWrap = False\<rparr> else \<lparr>cx = w - 1, cy = y, pendingWrap = True\<rparr>)"

definition blanks :: "nat \<Rightarrow> Cell list" where
  "blanks n = replicate n (blankCell zeroStyle)"

definition stored :: "Cell \<Rightarrow> Cell list" where
  "stored c = (if Width c = 2 then [c, continuation c] else [c])"

lemma put_on_blank:
  assumes c: "plain_cell c" and x: "x + length (stored c) \<le> length cs" "t_w t = glen cs"
    and b: "\<And>i. x \<le> i \<Longrightarrow> i < length cs \<Longrightarrow> cs ! i = blankCell zeroStyle"
    and p: "pen t = CStyle c" "link t = Link c"
  shows "put_cells (cell_rune c) (Width c) (int x) t cs = Some (take x cs @ stored c @ drop (x + length (stored c)) cs)"
proof -
  have l: "x < length cs" using x(1) by (simp add: stored_def split: if_splits)
  have cx: "cs ! x = blankCell zeroStyle" using b l by simp
  have e: "\<lparr>Ch = char_bytes (cell_rune c), Width = Width c, CStyle = CStyle c, Link = Link c\<rparr> = c"
    using c by (cases c) (simp add: plain_cell_def)
  have n: "nat (int x + 1) = Suc x" "nat (1 + int x) = Suc x" by simp_all
  show ?thesis
  proof (cases "Width c = 2")
    case False
    then have w: "Width c = 1" using c by (simp add: plain_cell_def)
    have "put_cells (cell_rune c) (Width c) (int x) t cs = Some (cs[x := c])"
      using l cx e w unfolding put_cells_def p by simp
    then show ?thesis using l False by (simp add: stored_def upd_conv_take_nth_drop)
  next
    case True
    then have l2: "Suc x < length cs" using x(1) by (simp add: stored_def)
    have c2: "cs ! Suc x = blankCell zeroStyle" using b l2 by simp
    have "put_cells (cell_rune c) (Width c) (int x) t cs = Some (cs[x := c, Suc x := continuation c])"
      using l l2 cx c2 e True unfolding put_cells_def p by (simp add: continuation_def n x(2))
    moreover have "cs[x := c, Suc x := continuation c] = take x cs @ [c, continuation c] @ drop (Suc (Suc x)) cs"
      using l l2 by (simp add: upd_conv_take_nth_drop take_Suc_conv_app_nth list_update_append)
    ultimately show ?thesis using True by (simp add: stored_def)
  qed
qed


lemma store_plain:
  assumes p1: "painting w h rs sb \<lparr>cx = int x, cy = int y, pendingWrap = False\<rparr> (CStyle c) (Link c) t1"
    and c: "plain_cell c" and w: "2 \<le> w"
    and r: "y < length rs" "cells (rs ! y) = dn @ blanks k" "length dn = x" "length (stored c) \<le> k"
  shows "\<exists>t'. (if Width c = 2 \<and> cx (tcur t1) = t_w t1 - 1 then print_wide_edge (cell_rune c) (Width c) t1
      else print_cell (cell_rune c) (Width c) t1) = Some t'
    \<and> painting w h (rs[y := (rs ! y)\<lparr>cells := dn @ stored c @ blanks (k - length (stored c))\<rparr>]) sb
        (after_cols w (int y) (x + length (stored c))) (CStyle c) (Link c) t'"
proof -
  note ps1 = painting_simps [OF p1]
  define r' where "r' = (rs ! y)\<lparr>cells := dn @ stored c @ blanks (k - length (stored c))\<rparr>"
  have wl: "glen (cells (rs ! y)) = w"
    using ps1(15) r(1) by (auto simp: rows_wf_def row_wf_def list_all_length)
  then have xk: "int x + int k = w" using r(2,3) by (simp add: blanks_def)
  have put: "put_cells (cell_rune c) (Width c) (int x) t1 (cells (rs ! y)) = Some (cells r')"
    using put_on_blank [OF c, of x "cells (rs ! y)" t1] r wl ps1(3,6,7)
    by (simp add: r'_def blanks_def nth_append)
  have wc: "Width c = int (length (stored c))" "Width c = 1 \<or> Width c = 2" using c by (auto simp: plain_cell_def stored_def)
  have nw: "\<not> (Width c = 2 \<and> int x = w - 1)" using xk r(4) wc by auto
  define s where "s = (newScreen w h)\<lparr>rows := rs[y := r'], cur := after_cols w (int y) (x + length (stored c)), scrollback := sb\<rparr>"
  have gr: "get_row (int y) t1 = Some (rs ! y)" using ps1(1) r(1) by (simp add: get_row_def)
  have sr: "set_row (int y) ((rs ! y)\<lparr>cells := cells r'\<rparr>) t1 = Some (set_act ((act t1)\<lparr>rows := rs[y := r']\<rparr>) t1)"
    using ps1(1) r(1) by (simp add: set_row_def r'_def)
  have adv: "advance (Width c) (set_act ((act t1)\<lparr>rows := rs[y := r']\<rparr>) t1) = set_act s t1"
    using ps1(1,2,3) wc(1) by (simp add: advance_def set_cur_def tcur_def after_cols_def s_def Let_def newScreen_def)
  have pc: "print_cell (cell_rune c) (Width c) t1 = Some (set_act s t1)"
    using ps1 gr put sr adv by (simp add: print_cell_def)
  have "wf_term w h (\<lambda>_. True) (\<lambda>_. True) t1" using p1 by (simp add: painting_def)
  from wf_print_cell [OF this, of "Width c" "cell_rune c"] have "wf_term w h (\<lambda>_. True) (\<lambda>_. True) (set_act s t1)"
    using pc wc(2) nw ps1(2,19) by auto
  from painting_set_act [OF p1 s_def this] pc nw ps1(2,3) show ?thesis by (auto simp: r'_def)
qed

lemma print_plain:
  assumes p: "painting w h rs sb \<lparr>cx = int x, cy = int y, pendingWrap = False\<rparr> (CStyle c) (Link c) t"
    and c: "plain_cell c" and w: "2 \<le> w"
    and r: "y < length rs" "cells (rs ! y) = dn @ blanks k" "length dn = x" "length (stored c) \<le> k"
  shows "\<exists>t'. print (cell_rune c) t = Some t'
    \<and> painting w h (rs[y := (rs ! y)\<lparr>cells := dn @ stored c @ blanks (k - length (stored c))\<rparr>]) sb
        (after_cols w (int y) (x + length (stored c))) (CStyle c) (Link c) t'"
proof -
  note ps = painting_simps [OF p]
  let ?t1 = "t\<lparr>lastPrinted := cell_rune c\<rparr>"
  have w1: "print_wrap ?t1 = Some ?t1" using painting_simps(2) [OF painting_last [OF p, of "cell_rune c"]] by (simp add: print_wrap_def)
  have "runeWidth (cell_rune c) = Some (Width c)" "Width c \<noteq> 0" using c by (auto simp: plain_cell_def)
  then have "print (cell_rune c) t = print_glyph (cell_rune c) (Width c) t"
    using ps(11,12) by (simp add: print_def translate_def Let_def)
  with store_plain [OF painting_last [OF p, of "cell_rune c"] c w r] w1 show ?thesis
    by (simp add: print_glyph_def)
qed


section \<open>One row\<close>

lemma plain_rest:
  assumes "plain_cells (c # cs)"
  obtains d where "c # cs = stored c @ d" "plain_cells d" "length d \<le> length cs" "plain_cell c"
    "\<And>st l. write_cells cs st l = write_cells d st l"
proof (cases "Width c = 2")
  case True
  with assms have e: "c # cs = stored c @ tl cs" "cs = continuation c # tl cs" and p: "plain_cells (tl cs)" "plain_cell c"
    by (cases cs; simp add: stored_def)+
  have "write_cells cs st l = write_cells (tl cs) st l" for st l
    by (subst e(2)) (simp add: continuation_def)
  then show ?thesis by (intro that [of "tl cs"] e p) simp_all
next
  case False
  then show ?thesis using that [of cs] assms by (simp add: stored_def)
qed

lemma pen_same: "t\<lparr>pen := pen t\<rparr> = t" "t\<lparr>link := link t\<rparr> = t"
  by simp_all

lemma paint_cells:
  assumes w: "2 \<le> w"
  shows "plain_cells cs \<Longrightarrow> painting w h rs sb (after_cols w (int y) (length dn)) st l t \<Longrightarrow> y < length rs
    \<Longrightarrow> cells (rs ! y) = dn @ blanks k \<Longrightarrow> length cs \<le> k \<Longrightarrow> write_cells cs st l = (out, st', l') \<Longrightarrow>
    \<exists>t'. feeds out t t' \<and> painting w h (rs[y := (rs ! y)\<lparr>cells := dn @ cs @ blanks (k - length cs)\<rparr>]) sb
      (after_cols w (int y) (length dn + length cs)) st' l' t'"
proof (induction "length cs" arbitrary: cs dn rs k st l t out rule: less_induct)
  case less
  show ?case
  proof (cases cs)
    case Nil
    have "(rs ! y)\<lparr>cells := dn @ blanks k\<rparr> = rs ! y" unfolding less.prems(4) [symmetric] by simp
    then have "rs[y := (rs ! y)\<lparr>cells := dn @ blanks k\<rparr>] = rs" by simp
    then show ?thesis using less.prems Nil by (intro exI [of _ t]) simp
  next
    case (Cons c cs')
    obtain d where d: "c # cs' = stored c @ d" "plain_cells d" "length d \<le> length cs'" "plain_cell c"
      "\<And>st l. write_cells cs' st l = write_cells d st l"
      using plain_rest less.prems(1) unfolding Cons by blast
    have sl: "1 \<le> length (stored c)" "length cs = length (stored c) + length d"
      using d(1) Cons by (simp_all add: stored_def)
    note ps = painting_simps [OF less.prems(2)]
    have "glen (cells (rs ! y)) = w"
      using ps(15) less.prems(3) by (auto simp: rows_wf_def row_wf_def list_all_length)
    then have dk: "int (length dn) + int k = w" using less.prems(4) by (simp add: blanks_def)
    then have ac: "after_cols w (int y) (length dn) = \<lparr>cx = int (length dn), cy = int y, pendingWrap = False\<rparr>"
      using less.prems(5) sl by (simp add: after_cols_def)
    have wc: "Width c \<noteq> 0" using d(4) by (auto simp: plain_cell_def)
    obtain out' where o: "write_cells d (CStyle c) (Link c) = (out', st', l')"
      "out = (if CStyle c \<noteq> st then sgrSequence (CStyle c) else []) @ (if Link c \<noteq> l then osc_link (Link c) else [])
        @ rune_bytes (cell_rune c) @ out'"
      using less.prems(6) wc unfolding Cons
      by (cases "write_cells d (CStyle c) (Link c)") (auto simp: d(5) plain_out [OF d(4), symmetric])
    define t1 where "t1 = t\<lparr>pen := CStyle c\<rparr>"
    define t2 where "t2 = t1\<lparr>link := Link c\<rparr>"
    have f1: "feeds (if CStyle c \<noteq> st then sgrSequence (CStyle c) else []) t t1"
      using feeds_sgr [of "CStyle c" t] d(4) ps(6) by (auto simp: t1_def plain_cell_def)
    have f2: "feeds (if Link c \<noteq> l then osc_link (Link c) else []) t1 t2"
      using feeds_link [of "Link c" t1] d(4) ps(7) by (auto simp: t2_def t1_def plain_cell_def)
    have p2: "painting w h rs sb \<lparr>cx = int (length dn), cy = int y, pendingWrap = False\<rparr> (CStyle c) (Link c) t2"
      unfolding t2_def t1_def using less.prems(2) ac by (intro painting_link painting_pen) simp
    have le: "length (stored c) \<le> k" using sl(2) less.prems(5) by simp
    define rs' where "rs' = rs[y := (rs ! y)\<lparr>cells := dn @ stored c @ blanks (k - length (stored c))\<rparr>]"
    from print_plain [OF p2 d(4) w less.prems(3,4) refl le] obtain t3 where t3: "print (cell_rune c) t2 = Some t3"
      "painting w h rs' sb (after_cols w (int y) (length (dn @ stored c))) (CStyle c) (Link c) t3"
      by (auto simp: rs'_def)
    have f3: "feeds (rune_bytes (cell_rune c)) t2 t3"
      using d(4) t3(1) by (intro feeds_rune) (simp_all add: plain_cell_def)
    have "length d < length cs" using sl by linarith
    moreover have "y < length rs'" "cells (rs' ! y) = (dn @ stored c) @ blanks (k - length (stored c))"
      using less.prems(3) by (simp_all add: rs'_def)
    moreover have "length d \<le> k - length (stored c)" using sl(2) less.prems(5) by simp
    ultimately obtain t4 where t4: "feeds out' t3 t4"
      "painting w h (rs'[y := (rs' ! y)\<lparr>cells := (dn @ stored c) @ d @ blanks (k - length (stored c) - length d)\<rparr>]) sb
        (after_cols w (int y) (length (dn @ stored c) + length d)) st' l' t4"
      using less.hyps [of d rs' "dn @ stored c" "CStyle c" "Link c" t3 "k - length (stored c)" out'] d(2) t3(2) o(1) by blast
    have "feeds out t t4" unfolding o(2) by (intro feeds_append [OF f1] feeds_append [OF f2] feeds_append [OF f3] t4(1))
    moreover have "rs'[y := (rs' ! y)\<lparr>cells := (dn @ stored c) @ d @ blanks (k - length (stored c) - length d)\<rparr>]
      = rs[y := (rs ! y)\<lparr>cells := dn @ cs @ blanks (k - length cs)\<rparr>]"
      using less.prems(3) sl(2) d(1) Cons by (simp add: rs'_def)
    ultimately show ?thesis using t4(2) sl(2) by (auto simp: add.assoc)
  qed
qed


section \<open>Lines\<close>

text \<open>A row as it can be painted, blank behind its last visible cell; and as it stands on the screen.\<close>

definition plain_line :: "int \<Rightarrow> row \<Rightarrow> bool" where
  "plain_line w r \<longleftrightarrow> glen (cells r) \<le> w \<and> plain_cells (take (lastVisible r) (cells r))
     \<and> drop (lastVisible r) (cells r) = blanks (length (cells r) - lastVisible r)"

definition padded :: "int \<Rightarrow> row \<Rightarrow> row" where
  "padded w r = \<lparr>cells = take (lastVisible r) (cells r) @ blanks (nat w - lastVisible r), wrapped = wrapped r\<rparr>"

lemma padded_full:
  assumes "plain_line w r" "glen (cells r) = w"
  shows "padded w r = r"
proof -
  have "nat w = length (cells r)" using assms(2) by simp
  then have "take (lastVisible r) (cells r) @ blanks (nat w - lastVisible r) = cells r"
    using assms(1) append_take_drop_id [of "lastVisible r" "cells r"] by (simp add: plain_line_def)
  then have "padded w r = \<lparr>cells = cells r, wrapped = wrapped r\<rparr>" using assms(1) by (simp add: padded_def plain_line_def)
  then show ?thesis by simp
qed

text \<open>The lines begun so far: what the screen shows of them, and what has left it.\<close>

definition shown_rows :: "int \<Rightarrow> int \<Rightarrow> row list \<Rightarrow> row list" where
  "shown_rows w h q = drop (length q - nat h) q @ replicate (nat h - length q) (newRow w)"

definition gone_rows :: "int \<Rightarrow> row list \<Rightarrow> row list" where
  "gone_rows h q = map trimmed (take (length q - nat h) q)"

definition last_row :: "int \<Rightarrow> row list \<Rightarrow> int" where
  "last_row h q = min (glen q) h - 1"

lemma shown_rows_last:
  assumes "1 \<le> h" "i = nat (last_row h (p @ [r]))"
  shows "i < length (shown_rows w h (p @ [r]))" "shown_rows w h (p @ [r]) ! i = r"
    "(shown_rows w h (p @ [r]))[i := r'] = shown_rows w h (p @ [r'])"
    "gone_rows h (p @ [r]) = gone_rows h (p @ [r'])" "last_row h (p @ [r]) = last_row h (p @ [r'])" "last_row h (p @ [r]) = int i"
proof -
  define d where "d = drop (length (p @ [r]) - nat h) p"
  have l: "length p + 1 - nat h \<le> length p" using assms(1) by linarith
  have s: "shown_rows w h (p @ [x]) = d @ [x] @ replicate (nat h - length (p @ [r])) (newRow w)" for x
    using l by (simp add: shown_rows_def d_def)
  have i: "i = length d"
    using assms by (simp add: d_def last_row_def min_def) linarith
  show "i < length (shown_rows w h (p @ [r]))" "shown_rows w h (p @ [r]) ! i = r"
    "(shown_rows w h (p @ [r]))[i := r'] = shown_rows w h (p @ [r'])"
    unfolding s by (simp_all add: i)
  show "gone_rows h (p @ [r]) = gone_rows h (p @ [r'])" using l by (simp add: gone_rows_def)
  show "last_row h (p @ [r]) = last_row h (p @ [r'])" by (simp add: last_row_def)
  show "last_row h (p @ [r]) = int i" using assms by (simp add: last_row_def)
qed

lemma painting_cursor:
  assumes "painting w h rs sb c st l t" "0 \<le> cx c'" "cx c' < w" "0 \<le> cy c'" "cy c' < h"
  shows "painting w h rs sb c' st l (set_cur c' t)"
proof -
  have s: "set_cur c' t = set_act ((newScreen w h)\<lparr>rows := rs, cur := c', scrollback := sb\<rparr>) t"
    using painting_simps(1) [OF assms(1)] by (simp add: set_cur_def newScreen_def)
  have "wf_term w h (\<lambda>_. True) (\<lambda>_. True) (set_cur c' t)"
    using assms by (intro wf_set_curI) (auto simp: painting_def)
  then show ?thesis
    unfolding s by (intro painting_set_act [OF assms(1) refl])
qed

text \<open>A line feed below the last row of the screen.\<close>

lemma paint_scroll:
  assumes p: "painting w h rs sb c st l t" and c: "cy c = h - 1" "\<not> pendingWrap c"
    and st: "Bg st = 0" and sb: "glen sb < DefaultScrollback" and rs: "\<not> wrapped ((tl rs @ [newRow w]) ! 0)"
  shows "\<exists>t'. lineFeed t = Some t' \<and> painting w h (tl rs @ [newRow w]) (sb @ [trimmed (hd rs)]) c st l t'"
proof -
  note ps = painting_simps [OF p]
  have wf: "wf_term w h (\<lambda>_. True) (\<lambda>_. True) t" using p by (simp add: painting_def)
  have len: "length rs = nat h" "rs \<noteq> []" using ps(15,17) by (auto simp: rows_wf_def)
  obtain r rs' where r: "rs = r # rs'" using len(2) by (cases rs) auto
  have pr: "penRow t = newRow w"
    using ps(3,6) st by (simp add: penRow_def row_clear_def newRow_def fill_def eraseStyle_default Let_def)
  have "(tcur t)\<lparr>pendingWrap := False\<rparr> = tcur t" using c(2) ps(2) by (cases "tcur t") simp
  then have sc: "set_cur ((tcur t)\<lparr>pendingWrap := False\<rparr>) t = t" by (simp add: set_cur_def) (simp add: tcur_def)
  have reg: "s_top (act t) = 0" "s_bot (act t) = h - 1" using ps(1) by (simp_all add: newScreen_def)
  have "lineFeed t = scroll 1 True t"
    using sc reg(2) ps(2) c(1) by (simp add: lineFeed_def Let_def)
  also have "\<dots> = Some (set_act (scrolled 1 True t) (cached t))"
    using scroll_eq [OF wf, of 1 True] ps(17) reg by (simp add: clip_def)
  finally have lf: "lineFeed t = Some (set_act (scrolled 1 True t) (cached t))" .
  have hl: "nat h = Suc (length rs')" using len(1) r by simp
  have "unwrap_at 0 (close_gap 0 (nat h) 1 (newRow w) rs) = rs' @ [newRow w]"
  proof -
    have g: "close_gap 0 (nat h) 1 (newRow w) rs = rs' @ [newRow w]" using hl r by (simp add: close_gap_def)
    have "\<not> wrapped ((rs' @ [newRow w]) ! 0)" using rs r by simp
    then have "((rs' @ [newRow w]) ! 0)\<lparr>wrapped := False\<rparr> = (rs' @ [newRow w]) ! 0" by simp
    then show ?thesis by (simp only: unwrap_at_def g list_update_id)
  qed
  then have s: "scrolled 1 True t = (newScreen w h)\<lparr>rows := tl rs @ [newRow w], cur := c, scrollback := sb @ [trimmed (hd rs)]\<rparr>"
    using ps(1,5,14) pr r sb
    by (simp add: scrolled_def Let_def newScreen_def pushed_def drop_batch_def DefaultScrollback_def)
  have "wf_term w h (\<lambda>_. True) (\<lambda>_. True) (set_act (scrolled 1 True t) (cached t))"
    using wf_lineFeed [OF wf] lf by simp
  from painting_set_act [OF painting_cached [OF p] s this] lf show ?thesis by simp
qed


text \<open>A line feed to a new row: the row that then comes to the top of the screen is not a continuation.\<close>

definition top_plain :: "int \<Rightarrow> int \<Rightarrow> row list \<Rightarrow> bool" where
  "top_plain w h q \<longleftrightarrow> (nat h \<le> length q \<longrightarrow> \<not> wrapped ((q @ [newRow w]) ! Suc (length q - nat h)))"

lemma paint_linefeed:
  assumes p: "painting w h (shown_rows w h q) (gone_rows h q) c st l t" "cx c = 0" "\<not> pendingWrap c" "cy c = last_row h q" "q \<noteq> []"
    and q: "top_plain w h q" "nat h \<le> length q \<Longrightarrow> Bg st = 0" "glen q < h + DefaultScrollback"
  shows "\<exists>t'. lineFeed t = Some t' \<and> painting w h (shown_rows w h (q @ [newRow w])) (gone_rows h (q @ [newRow w]))
    (after_cols w (last_row h (q @ [newRow w])) 0) st l t'"
proof -
  note ps = painting_simps [OF p(1)]
  have h: "1 \<le> h" using ps(17) .
  show ?thesis
  proof (cases "nat h \<le> length q")
    case True
    obtain r q' where r: "drop (length q - nat h) q = r # q'"
      using True h by (cases "drop (length q - nat h) q") auto
    have sr: "shown_rows w h q = r # q'" using True r by (simp add: shown_rows_def)
    have d: "Suc (length q) - nat h = Suc (length q - nat h)" using True by simp
    have dr: "drop (Suc (length q - nat h)) q = q'" using r by (metis drop_Suc list.sel(3) tl_drop)
    have tk: "take (Suc (length q - nat h)) q = take (length q - nat h) q @ [r]"
      using r True h by (metis drop_eq_Nil2 hd_drop_conv_nth linorder_not_le list.sel(1) list.distinct(1) take_Suc_conv_app_nth)
    have le: "Suc (length q - nat h) \<le> length q" using True h p(5) by (cases q) auto
    have s2: "shown_rows w h (q @ [newRow w]) = q' @ [newRow w]" "gone_rows h (q @ [newRow w]) = gone_rows h q @ [trimmed r]"
      using le True by (simp_all add: shown_rows_def gone_rows_def d dr tk)
    have "drop (Suc (length q - nat h)) (q @ [newRow w]) = q' @ [newRow w]" using le dr by simp
    then have "(q' @ [newRow w]) ! 0 = (q @ [newRow w]) ! Suc (length q - nat h)"
      using le by (metis Cons_nth_drop_Suc append_is_Nil_conv drop_eq_Nil2 linorder_not_le list.distinct(1) nth_Cons_0)
    then have "\<not> wrapped ((tl (shown_rows w h q) @ [newRow w]) ! 0)" using q(1) True by (simp add: sr top_plain_def)
    moreover have cy: "cy c = h - 1" using p(4) True by (simp add: last_row_def)
    moreover have "glen (gone_rows h q) < DefaultScrollback" using q(3) True h by (simp add: gone_rows_def)
    ultimately obtain t2 where t2: "lineFeed t = Some t2"
      "painting w h (q' @ [newRow w]) (gone_rows h q @ [trimmed r]) c st l t2"
      using paint_scroll [OF p(1) _ p(3) q(2) [OF True]] sr by auto
    have "last_row h (q @ [newRow w]) = h - 1" using True h by (simp add: last_row_def)
    then have "after_cols w (last_row h (q @ [newRow w])) 0 = c"
      using cy p(2,3) ps(16) by (cases c) (simp add: after_cols_def)
    with t2 show ?thesis by (simp add: s2)
  next
    case False
    define c2 where "c2 = c\<lparr>cy := cy c + 1\<rparr>"
    have y: "cy c = glen q - 1" "glen q < h" using p(4) False by (simp_all add: last_row_def)
    have rep: "nat h - length q = Suc (nat h - Suc (length q))" using False by simp
    have s2: "shown_rows w h (q @ [newRow w]) = shown_rows w h q" "gone_rows h (q @ [newRow w]) = gone_rows h q"
      using False rep by (simp_all add: shown_rows_def gone_rows_def)
    have p2: "painting w h (shown_rows w h q) (gone_rows h q) c2 st l (set_cur c2 t)"
      using p(1,2) ps(16) y by (intro painting_cursor [OF p(1)]) (simp_all add: c2_def)
    have "(tcur t)\<lparr>pendingWrap := False\<rparr> = tcur t" using ps(2) p(3) by (cases c) simp
    then have "set_cur ((tcur t)\<lparr>pendingWrap := False\<rparr>) t = t" by (simp add: set_cur_def) (simp add: tcur_def)
    then have lf1: "lineFeed t = Some (set_cur c2 t)"
      using ps(1,2,4) y by (simp add: lineFeed_def Let_def c2_def newScreen_def)
    have "after_cols w (last_row h (q @ [newRow w])) 0 = c2"
      using y p(2,3) ps(16) by (cases c) (simp add: after_cols_def c2_def last_row_def)
    with p2 lf1 show ?thesis by (simp add: s2)
  qed
qed

lemma paint_return:
  assumes "painting w h rs sb c st l t"
  shows "painting w h rs sb (c\<lparr>cx := 0, pendingWrap := False\<rparr>) st l (set_cur (c\<lparr>cx := 0, pendingWrap := False\<rparr>) t)"
  using painting_simps(16,20,21) [OF assms] by (intro painting_cursor [OF assms]) simp_all

lemma paint_newline:
  assumes p: "painting w h (shown_rows w h q) (gone_rows h q) c st l t" "cy c = last_row h q" "q \<noteq> []"
    and q: "top_plain w h q" "nat h \<le> length q \<Longrightarrow> Bg st = 0" "glen q < h + DefaultScrollback"
  shows "\<exists>t'. feeds [0x0d, 0x0a] t t' \<and> painting w h (shown_rows w h (q @ [newRow w])) (gone_rows h (q @ [newRow w]))
    (after_cols w (last_row h (q @ [newRow w])) 0) st l t'"
proof -
  define t1 where "t1 = set_cur (c\<lparr>cx := 0, pendingWrap := False\<rparr>) t"
  have f1: "feeds [0x0d] t t1" using painting_simps(2) [OF p(1)] by (intro feeds_control) (simp_all add: execute_def t1_def)
  obtain t2 where t2: "lineFeed t1 = Some t2" "painting w h (shown_rows w h (q @ [newRow w])) (gone_rows h (q @ [newRow w]))
    (after_cols w (last_row h (q @ [newRow w])) 0) st l t2"
    using paint_linefeed [OF paint_return [OF p(1)], folded t1_def] p(2,3) q by auto
  have "feeds [0x0a] t1 t2" using t2(1) painting_simps(13) [OF t2(2)] by (intro feeds_control) (simp_all add: execute_def)
  from feeds_append [OF f1 this] t2(2) show ?thesis by auto
qed

section \<open>Rows that continue the row above\<close>

lemma paint_wrap:
  assumes p: "painting w h (shown_rows w h q) (gone_rows h q) c st l t" "cy c = last_row h q" "q \<noteq> []"
    and q: "top_plain w h q" "nat h \<le> length q \<Longrightarrow> Bg st = 0" "glen q < h + DefaultScrollback"
  shows "\<exists>t'. wrapToNextLine t = Some t' \<and> painting w h (shown_rows w h (q @ [(newRow w)\<lparr>wrapped := True\<rparr>]))
    (gone_rows h (q @ [(newRow w)\<lparr>wrapped := True\<rparr>])) (after_cols w (last_row h (q @ [newRow w])) 0) st l t'"
proof -
  define t1 where "t1 = set_cur (c\<lparr>cx := 0, pendingWrap := False\<rparr>) t"
  let ?q = "q @ [newRow w]" and ?r = "(newRow w)\<lparr>wrapped := True\<rparr>"
  obtain t2 where t2: "lineFeed t1 = Some t2" "painting w h (shown_rows w h ?q) (gone_rows h ?q) (after_cols w (last_row h ?q) 0) st l t2"
    using paint_linefeed [OF paint_return [OF p(1)], folded t1_def] p(2,3) q by auto
  note ps2 = painting_simps [OF t2(2)]
  define i where "i = nat (last_row h ?q)"
  note s = shown_rows_last(1,2) [OF ps2(17) i_def] shown_rows_last(3,4) [OF ps2(17) i_def, where r' = ?r] shown_rows_last(6) [OF ps2(17) i_def]
  define s' where "s' = (newScreen w h)\<lparr>rows := shown_rows w h (q @ [?r]), cur := after_cols w (last_row h ?q) 0, scrollback := gone_rows h (q @ [?r])\<rparr>"
  have y: "cy (tcur t2) = int i" using ps2(2) s(5) by (simp add: after_cols_def)
  have g: "get_row (int i) t2 = Some (newRow w)" using ps2(1) s(1,2) by (simp add: get_row_def)
  have st: "set_row (int i) ?r t2 = Some (set_act s' t2)"
    using ps2(1) s by (simp add: set_row_def s'_def newScreen_def)
  have cm: "c\<lparr>pendingWrap := False, cx := 0\<rparr> = c\<lparr>cx := 0, pendingWrap := False\<rparr>" by (cases c) simp
  have "wrapToNextLine t = lineFeed t1 \<bind> (\<lambda>t. get_row (cy (tcur t)) t \<bind> (\<lambda>r. set_row (cy (tcur t)) (r\<lparr>wrapped := True\<rparr>) t))"
    unfolding wrapToNextLine_def Let_def t1_def painting_simps(2) [OF p(1)] cm by (rule refl)
  then have e: "wrapToNextLine t = Some (set_act s' t2)" using t2(1) y g st by simp
  have "wf_term w h (\<lambda>_. True) (\<lambda>_. True) t" using p(1) by (simp add: painting_def)
  from wp_wrapToNextLine [OF this] have "wf_term w h (\<lambda>_. True) (\<lambda>_. True) (set_act s' t2)" using e by simp
  from painting_set_act [OF t2(2) s'_def this] e show ?thesis by simp
qed

text \<open>The first character of a continued row, which the terminal prints past the margin of the row above.\<close>

lemma print_wrapped:
  assumes p: "painting w h (shown_rows w h q) (gone_rows h q) (after_cols w (last_row h q) (nat w)) (CStyle c) (Link c) t" "q \<noteq> []"
    and q: "top_plain w h q" "nat h \<le> length q \<Longrightarrow> Bg (CStyle c) = 0" "glen q < h + DefaultScrollback"
    and c: "plain_cell c" and w: "2 \<le> w"
  shows "\<exists>t' r. print (cell_rune c) t = Some t' \<and> cells r = stored c @ blanks (nat w - length (stored c)) \<and> wrapped r
    \<and> painting w h (shown_rows w h (q @ [r])) (gone_rows h (q @ [r])) (after_cols w (last_row h (q @ [r])) (length (stored c)))
        (CStyle c) (Link c) t'"
proof -
  note ps = painting_simps [OF p(1)]
  let ?t1 = "t\<lparr>lastPrinted := cell_rune c\<rparr>" and ?n = "(newRow w)\<lparr>wrapped := True\<rparr>"
  have cy: "cy (after_cols w (last_row h q) (nat w)) = last_row h q" "pendingWrap (after_cols w (last_row h q) (nat w))"
    using w by (simp_all add: after_cols_def)
  from paint_wrap [OF painting_last [OF p(1), of "cell_rune c"] cy(1) p(2) q] obtain t2 where t2: "wrapToNextLine ?t1 = Some t2"
    "painting w h (shown_rows w h (q @ [?n])) (gone_rows h (q @ [?n])) (after_cols w (last_row h (q @ [newRow w])) 0) (CStyle c) (Link c) t2" by blast
  have pw: "print_wrap ?t1 = Some t2"
    using painting_simps(2,8) [OF painting_last [OF p(1), of "cell_rune c"]] t2(1) cy(2) by (simp add: print_wrap_def)
  define i where "i = nat (last_row h (q @ [?n]))"
  define r where "r = ?n\<lparr>cells := stored c @ blanks (nat w - length (stored c))\<rparr>"
  note s = shown_rows_last(1,2) [OF ps(17) i_def] shown_rows_last(3,4,5) [OF ps(17) i_def, where r' = r] shown_rows_last(6) [OF ps(17) i_def]
  have lr: "last_row h (q @ [newRow w]) = last_row h (q @ [?n])" by (simp add: last_row_def)
  have p2: "painting w h (shown_rows w h (q @ [?n])) (gone_rows h (q @ [?n])) \<lparr>cx = int 0, cy = int i, pendingWrap = False\<rparr> (CStyle c) (Link c) t2"
    using t2(2) w by (simp add: after_cols_def lr s(6))
  have "cells (shown_rows w h (q @ [?n]) ! i) = [] @ blanks (nat w)" using s(2) by (simp add: newRow_def blanks_def)
  moreover have "length (stored c) \<le> nat w" using w by (simp add: stored_def le_nat_iff)
  ultimately obtain t' where t': "(if Width c = 2 \<and> cx (tcur t2) = t_w t2 - 1 then print_wide_edge (cell_rune c) (Width c) t2
      else print_cell (cell_rune c) (Width c) t2) = Some t'"
    "painting w h (shown_rows w h (q @ [r])) (gone_rows h (q @ [r])) (after_cols w (int i) (length (stored c))) (CStyle c) (Link c) t'"
    using store_plain [OF p2 c w s(1), of "[]" "nat w"] s(2,3,4) by (auto simp: r_def)
  have "runeWidth (cell_rune c) = Some (Width c)" "Width c \<noteq> 0" using c by (auto simp: plain_cell_def)
  then have "print (cell_rune c) t = Some t'"
    using ps(11,12) pw t'(1) by (simp add: print_def translate_def Let_def print_glyph_def)
  moreover have "painting w h (shown_rows w h (q @ [r])) (gone_rows h (q @ [r])) (after_cols w (last_row h (q @ [r])) (length (stored c))) (CStyle c) (Link c) t'"
    using t'(2) s(5,6) by simp
  moreover have "cells r = stored c @ blanks (nat w - length (stored c))" "wrapped r" by (simp_all add: r_def)
  ultimately show ?thesis by blast
qed

section \<open>Rows\<close>

lemma plain_blank: "plain_cell (blankCell zeroStyle)"
  by (simp add: plain_cell_def cell_rune_def blankCell_def zeroCell_def char_bytes_def osc_safe_def) code_simp

lemma plain_blanks: "plain_cells xs \<Longrightarrow> plain_cells (xs @ blanks n)"
proof (induction xs rule: plain_cells.induct)
  case 1
  have "Width (blankCell zeroStyle) \<noteq> 2" by (simp add: blankCell_def)
  then show ?case by (induction n) (simp_all add: blanks_def plain_blank)
next
  case (2 c cs)
  then show ?case by (cases cs) (auto split: if_splits)
qed

text \<open>How much of a row is written: all of it when the next row continues it.\<close>

definition written :: "bool \<Rightarrow> row \<Rightarrow> nat" where
  "written nx r = (if nx then length (cells r) else lastVisible r)"

lemma written_plain:
  assumes "plain_line w r"
  shows "plain_cells (take (written nx r) (cells r))" "length (take (written nx r) (cells r)) = written nx r"
    "take (written nx r) (cells r) @ blanks (length (cells r) - written nx r) = cells r"
proof -
  note r = assms [unfolded plain_line_def]
  have e: "take (lastVisible r) (cells r) @ blanks (length (cells r) - lastVisible r) = cells r"
    using r append_take_drop_id [of "lastVisible r" "cells r"] by simp
  with r show "plain_cells (take (written nx r) (cells r))"
    using plain_blanks [of "take (lastVisible r) (cells r)"] by (simp add: written_def) metis
  show "length (take (written nx r) (cells r)) = written nx r"
    using lastVisible_le [of r] by (simp add: written_def)
  show "take (written nx r) (cells r) @ blanks (length (cells r) - written nx r) = cells r"
    using e by (simp add: written_def blanks_def)
qed

text \<open>The row that painting leaves, whichever part of it was written.\<close>

lemma padded_written:
  assumes "plain_line w r" "cells r' = take (written nx r) (cells r) @ blanks (nat w - written nx r)" "wrapped r' = wrapped r"
  shows "r' = padded w r"
proof -
  note p = assms(1) [unfolded plain_line_def]
  have l: "lastVisible r \<le> length (cells r)" "length (cells r) \<le> nat w" using lastVisible_le [of r] p by (simp_all add: le_nat_iff)
  have "cells r @ blanks (nat w - length (cells r)) = take (lastVisible r) (cells r) @ blanks (nat w - lastVisible r)"
  proof -
    have "blanks (length (cells r) - lastVisible r) @ blanks (nat w - length (cells r)) = blanks (nat w - lastVisible r)"
      using l by (simp add: blanks_def flip: replicate_add)
    then show ?thesis
      using p append_take_drop_id [of "lastVisible r" "cells r"] by (metis append.assoc)
  qed
  then have "cells r' = cells (padded w r)" using assms(2) by (simp add: written_def padded_def split: if_splits)
  then show ?thesis using assms(3) by (simp add: padded_def)
qed

text \<open>A continued row: its first character goes past the margin, the others follow it.\<close>

lemma paint_wrapped_cells:
  assumes w: "2 \<le> w" and cs: "plain_cells cs" "cs \<noteq> []" "length cs \<le> nat w" "write_cells cs st l = (out, st', l')"
    and p: "painting w h (shown_rows w h q) (gone_rows h q) (after_cols w (last_row h q) (nat w)) st l t" "q \<noteq> []"
    and q: "top_plain w h q" "nat h \<le> length q \<Longrightarrow> Bg (CStyle (hd cs)) = 0" "glen q < h + DefaultScrollback"
  shows "\<exists>t' r. feeds out t t' \<and> cells r = cs @ blanks (nat w - length cs) \<and> wrapped r
    \<and> painting w h (shown_rows w h (q @ [r])) (gone_rows h (q @ [r])) (after_cols w (last_row h (q @ [r])) (length cs)) st' l' t'"
proof -
  obtain c cs' where Cons: "cs = c # cs'" using cs(2) by (cases cs) auto
  obtain d where d: "c # cs' = stored c @ d" "plain_cells d" "plain_cell c" "\<And>st l. write_cells cs' st l = write_cells d st l"
    using plain_rest cs(1) unfolding Cons by blast
  have sl: "length cs = length (stored c) + length d" using d(1) Cons by simp
  note ps = painting_simps [OF p(1)]
  have wc: "Width c \<noteq> 0" using d(3) by (auto simp: plain_cell_def)
  obtain out' where o: "write_cells d (CStyle c) (Link c) = (out', st', l')"
    "out = (if CStyle c \<noteq> st then sgrSequence (CStyle c) else []) @ (if Link c \<noteq> l then osc_link (Link c) else [])
      @ rune_bytes (cell_rune c) @ out'"
    using cs(4) wc unfolding Cons
    by (cases "write_cells d (CStyle c) (Link c)") (auto simp: d(4) plain_out [OF d(3), symmetric])
  define t1 where "t1 = t\<lparr>pen := CStyle c\<rparr>"
  define t2 where "t2 = t1\<lparr>link := Link c\<rparr>"
  have f1: "feeds (if CStyle c \<noteq> st then sgrSequence (CStyle c) else []) t t1"
    using feeds_sgr [of "CStyle c" t] d(3) ps(6) by (auto simp: t1_def plain_cell_def)
  have f2: "feeds (if Link c \<noteq> l then osc_link (Link c) else []) t1 t2"
    using feeds_link [of "Link c" t1] d(3) ps(7) by (auto simp: t2_def t1_def plain_cell_def)
  have p2: "painting w h (shown_rows w h q) (gone_rows h q) (after_cols w (last_row h q) (nat w)) (CStyle c) (Link c) t2"
    unfolding t2_def t1_def by (intro painting_link painting_pen) (rule p(1))
  have bg: "nat h \<le> length q \<Longrightarrow> Bg (CStyle c) = 0" using q(2) Cons by simp
  from print_wrapped [OF p2 p(2) q(1) bg q(3) d(3) w] obtain t3 r0 where t3: "print (cell_rune c) t2 = Some t3"
    "cells r0 = stored c @ blanks (nat w - length (stored c))" "wrapped r0"
    "painting w h (shown_rows w h (q @ [r0])) (gone_rows h (q @ [r0])) (after_cols w (last_row h (q @ [r0])) (length (stored c))) (CStyle c) (Link c) t3"
    by blast
  have f3: "feeds (rune_bytes (cell_rune c)) t2 t3"
    using d(3) t3(1) by (intro feeds_rune) (simp_all add: plain_cell_def)
  define i where "i = nat (last_row h (q @ [r0]))"
  define r where "r = r0\<lparr>cells := stored c @ d @ blanks (nat w - length (stored c) - length d)\<rparr>"
  note s = shown_rows_last(1,2) [OF ps(17) i_def] shown_rows_last(3,4,5) [OF ps(17) i_def, where r' = r] shown_rows_last(6) [OF ps(17) i_def]
  have "painting w h (shown_rows w h (q @ [r0])) (gone_rows h (q @ [r0])) (after_cols w (int i) (length (stored c))) (CStyle c) (Link c) t3"
    using t3(4) s(6) by simp
  moreover have "length d \<le> nat w - length (stored c)" using sl cs(3) by simp
  moreover have "cells (shown_rows w h (q @ [r0]) ! i) = stored c @ blanks (nat w - length (stored c))" using s(2) t3(2) by simp
  ultimately have "\<exists>t'. feeds out' t3 t' \<and> painting w h ((shown_rows w h (q @ [r0]))[i := (shown_rows w h (q @ [r0]) ! i)
      \<lparr>cells := stored c @ d @ blanks (nat w - length (stored c) - length d)\<rparr>]) (gone_rows h (q @ [r0]))
      (after_cols w (int i) (length (stored c) + length d)) st' l' t'"
    using paint_cells [OF w d(2)] s(1) o(1) by blast
  then obtain t4 where t4: "feeds out' t3 t4"
    "painting w h (shown_rows w h (q @ [r])) (gone_rows h (q @ [r])) (after_cols w (last_row h (q @ [r])) (length cs)) st' l' t4"
    using s sl by (auto simp: r_def)
  have "feeds out t t4" unfolding o(2) by (intro feeds_append [OF f1] feeds_append [OF f2] feeds_append [OF f3] t4(1))
  moreover have "cells r = cs @ blanks (nat w - length cs)" "wrapped r" using d(1) sl Cons t3(3) by (simp_all add: r_def)
  ultimately show ?thesis using t4(2) by blast
qed


text \<open>The terminal before a row is painted: on a new row, or past the margin of the row it continues.\<close>

definition ready :: "int \<Rightarrow> int \<Rightarrow> row list \<Rightarrow> row \<Rightarrow> Style \<Rightarrow> bytes \<Rightarrow> Terminal \<Rightarrow> bool" where
  "ready w h p r st l t \<longleftrightarrow> (if wrapped r
     then p \<noteq> [] \<and> painting w h (shown_rows w h p) (gone_rows h p) (after_cols w (last_row h p) (nat w)) st l t
     else painting w h (shown_rows w h (p @ [newRow w])) (gone_rows h (p @ [newRow w])) (after_cols w (last_row h (p @ [newRow w])) 0) st l t)"

lemma paint_row:
  assumes w: "2 \<le> w" and r: "plain_line w r" "wrapped r \<Longrightarrow> 0 < written nx r" "writeRow r nx st l = (out, st', l')"
    and p: "ready w h p r st l t"
    and c: "wrapped r \<Longrightarrow> top_plain w h p \<and> (nat h \<le> length p \<longrightarrow> Bg (CStyle (hd (cells r))) = 0) \<and> glen p < h + DefaultScrollback"
  shows "\<exists>t'. feeds out t t' \<and> painting w h (shown_rows w h (p @ [padded w r])) (gone_rows h (p @ [padded w r]))
    (after_cols w (last_row h (p @ [padded w r])) (written nx r)) st' l' t'"
proof -
  let ?cs = "take (written nx r) (cells r)"
  note wp = written_plain(1,2) [OF r(1), of nx]
  have n: "written nx r \<le> nat w" using lastVisible_le [of r] r(1) by (simp add: plain_line_def written_def) linarith
  have wr: "write_cells ?cs st l = (out, st', l')" using r(3) by (simp add: writeRow_def written_def)
  show ?thesis
  proof (cases "wrapped r")
    case True
    note c' = c [OF True]
    have p': "painting w h (shown_rows w h p) (gone_rows h p) (after_cols w (last_row h p) (nat w)) st l t" "p \<noteq> []"
      using p True by (simp_all add: ready_def)
    have ne: "?cs \<noteq> []" using r(2) [OF True] wp(2) by auto
    have hd: "hd ?cs = hd (cells r)" using r(2) [OF True] by (cases "cells r"; cases "written nx r") simp_all
    obtain t' r' where t': "feeds out t t'" "cells r' = ?cs @ blanks (nat w - length ?cs)" "wrapped r'"
      "painting w h (shown_rows w h (p @ [r'])) (gone_rows h (p @ [r'])) (after_cols w (last_row h (p @ [r'])) (length ?cs)) st' l' t'"
      using paint_wrapped_cells [OF w wp(1) ne _ wr p'] n c' unfolding hd wp(2) by blast
    have "r' = padded w r" using t'(2,3) wp(2) True by (intro padded_written [OF r(1), of r' nx]) simp_all
    with t'(1,4) wp(2) show ?thesis by auto
  next
    case False
    define i where "i = nat (last_row h (p @ [newRow w]))"
    have p': "painting w h (shown_rows w h (p @ [newRow w])) (gone_rows h (p @ [newRow w])) (after_cols w (last_row h (p @ [newRow w])) 0) st l t"
      using p False by (simp add: ready_def)
    note s = shown_rows_last(1,2) [OF painting_simps(17) [OF p'] i_def]
      shown_rows_last(3,4,5) [OF painting_simps(17) [OF p'] i_def, where r' = "padded w r"] shown_rows_last(6) [OF painting_simps(17) [OF p'] i_def]
    have "painting w h (shown_rows w h (p @ [newRow w])) (gone_rows h (p @ [newRow w])) (after_cols w (int i) (length ([] :: Cell list))) st l t"
      using p' s(6) by simp
    moreover have "cells (shown_rows w h (p @ [newRow w]) ! i) = [] @ blanks (nat w)"
      using s(2) by (simp add: newRow_def blanks_def)
    moreover have "length ?cs \<le> nat w" using n wp(2) by simp
    ultimately have "\<exists>t'. feeds out t t' \<and> painting w h ((shown_rows w h (p @ [newRow w]))[i := (shown_rows w h (p @ [newRow w]) ! i)
        \<lparr>cells := [] @ ?cs @ blanks (nat w - length ?cs)\<rparr>]) (gone_rows h (p @ [newRow w])) (after_cols w (int i) (length ([] :: Cell list) + length ?cs)) st' l' t'"
      using paint_cells [OF w wp(1)] s(1) wr by blast
    moreover have "(newRow w)\<lparr>cells := ?cs @ blanks (nat w - written nx r)\<rparr> = padded w r"
      using False by (intro padded_written [OF r(1), of _ nx]) (simp_all add: newRow_def)
    ultimately show ?thesis using s wp(2) by simp
  qed
qed

section \<open>All rows\<close>

text \<open>The next row continues this one.\<close>

definition next_wrapped :: "row list \<Rightarrow> bool" where
  "next_wrapped rs = (case rs of [] \<Rightarrow> False | r # _ \<Rightarrow> wrapped r)"

text \<open>A row that is continued reaches the margin, and one that continues another shows something.\<close>

fun joined :: "int \<Rightarrow> row list \<Rightarrow> bool" where
  "joined w [] = True"
| "joined w (r # rs) = ((next_wrapped rs \<longrightarrow> glen (cells r) = w) \<and> (wrapped r \<longrightarrow> 0 < written (next_wrapped rs) r) \<and> joined w rs)"

text \<open>The last visible cell of a row has the default background, and so has the first one of a continuation.\<close>

definition bare_end :: "row \<Rightarrow> bool" where
  "bare_end r \<longleftrightarrow> (lastVisible r = 0 \<or> Bg (CStyle (cells r ! (lastVisible r - 1))) = 0) \<and> (wrapped r \<longrightarrow> Bg (CStyle (hd (cells r))) = 0)"

lemma write_cells_end:
  assumes "plain_cells cs" "write_cells cs st l = (out, st', l')"
  shows "st' = (if cs = [] then st else CStyle (last cs))" "l' = (if cs = [] then l else Link (last cs))"
proof -
  have "st' = (if cs = [] then st else CStyle (last cs)) \<and> l' = (if cs = [] then l else Link (last cs))"
    using assms
  proof (induction "length cs" arbitrary: cs st l out rule: less_induct)
    case less
    show ?case
    proof (cases cs)
      case (Cons c cs')
      obtain d where d: "c # cs' = stored c @ d" "plain_cells d" "length d \<le> length cs'" "plain_cell c"
        "\<And>st l. write_cells cs' st l = write_cells d st l"
        using plain_rest less.prems(1) unfolding Cons by blast
      have wc: "Width c \<noteq> 0" using d(4) by (auto simp: plain_cell_def)
      obtain out' where "write_cells d (CStyle c) (Link c) = (out', st', l')"
        using less.prems(2) wc unfolding Cons
        by (cases "write_cells d (CStyle c) (Link c)") (auto simp: d(5))
      with less.hyps [of d "CStyle c" "Link c" out'] d(2,3) Cons
      have "st' = (if d = [] then CStyle c else CStyle (last d)) \<and> l' = (if d = [] then Link c else Link (last d))" by simp
      moreover have "CStyle (last (stored c)) = CStyle c" "Link (last (stored c)) = Link c"
        by (simp_all add: stored_def continuation_def)
      moreover have "last cs = (if d = [] then last (stored c) else last d)" using d(1) Cons by auto
      ultimately show ?thesis using Cons by simp
    qed (use less.prems in simp)
  qed
  then show "st' = (if cs = [] then st else CStyle (last cs))" "l' = (if cs = [] then l else Link (last cs))" by simp_all
qed

lemma writeRow_end:
  assumes "plain_line w r" "writeRow r nx st l = (out, st', l')" "bare_end r" "Bg st = 0"
  shows "Bg st' = 0"
proof -
  let ?cs = "take (written nx r) (cells r)"
  note wp = written_plain(1,2) [OF assms(1), of nx]
  have st: "st' = (if ?cs = [] then st else CStyle (last ?cs))"
    using assms(2) by (intro write_cells_end(1) [OF wp(1), of st l out]) (simp add: writeRow_def written_def)
  show ?thesis
  proof (cases "?cs = []")
    case False
    have "last ?cs = cells r ! (written nx r - 1)" "written nx r \<le> length (cells r)" "0 < written nx r"
      using False wp(2) lastVisible_le [of r] by (auto simp: last_conv_nth written_def)
    moreover have "Bg (CStyle (cells r ! i)) = 0" if "lastVisible r \<le> i" "i < length (cells r)" for i
    proof -
      have "cells r ! i = drop (lastVisible r) (cells r) ! (i - lastVisible r)" using that by simp
      also have "\<dots> = blankCell zeroStyle"
        unfolding assms(1) [unfolded plain_line_def, THEN conjunct2, THEN conjunct2] using that by (simp add: blanks_def)
      finally show ?thesis by (simp add: blankCell_def zeroStyle_def)
    qed
    moreover have "lastVisible r = written nx r" if "\<not> lastVisible r \<le> written nx r - 1"
      using that lastVisible_le [of r] by (auto simp: written_def split: if_splits)
    ultimately show ?thesis
      using st False assms(3) by (cases "lastVisible r \<le> written nx r - 1") (auto simp: bare_end_def)
  qed (use st assms(4) in simp)
qed

lemma top_plainI:
  assumes "\<not> list_ex wrapped (take k (q @ rs))" "length q + 1 < k + nat h" "1 \<le> h"
  shows "top_plain w h q"
proof -
  have "\<not> wrapped ((q @ [newRow w]) ! Suc (length q - nat h))" if h: "nat h \<le> length q"
  proof (cases "Suc (length q - nat h) < length q")
    case True
    moreover have "Suc (length q - nat h) < k" using assms(2) h by linarith
    ultimately have "q ! Suc (length q - nat h) \<in> set (take k (q @ rs))"
      by (auto simp: in_set_conv_nth nth_append intro!: exI [of _ "Suc (length q - nat h)"])
    then show ?thesis using assms(1) True by (auto simp: list_ex_iff nth_append)
  next
    case False
    then have "Suc (length q - nat h) = length q" using h assms(3) by linarith
    then show ?thesis by (simp add: nth_append newRow_def)
  qed
  then show ?thesis by (simp add: top_plain_def)
qed

lemma wrapped_take_padded: "list_ex wrapped (take k (p @ padded w r # rs)) = list_ex wrapped (take k (p @ r # rs))"
  by (cases "k - length p") (simp_all add: padded_def)

lemma paint_lines:
  assumes w: "2 \<le> w"
  shows "list_all (plain_line w) rs \<Longrightarrow> joined w rs \<Longrightarrow> rs \<noteq> [] \<Longrightarrow> write_rows rs False lb st l = (out, st', l')
    \<Longrightarrow> ready w h p (hd rs) st l t
    \<Longrightarrow> \<not> list_ex wrapped (take k (p @ rs))
    \<Longrightarrow> length p + length rs + (if lb then 1 else 0) < k + nat h
    \<Longrightarrow> (int (length p + length rs + (if lb then 1 else 0)) > h \<Longrightarrow> list_all bare_end rs \<and> Bg st = 0)
    \<Longrightarrow> int (length p + length rs) < h + DefaultScrollback + (if lb then 0 else 1)
    \<Longrightarrow> (\<exists>t'. feeds out t t' \<and> (int (length p + length rs + (if lb then 1 else 0)) > h \<longrightarrow> Bg st' = 0) \<and>
      (let q = p @ map (padded w) rs @ (if lb then [newRow w] else []) in
       painting w h (shown_rows w h q) (gone_rows h q)
         (after_cols w (last_row h q) (if lb then 0 else lastVisible (last rs))) st' l' t'))"
proof (induction rs arbitrary: p st l t out)
  case (Cons r rs)
  have r: "plain_line w r" "list_all (plain_line w) rs" "joined w rs" using Cons.prems(1,2) by simp_all
  let ?nx = "next_wrapped rs" and ?q = "p @ [padded w r]" and ?more = "int (length p + length (r # rs) + (if lb then 1 else 0)) > h"
  obtain o1 st1 l1 where o1: "writeRow r ?nx st l = (o1, st1, l1)" by (cases "writeRow r ?nx st l")
  obtain o2 where o2: "write_rows rs False lb st1 l1 = (o2, st', l')"
    "out = o1 @ (if \<not> ?nx \<and> (rs \<noteq> [] \<or> lb) then [0x0d, 0x0a] else []) @ o2"
    using Cons.prems(4) o1
    by (cases "write_rows rs False lb st1 l1") (simp add: next_wrapped_def [symmetric] Let_def split: if_splits)
  have h1: "1 \<le> h" using Cons.prems(5) painting_simps(17) by (auto simp: ready_def split: if_splits)
  have c: "top_plain w h p \<and> (nat h \<le> length p \<longrightarrow> Bg (CStyle (hd (cells r))) = 0) \<and> glen p < h + DefaultScrollback" if "wrapped r"
  proof (intro conjI impI)
    show "top_plain w h p" using Cons.prems(6,7) h1 by (intro top_plainI [of k p "r # rs"]) simp_all
    show "Bg (CStyle (hd (cells r))) = 0" if "nat h \<le> length p"
      using Cons.prems(8) that \<open>wrapped r\<close> by (auto simp: bare_end_def)
    show "glen p < h + DefaultScrollback" using Cons.prems(9) by (simp split: if_splits)
  qed
  have "wrapped r \<Longrightarrow> 0 < written ?nx r" "ready w h p r st l t" using Cons.prems(2,5) by simp_all
  from paint_row [OF w r(1) this(1) o1 this(2) c] obtain t1 where t1: "feeds o1 t t1"
    "painting w h (shown_rows w h ?q) (gone_rows h ?q) (after_cols w (last_row h ?q) (written ?nx r)) st1 l1 t1" by blast
  have bg1: "Bg st1 = 0" if ?more
    using Cons.prems(8) [OF that] writeRow_end [OF r(1) o1] by simp
  have nw: "\<not> list_ex wrapped (take k (?q @ rs))" using Cons.prems(6) by (simp only: append.assoc append_Cons append_Nil wrapped_take_padded not_False_eq_True)
  have more: "int (length ?q + length rs + (if lb then 1 else 0)) > h \<Longrightarrow> list_all bare_end rs \<and> Bg st1 = 0"
    using Cons.prems(8) bg1 by simp
  have lim: "int (length ?q + length rs) < h + DefaultScrollback + (if lb then 0 else 1)"
    "length ?q + length rs + (if lb then 1 else 0) < k + nat h" using Cons.prems(7,9) by simp_all
  have on: ?case if f: "feeds o3 t1 t2" "out = o1 @ o3 @ o2" "ready w h ?q (hd rs) st1 l1 t2" and ne: "rs \<noteq> []" for o3 t2
  proof -
    from Cons.IH [OF r(2,3) ne o2(1) f(3) nw lim(2) more lim(1)]
    obtain t3 where t3: "feeds o2 t2 t3" "int (length ?q + length rs + (if lb then 1 else 0)) > h \<longrightarrow> Bg st' = 0"
      "let q = ?q @ map (padded w) rs @ (if lb then [newRow w] else []) in
       painting w h (shown_rows w h q) (gone_rows h q)
         (after_cols w (last_row h q) (if lb then 0 else lastVisible (last rs))) st' l' t3"
      by blast
    have "feeds out t t3" unfolding f(2) by (intro feeds_append [OF t1(1)] feeds_append [OF f(1)] t3(1))
    with t3(2,3) ne show ?thesis by (auto simp: Let_def)
  qed
  show ?case
  proof (cases ?nx)
    case True
    then have ne: "rs \<noteq> []" "wrapped (hd rs)" by (auto simp: next_wrapped_def split: list.splits)
    have "written ?nx r = nat w" using Cons.prems(2) True by (auto simp: written_def)
    then have "ready w h ?q (hd rs) st1 l1 t1" using t1(2) ne by (simp add: ready_def)
    then show ?thesis using o2(2) True ne by (intro on [of "[]" t1]) simp_all
  next
    case nx: False
    show ?thesis
    proof (cases "rs = [] \<and> \<not> lb")
      case True
      then have "out = o1" "st' = st1" "l' = l1" using o2 by simp_all
      with t1 bg1 True show ?thesis by (auto simp: Let_def next_wrapped_def written_def)
    next
      case False
      have "\<exists>t2. feeds [0x0d, 0x0a] t1 t2 \<and> painting w h (shown_rows w h (?q @ [newRow w])) (gone_rows h (?q @ [newRow w]))
        (after_cols w (last_row h (?q @ [newRow w])) 0) st1 l1 t2"
      proof (rule paint_newline [OF t1(2)])
        show "cy (after_cols w (last_row h ?q) (written ?nx r)) = last_row h ?q" by (simp add: after_cols_def)
        show "top_plain w h ?q" using nw lim(2) False h1 by (intro top_plainI [of k ?q rs]) (cases rs; simp)+
        show "Bg st1 = 0" if "nat h \<le> length ?q"
          by (rule bg1) (use that False in \<open>cases rs; simp\<close>)
        show "glen ?q < h + DefaultScrollback" using Cons.prems(9) False by (cases rs) (simp_all split: if_splits)
      qed simp
      then obtain t2 where t2: "feeds [0x0d, 0x0a] t1 t2" "painting w h (shown_rows w h (?q @ [newRow w])) (gone_rows h (?q @ [newRow w]))
        (after_cols w (last_row h (?q @ [newRow w])) 0) st1 l1 t2" by blast
      have out: "out = o1 @ [0x0d, 0x0a] @ o2" using o2(2) nx False by auto
      show ?thesis
      proof (cases "rs = []")
        case True
        then have "o2 = []" "st' = st1" "l' = l1" using o2(1) by simp_all
        with t2 bg1 True False show ?thesis
          unfolding out by (auto simp: Let_def intro!: exI [of _ t2] feeds_append [OF t1(1)])
      next
        case ne: False
        then have "\<not> wrapped (hd rs)" using nx by (cases rs) (simp_all add: next_wrapped_def)
        then have "ready w h ?q (hd rs) st1 l1 t2" using t2(2) by (simp add: ready_def)
        then show ?thesis by (intro on [OF t2(1) out _ ne])
      qed
    qed
  qed
qed simp

end
