(* ===== verification/Rebuild.thy ===== *)
theory Rebuild
  imports Restore
begin

text \<open>
  The rest of a snapshot (\<open>src/internal/vterm/snapshot.go\<close>), behind the rows of the main screen:
  its saved cursor, region and cursor, then the modes; and what the whole snapshot rebuilds.
\<close>

section \<open>Behind the rows\<close>

text \<open>The terminal once the rows are painted: the rest of the main screen is put back.\<close>

definition staged :: "int \<Rightarrow> int \<Rightarrow> screen \<Rightarrow> bool \<Rightarrow> Terminal \<Rightarrow> bool" where
  "staged w h s org t \<longleftrightarrow> 1 \<le> w \<and> 1 \<le> h \<and> (\<exists>lp b. t = (New w h)\<lparr>cursorVisible := False, origin := org, t_main := s,
     pen := zeroStyle, link := [], lastPrinted := lp, blankRow := b\<rparr>)"

lemma stagedE:
  assumes "staged w h s org t"
  obtains lp b where "1 \<le> w" "1 \<le> h" "t = (New w h)\<lparr>cursorVisible := False, origin := org, t_main := s,
     pen := zeroStyle, link := [], lastPrinted := lp, blankRow := b\<rparr>"
  using assms by (auto simp: staged_def)

lemma stagedI:
  "1 \<le> w \<Longrightarrow> 1 \<le> h \<Longrightarrow> t = (New w h)\<lparr>cursorVisible := False, origin := org, t_main := s, pen := zeroStyle, link := [],
     lastPrinted := lp, blankRow := b\<rparr> \<Longrightarrow> staged w h s org t"
  unfolding staged_def by blast

lemma staged_simps:
  assumes "staged w h s org t"
  shows "act t = s" "tcur t = cur s" "t_w t = w" "t_h t = h" "t_s t = MainScr" "pen t = zeroStyle" "link t = []"
    "origin t = org" "autowrap t" "\<not> insertMode t" "charsets t = [charsetASCII, charsetASCII]" "glIndex t = 0" "1 \<le> w" "1 \<le> h"
proof -
  obtain lp b where t: "1 \<le> w" "1 \<le> h" "t = (New w h)\<lparr>cursorVisible := False, origin := org, t_main := s,
     pen := zeroStyle, link := [], lastPrinted := lp, blankRow := b\<rparr>"
    using assms by (rule stagedE)
  note n = New_fields [OF t(1,2)]
  show "act t = s" by (simp add: t(3) act_def deref_def n)
  then show "tcur t = cur s" by (simp add: tcur_def)
  show "t_w t = w" "t_h t = h" "t_s t = MainScr" "pen t = zeroStyle" "link t = []"
    "origin t = org" "autowrap t" "\<not> insertMode t" "charsets t = [charsetASCII, charsetASCII]" "glIndex t = 0" "1 \<le> w" "1 \<le> h"
    by (simp_all add: t n)
qed

lemma staged_painting:
  assumes "painting w h rs sb c zeroStyle [] t"
  shows "staged w h ((newScreen w h)\<lparr>rows := rs, cur := c, scrollback := sb\<rparr>) False t"
proof -
  note ps = painting_simps [OF assms]
  obtain lp b where t: "t = (New w h)\<lparr>cursorVisible := False,
    t_main := (newScreen w h)\<lparr>rows := rs, cur := c, scrollback := sb\<rparr>, pen := zeroStyle, link := [], lastPrinted := lp, blankRow := b\<rparr>"
    using assms by (rule paintingE)
  have "t = t\<lparr>origin := False\<rparr>" using ps(10) by (cases t) simp
  also have "\<dots> = (New w h)\<lparr>cursorVisible := False, origin := False,
    t_main := (newScreen w h)\<lparr>rows := rs, cur := c, scrollback := sb\<rparr>, pen := zeroStyle, link := [], lastPrinted := lp, blankRow := b\<rparr>"
    by (simp only: t, simp)
  finally show ?thesis using ps(16,17) by (intro stagedI [where lp = lp and b = b])
qed

lemma staged_set_act: "staged w h s org t \<Longrightarrow> staged w h s' org (set_act s' t)"
proof -
  assume a: "staged w h s org t"
  then obtain lp b where t: "1 \<le> w" "1 \<le> h" "t = (New w h)\<lparr>cursorVisible := False, origin := org, t_main := s,
     pen := zeroStyle, link := [], lastPrinted := lp, blankRow := b\<rparr>" by (rule stagedE)
  have "set_act s' t = t\<lparr>t_main := s'\<rparr>" using staged_simps(5) [OF a] by (simp add: set_act_def assign_def)
  then show ?thesis using t by (intro stagedI [where lp = lp and b = b]) simp_all
qed

lemma staged_cursor:
  assumes "staged w h s org t"
  shows "staged w h (s\<lparr>cur := c\<rparr>) org (set_cur c t)"
  using staged_set_act [OF assms, of "s\<lparr>cur := c\<rparr>"] staged_simps(1) [OF assms] by (simp add: set_cur_def)

lemma staged_move:
  assumes "staged w h s org t" "0 \<le> x" "x < w" "(if org then s_top s else 0) \<le> y" "y \<le> (if org then s_bot s else h - 1)"
  shows "staged w h (s\<lparr>cur := \<lparr>cx = x, cy = y, pendingWrap = False\<rparr>\<rparr>) org (moveCursor x y t)"
proof -
  note ss = staged_simps [OF assms(1)]
  have "moveCursor x y t = set_cur \<lparr>cx = x, cy = y, pendingWrap = False\<rparr> t"
    using assms(2-5) ss(1,3,4,8) by (cases org) (simp_all add: moveCursor_def Let_def)
  with staged_cursor [OF assms(1)] show ?thesis by simp
qed

lemma feeds_save: "feeds (esc ''7'') t (saveCursor t)"
proof (rule feeds_ascii)
  show "list_all (\<lambda>b. b < 0x80) (esc ''7'')" by (simp add: esc_def)
  fix p assume p: "parser_ready p"
  define q1 where "q1 = (resetCSI p)\<lparr>pstate := stateEscape\<rparr>"
  define q where "q = (resetCSI p)\<lparr>pstate := stateGround\<rparr>"
  have "feedByte 0x1b (at_parser p t) = Some (at_parser q1 t)"
    using p by (simp add: feedByte_def feed_control_def begin_escape_def parser_ready_def q1_def o_def)
  moreover have "feedByte 0x37 (at_parser q1 t) = escDispatch 0 0x37 (at_parser q t)"
    by (simp add: feedByte_def feed_escape_def is_intermediate_def set_pstate_def q1_def q_def o_def)
  moreover have "escDispatch 0 0x37 (at_parser q t) = Some (at_parser q (saveCursor t))"
    by (simp add: escDispatch_def cursor_tp)
  moreover have "parser_ready q" using p by (simp add: parser_ready_def q_def)
  ultimately show "\<exists>q. run feedByte (esc ''7'') (at_parser p t) = Some (at_parser q (saveCursor t)) \<and> parser_ready q"
    by (intro exI [of _ q]) (simp add: esc_def)
qed


section \<open>The pieces behind the rows\<close>

lemma feeds_leave:
  assumes "painting w h rs sb c st l t"
  shows "\<exists>t'. feeds ((if \<not> IsZero st then esc ''[0m'' else []) @ (if l \<noteq> [] then osc_link [] else [])) t t'
    \<and> painting w h rs sb c zeroStyle [] t'"
proof -
  note ps = painting_simps [OF assms]
  define t1 where "t1 = t\<lparr>pen := zeroStyle\<rparr>"
  have "feeds (if \<not> IsZero st then esc ''[0m'' else []) t t1"
  proof (cases "st = zeroStyle")
    case True
    then have "t1 = t" using ps(6) by (cases t) (simp add: t1_def)
    then show ?thesis using True by (simp add: IsZero_def)
  qed (use feeds_reset [of t] in \<open>simp add: t1_def IsZero_def\<close>)
  moreover have "feeds (if l \<noteq> [] then osc_link [] else []) t1 (t1\<lparr>link := []\<rparr>)"
  proof (cases "l = []")
    case True
    then have "t1\<lparr>link := []\<rparr> = t1" using ps(7) by (cases t) (simp add: t1_def)
    then show ?thesis using True by simp
  qed (use feeds_link [of "[]" t1] in simp)
  ultimately have "feeds ((if \<not> IsZero st then esc ''[0m'' else []) @ (if l \<noteq> [] then osc_link [] else [])) t (t1\<lparr>link := []\<rparr>)"
    by (rule feeds_append)
  moreover have "painting w h rs sb c zeroStyle [] (t1\<lparr>link := []\<rparr>)"
    unfolding t1_def by (rule painting_link [OF painting_pen [OF assms]])
  ultimately show ?thesis by blast
qed

text \<open>A saved cursor that the sequence DECSC reproduces: nothing but its position and pen is written.\<close>

definition saved_ok :: "int \<Rightarrow> int \<Rightarrow> savedCursor \<Rightarrow> bool" where
  "saved_ok w h sv \<longleftrightarrow> (if sv_valid sv then style_ok (sv_pen sv) \<and> sv_link sv = [] \<and> sv_charset sv = 0
       \<and> sv_g sv = [charsetASCII, charsetASCII] \<and> \<not> sv_origin sv \<and> 0 \<le> sv_x sv \<and> sv_x sv < w \<and> 0 \<le> sv_y sv \<and> sv_y sv < h
     else sv = zeroSaved)"

lemma feeds_saved:
  assumes "staged w h s False t" "saved_ok w h sv" "w < 2 ^ 24" "h < 2 ^ 24" "saved s = zeroSaved"
  shows "\<exists>t' c. feeds (write_saved sv) t t' \<and> staged w h (s\<lparr>cur := c, saved := sv\<rparr>) False t'"
proof (cases "sv_valid sv")
  case True
  note ss = staged_simps [OF assms(1)]
  note sv = assms(2) [unfolded saved_ok_def if_P [OF True]]
  define c where "c = \<lparr>cx = sv_x sv, cy = sv_y sv, pendingWrap = False\<rparr>"
  define t1 where "t1 = t\<lparr>pen := sv_pen sv\<rparr>"
  define t2 where "t2 = set_cur c t1"
  have a1: "act t1 = s" "t_w t1 = w" "t_h t1 = h" "\<not> origin t1" "t_s t1 = MainScr"
    using ss by (simp_all add: t1_def)
  have m: "moveCursor (sv_x sv) (sv_y sv) t1 = t2"
    using a1 sv by (simp add: moveCursor_def Let_def t2_def c_def)
  have f: "feeds (write_saved sv) t ((saveCursor t2)\<lparr>pen := zeroStyle\<rparr>)"
  proof -
    have "feeds (sgrSequence (sv_pen sv)) t t1" unfolding t1_def using sv by (intro feeds_sgr) simp
    moreover have "feeds (cup (sv_x sv) (sv_y sv)) t1 t2"
      unfolding m [symmetric] using a1 sv assms(3,4) by (intro feeds_cup) simp_all
    ultimately show ?thesis
      using True by (auto simp: write_saved_def intro!: feeds_append feeds_save feeds_reset)
  qed
  have sc: "saveCursor t2 = t1\<lparr>t_main := s\<lparr>cur := c, saved := sv\<rparr>\<rparr>"
    using a1 ss sv True by (simp add: saveCursor_def t2_def set_cur_def tcur_def c_def t1_def set_act_def assign_def act_def deref_def)
  have "(saveCursor t2)\<lparr>pen := zeroStyle\<rparr> = set_act (s\<lparr>cur := c, saved := sv\<rparr>) t"
    using ss(5,6) unfolding sc by (cases t) (simp add: t1_def set_act_def assign_def)
  with f staged_set_act [OF assms(1)] show ?thesis by metis
next
  case False
  then have "s\<lparr>cur := cur s, saved := sv\<rparr> = s" using assms(2,5) by (cases s) (simp add: saved_ok_def)
  then have "staged w h (s\<lparr>cur := cur s, saved := sv\<rparr>) False t" by (simp only: assms(1))
  with False show ?thesis by (intro exI [of _ t] exI [of _ "cur s"]) (simp add: write_saved_def)
qed

lemma feeds_scroll_region:
  assumes "staged w h s False t" "0 \<le> a" "a \<noteq> 0 \<or> b \<noteq> h - 1 \<Longrightarrow> a < b" "b < h" "h < 2 ^ 24" "s_top s = 0" "s_bot s = h - 1"
  shows "\<exists>t' c. feeds (if a \<noteq> 0 \<or> b \<noteq> h - 1 then esc ''['' @ Itoa (a + 1) @ ascii '';'' @ Itoa (b + 1) @ ascii ''r'' else []) t t'
    \<and> staged w h (s\<lparr>cur := c, s_top := a, s_bot := b\<rparr>) False t'"
proof (cases "a \<noteq> 0 \<or> b \<noteq> h - 1")
  case True
  note ss = staged_simps [OF assms(1)]
  have st: "staged w h (s\<lparr>s_top := a, s_bot := b\<rparr>) False (set_act ((act t)\<lparr>s_top := a, s_bot := b\<rparr>) t)"
    using staged_set_act [OF assms(1)] ss(1) by simp
  have e: "s\<lparr>s_top := a, s_bot := b, cur := c\<rparr> = s\<lparr>cur := c, s_top := a, s_bot := b\<rparr>" for c by simp
  have "staged w h (s\<lparr>cur := \<lparr>cx = 0, cy = 0, pendingWrap = False\<rparr>, s_top := a, s_bot := b\<rparr>) False
    (moveCursor 0 0 (set_act ((act t)\<lparr>s_top := a, s_bot := b\<rparr>) t))"
    unfolding e [symmetric] using ss(13,14) by (intro staged_move [OF st]) simp_all
  moreover have "feeds (esc ''['' @ Itoa (a + 1) @ ascii '';'' @ Itoa (b + 1) @ ascii ''r'') t
    (moveCursor 0 0 (set_act ((act t)\<lparr>s_top := a, s_bot := b\<rparr>) t))"
    using assms(2,4,5) assms(3) [OF True] ss(4) by (intro feeds_region) simp_all
  ultimately show ?thesis
    unfolding if_P [OF True] by blast
next
  case False
  then have "s\<lparr>cur := cur s, s_top := a, s_bot := b\<rparr> = s" using assms(6,7) by (cases s) simp
  then have "staged w h (s\<lparr>cur := cur s, s_top := a, s_bot := b\<rparr>) False t" by (simp only: assms(1))
  then show ?thesis unfolding if_not_P [OF False] by blast
qed


lemma feeds_cup_at:
  assumes "0 \<le> x" "x < 2 ^ 24" "0 \<le> y" "y < 2 ^ 24"
  shows "feeds (cup x y) t (moveCursor x (if origin t then y + s_top (act t) else y) t)"
proof -
  let ?qs = "[plain (y + 1), plain (x + 1)]" and ?u = "moveCursor x (if origin t then y + s_top (act t) else y) t"
  have "feeds (0x1b # 0x5b # csi_prefix 0 @ render ?qs @ [0x48]) t ?u"
  proof (rule feeds_csi)
    fix p assume p: "parser_ready p" "intermediate p = 0" "priv p = 0" "view p = ?qs"
    have s: "list_all shown ?qs" using assms by simp
    from view_params(3) [OF p(1,4) s, of 0 1] view_params(3) [OF p(1,4) s, of 1 1] assms
    have v: "param p 0 1 = Some (y + 1)" "param p 1 1 = Some (x + 1)" by (simp_all add: plain_def)
    show "csiDispatch 0x48 (at_parser p t) = Some (at_parser p ?u)"
      using p v by (simp add: csiDispatch_def cursor_tp)
  qed (use assms in \<open>simp_all add: not_sub_plain\<close>)
  then show ?thesis by (simp add: cup_def esc_def csi_prefix_def plain_def is_sub_def)
qed

lemma staged_origin:
  assumes "staged w h s org t"
  shows "staged w h s org' (t\<lparr>origin := org'\<rparr>)"
proof -
  from assms obtain lp b where t: "1 \<le> w" "1 \<le> h" "t = (New w h)\<lparr>cursorVisible := False, origin := org, t_main := s,
     pen := zeroStyle, link := [], lastPrinted := lp, blankRow := b\<rparr>" by (rule stagedE)
  then show ?thesis by (intro stagedI [where lp = lp and b = b]) simp_all
qed

lemma staged_last:
  assumes "staged w h s org t"
  shows "staged w h s org (t\<lparr>lastPrinted := r\<rparr>)"
proof -
  from assms obtain lp b where t: "1 \<le> w" "1 \<le> h" "t = (New w h)\<lparr>cursorVisible := False, origin := org, t_main := s,
     pen := zeroStyle, link := [], lastPrinted := lp, blankRow := b\<rparr>" by (rule stagedE)
  then show ?thesis by (intro stagedI [where lp = r and b = b]) simp_all
qed

lemma feeds_origin: "feeds (esc ''[?6h'') t (moveCursor 0 0 (t\<lparr>origin := True\<rparr>))"
proof -
  have "esc ''[?'' @ Itoa 6 @ ascii ''h'' = esc ''[?6h''" by code_simp
  with feeds_private(1) [of 6 t] show ?thesis by (simp add: set_private_mode_def)
qed

lemma feeds_place:
  assumes "staged w h s False t" "0 \<le> x" "x < w" "0 \<le> y" "y < h" "w < 2 ^ 24" "h < 2 ^ 24"
    and reg: "0 \<le> s_top s" "s_top s \<le> s_bot s" "s_bot s < h" "org \<Longrightarrow> s_top s \<le> y \<and> y \<le> s_bot s"
  shows "\<exists>t'. feeds (if org then esc ''[?6h'' @ cup x (y - s_top s) else cup x y) t t'
    \<and> staged w h (s\<lparr>cur := \<lparr>cx = x, cy = y, pendingWrap = False\<rparr>\<rparr>) org t'"
proof (cases org)
  case True
  note o = reg(4) [OF True]
  have st: "staged w h (s\<lparr>cur := \<lparr>cx = 0, cy = s_top s, pendingWrap = False\<rparr>\<rparr>) True (moveCursor 0 (s_top s) (t\<lparr>origin := True\<rparr>))"
    using staged_simps(13) [OF assms(1)] reg by (intro staged_move [OF staged_origin [OF assms(1)]]) simp_all
  have m: "moveCursor 0 0 (t\<lparr>origin := True\<rparr>) = moveCursor 0 (s_top s) (t\<lparr>origin := True\<rparr>)"
    using reg staged_simps(1) [OF staged_origin [OF assms(1), of True]] by (simp add: moveCursor_def Let_def)
  let ?u = "moveCursor 0 0 (t\<lparr>origin := True\<rparr>)"
  note ss = staged_simps [OF st, folded m]
  have "feeds (cup x (y - s_top s)) ?u (moveCursor x y ?u)"
    using feeds_cup_at [of x "y - s_top s" ?u] ss(1,8) o assms by simp
  moreover have "staged w h (s\<lparr>cur := \<lparr>cx = 0, cy = s_top s, pendingWrap = False\<rparr>, cur := \<lparr>cx = x, cy = y, pendingWrap = False\<rparr>\<rparr>) True (moveCursor x y ?u)"
    unfolding m using o assms(2,3) by (intro staged_move [OF st]) simp_all
  ultimately show ?thesis
    using True feeds_append [OF feeds_origin [of t]] by auto
next
  case False
  have "feeds (cup x y) t (moveCursor x y t)"
    using feeds_cup_at [of x y t] staged_simps(8) [OF assms(1)] assms by simp
  moreover have "staged w h (s\<lparr>cur := \<lparr>cx = x, cy = y, pendingWrap = False\<rparr>\<rparr>) False (moveCursor x y t)"
    using assms by (intro staged_move) simp_all
  ultimately show ?thesis using False by auto
qed

text \<open>A cursor past the last column: the last cell is written again.\<close>

lemma feeds_pending:
  assumes st: "staged w h s org t" "cur s = \<lparr>cx = w - 1, cy = y, pendingWrap = False\<rparr>"
    and r: "gidx (rows s) y = Some r" "glen (cells r) = w" "c = cells r ! nat (w - 1)"
    and c: "plain_cell c" "Width c = 1" "Ch c \<noteq> []" "Link c = []"
  shows "\<exists>t'. feeds (sgrSequence (CStyle c) @ Ch c @ esc ''[0m'') t t'
    \<and> staged w h (s\<lparr>cur := \<lparr>cx = w - 1, cy = y, pendingWrap = True\<rparr>\<rparr>) org t'"
proof -
  note ss = staged_simps [OF st(1)]
  define s' where "s' = s\<lparr>cur := \<lparr>cx = w - 1, cy = y, pendingWrap = True\<rparr>\<rparr>"
  define q where "q = t\<lparr>lastPrinted := cell_rune c\<rparr>"
  define t1 where "t1 = q\<lparr>pen := CStyle c\<rparr>"
  have a1: "act t1 = s" "tcur t1 = cur s" "t_w t1 = w" "\<not> insertMode t1" "link t1 = []" "pen t1 = CStyle c"
    using ss by (simp_all add: t1_def q_def)
  have i: "nat (w - 1) < length (cells r)" using r(2) ss(13) by linarith
  have e: "\<lparr>Ch = char_bytes (cell_rune c), Width = Width c, CStyle = CStyle c, Link = []\<rparr> = c"
    using c by (cases c) (simp add: plain_cell_def)
  have put: "put_cells (cell_rune c) 1 (w - 1) t1 (cells r) = Some (cells r)"
  proof -
    have "gidx (cells r) (w - 1) = Some c" using i ss(13) r(3) by (simp add: gidx_def)
    moreover have "gset (cells r) (w - 1) c = Some (cells r)" using i ss(13) r(3) by (simp add: gset_def)
    ultimately show ?thesis using e a1 c(2) by (simp add: put_cells_def)
  qed
  have y: "0 \<le> y" "nat y < length (rows s)" "rows s ! nat y = r" using r(1) by (auto simp: gidx_def split: if_splits)
  have sr: "set_row y r t1 = Some (set_act s t1)"
  proof -
    have "(rows s)[nat y := r] = rows s" using y by (metis list_update_id)
    then have "s\<lparr>rows := (rows s)[nat y := r]\<rparr> = s" by simp
    then show ?thesis using a1 y by (simp add: set_row_def gset_def)
  qed
  have sa: "set_act s t1 = t1" using a1(1) ss(5) by (cases t) (auto simp: t1_def q_def set_act_def assign_def act_def deref_def)
  have adv: "advance 1 t1 = set_act s' t1" using a1 st(2) by (simp add: advance_def set_cur_def s'_def)
  have "runeWidth (cell_rune c) = Some 1" using c by (simp add: plain_cell_def)
  moreover have "print_glyph (cell_rune c) 1 (t\<lparr>pen := CStyle c\<rparr>) = Some (set_act s' t1)"
  proof -
    have "(t\<lparr>pen := CStyle c\<rparr>)\<lparr>lastPrinted := cell_rune c\<rparr> = t1" by (simp add: t1_def q_def)
    then show ?thesis
      unfolding print_glyph_def using a1 st(2) r(1) put sr sa adv
      by (simp only: print_wrap_def) (simp add: print_cell_def get_row_def)
  qed
  ultimately have pr: "print (cell_rune c) (t\<lparr>pen := CStyle c\<rparr>) = Some (set_act s' t1)"
    using ss(11,12) by (simp add: print_def translate_def Let_def)
  have "feeds (sgrSequence (CStyle c)) t (t\<lparr>pen := CStyle c\<rparr>)" using c by (intro feeds_sgr) (simp add: plain_cell_def)
  moreover have "feeds (Ch c) (t\<lparr>pen := CStyle c\<rparr>) (set_act s' t1)"
    using feeds_rune [OF _ pr] plain_out [OF c(1)] c(1,3) by (simp add: plain_cell_def)
  ultimately have "feeds (sgrSequence (CStyle c) @ Ch c @ esc ''[0m'') t ((set_act s' t1)\<lparr>pen := zeroStyle\<rparr>)"
    by (rule feeds_append [OF _ feeds_append [OF _ feeds_reset]])
  moreover have "(set_act s' t1)\<lparr>pen := zeroStyle\<rparr> = set_act s' q"
    using ss(5,6) by (cases t) (simp add: t1_def q_def set_act_def assign_def)
  moreover have "staged w h s' org (set_act s' q)"
    unfolding q_def by (intro staged_set_act [of w h s] staged_last st(1))
  ultimately show ?thesis unfolding s'_def by metis
qed


section \<open>The modes\<close>

text \<open>What \<open>write_modes\<close> can reproduce: the values a terminal can have, and no longer text than fits an
  OSC string.\<close>

definition modes_ok :: "Terminal \<Rightarrow> bool" where
  "modes_ok t \<longleftrightarrow> style_ok (pen t) \<and> osc_safe (link t) \<and> osc_safe (title t) \<and> length (charsets t) = 2
     \<and> (glIndex t = 0 \<or> glIndex t = 1) \<and> mouse t \<in> {0, 9, 1000, 1002, 1003} \<and> mouseEnc t \<in> {0, 1005, 1006, 1015}
     \<and> 0 \<le> cursorStyle t \<and> cursorStyle t \<le> 2 ^ 24"

definition with_modes :: "Terminal \<Rightarrow> Terminal \<Rightarrow> Terminal" where
  "with_modes t u = u\<lparr>pen := pen t, link := link t, charsets := charsets t, glIndex := glIndex t, insertMode := insertMode t,
     lineFeedNewline := lineFeedNewline t, cursorKeys := cursorKeys t, autowrap := autowrap t, bracketedPaste := bracketedPaste t,
     focusEvents := focusEvents t, mouse := mouse t, mouseEnc := mouseEnc t, cursorStyle := cursorStyle t, title := title t,
     cursorVisible := cursorVisible t\<rparr>"

lemma feeds_emit: "(b \<Longrightarrow> feeds s t u) \<Longrightarrow> (\<not> b \<Longrightarrow> u = t) \<Longrightarrow> feeds (emit_if b s) t u"
  by (cases b) (simp_all add: emit_if_def)

lemma feeds_private_named:
  "feeds (esc ''[?1h'') t (t\<lparr>cursorKeys := True\<rparr>)" "feeds (esc ''[?7l'') t (t\<lparr>autowrap := False\<rparr>)"
  "feeds (esc ''[?2004h'') t (t\<lparr>bracketedPaste := True\<rparr>)" "feeds (esc ''[?1004h'') t (t\<lparr>focusEvents := True\<rparr>)"
  "feeds (esc ''[?25h'') t (t\<lparr>cursorVisible := True\<rparr>)" "feeds (esc ''[?25l'') t (t\<lparr>cursorVisible := False\<rparr>)"
  "feeds (esc ''[?7h'') t (t\<lparr>autowrap := True\<rparr>)" "feeds (esc ''[?6l'') t (moveCursor 0 0 (t\<lparr>origin := False\<rparr>))"
proof -
  have e: "esc ''[?'' @ Itoa 1 @ ascii ''h'' = esc ''[?1h''" "esc ''[?'' @ Itoa 7 @ ascii ''l'' = esc ''[?7l''"
    "esc ''[?'' @ Itoa 2004 @ ascii ''h'' = esc ''[?2004h''" "esc ''[?'' @ Itoa 1004 @ ascii ''h'' = esc ''[?1004h''"
    "esc ''[?'' @ Itoa 25 @ ascii ''h'' = esc ''[?25h''" "esc ''[?'' @ Itoa 25 @ ascii ''l'' = esc ''[?25l''"
    "esc ''[?'' @ Itoa 7 @ ascii ''h'' = esc ''[?7h''" "esc ''[?'' @ Itoa 6 @ ascii ''l'' = esc ''[?6l''"
    by code_simp+
  show "feeds (esc ''[?1h'') t (t\<lparr>cursorKeys := True\<rparr>)"
    using feeds_private(1) [of 1 t] by (simp only: e) (simp add: set_private_mode_def)
  show "feeds (esc ''[?7l'') t (t\<lparr>autowrap := False\<rparr>)"
    using feeds_private(2) [of 7 t] by (simp only: e) (simp add: set_private_mode_def)
  show "feeds (esc ''[?2004h'') t (t\<lparr>bracketedPaste := True\<rparr>)"
    using feeds_private(1) [of 2004 t] by (simp only: e) (simp add: set_private_mode_def)
  show "feeds (esc ''[?1004h'') t (t\<lparr>focusEvents := True\<rparr>)"
    using feeds_private(1) [of 1004 t] by (simp only: e) (simp add: set_private_mode_def)
  show "feeds (esc ''[?25h'') t (t\<lparr>cursorVisible := True\<rparr>)"
    using feeds_private(1) [of 25 t] by (simp only: e) (simp add: set_private_mode_def)
  show "feeds (esc ''[?25l'') t (t\<lparr>cursorVisible := False\<rparr>)"
    using feeds_private(2) [of 25 t] by (simp only: e) (simp add: set_private_mode_def)
  show "feeds (esc ''[?7h'') t (t\<lparr>autowrap := True\<rparr>)"
    using feeds_private(1) [of 7 t] by (simp only: e) (simp add: set_private_mode_def)
  show "feeds (esc ''[?6l'') t (moveCursor 0 0 (t\<lparr>origin := False\<rparr>))"
    using feeds_private(2) [of 6 t] by (simp only: e) (simp add: set_private_mode_def)
qed

lemma feeds_mode_named:
  "feeds (esc ''[4h'') t (t\<lparr>insertMode := True\<rparr>)" "feeds (esc ''[20h'') t (t\<lparr>lineFeedNewline := True\<rparr>)"
proof -
  have e: "esc ''['' @ Itoa 4 @ ascii ''h'' = esc ''[4h''" "esc ''['' @ Itoa 20 @ ascii ''h'' = esc ''[20h''"
    by code_simp+
  show "feeds (esc ''[4h'') t (t\<lparr>insertMode := True\<rparr>)"
    using feeds_mode [of 4 t] by (simp only: e) (simp add: set_mode_def)
  show "feeds (esc ''[20h'') t (t\<lparr>lineFeedNewline := True\<rparr>)"
    using feeds_mode [of 20 t] by (simp only: e) (simp add: set_mode_def)
qed

lemma feeds_mouse:
  assumes "m \<in> {9, 1000, 1002, 1003}"
  shows "feeds (esc ''[?'' @ Itoa (uint m) @ ascii ''h'') t (t\<lparr>mouse := m\<rparr>)"
  using assms feeds_private(1) [of "uint m" t] by (auto simp: set_private_mode_def)

lemma feeds_mouse_enc:
  assumes "m \<in> {1005, 1006, 1015}"
  shows "feeds (esc ''[?'' @ Itoa (uint m) @ ascii ''h'') t (t\<lparr>mouseEnc := m\<rparr>)"
  using assms feeds_private(1) [of "uint m" t] by (auto simp: set_private_mode_def)


text \<open>The modes before \<open>write_modes\<close> is read: those of a new terminal, the cursor hidden.\<close>

definition no_modes :: "Terminal \<Rightarrow> bool" where
  "no_modes u \<longleftrightarrow> link u = [] \<and> charsets u = [charsetASCII, charsetASCII] \<and> glIndex u = 0 \<and> \<not> insertMode u
     \<and> \<not> lineFeedNewline u \<and> \<not> cursorKeys u \<and> autowrap u \<and> \<not> bracketedPaste u \<and> \<not> focusEvents u \<and> mouse u = 0
     \<and> mouseEnc u = 0 \<and> cursorStyle u = 0 \<and> title u = [] \<and> \<not> cursorVisible u"

lemma kept:
  "v = link t \<Longrightarrow> t\<lparr>link := v\<rparr> = t" "cs = charsets t \<Longrightarrow> t\<lparr>charsets := cs\<rparr> = t" "n = glIndex t \<Longrightarrow> t\<lparr>glIndex := n\<rparr> = t"
  "b = insertMode t \<Longrightarrow> t\<lparr>insertMode := b\<rparr> = t" "b = lineFeedNewline t \<Longrightarrow> t\<lparr>lineFeedNewline := b\<rparr> = t"
  "b = cursorKeys t \<Longrightarrow> t\<lparr>cursorKeys := b\<rparr> = t" "b = autowrap t \<Longrightarrow> t\<lparr>autowrap := b\<rparr> = t"
  "b = bracketedPaste t \<Longrightarrow> t\<lparr>bracketedPaste := b\<rparr> = t" "b = focusEvents t \<Longrightarrow> t\<lparr>focusEvents := b\<rparr> = t"
  "m = mouse t \<Longrightarrow> t\<lparr>mouse := m\<rparr> = t" "e = mouseEnc t \<Longrightarrow> t\<lparr>mouseEnc := e\<rparr> = t"
  "n = cursorStyle t \<Longrightarrow> t\<lparr>cursorStyle := n\<rparr> = t" "s = title t \<Longrightarrow> t\<lparr>title := s\<rparr> = t"
  "b = cursorVisible t \<Longrightarrow> t\<lparr>cursorVisible := b\<rparr> = t"
  by simp_all

text \<open>Link and character sets, then the rest.\<close>

lemma feeds_text_modes:
  assumes "no_modes u" "osc_safe l" "length cs = 2" "n = 0 \<or> n = 1"
  shows "feeds (emit_if (l \<noteq> []) (osc_link l) @ emit_if (cs ! 0 = charsetDECGraphics) (esc ''(0'')
    @ emit_if (cs ! 1 = charsetDECGraphics) (esc '')0'') @ emit_if (n = 1) [0x0e]) u (u\<lparr>link := l, charsets := cs, glIndex := n\<rparr>)"
proof -
  obtain c0 c1 where cs: "cs = [c0, c1]" using assms(3) by (auto simp: numeral_2_eq_2 length_Suc_conv)
  define u1 where "u1 = u\<lparr>link := l\<rparr>"
  define u2 where "u2 = u1\<lparr>charsets := [c0, charsetASCII]\<rparr>"
  define u3 where "u3 = u2\<lparr>charsets := [c0, c1]\<rparr>"
  have c: "charsets u1 = [charsetASCII, charsetASCII]" "charsets u2 = [c0, charsetASCII]" "glIndex u3 = 0"
    using assms(1) by (simp_all add: no_modes_def u1_def u2_def u3_def)
  have A: "x = charsetDECGraphics \<or> x = charsetASCII" for x by (cases x) simp_all
  have "feeds (emit_if (l \<noteq> []) (osc_link l)) u u1"
    unfolding u1_def using assms(1) by (intro feeds_emit feeds_link assms(2) kept(1)) (simp add: no_modes_def)
  moreover have "feeds (emit_if (cs ! 0 = charsetDECGraphics) (esc ''(0'')) u1 u2"
    unfolding u2_def using feeds_charset(1) [of u1] c(1) cs A [of c0] by (cases c0) (simp_all add: emit_if_def kept(2))
  moreover have "feeds (emit_if (cs ! 1 = charsetDECGraphics) (esc '')0'')) u2 u3"
    unfolding u3_def using feeds_charset(2) [of u2] c(2) cs A [of c1] by (cases c1) (simp_all add: emit_if_def kept(2))
  moreover have "feeds (emit_if (n = 1) [0x0e]) u3 (u3\<lparr>glIndex := n\<rparr>)"
    using feeds_shift_out [of u3] assms(4) c(3) by (cases "n = 1") (simp_all add: emit_if_def kept(3))
  moreover have "u3\<lparr>glIndex := n\<rparr> = u\<lparr>link := l, charsets := cs, glIndex := n\<rparr>"
    by (simp add: u1_def u2_def u3_def cs)
  ultimately show ?thesis by (simp only: feeds_append [OF _ feeds_append [OF _ feeds_append]])
qed

lemma feeds_write_modes:
  assumes u: "no_modes u" and t: "modes_ok t" "write_modes t = Some bs"
  shows "feeds bs u (with_modes t u)"
proof -
  define u0 where "u0 = u\<lparr>pen := pen t\<rparr>"
  define u1 where "u1 = u0\<lparr>link := link t, charsets := charsets t, glIndex := glIndex t\<rparr>"
  define u2 where "u2 = u1\<lparr>insertMode := insertMode t\<rparr>"
  define u3 where "u3 = u2\<lparr>lineFeedNewline := lineFeedNewline t\<rparr>"
  define u4 where "u4 = u3\<lparr>cursorKeys := cursorKeys t\<rparr>"
  define u5 where "u5 = u4\<lparr>autowrap := autowrap t\<rparr>"
  define u6 where "u6 = u5\<lparr>bracketedPaste := bracketedPaste t\<rparr>"
  define u7 where "u7 = u6\<lparr>focusEvents := focusEvents t\<rparr>"
  define u8 where "u8 = u7\<lparr>mouse := mouse t\<rparr>"
  define u9 where "u9 = u8\<lparr>mouseEnc := mouseEnc t\<rparr>"
  define u10 where "u10 = u9\<lparr>cursorStyle := cursorStyle t\<rparr>"
  define u11 where "u11 = u10\<lparr>title := title t\<rparr>"
  note us = u0_def u1_def u2_def u3_def u4_def u5_def u6_def u7_def u8_def u9_def u10_def u11_def
  note n = u [unfolded no_modes_def]
  have len: "length (charsets t) = 2" using t(1) by (simp add: modes_ok_def)
  have bs: "bs = sgrSequence (pen t) @ (emit_if (link t \<noteq> []) (osc_link (link t)) @ emit_if (charsets t ! 0 = charsetDECGraphics) (esc ''(0'')
      @ emit_if (charsets t ! 1 = charsetDECGraphics) (esc '')0'') @ emit_if (glIndex t = 1) [0x0e])
    @ emit_if (insertMode t) (esc ''[4h'') @ emit_if (lineFeedNewline t) (esc ''[20h'') @ emit_if (cursorKeys t) (esc ''[?1h'')
    @ emit_if (\<not> autowrap t) (esc ''[?7l'') @ emit_if (bracketedPaste t) (esc ''[?2004h'') @ emit_if (focusEvents t) (esc ''[?1004h'')
    @ emit_if (mouse t \<noteq> 0) (esc ''[?'' @ Itoa (uint (mouse t)) @ ascii ''h'')
    @ emit_if (mouseEnc t \<noteq> 0) (esc ''[?'' @ Itoa (uint (mouseEnc t)) @ ascii ''h'')
    @ emit_if (cursorStyle t \<noteq> 0) (esc ''['' @ Itoa (cursorStyle t) @ ascii '' q'')
    @ emit_if (title t \<noteq> []) (esc '']0;'' @ title t @ esc [CHR 0x5c]) @ emit_if (cursorVisible t) (esc ''[?25h'')"
    using t(2) len by (simp add: write_modes_def gidx_def)
  have "no_modes u0" using u by (simp add: no_modes_def u0_def)
  then have f1: "feeds (emit_if (link t \<noteq> []) (osc_link (link t)) @ emit_if (charsets t ! 0 = charsetDECGraphics) (esc ''(0'')
      @ emit_if (charsets t ! 1 = charsetDECGraphics) (esc '')0'') @ emit_if (glIndex t = 1) [0x0e]) u0 u1"
    unfolding u1_def using t(1) by (intro feeds_text_modes) (simp_all add: modes_ok_def)
  have f0: "feeds (sgrSequence (pen t)) u u0" unfolding u0_def using t(1) by (intro feeds_sgr) (simp add: modes_ok_def)
  have f2: "feeds (emit_if (insertMode t) (esc ''[4h'')) u1 u2"
    unfolding u2_def using feeds_mode_named(1) [of u1] n by (intro feeds_emit kept(4)) (simp_all add: us)
  have f3: "feeds (emit_if (lineFeedNewline t) (esc ''[20h'')) u2 u3"
    unfolding u3_def using feeds_mode_named(2) [of u2] n by (intro feeds_emit kept(5)) (simp_all add: us)
  have f4: "feeds (emit_if (cursorKeys t) (esc ''[?1h'')) u3 u4"
    unfolding u4_def using feeds_private_named(1) [of u3] n by (intro feeds_emit kept(6)) (simp_all add: us)
  have f5: "feeds (emit_if (\<not> autowrap t) (esc ''[?7l'')) u4 u5"
    unfolding u5_def using feeds_private_named(2) [of u4] n by (intro feeds_emit kept(7)) (simp_all add: us)
  have f6: "feeds (emit_if (bracketedPaste t) (esc ''[?2004h'')) u5 u6"
    unfolding u6_def using feeds_private_named(3) [of u5] n by (intro feeds_emit kept(8)) (simp_all add: us)
  have f7: "feeds (emit_if (focusEvents t) (esc ''[?1004h'')) u6 u7"
    unfolding u7_def using feeds_private_named(4) [of u6] n by (intro feeds_emit kept(9)) (simp_all add: us)
  have f8: "feeds (emit_if (mouse t \<noteq> 0) (esc ''[?'' @ Itoa (uint (mouse t)) @ ascii ''h'')) u7 u8"
    unfolding u8_def by (intro feeds_emit kept(10) feeds_mouse) (use t(1) n in \<open>auto simp: us modes_ok_def\<close>)
  have f9: "feeds (emit_if (mouseEnc t \<noteq> 0) (esc ''[?'' @ Itoa (uint (mouseEnc t)) @ ascii ''h'')) u8 u9"
    unfolding u9_def by (intro feeds_emit kept(11) feeds_mouse_enc) (use t(1) n in \<open>auto simp: us modes_ok_def\<close>)
  have f10: "feeds (emit_if (cursorStyle t \<noteq> 0) (esc ''['' @ Itoa (cursorStyle t) @ ascii '' q'')) u9 u10"
    unfolding u10_def by (intro feeds_emit kept(12) feeds_cursor_style) (use t(1) n in \<open>auto simp: us modes_ok_def\<close>)
  have f11: "feeds (emit_if (title t \<noteq> []) (esc '']0;'' @ title t @ esc [CHR 0x5c])) u10 u11"
    unfolding u11_def by (intro feeds_emit kept(13) feeds_title) (use t(1) n in \<open>auto simp: us modes_ok_def\<close>)
  have f12: "feeds (emit_if (cursorVisible t) (esc ''[?25h'')) u11 (u11\<lparr>cursorVisible := cursorVisible t\<rparr>)"
    using feeds_private_named(5) [of u11] n by (intro feeds_emit kept(14)) (simp_all add: us)
  have "u11\<lparr>cursorVisible := cursorVisible t\<rparr> = with_modes t u" by (simp add: us with_modes_def)
  then show ?thesis
    unfolding bs by (metis feeds_append [OF f0 feeds_append [OF f1 feeds_append [OF f2 feeds_append [OF f3 feeds_append [OF f4
      feeds_append [OF f5 feeds_append [OF f6 feeds_append [OF f7 feeds_append [OF f8 feeds_append [OF f9 feeds_append [OF f10
      feeds_append [OF f11 f12]]]]]]]]]]]])
qed


section \<open>The whole snapshot\<close>

lemma paint_start:
  assumes "1 \<le> w" "1 \<le> h"
  shows "\<exists>t. feeds (esc ''[0m'' @ esc ''[?7h'' @ esc ''[?6l'' @ esc ''[?25l'') (New w h) t
    \<and> painting w h (shown_rows w h [newRow w]) [] \<lparr>cx = 0, cy = 0, pendingWrap = False\<rparr> zeroStyle [] t"
proof -
  note n = New_fields [OF assms]
  have m: "t_main (New w h) = newScreen w h" "pen (New w h) = zeroStyle" "link (New w h) = []"
    using assms by (simp_all add: New_def init_def Let_def resetTabStops_def)
  have p: "(New w h)\<lparr>pen := zeroStyle\<rparr> = New w h" "(New w h)\<lparr>autowrap := True\<rparr> = New w h" "(New w h)\<lparr>origin := False\<rparr> = New w h"
    using m(2) n(4,6) by (cases "New w h"; simp)+
  have c: "moveCursor 0 0 (New w h) = New w h"
  proof -
    have "set_cur zeroCursor (New w h) = New w h"
      using m(1) n(3) by (cases "New w h") (simp add: set_cur_def set_act_def assign_def act_def deref_def newScreen_def)
    then show ?thesis using assms n by (simp add: moveCursor_def Let_def zeroCursor_def)
  qed
  let ?t = "(New w h)\<lparr>cursorVisible := False\<rparr>"
  have "feeds (esc ''[0m'' @ esc ''[?7h'' @ esc ''[?6l'' @ esc ''[?25l'') (New w h) ?t"
    using feeds_append [OF feeds_reset [of "New w h"] feeds_append [OF feeds_private_named(7) feeds_append [OF feeds_private_named(8)
      feeds_private_named(6)]]] by (simp add: p c)
  moreover have "painting w h (shown_rows w h [newRow w]) [] \<lparr>cx = 0, cy = 0, pendingWrap = False\<rparr> zeroStyle [] ?t"
  proof (rule paintingI)
    show "wf_term w h (\<lambda>_. True) (\<lambda>_. True) ?t" using New_wf [of "\<lambda>_. True" w h "\<lambda>_. True"] assms by (simp add: max_def)
    have "shown_rows w h [newRow w] = replicate (nat h) (newRow w)"
      using assms(2) by (cases "nat h") (simp_all add: shown_rows_def)
    then have "(newScreen w h)\<lparr>rows := shown_rows w h [newRow w], cur := \<lparr>cx = 0, cy = 0, pendingWrap = False\<rparr>, scrollback := []\<rparr> = newScreen w h"
      by (simp add: newScreen_def zeroCursor_def)
    then show "?t = (New w h)\<lparr>cursorVisible := False, t_main := (newScreen w h)\<lparr>rows := shown_rows w h [newRow w],
        cur := \<lparr>cx = 0, cy = 0, pendingWrap = False\<rparr>, scrollback := []\<rparr>, pen := zeroStyle, link := [],
        lastPrinted := lastPrinted (New w h), blankRow := blankRow (New w h)\<rparr>"
      using m by (cases "New w h") simp
  qed
  ultimately show ?thesis by blast
qed

text \<open>Rows and scrollback of a screen that can be painted.\<close>

definition rows_ok :: "int \<Rightarrow> int \<Rightarrow> screen \<Rightarrow> bool" where
  "rows_ok w h s \<longleftrightarrow> length (rows s) = nat h \<and> list_all (\<lambda>r. plain_line w r \<and> glen (cells r) = w) (rows s)
     \<and> list_all (\<lambda>r. plain_line w r \<and> trimmed r = r \<and> \<not> wrapped r) (scrollback s) \<and> glen (scrollback s) \<le> DefaultScrollback
     \<and> \<not> next_wrapped (rows s) \<and> joined w (rows s)
     \<and> (scrollback s \<noteq> [] \<longrightarrow> list_all bare_end (scrollback s @ rows s))"

lemma trimmed_padded:
  assumes "plain_line w r" "trimmed r = r"
  shows "trimmed (padded w r) = r"
proof -
  have l: "length (cells r) = lastVisible r" using arg_cong [OF assms(2), of "\<lambda>r. length (cells r)"] by simp
  have c: "cells (padded w r) = cells r @ blanks (nat w - length (cells r))" by (simp add: padded_def l)
  have vis: "0 < length (cells r) \<Longrightarrow> \<not> IsBlank (cells r ! (length (cells r) - 1))"
    using lastVisible_spec [of r "lastVisible r"] l by simp
  have b: "IsBlank (blankCell zeroStyle)" by (simp add: IsBlank_def blankCell_def zeroCell_def IsZero_def)
  have "lastVisible (padded w r) = length (cells r)"
  proof (subst lastVisible_spec, intro conjI allI impI)
    show "IsBlank (cells (padded w r) ! i)" if "length (cells r) \<le> i \<and> i < length (cells (padded w r))" for i
    proof -
      have "i - length (cells r) < nat w - length (cells r)" using that by (simp add: c blanks_def) linarith
      then show ?thesis using that b by (simp add: c nth_append blanks_def)
    qed
    show "\<not> IsBlank (cells (padded w r) ! (length (cells r) - 1))" if "0 < length (cells r)"
      using that vis by (simp add: c nth_append)
  qed (simp add: c)
  then have "trimmed (padded w r) = \<lparr>cells = cells r, wrapped = wrapped r\<rparr>"
    by (simp add: trimmed_def c) (simp add: padded_def)
  then show ?thesis by simp
qed

text \<open>Rows none of which continues another.\<close>

lemma next_unwrapped: "list_all (\<lambda>r. \<not> wrapped r) rs \<Longrightarrow> \<not> next_wrapped rs"
  by (cases rs) (simp_all add: next_wrapped_def)

lemma joined_unwrapped: "list_all (\<lambda>r. \<not> wrapped r) rs \<Longrightarrow> joined w rs"
  by (induction rs) (simp_all add: next_unwrapped)

lemma write_rows_end:
  "list_all (plain_line w) rs \<Longrightarrow> list_all (\<lambda>r. \<not> wrapped r) rs \<Longrightarrow> list_all bare_end rs \<Longrightarrow> Bg st = 0
    \<Longrightarrow> write_rows rs False lb st l = (out, st', l') \<Longrightarrow> Bg st' = 0"
proof (induction rs arbitrary: st l out)
  case (Cons r rs)
  have nx: "(case rs of [] \<Rightarrow> False | r' # _ \<Rightarrow> wrapped r') = False"
    using Cons.prems(2) by (cases rs) simp_all
  obtain o1 st1 l1 where o1: "writeRow r False st l = (o1, st1, l1)" by (cases "writeRow r False st l")
  obtain o2 where "write_rows rs False lb st1 l1 = (o2, st', l')"
    using Cons.prems(5) o1 by (cases "write_rows rs False lb st1 l1") (simp add: nx Let_def)
  moreover have "Bg st1 = 0" using writeRow_end [of w r, OF _ o1] Cons.prems(1,3,4) by simp
  ultimately show ?case using Cons.IH Cons.prems(1,2,3) by simp
qed simp

lemma paint_screen:
  assumes w: "2 \<le> w" and s: "rows_ok w h s"
    and o1: "write_rows (scrollback s) False True zeroStyle [] = (o1, st1, l1)"
    and o2: "write_rows (rows s) False False st1 l1 = (o2, st2, l2)"
    and t: "painting w h (shown_rows w h [newRow w]) [] \<lparr>cx = 0, cy = 0, pendingWrap = False\<rparr> zeroStyle [] t"
  shows "\<exists>t' c. feeds (o1 @ o2) t t' \<and> painting w h (rows s) (scrollback s) c st2 l2 t'"
proof -
  let ?sb = "scrollback s" and ?rs = "rows s"
  have h: "1 \<le> h" using painting_simps(17) [OF t] .
  have rs: "length ?rs = nat h" "list_all (plain_line w) ?rs" "list_all (plain_line w) ?sb" "?rs \<noteq> []"
    and lim: "glen ?sb \<le> DefaultScrollback" and bare: "?sb \<noteq> [] \<Longrightarrow> list_all bare_end ?sb \<and> list_all bare_end ?rs"
    and nw: "list_all (\<lambda>r. \<not> wrapped r) ?sb" "\<not> wrapped (hd ?rs)" "joined w ?rs"
    using s h by (auto simp: rows_ok_def list_all_iff next_wrapped_def split: list.splits)
  have pr: "map (padded w) ?rs = ?rs"
    using s by (intro map_idI padded_full) (auto simp: rows_ok_def list_all_iff)
  have ps: "map trimmed (map (padded w) ?sb) = ?sb"
    using s unfolding map_map by (intro map_idI) (auto simp: rows_ok_def list_all_iff trimmed_padded)
  have z: "after_cols w (last_row h [newRow w]) 0 = \<lparr>cx = 0, cy = 0, pendingWrap = False\<rparr>"
    using w h by (simp add: after_cols_def last_row_def)
  let ?p = "map (padded w) ?sb" and ?k = "Suc (length ?sb)"
  let ?q = "?p @ [newRow w]"
  have "\<exists>t1. feeds o1 t t1 \<and> painting w h (shown_rows w h ?q) (gone_rows h ?q) (after_cols w (last_row h ?q) 0) st1 l1 t1"
  proof (cases "?sb = []")
    case True
    then show ?thesis using o1 t z h by (intro exI [of _ t]) (simp add: gone_rows_def)
  next
    case False
    have "\<not> wrapped (hd ?sb)" using nw(1) False by (cases ?sb) simp_all
    then have "ready w h [] (hd ?sb) zeroStyle [] t"
      using t z h by (simp add: ready_def gone_rows_def)
    moreover have "\<not> list_ex wrapped (take ?k ([] @ ?sb))" using nw(1) by (simp add: list_all_iff list_ex_iff)
    moreover have "length ([] :: row list) + length ?sb + (if True then 1 else 0) < ?k + nat h" using h by simp
    moreover have "int (length ([] :: row list) + length ?sb + (if True then 1 else 0)) > h \<Longrightarrow> list_all bare_end ?sb \<and> Bg zeroStyle = 0"
      using bare [OF False] by (simp add: zeroStyle_def)
    moreover have "int (length ([] :: row list) + length ?sb) < h + DefaultScrollback + (if True then 0 else 1)" using lim h by simp
    ultimately show ?thesis
      using paint_lines [OF w rs(3) joined_unwrapped [OF nw(1)] False o1, of h "[]" t ?k] by (auto simp: Let_def)
  qed
  then obtain t1 where t1: "feeds o1 t t1" "painting w h (shown_rows w h ?q) (gone_rows h ?q) (after_cols w (last_row h ?q) 0) st1 l1 t1" by blast
  have bg: "Bg st1 = 0" if "?sb \<noteq> []"
    using write_rows_end [OF rs(3) nw(1) _ _ o1] bare [OF that] by (simp add: zeroStyle_def)
  let ?r = "?p @ map (padded w) ?rs"
  have "\<exists>t2. feeds o2 t1 t2 \<and> painting w h (shown_rows w h ?r) (gone_rows h ?r) (after_cols w (last_row h ?r) (lastVisible (last ?rs))) st2 l2 t2"
  proof -
    have "ready w h ?p (hd ?rs) st1 l1 t1" using t1(2) nw(2) by (simp add: ready_def)
    moreover have "\<not> list_ex wrapped (take ?k (?p @ ?rs))"
      using nw(1,2) rs(4) by (cases ?rs) (auto simp: list_all_iff list_ex_iff padded_def)
    moreover have "length ?p + length ?rs + (if False then 1 else 0) < ?k + nat h" using rs(1) by simp
    moreover have "int (length ?p + length ?rs + (if False then 1 else 0)) > h \<Longrightarrow> list_all bare_end ?rs \<and> Bg st1 = 0"
      using bare bg rs(1) h by (cases "?sb = []") simp_all
    moreover have "int (length ?p + length ?rs) < h + DefaultScrollback + (if False then 0 else 1)"
      using lim rs(1) h by simp
    ultimately show ?thesis
      using paint_lines [OF w rs(2) nw(3) rs(4) o2, of h ?p t1 ?k] by (auto simp: Let_def)
  qed
  then obtain t2 where t2: "feeds o2 t1 t2"
    "painting w h (shown_rows w h ?r) (gone_rows h ?r) (after_cols w (last_row h ?r) (lastVisible (last ?rs))) st2 l2 t2" by blast
  have "shown_rows w h ?r = ?rs" "gone_rows h ?r = ?sb"
    using rs(1) pr ps by (simp_all add: shown_rows_def gone_rows_def)
  with feeds_append [OF t1(1) t2(1)] t2(2) show ?thesis by auto
qed


section \<open>Round trip\<close>

text \<open>
  The terminals a snapshot rebuilds: the main screen is shown, its cells hold one printable rune each, a row
  that continues the one above is not the first one and shows something, rows begin and end in the default
  background once there is scrollback, and a visible cell that the cursor has just passed at the margin has no link.
  No row of the scrollback is a continuation: \<open>scroll\<close> takes the mark from every row that comes to the top.
\<close>

text \<open>The last cell of the cursor's row; it is written again for a cursor past it when it is a visible
  narrow one.\<close>

definition margin_cell :: "Terminal \<Rightarrow> Cell" where
  "margin_cell t = cells (rows (t_main t) ! nat (cy (cur (t_main t)))) ! nat (t_w t - 1)"

definition margin_shown :: "Terminal \<Rightarrow> bool" where
  "margin_shown t \<longleftrightarrow> Width (margin_cell t) = 1 \<and> Ch (margin_cell t) \<noteq> []"

definition restorable :: "int \<Rightarrow> int \<Rightarrow> Terminal \<Rightarrow> bool" where
  "restorable w h t \<longleftrightarrow> 2 \<le> w \<and> w < 2 ^ 24 \<and> 1 \<le> h \<and> h < 2 ^ 24 \<and> t_w t = w \<and> t_h t = h \<and> t_s t = MainScr \<and> \<not> altActive t
     \<and> modes_ok t \<and> rows_ok w h (t_main t) \<and> saved_ok w h (saved (t_main t))
     \<and> 0 \<le> s_top (t_main t) \<and> s_top (t_main t) \<le> s_bot (t_main t) \<and> s_bot (t_main t) < h
     \<and> (s_top (t_main t) \<noteq> 0 \<or> s_bot (t_main t) \<noteq> h - 1 \<longrightarrow> s_top (t_main t) < s_bot (t_main t))
     \<and> 0 \<le> cx (cur (t_main t)) \<and> cx (cur (t_main t)) < w \<and> 0 \<le> cy (cur (t_main t)) \<and> cy (cur (t_main t)) < h
     \<and> (origin t \<longrightarrow> s_top (t_main t) \<le> cy (cur (t_main t)) \<and> cy (cur (t_main t)) \<le> s_bot (t_main t))
     \<and> (pendingWrap (cur (t_main t)) \<longrightarrow> cx (cur (t_main t)) = w - 1 \<and>
          (margin_shown t \<longrightarrow> plain_cell (margin_cell t) \<and> Link (margin_cell t) = []))"

text \<open>Everything that a picture and the next keys depend on, but for the tab stops and the rune REP repeats.\<close>

definition same_picture :: "Terminal \<Rightarrow> Terminal \<Rightarrow> bool" where
  "same_picture t u \<longleftrightarrow> t_w u = t_w t \<and> t_h u = t_h t \<and> t_s u = t_s t \<and> altActive u = altActive t \<and> t_main u = t_main t
     \<and> origin u = origin t \<and> pen u = pen t \<and> link u = link t \<and> charsets u = charsets t \<and> glIndex u = glIndex t
     \<and> insertMode u = insertMode t \<and> lineFeedNewline u = lineFeedNewline t \<and> cursorKeys u = cursorKeys t
     \<and> autowrap u = autowrap t \<and> bracketedPaste u = bracketedPaste t \<and> focusEvents u = focusEvents t \<and> mouse u = mouse t
     \<and> mouseEnc u = mouseEnc t \<and> cursorStyle u = cursorStyle t \<and> title u = title t \<and> cursorVisible u = cursorVisible t"

lemma staged_modes:
  assumes "staged w h s org t"
  shows "no_modes t"
proof -
  from assms obtain lp b where t: "1 \<le> w" "1 \<le> h" "t = (New w h)\<lparr>cursorVisible := False, origin := org, t_main := s,
     pen := zeroStyle, link := [], lastPrinted := lp, blankRow := b\<rparr>" by (rule stagedE)
  then show ?thesis by (simp add: no_modes_def New_def init_def Let_def resetTabStops_def zeroTerminal_def)
qed

lemma staged_main:
  assumes "staged w h s org t"
  shows "t_main t = s" "\<not> altActive t" "t_p t = zeroParser"
proof -
  from assms obtain lp b where t: "1 \<le> w" "1 \<le> h" "t = (New w h)\<lparr>cursorVisible := False, origin := org, t_main := s,
     pen := zeroStyle, link := [], lastPrinted := lp, blankRow := b\<rparr>" by (rule stagedE)
  then show "t_main t = s" "\<not> altActive t" "t_p t = zeroParser"
    by (simp_all add: New_def init_def Let_def resetTabStops_def zeroTerminal_def)
qed

text \<open>The cursor as it is rebuilt: behind a blank cell or a wide character it is put before the margin.\<close>

definition rebuilt_main :: "Terminal \<Rightarrow> screen" where
  "rebuilt_main t = (t_main t)\<lparr>cur := (cur (t_main t))\<lparr>pendingWrap := pendingWrap (cur (t_main t)) \<and> margin_shown t\<rparr>\<rparr>"

lemma rebuilt_main_same:
  assumes "pendingWrap (cur (t_main t)) \<Longrightarrow> margin_shown t"
  shows "rebuilt_main t = t_main t"
proof -
  have "(cur (t_main t))\<lparr>pendingWrap := pendingWrap (cur (t_main t)) \<and> margin_shown t\<rparr> = cur (t_main t)"
    using assms by (cases "cur (t_main t)") auto
  then show ?thesis by (simp add: rebuilt_main_def)
qed

text \<open>The main screen, from its rows to its cursor.\<close>

lemma feeds_main:
  assumes t: "restorable w h t"
    and start: "painting w h (shown_rows w h [newRow w]) [] \<lparr>cx = 0, cy = 0, pendingWrap = False\<rparr> zeroStyle [] u"
  shows "\<exists>bs u'. writeScreen t MainScr True = Some bs \<and> feeds bs u u' \<and> staged w h (rebuilt_main t) (origin t) u'"
proof -
  define s where "s = t_main t"
  define x where "x = cx (cur s)"
  define y where "y = cy (cur s)"
  note r = t [unfolded restorable_def, folded s_def]
  have rk: "rows_ok w h s" using r by simp
  obtain o1 st1 l1 where o1: "write_rows (scrollback s) False True zeroStyle [] = (o1, st1, l1)"
    by (cases "write_rows (scrollback s) False True zeroStyle []")
  obtain o2 st2 l2 where o2: "write_rows (rows s) False False st1 l1 = (o2, st2, l2)"
    by (cases "write_rows (rows s) False False st1 l1")
  have lr: "length (rows s) = nat h" "list_all (\<lambda>r. plain_line w r \<and> glen (cells r) = w) (rows s)"
    using rk by (simp_all add: rows_ok_def)
  have g0: "gidx (rows s) 0 = Some (rows s ! 0)" "\<not> wrapped (rows s ! 0)"
    using lr r rk by (auto simp: gidx_def rows_ok_def next_wrapped_def split: list.splits)
  define cl where "cl = rows s ! nat y"
  have gy: "gidx (rows s) y = Some cl" "glen (cells cl) = w"
    using lr r by (simp_all add: gidx_def list_all_length y_def cl_def)
  have gl: "gidx (cells cl) (w - 1) = Some (cells cl ! nat (w - 1))" using gy(2) r by (simp add: gidx_def)
  have mc: "margin_cell t = cells cl ! nat (w - 1)" using r by (simp add: margin_cell_def s_def cl_def y_def)
  define pend where "pend = (if pendingWrap (cur s) \<and> margin_shown t then sgrSequence (CStyle (cells cl ! nat (w - 1))) @ Ch (cells cl ! nat (w - 1)) @ esc ''[0m'' else [])"
  have wp: "write_pending w s = Some pend"
    using gy(1) gl mc by (simp add: write_pending_def pend_def y_def margin_shown_def)
  let ?reset = "(if \<not> IsZero st2 then esc ''[0m'' else []) @ (if l2 \<noteq> [] then osc_link [] else [])"
  let ?reg = "if s_top s \<noteq> 0 \<or> s_bot s \<noteq> h - 1
    then esc ''['' @ Itoa (s_top s + 1) @ ascii '';'' @ Itoa (s_bot s + 1) @ ascii ''r'' else []"
  let ?place = "if origin t then esc ''[?6h'' @ cup x (y - s_top s) else cup x y"
  have ws: "writeScreen t MainScr True = Some ((o1 @ o2) @ ?reset @ write_saved (saved s) @ ?reg @ ?place @ pend)"
  proof (cases "scrollback s = []")
    case True
    then have "o1 = []" "st1 = zeroStyle" "l1 = []" using o1 by simp_all
    then show ?thesis using True o2 wp r by (simp add: writeScreen_def Let_def deref_def s_def [symmetric] x_def y_def)
  next
    case False
    then show ?thesis using o1 o2 wp r g0 by (simp add: writeScreen_def Let_def deref_def s_def [symmetric] x_def y_def)
  qed
  from paint_screen [OF _ rk o1 o2 start] r obtain u1 c1 where u1: "feeds (o1 @ o2) u u1"
    "painting w h (rows s) (scrollback s) c1 st2 l2 u1" by blast
  from feeds_leave [OF u1(2)] obtain u2 where u2: "feeds ?reset u1 u2"
    "painting w h (rows s) (scrollback s) c1 zeroStyle [] u2" by blast
  define s2 where "s2 = (newScreen w h)\<lparr>rows := rows s, cur := c1, scrollback := scrollback s\<rparr>"
  have n2: "saved s2 = zeroSaved" "s_top s2 = 0" "s_bot s2 = h - 1" by (simp_all add: s2_def newScreen_def)
  from staged_painting [OF u2(2)] have "staged w h s2 False u2" by (simp add: s2_def)
  from feeds_saved [OF this _ _ _ n2(1)] r obtain u3 c3 where u3: "feeds (write_saved (saved s)) u2 u3"
    "staged w h (s2\<lparr>cur := c3, saved := saved s\<rparr>) False u3" by blast
  from feeds_scroll_region [OF u3(2), of "s_top s" "s_bot s"] r n2 obtain u4 c4 where u4: "feeds ?reg u3 u4"
    "staged w h (s2\<lparr>cur := c3, saved := saved s, cur := c4, s_top := s_top s, s_bot := s_bot s\<rparr>) False u4" by auto
  define s4 where "s4 = s2\<lparr>cur := c3, saved := saved s, cur := c4, s_top := s_top s, s_bot := s_bot s\<rparr>"
  have e4: "s4\<lparr>cur := \<lparr>cx = x, cy = y, pendingWrap = p\<rparr>\<rparr> = s\<lparr>cur := \<lparr>cx = x, cy = y, pendingWrap = p\<rparr>\<rparr>" for p
    by (cases s) (simp add: s4_def s2_def newScreen_def)
  have top: "s_top s4 = s_top s" "s_bot s4 = s_bot s" by (simp_all add: s4_def)
  have st4: "staged w h s4 False u4" using u4(2) by (simp only: s4_def)
  have b: "0 \<le> x" "x < w" "0 \<le> y" "y < h" "w < 2 ^ 24" "h < 2 ^ 24" "0 \<le> s_top s" "s_top s \<le> s_bot s" "s_bot s < h"
    "origin t \<Longrightarrow> s_top s \<le> y \<and> y \<le> s_bot s"
    using r by (simp_all add: x_def y_def)
  from feeds_place [OF st4, of x y "origin t", unfolded top e4, OF b] obtain u5 where u5: "feeds ?place u4 u5"
    "staged w h (s\<lparr>cur := \<lparr>cx = x, cy = y, pendingWrap = False\<rparr>\<rparr>) (origin t) u5" by blast
  have "\<exists>u6. feeds pend u5 u6 \<and> staged w h (s\<lparr>cur := \<lparr>cx = x, cy = y, pendingWrap = pendingWrap (cur s) \<and> margin_shown t\<rparr>\<rparr>) (origin t) u6"
  proof (cases "pendingWrap (cur s) \<and> margin_shown t")
    case False
    with u5(2) show ?thesis by (intro exI [of _ u5]) (auto simp: pend_def)
  next
    case True
    let ?c = "cells cl ! nat (w - 1)"
    have c: "x = w - 1" "plain_cell ?c" "Width ?c = 1" "Ch ?c \<noteq> []" "Link ?c = []"
      using r True mc by (simp_all add: x_def margin_shown_def)
    have "rows (s\<lparr>cur := \<lparr>cx = x, cy = y, pendingWrap = False\<rparr>\<rparr>) = rows s"
      "cur (s\<lparr>cur := \<lparr>cx = x, cy = y, pendingWrap = False\<rparr>\<rparr>) = \<lparr>cx = w - 1, cy = y, pendingWrap = False\<rparr>" by (simp_all add: c(1))
    from feeds_pending [OF u5(2) this(2) _ gy(2) refl c(2-5)] gy(1) True c(1) show ?thesis by (simp add: pend_def)
  qed
  moreover have "s\<lparr>cur := \<lparr>cx = x, cy = y, pendingWrap = p\<rparr>\<rparr> = s\<lparr>cur := (cur s)\<lparr>pendingWrap := p\<rparr>\<rparr>" for p
    by (cases "cur s") (simp add: x_def y_def)
  ultimately obtain u6 where u6: "feeds pend u5 u6" "staged w h (rebuilt_main t) (origin t) u6"
    by (auto simp: rebuilt_main_def s_def)
  have "feeds ((o1 @ o2) @ ?reset @ write_saved (saved s) @ ?reg @ ?place @ pend) u u6"
    by (rule feeds_append [OF u1(1) feeds_append [OF u2(1) feeds_append [OF u3(1) feeds_append [OF u4(1) feeds_append [OF u5(1) u6(1)]]]]])
  with ws u6(2) show ?thesis by (auto simp: s_def)
qed


lemma modes_written:
  "modes_ok t \<Longrightarrow> \<exists>bs. write_modes t = Some bs"
  by (simp add: modes_ok_def write_modes_def gidx_def)

lemma same_snapshot:
  assumes "same_picture t u" "\<not> altActive t" "t_s t = MainScr"
  shows "Snapshot u = Snapshot t"
proof -
  note e = assms(1) [unfolded same_picture_def]
  have "writeScreen u MainScr True = writeScreen t MainScr True" by (simp add: writeScreen_def deref_def e)
  moreover have "write_modes u = write_modes t" by (simp add: write_modes_def e)
  ultimately show ?thesis using e assms(2) by (simp add: Snapshot_def)
qed

lemma rebuilt_snapshot:
  assumes "restorable w h t"
  shows "Snapshot (t\<lparr>t_main := rebuilt_main t\<rparr>) = Snapshot t"
proof -
  note r = assms [unfolded restorable_def rows_ok_def]
  let ?y = "cy (cur (t_main t))" and ?u = "t\<lparr>t_main := rebuilt_main t\<rparr>"
  have g: "gidx (rows (t_main t)) ?y = Some (rows (t_main t) ! nat ?y)" using r by (simp add: gidx_def)
  have l: "gidx (cells (rows (t_main t) ! nat ?y)) (w - 1) = Some (margin_cell t)"
    using r by (simp add: gidx_def margin_cell_def list_all_length)
  have f: "rows (rebuilt_main t) = rows (t_main t)" "cur (rebuilt_main t) = (cur (t_main t))\<lparr>pendingWrap := pendingWrap (cur (t_main t)) \<and> margin_shown t\<rparr>"
    "saved (rebuilt_main t) = saved (t_main t)" "s_top (rebuilt_main t) = s_top (t_main t)" "s_bot (rebuilt_main t) = s_bot (t_main t)"
    "scrollback (rebuilt_main t) = scrollback (t_main t)"
    by (simp_all add: rebuilt_main_def)
  have "write_pending w (rebuilt_main t) = write_pending w (t_main t)"
    using g l by (auto simp: write_pending_def f margin_shown_def)
  moreover have w: "t_w t = w" using r by simp
  ultimately have "writeScreen ?u MainScr True = writeScreen t MainScr True"
    by (simp add: writeScreen_def deref_def Let_def f)
  moreover have "write_modes ?u = write_modes t" by (simp add: write_modes_def)
  ultimately show ?thesis using r by (simp add: Snapshot_def)
qed

text \<open>What a snapshot rebuilds, the cursor at the margin included.\<close>

lemma snapshot_rebuilds:
  assumes "restorable w h t"
  shows "\<exists>d t'. Snapshot t = Some d \<and> Write d (New w h) = Some t' \<and> same_picture (t\<lparr>t_main := rebuilt_main t\<rparr>) t' \<and> Snapshot t' = Some d"
proof -
  note r = assms [unfolded restorable_def]
  let ?v = "t\<lparr>t_main := rebuilt_main t\<rparr>"
  from paint_start [of w h] r obtain u0 where u0: "feeds (esc ''[0m'' @ esc ''[?7h'' @ esc ''[?6l'' @ esc ''[?25l'') (New w h) u0"
    "painting w h (shown_rows w h [newRow w]) [] \<lparr>cx = 0, cy = 0, pendingWrap = False\<rparr> zeroStyle [] u0" by auto
  from feeds_main [OF assms u0(2)] obtain main u1 where u1: "writeScreen t MainScr True = Some main" "feeds main u0 u1"
    "staged w h (rebuilt_main t) (origin t) u1" by blast
  have mo: "modes_ok t" using r by simp
  from modes_written [OF mo] obtain modes where modes: "write_modes t = Some modes" by blast
  let ?d = "(esc ''[0m'' @ esc ''[?7h'' @ esc ''[?6l'' @ esc ''[?25l'') @ main @ modes"
  have d: "Snapshot t = Some ?d" using u1(1) modes r by (simp add: Snapshot_def emit_if_def)
  have f: "feeds ?d (New w h) (with_modes t u1)"
    by (rule feeds_append [OF u0(1) feeds_append [OF u1(2) feeds_write_modes [OF staged_modes [OF u1(3)] mo modes]]])
  have p: "parser_ready (t_p (New w h))"
    by (simp add: New_def init_def resetTabStops_def Let_def parser_ready_def) (simp add: zeroParser_def)
  from feeds_Write [OF f p] obtain q where q: "Write ?d (New w h) = Some (at_parser q (with_modes t u1))" by auto
  note ss = staged_simps [OF u1(3)] staged_main [OF u1(3)]
  have same: "same_picture ?v (at_parser q (with_modes t u1))"
    using ss r by (simp add: same_picture_def with_modes_def)
  have "Snapshot (at_parser q (with_modes t u1)) = Some ?d"
    using same_snapshot [OF same] rebuilt_snapshot [OF assms] d r by simp
  with d q same show ?thesis by blast
qed


text \<open>C36: behind a blank cell or a wide character at the right margin the snapshot loses that the next
  character wraps: the rebuilt terminal shows the same rows but would write over the last cell.\<close>

theorem snapshot_loses_margin:
  assumes "restorable w h t" "pendingWrap (tcur t)" "\<not> margin_shown t"
  shows "\<exists>d t'. Snapshot t = Some d \<and> Write d (New w h) = Some t' \<and> rows (act t') = rows (act t)
    \<and> tcur t' = (tcur t)\<lparr>pendingWrap := False\<rparr>"
proof -
  from snapshot_rebuilds [OF assms(1)] obtain d t' where d: "Snapshot t = Some d" "Write d (New w h) = Some t'"
    "same_picture (t\<lparr>t_main := rebuilt_main t\<rparr>) t'" by blast
  moreover have "t_s t = MainScr" using assms(1) by (simp add: restorable_def)
  ultimately have "act t' = rebuilt_main t" "act t = t_main t" by (simp_all add: same_picture_def act_def deref_def)
  with d(1,2) assms(3) show ?thesis by (simp add: tcur_def rebuilt_main_def)
qed

text \<open>A terminal with a line of scrollback, a bold underlined line that wraps, a wide character, a title and a saved
  cursor.\<close>

definition demo_input :: bytes where
  "demo_input = ascii ''1'' @ [13, 10] @ esc ''[1;4mabcdef'' @ esc ''[0m'' @ [13, 10, 0xe6, 0xbc, 0xa2] @ ascii ''x'' @ esc ''7''
     @ esc '']0;t'' @ esc [CHR 0x5c] @ esc ''[?2004h'' @ esc ''[2;1H''"


definition demo_picture :: Terminal where
  "demo_picture = the (Write demo_input (New 4 3))"

lemma demo_restorable: "restorable 4 3 demo_picture"
  by code_simp

lemma demo_margin: "\<not> pendingWrap (tcur demo_picture) \<and> list_ex wrapped (rows (act demo_picture)) \<and> scrollback (act demo_picture) \<noteq> []"
  by code_simp


definition margin_picture :: Terminal where
  "margin_picture = the (Write (ascii ''ab '') (New 3 2))"

lemma margin_restorable: "restorable 3 2 margin_picture \<and> pendingWrap (tcur margin_picture) \<and> \<not> margin_shown margin_picture"
  by code_simp

theorem snapshot_loses_margin_witness:
  "pendingWrap (tcur margin_picture) \<and> (\<exists>d t'. Snapshot margin_picture = Some d \<and> Write d (New 3 2) = Some t'
     \<and> rows (act t') = rows (act margin_picture) \<and> tcur t' = (tcur margin_picture)\<lparr>pendingWrap := False\<rparr>)"
  using snapshot_loses_margin [of 3 2 margin_picture] margin_restorable by simp

end
