(* ===== verification/Replay.thy ===== *)
theory Replay
  imports Rebuild
begin

text \<open>
  Where a snapshot (\<open>src/internal/vterm/snapshot.go\<close>) does not rebuild the picture, outside the
  terminals of \<open>restorable\<close>: the alternate screen, an erased continuation row, and a coloured
  background at the end of a line that is above a row scrolled in.
\<close>

text \<open>A viewer that joins gets the snapshot and writes it into its own emulator of the same size.\<close>

definition replay :: "int \<Rightarrow> int \<Rightarrow> bytes \<Rightarrow> Terminal option" where
  "replay w h d = do { t \<leftarrow> Write d (New w h); s \<leftarrow> Snapshot t; Write s (New w h) }"

definition picture :: "Terminal \<Rightarrow> bytes list" where
  "picture t = map rowText (rows (act t))"

definition backgrounds :: "Terminal \<Rightarrow> Color list list" where
  "backgrounds t = map (map (Bg \<circ> CStyle) \<circ> cells) (rows (act t))"

text \<open>A shell writes \<open>ab\<close>, a program enters the alternate screen, goes home and writes \<open>x\<close>.\<close>

definition alt_input :: bytes where
  "alt_input = ascii ''ab'' @ esc ''[?1049h'' @ esc ''[H'' @ ascii ''x''"

text \<open>A line of five characters on four columns; the row it continues on is erased, a line follows.\<close>

definition erased_input :: bytes where
  "erased_input = ascii ''abcde'' @ [0x0d] @ esc ''[K'' @ [0x0d, 0x0a] @ ascii ''Z''"

text \<open>A line that ends in a red background, and one more line than the screen has rows.\<close>

definition colour_input :: bytes where
  "colour_input = ascii ''1'' @ [0x0d, 0x0a] @ esc ''[41mX'' @ esc ''[0m'' @ [0x0d, 0x0a] @ ascii ''B''"



text \<open>Snapshots are to carry logical lines, so that a wider client can join what wrapped (\<open>Resize\<close> in \<open>term.go\<close>).
  But \<open>scroll\<close> takes the mark of a continuation from the row that comes to the top, so a line is broken for
  good once its first row has left the screen.\<close>

definition long_line :: bytes where
  "long_line = ascii ''abcdef'' @ [0x0d, 0x0a] @ ascii ''Z''"

definition widened :: "int \<Rightarrow> int \<Rightarrow> int \<Rightarrow> bytes \<Rightarrow> Terminal option" where
  "widened w h w' d = do { t \<leftarrow> Write d (New w h); s \<leftarrow> Snapshot t; Write s (New w' 3) }"

lemma scrolled_line_is_broken:
  "map_option picture (widened 4 3 8 long_line) = Some [ascii ''abcdef'', ascii ''Z'', []]"
  "map_option (\<lambda>t. (map rowText (scrollback (act t)), map wrapped (rows (act t)))) (Write long_line (New 4 2))
    = Some ([ascii ''abcd''], [False, False])"
  "map_option picture (widened 4 2 8 long_line) = Some [ascii ''abcd'', ascii ''ef'', ascii ''Z'']"
  by code_simp+

end
