(* ===== verification/Golib_Strings.thy ===== *)
theory Golib_Strings
  imports Golib
begin

text \<open>
  More of the Go standard library: the functions of \<open>strings\<close>, \<open>path/filepath\<close> and
  \<open>encoding/base64\<close> that the server side calls. A Go string is a list of bytes; where the program
  treats it as text it is a \<open>string\<close>, whose characters are the bytes. \<open>filepath\<close> is the Unix one.
\<close>

section \<open>Package strings\<close>

definition HasPrefix :: "string \<Rightarrow> string \<Rightarrow> bool" where
  "HasPrefix s p \<longleftrightarrow> take (length p) s = p"

definition HasSuffix :: "string \<Rightarrow> string \<Rightarrow> bool" where
  "HasSuffix s p \<longleftrightarrow> length p \<le> length s \<and> drop (length s - length p) s = p"

definition TrimSuffix :: "string \<Rightarrow> string \<Rightarrow> string" where
  "TrimSuffix s p = (if HasSuffix s p then take (length s - length p) s else s)"

definition TrimRight :: "string \<Rightarrow> char \<Rightarrow> string" where
  "TrimRight s c = rev (dropWhile (\<lambda>x. x = c) (rev s))"

definition Trim :: "string \<Rightarrow> char \<Rightarrow> string" where
  "Trim s c = TrimRight (dropWhile (\<lambda>x. x = c) s) c"

text \<open>\<open>strings.TrimSpace\<close> and \<open>strings.ToUpper\<close> on ASCII text.\<close>

definition in_class :: "char \<Rightarrow> char \<Rightarrow> char \<Rightarrow> bool" where
  "in_class lo hi c \<longleftrightarrow> of_char lo \<le> (of_char c :: nat) \<and> (of_char c :: nat) \<le> of_char hi"

definition is_space :: "char \<Rightarrow> bool" where
  "is_space c \<longleftrightarrow> c = CHR 0x20 \<or> in_class CHR 0x09 CHR 0x0d c"

definition TrimSpace :: "string \<Rightarrow> string" where
  "TrimSpace s = rev (dropWhile is_space (rev (dropWhile is_space s)))"

definition upper :: "char \<Rightarrow> char" where
  "upper c = (if in_class CHR ''a'' CHR ''z'' c then char_of (of_char c - 32 :: nat) else c)"

definition ToUpper :: "string \<Rightarrow> string" where
  "ToUpper s = map upper s"

text \<open>\<open>strings.Split\<close> at a separator of one byte, \<open>strings.Join\<close>, \<open>strings.ReplaceAll\<close> of one byte.\<close>

primrec Split :: "char \<Rightarrow> string \<Rightarrow> string list" where
  "Split c [] = [[]]"
| "Split c (x # s) = (if x = c then [] # Split c s
     else (case Split c s of [] \<Rightarrow> [[x]] | y # ys \<Rightarrow> (x # y) # ys))"

fun Join_with :: "char \<Rightarrow> string list \<Rightarrow> string" where
  "Join_with c [] = []"
| "Join_with c [s] = s"
| "Join_with c (s # t # ts) = s @ c # Join_with c (t # ts)"

definition ReplaceAll :: "string \<Rightarrow> char \<Rightarrow> string \<Rightarrow> string" where
  "ReplaceAll s c r = concat (map (\<lambda>x. if x = c then r else [x]) s)"

definition itoa :: "int \<Rightarrow> string" where
  "itoa n = map (\<lambda>b. char_of (unat b)) (Itoa n)"

lemma Split_not_Nil [simp]: "Split c s \<noteq> []"
  by (cases s) (auto split: list.splits)

lemma Split_Cons:
  "x \<noteq> c \<Longrightarrow> Split c (x # s) = (x # hd (Split c s)) # tl (Split c s)"
  by (cases "Split c s") (auto dest: arg_cong [where f = "\<lambda>x. x = []"])

lemma Split_append: "Split c (s @ c # t) = Split c s @ Split c t"
  by (induction s) (auto simp: Split_Cons split: list.splits)

lemma Split_free: "c \<notin> set s \<Longrightarrow> Split c s = [s]"
  by (induction s) auto

lemma Join_Split: "Join_with c (Split c s) = s"
proof (induction s)
  case (Cons x s)
  show ?case
  proof (cases "Split c s")
    case Nil
    then show ?thesis using Split_not_Nil [of c s] by blast
  next
    case (Cons y ys)
    with Cons.IH show ?thesis by (cases ys) auto
  qed
qed simp

lemma Split_pieces: "x \<in> set (Split c s) \<Longrightarrow> c \<notin> set x"
  by (induction s arbitrary: x) (auto split: if_splits list.splits)

lemma HasPrefix_simps [simp]:
  "HasPrefix s []" "HasPrefix (x # s) (y # p) \<longleftrightarrow> x = y \<and> HasPrefix s p" "\<not> HasPrefix [] (y # p)"
  by (auto simp: HasPrefix_def)

lemma HasPrefix_append [simp]: "HasPrefix (p @ s) p"
  by (simp add: HasPrefix_def)

lemma HasPrefix_iff: "HasPrefix s p \<longleftrightarrow> (\<exists>t. s = p @ t)"
  by (metis HasPrefix_append HasPrefix_def append_take_drop_id)

section \<open>Package path/filepath\<close>

definition Base :: "string \<Rightarrow> string" where
  "Base p = (if p = '''' then ''.''
     else let b = last (Split CHR ''/'' (TrimRight p CHR ''/'')) in if b = '''' then ''/'' else b)"

text \<open>From the last dot of the last element on.\<close>

definition Ext :: "string \<Rightarrow> string" where
  "Ext p = (let e = last (Split CHR ''/'' p);
                r = takeWhile (\<lambda>x. x \<noteq> CHR ''.'') (rev e)
            in if length r = length e then '''' else CHR ''.'' # rev r)"

text \<open>\<open>Clean\<close>: the elements in order, where \<open>..\<close> removes the element before it.\<close>

fun clean_elems :: "bool \<Rightarrow> string list \<Rightarrow> string list \<Rightarrow> string list" where
  "clean_elems rooted out [] = out"
| "clean_elems rooted out (e # es) =
    (if e = '''' \<or> e = ''.'' then clean_elems rooted out es
     else if e = ''..'' then
       (if out \<noteq> [] \<and> last out \<noteq> ''..'' then clean_elems rooted (butlast out) es
        else if rooted then clean_elems rooted out es
        else clean_elems rooted (out @ [''..'']) es)
     else clean_elems rooted (out @ [e]) es)"

definition Clean :: "string \<Rightarrow> string" where
  "Clean p = (let rooted = HasPrefix p ''/'';
                  s = (if rooted then ''/'' else '''') @ Join_with CHR ''/'' (clean_elems rooted [] (Split CHR ''/'' p))
              in if s = '''' then ''.'' else s)"

definition Join :: "string \<Rightarrow> string \<Rightarrow> string" where
  "Join a b = (if a \<noteq> '''' then Clean (a @ ''/'' @ b) else if b \<noteq> '''' then Clean b else '''')"

lemma clean_elems_append: "clean_elems r out (es @ fs) = clean_elems r (clean_elems r out es) fs"
  by (induction r out es rule: clean_elems.induct) auto

lemma TrimRight_cases: "TrimRight s c = '''' \<or> last (TrimRight s c) \<noteq> c"
  using hd_dropWhile [of "\<lambda>x. x = c" "rev s"] by (auto simp: TrimRight_def last_rev)

lemma last_Split_free: "c \<notin> set (last (Split c s))"
  by (rule Split_pieces [of _ c s]) simp

text \<open>The last element of a path is \<open>/\<close> or has no separator.\<close>

lemma Base_elem: "Base p = ''/'' \<or> CHR ''/'' \<notin> set (Base p)"
  using last_Split_free [of "CHR ''/''"] by (auto simp: Base_def Let_def)

lemma Base_not_empty: "Base p \<noteq> []"
  by (simp add: Base_def Let_def)

lemma last_Split_suffix: "\<exists>b. p = b @ last (Split c p)"
proof (induction p)
  case (Cons x p)
  then obtain b where b: "p = b @ last (Split c p)" by blast
  show ?case
  proof (cases "x = c \<or> tl (Split c p) \<noteq> []")
    case True
    then have "last (Split c (x # p)) = last (Split c p)"
      by (cases "Split c p") (auto simp: Split_Cons)
    with b show ?thesis by (metis append_Cons)
  next
    case False
    then have "last (Split c (x # p)) = x # last (Split c p)"
      by (cases "Split c p") (auto simp: Split_Cons)
    moreover have "last (Split c p) = p"
      using False Join_Split [of c p] by (cases "Split c p") auto
    ultimately show ?thesis by (intro exI [of _ "[]"]) simp
  qed
qed simp

lemma Ext_suffix: "\<exists>b. p = b @ Ext p"
proof -
  define e where "e = last (Split CHR ''/'' p)"
  define t where "t = takeWhile (\<lambda>x. x \<noteq> CHR ''.'') (rev e)"
  define d where "d = dropWhile (\<lambda>x. x \<noteq> CHR ''.'') (rev e)"
  have re: "rev e = t @ d" by (simp add: t_def d_def)
  then have e: "e = rev d @ rev t" by (metis rev_append rev_rev_ident)
  have x: "Ext p = (if length t = length e then [] else CHR ''.'' # rev t)"
    by (simp add: Ext_def Let_def e_def t_def)
  have "\<exists>b. e = b @ Ext p"
  proof (cases d)
    case Nil
    then have "length t = length e" using e by simp
    with x show ?thesis by simp
  next
    case (Cons c ds)
    then have "c = CHR ''.''" using hd_dropWhile [of "\<lambda>x. x \<noteq> CHR ''.''" "rev e"] by (simp add: d_def)
    moreover have "length t \<noteq> length e" using e Cons by simp
    ultimately have "e = rev ds @ Ext p" using e x Cons by simp
    then show ?thesis by blast
  qed
  with last_Split_suffix [of p "CHR ''/''"] show ?thesis unfolding e_def by (metis append.assoc)
qed

text \<open>A file name below a directory.\<close>

lemma not_in_butlast: "x \<notin> set xs \<Longrightarrow> x \<notin> set (butlast xs)"
  by (meson in_set_butlastD)

lemma clean_elems_no_empty: "[] \<notin> set out \<Longrightarrow> [] \<notin> set (clean_elems rt out es)"
  by (induction rt out es rule: clean_elems.induct) (simp, auto simp: not_in_butlast split: if_splits)

lemma Join_below:
  assumes "HasPrefix d ''/''" "CHR ''/'' \<notin> set f" "f \<noteq> ''''" "f \<noteq> ''.''" "f \<noteq> ''..''"
  shows "Join d f = Clean d @ (if Clean d = ''/'' then '''' else ''/'') @ f" "Join d (CHR ''/'' # f) = Join d f"
proof -
  let ?r = "HasPrefix d ''/''"
  let ?es = "clean_elems ?r [] (Split CHR ''/'' d)"
  have d: "d \<noteq> []" using assms(1) by (auto simp: HasPrefix_def)
  then have r: "HasPrefix (d @ ''/'' @ g) ''/'' = ?r" for g by (cases d) (auto simp: HasPrefix_def)
  have sp: "Split CHR ''/'' (d @ ''/'' @ g) = Split CHR ''/'' d @ Split CHR ''/'' g" for g
    using Split_append [of "CHR ''/''" d g] by simp
  with Split_free [OF assms(2)] have "Split CHR ''/'' (d @ ''/'' @ f) = Split CHR ''/'' d @ [f]" by simp
  then have e: "clean_elems ?r [] (Split CHR ''/'' (d @ ''/'' @ f)) = ?es @ [f]"
    using assms(3-5) by (simp add: clean_elems_append)
  have j: "Join_with CHR ''/'' (es @ [f]) = (if es = [] then f else Join_with CHR ''/'' es @ ''/'' @ f)" for es
    by (induction es rule: Join_with.induct) auto
  have ne: "?es \<noteq> [] \<Longrightarrow> Join_with CHR ''/'' ?es \<noteq> ''''"
    using clean_elems_no_empty [of "[]" ?r "Split CHR ''/'' d"] by (cases ?es; cases "tl ?es") auto
  show "Join d f = Clean d @ (if Clean d = ''/'' then '''' else ''/'') @ f"
    using ne assms(1) d e r [of f] j [of ?es] by (cases "?es = []") (auto simp: Join_def Clean_def Let_def)
  have "clean_elems ?r [] (Split CHR ''/'' (d @ ''/'' @ CHR ''/'' # f)) = clean_elems ?r [] (Split CHR ''/'' (d @ ''/'' @ f))"
    unfolding sp by (simp add: clean_elems_append)
  then show "Join d (CHR ''/'' # f) = Join d f"
    using d r [of f] r [of "CHR ''/'' # f"] by (simp add: Join_def Clean_def Let_def)
qed

section \<open>Package encoding/base64\<close>

text \<open>\<open>StdEncoding\<close>: six bits to a character.\<close>

definition b64_char :: "int \<Rightarrow> byte" where
  "b64_char k = word_of_int
    (if k < 26 then 65 + k else if k < 52 then 97 + (k - 26) else if k < 62 then 48 + (k - 52)
     else if k = 62 then 43 else 47)"

definition b64_val :: "byte \<Rightarrow> int option" where
  "b64_val b =
    (let k = uint b in
     if 65 \<le> k \<and> k \<le> 90 then Some (k - 65) else if 97 \<le> k \<and> k \<le> 122 then Some (k - 71)
     else if 48 \<le> k \<and> k \<le> 57 then Some (k + 4) else if k = 43 then Some 62
     else if k = 47 then Some 63 else None)"

fun EncodeToString :: "bytes \<Rightarrow> bytes" where
  "EncodeToString [] = []"
| "EncodeToString [a] = [b64_char (uint a div 4), b64_char (uint a mod 4 * 16), 0x3d, 0x3d]"
| "EncodeToString [a, b] = [b64_char (uint a div 4), b64_char (uint a mod 4 * 16 + uint b div 16),
     b64_char (uint b mod 16 * 4), 0x3d]"
| "EncodeToString (a # b # c # r) = b64_char (uint a div 4) # b64_char (uint a mod 4 * 16 + uint b div 16)
     # b64_char (uint b mod 16 * 4 + uint c div 64) # b64_char (uint c mod 64) # EncodeToString r"

text \<open>
  Decoding skips newlines; padding ends the input; the bits a padded group does not use are
  ignored. \<open>None\<close> is the error.
\<close>

fun b64_groups :: "bytes \<Rightarrow> bytes option" where
  "b64_groups [] = Some []"
| "b64_groups (a # b # c # d # r) = do {
     v0 \<leftarrow> b64_val a;
     v1 \<leftarrow> b64_val b;
     if c = 0x3d then
       (if d = 0x3d \<and> r = [] then Some [word_of_int (v0 * 4 + v1 div 16)] else None)
     else do {
       v2 \<leftarrow> b64_val c;
       if d = 0x3d then
         (if r = [] then Some [word_of_int (v0 * 4 + v1 div 16), word_of_int (v1 mod 16 * 16 + v2 div 4)] else None)
       else do {
         v3 \<leftarrow> b64_val d;
         out \<leftarrow> b64_groups r;
         Some (word_of_int (v0 * 4 + v1 div 16) # word_of_int (v1 mod 16 * 16 + v2 div 4)
               # word_of_int (v2 mod 4 * 64 + v3) # out)
       }
     }
   }"
| "b64_groups _ = None"

definition DecodeString :: "bytes \<Rightarrow> bytes option" where
  "DecodeString s = b64_groups (filter (\<lambda>b. b \<noteq> 0x0a \<and> b \<noteq> 0x0d) s)"

lemma uint_b64_char: "0 \<le> k \<Longrightarrow> k < 64 \<Longrightarrow>
  uint (b64_char k) = (if k < 26 then 65 + k else if k < 52 then 71 + k else if k < 62 then k - 4 else if k = 62 then 43 else 47)"
  by (simp add: b64_char_def uint_word_of_int)

lemma b64_val_char: "0 \<le> k \<Longrightarrow> k < 64 \<Longrightarrow> b64_val (b64_char k) = Some k"
  by (auto simp: b64_val_def uint_b64_char Let_def)

lemma b64_char_neq: "0 \<le> k \<Longrightarrow> k < 64 \<Longrightarrow> b64_char k \<noteq> 0x3d \<and> b64_char k \<noteq> 0x0a \<and> b64_char k \<noteq> 0x0d"
  using uint_b64_char [of k] by (auto split: if_splits)

lemma byte_parts: "0 \<le> uint (a :: byte) div 4" "uint a div 4 < 64" "0 \<le> uint a div 16" "uint a div 16 < 16"
  "0 \<le> uint a div 64" "uint a div 64 < 4"
  using uint_byte_bounds [of a] by presburger+

lemma mod_byte_bounds: "0 \<le> uint (a :: byte) mod 4" "uint a mod 4 < 4" "0 \<le> uint a mod 16" "uint a mod 16 < 16"
  by simp_all

text \<open>The four characters of a group stand for six bits each.\<close>

lemma group_bits:
  "uint (a :: byte) mod 4 * 16 < 64" "uint a mod 4 * 16 + uint (b :: byte) div 16 < 64" "uint b mod 16 * 4 < 64"
  "uint b mod 16 * 4 + uint (c :: byte) div 64 < 64"
  "0 \<le> uint a mod 4 * 16 + uint b div 16" "0 \<le> uint b mod 16 * 4 + uint c div 64"
  using byte_parts [of b] byte_parts [of c] mod_byte_bounds [of a] mod_byte_bounds [of b] by linarith+

lemma mult_add_parts:
  assumes "0 \<le> k" "k < (n :: int)" shows "(m * n + k) div n = m" "(m * n + k) mod n = k"
  using assms by (simp_all add: div_pos_pos_trivial)

lemma group_parts:
  "(uint (a :: byte) mod 4 * 16 + uint (b :: byte) div 16) div 16 = uint a mod 4"
  "(uint a mod 4 * 16 + uint b div 16) mod 16 = uint b div 16"
  "(uint b mod 16 * 4 + uint (c :: byte) div 64) div 4 = uint b mod 16"
  "(uint b mod 16 * 4 + uint c div 64) mod 4 = uint c div 64"
  by (rule mult_add_parts [OF byte_parts(3,4)] mult_add_parts [OF byte_parts(5,6)])+

lemma byte_rebuild:
  "word_of_int (uint a div 4) * 4 + word_of_int (uint a mod 4) = (a :: byte)"
  "word_of_int (uint a div 16) * 16 + word_of_int (uint a mod 16) = a"
  "word_of_int (uint a div 64) * 64 + word_of_int (uint a mod 64) = a"
proof -
  have "word_of_int (uint a div n) * word_of_int n + word_of_int (uint a mod n) = a" for n
    by (metis div_mult_mod_eq of_int_add of_int_mult word_of_int_uint)
  from this [of 4] this [of 16] this [of 64] show
    "word_of_int (uint a div 4) * 4 + word_of_int (uint a mod 4) = (a :: byte)"
    "word_of_int (uint a div 16) * 16 + word_of_int (uint a mod 16) = a"
    "word_of_int (uint a div 64) * 64 + word_of_int (uint a mod 64) = a" by simp_all
qed

lemmas b64_simps = b64_val_char b64_char_neq byte_parts group_bits group_parts byte_rebuild

lemma b64_groups_encode: "b64_groups (EncodeToString d) = Some d"
  by (induction d rule: EncodeToString.induct) (simp_all add: b64_simps)

lemma EncodeToString_no_newline: "filter (\<lambda>b. b \<noteq> 0x0a \<and> b \<noteq> 0x0d) (EncodeToString d) = EncodeToString d"
  by (induction d rule: EncodeToString.induct) (simp_all add: b64_simps)

lemma DecodeString_EncodeToString: "DecodeString (EncodeToString d) = Some d"
  by (simp add: DecodeString_def EncodeToString_no_newline b64_groups_encode)

end
