(* ===== verification/Ring_Buffer.thy ===== *)
theory Ring_Buffer
  imports Golib
begin

text \<open>
  \<open>RingBuffer\<close> of \<open>src/cmd/termulaa/session.go\<close>: the fixed-size circular store of a session's
  raw output, and the clean-up of its contents before they are replayed. The store's contract is
  the locale \<open>bounded_log\<close>: a write leaves the last \<open>cap\<close> bytes of the old content followed by
  the new bytes. The ring buffer meets it for every write but one kind: a write that ends exactly
  at the end of a buffer that has not wrapped yet forgets everything
  (\<open>RingBuffer_exact_fill\<close>), because \<open>pos\<close> returns to 0 and \<open>full\<close> stays unset.
\<close>

section \<open>The code\<close>

record RingBuffer =
  buf :: bytes
  pos :: int
  full :: bool

definition NewRingBuffer :: "nat \<Rightarrow> RingBuffer" where
  "NewRingBuffer n = \<lparr>buf = replicate n 0, pos = 0, full = False\<rparr>"

definition ring_write :: "bytes \<Rightarrow> RingBuffer \<Rightarrow> RingBuffer option" where
  "ring_write p r =
    (let n = glen p; bufLen = glen (buf r) in
     if n \<ge> bufLen then do {
       src \<leftarrow> gslice p (n - bufLen) n;
       b \<leftarrow> gcopy (buf r) 0 bufLen src;
       Some (r\<lparr>buf := b, pos := 0, full := True\<rparr>)
     }
     else
       let space = bufLen - pos r in
       if n \<le> space then do {
         b \<leftarrow> gcopy (buf r) (pos r) bufLen p;
         Some (r\<lparr>buf := b, pos := (pos r + n) mod bufLen\<rparr>)
       }
       else do {
         p1 \<leftarrow> gslice p 0 space;
         b \<leftarrow> gcopy (buf r) (pos r) bufLen p1;
         p2 \<leftarrow> gslice p space n;
         b \<leftarrow> gcopy b 0 bufLen p2;
         Some (r\<lparr>buf := b, full := True, pos := (pos r + n) mod bufLen\<rparr>)
       })"

definition readAll :: "RingBuffer \<Rightarrow> (bytes \<times> bool) option" where
  "readAll r =
    (if \<not> full r then do {
       src \<leftarrow> gslice (buf r) 0 (pos r);
       Some (src, False)
     }
     else do {
       a \<leftarrow> gslice (buf r) (pos r) (glen (buf r));
       b \<leftarrow> gslice (buf r) 0 (pos r);
       Some (a @ b, True)
     })"

definition ring_Len :: "RingBuffer \<Rightarrow> int" where
  "ring_Len r = (if full r then glen (buf r) else pos r)"

text \<open>What \<open>LoadFrom\<close> does with the file's bytes.\<close>

definition LoadFrom :: "bytes \<Rightarrow> RingBuffer \<Rightarrow> RingBuffer option" where
  "LoadFrom data r =
    (let bufLen = glen (buf r) in
     if glen data \<ge> bufLen then do {
       src \<leftarrow> gslice data (glen data - bufLen) (glen data);
       b \<leftarrow> gcopy (buf r) 0 bufLen src;
       Some (r\<lparr>buf := b, pos := 0, full := True\<rparr>)
     }
     else do {
       b \<leftarrow> gcopy (buf r) 0 (glen data) data;
       Some (r\<lparr>buf := b, pos := glen data, full := False\<rparr>)
     })"

definition is_continuation :: "byte \<Rightarrow> bool" where
  "is_continuation b \<longleftrightarrow> and b 0xC0 = 0x80"

definition cleanReplayStart :: "bytes \<Rightarrow> bool \<Rightarrow> bytes" where
  "cleanReplayStart data wrapped =
    (if \<not> wrapped \<or> data = [] then data
     else
       let data = dropWhile is_continuation data in
       case IndexByte 0x1b data of
         Some esc \<Rightarrow> drop esc data
       | None \<Rightarrow>
           (case IndexByte 0x0a data of
              Some nl \<Rightarrow> drop (nl + 1) data
            | None \<Rightarrow> data))"

definition ReadReplay :: "RingBuffer \<Rightarrow> bytes option" where
  "ReadReplay r = do { (data, wrapped) \<leftarrow> readAll r; Some (cleanReplayStart data wrapped) }"

section \<open>The contract of a bounded log\<close>

definition lastn :: "nat \<Rightarrow> 'a list \<Rightarrow> 'a list" where
  "lastn n xs = drop (length xs - n) xs"

lemma lastn_length: "length (lastn n xs) = min n (length xs)"
  by (simp add: lastn_def)

lemma lastn_all: "length xs \<le> n \<Longrightarrow> lastn n xs = xs"
  by (simp add: lastn_def)

lemma lastn_lastn_append: "lastn n (lastn n xs @ ys) = lastn n (xs @ ys)"
  by (cases "n \<le> length xs") (auto simp: lastn_def add.commute)

lemma lastn_append_long: "n \<le> length ys \<Longrightarrow> lastn n (xs @ ys) = lastn n ys"
  by (auto simp: lastn_def)

lemma lastn_suffix: "\<exists>ys. xs = ys @ lastn n xs"
  by (metis append_take_drop_id lastn_def)

text \<open>
  \<open>put\<close> adds bytes to a log that keeps the last \<open>cap\<close> of them; it may ask for more than the
  invariant (\<open>adm\<close>).
\<close>

locale bounded_log =
  fixes ok :: "'s \<Rightarrow> bool" and adm :: "bytes \<Rightarrow> 's \<Rightarrow> bool"
    and put :: "bytes \<Rightarrow> 's \<Rightarrow> 's option" and content :: "'s \<Rightarrow> bytes" and cap :: "'s \<Rightarrow> nat"
  assumes put_law: "ok s \<Longrightarrow> adm p s \<Longrightarrow>
      wp (put p s) (\<lambda>s'. ok s' \<and> cap s' = cap s \<and> content s' = lastn (cap s) (content s @ p))"
    and content_bound: "ok s \<Longrightarrow> length (content s) \<le> cap s"
begin

text \<open>The chunks of a run are admissible when each is in the state it meets.\<close>

fun admissible_run :: "bytes list \<Rightarrow> 's \<Rightarrow> bool" where
  "admissible_run [] s = True"
| "admissible_run (p # ps) s \<longleftrightarrow> adm p s \<and> (case put p s of None \<Rightarrow> False | Some s' \<Rightarrow> admissible_run ps s')"

lemma run_content:
  "ok s \<Longrightarrow> admissible_run ps s \<Longrightarrow>
     wp (run put ps s) (\<lambda>s'. ok s' \<and> cap s' = cap s \<and> content s' = lastn (cap s) (content s @ concat ps))"
proof (induction ps arbitrary: s)
  case Nil
  then show ?case by (simp add: lastn_all content_bound)
next
  case (Cons p ps)
  from Cons.prems(2) have adm: "adm p s" by simp
  from put_law [OF Cons.prems(1) adm] obtain u where
    u: "put p s = Some u" "ok u" "cap u = cap s" "content u = lastn (cap s) (content s @ p)"
    unfolding wp_ex by blast
  with Cons.prems(2) have "admissible_run ps u" by simp
  note u = u this
  from Cons.IH [OF u(2,5)] u show ?case
    by (auto simp: wp_ex lastn_lastn_append)
qed

end

section \<open>The ring buffer as a bounded log\<close>

definition ring_ok :: "RingBuffer \<Rightarrow> bool" where
  "ring_ok r \<longleftrightarrow> 0 \<le> pos r \<and> (pos r < glen (buf r) \<or> pos r = 0)"

definition ring_content :: "RingBuffer \<Rightarrow> bytes" where
  "ring_content r = (if full r then drop (nat (pos r)) (buf r) @ take (nat (pos r)) (buf r)
     else take (nat (pos r)) (buf r))"

text \<open>The write that ends exactly at the end of a buffer that never wrapped.\<close>

definition exact_fill :: "bytes \<Rightarrow> RingBuffer \<Rightarrow> bool" where
  "exact_fill p r \<longleftrightarrow> \<not> full r \<and> glen p < glen (buf r) \<and> pos r + glen p = glen (buf r)"

lemma ring_ok_le: "ring_ok r \<Longrightarrow> 0 \<le> pos r \<and> pos r \<le> glen (buf r)"
  by (auto simp: ring_ok_def)

lemma readAll_content: "ring_ok r \<Longrightarrow> readAll r = Some (ring_content r, full r)"
  using ring_ok_le [of r] by (auto simp: readAll_def ring_content_def gslice_def nat_diff_distrib)

lemma ring_Len_content: "ring_ok r \<Longrightarrow> ring_Len r = glen (ring_content r)"
  using ring_ok_le [of r] by (auto simp: ring_Len_def ring_content_def)

lemma ring_new_ok [simp]: "ring_ok (NewRingBuffer n)" "ring_content (NewRingBuffer n) = []"
  "length (buf (NewRingBuffer n)) = n"
  by (simp_all add: ring_ok_def NewRingBuffer_def ring_content_def)

lemma ring_write_long:
  assumes "glen p \<ge> glen (buf r)"
  shows "ring_write p r = Some (r\<lparr>buf := lastn (length (buf r)) p, pos := 0, full := True\<rparr>)"
  using assms by (simp add: ring_write_def Let_def gslice_def gcopy_def lastn_def nat_diff_distrib)

lemma ring_write_fits:
  assumes "ring_ok r" "glen p < glen (buf r)" "pos r + glen p \<le> glen (buf r)"
  shows "ring_write p r = Some (r\<lparr>buf := take (nat (pos r)) (buf r) @ p @ drop (nat (pos r) + length p) (buf r),
     pos := (pos r + glen p) mod glen (buf r)\<rparr>)"
  using assms by (auto simp: ring_write_def Let_def gcopy_def ring_ok_def nat_diff_distrib min_def)

lemma ring_write_wraps:
  assumes "ring_ok r" "glen p < glen (buf r)" "pos r + glen p > glen (buf r)"
  shows "ring_write p r = Some (r\<lparr>buf := drop (length (buf r) - nat (pos r)) p
       @ drop (length p - (length (buf r) - nat (pos r))) (take (nat (pos r)) (buf r))
       @ take (length (buf r) - nat (pos r)) p,
     full := True, pos := pos r + glen p - glen (buf r)\<rparr>)"
proof -
  obtain k where k: "pos r = int k" "k < length (buf r)"
    using assms by (cases "pos r") (auto simp: ring_ok_def)
  define s where "s = length (buf r) - k"
  have s: "0 < s" "s < length p" "length p < length (buf r)" "k + s = length (buf r)"
    "length p - s \<le> k" using assms k by (auto simp: s_def)
  have "(int k + glen p) mod glen (buf r) = int k + glen p - glen (buf r)"
  proof -
    have "(int k + glen p - glen (buf r)) mod glen (buf r) = int k + glen p - glen (buf r)"
      using s by (intro mod_pos_pos_trivial) auto
    then show ?thesis by simp
  qed
  then show ?thesis
    using s by (auto simp: ring_write_def Let_def k(1) s_def [symmetric] gslice_def gcopy_def min_def
        drop_append nat_diff_distrib of_nat_diff simp flip: of_nat_diff)
qed

lemma content_fits:
  assumes "ring_ok r" "glen p < glen (buf r)" "pos r + glen p \<le> glen (buf r)" "\<not> exact_fill p r"
    and "r' = r\<lparr>buf := take (nat (pos r)) (buf r) @ p @ drop (nat (pos r) + length p) (buf r),
     pos := (pos r + glen p) mod glen (buf r)\<rparr>"
  shows "ring_ok r' \<and> ring_content r' = lastn (length (buf r)) (ring_content r @ p)"
proof -
  obtain k where k: "pos r = int k" "k + length p \<le> length (buf r)"
    using assms by (cases "pos r") (auto simp: ring_ok_def)
  show ?thesis
  proof (cases "k + length p = length (buf r)")
    case True
    then have "full r" using assms(2,4) k by (auto simp: exact_fill_def)
    moreover have "(int k + glen p) mod glen (buf r) = 0" using True by (simp flip: of_nat_add)
    ultimately show ?thesis
      using True k unfolding assms(5) by (auto simp: ring_ok_def ring_content_def lastn_def)
  next
    case False
    then have m: "(int k + glen p) mod glen (buf r) = int (k + length p)"
      using k by (simp add: mod_pos_pos_trivial)
    have n: "nat (int (k + length p)) = k + length p" by simp
    show ?thesis
      using False k unfolding assms(5)
      by (auto simp: ring_ok_def ring_content_def lastn_def m n k(1) add.commute simp del: of_nat_add)
  qed
qed

lemma content_wraps:
  assumes "ring_ok r" "glen p < glen (buf r)" "pos r + glen p > glen (buf r)"
    and "r' = r\<lparr>buf := drop (length (buf r) - nat (pos r)) p
       @ drop (length p - (length (buf r) - nat (pos r))) (take (nat (pos r)) (buf r))
       @ take (length (buf r) - nat (pos r)) p,
     full := True, pos := pos r + glen p - glen (buf r)\<rparr>"
  shows "ring_ok r' \<and> ring_content r' = lastn (length (buf r)) (ring_content r @ p)
     \<and> length (buf r') = length (buf r)"
proof -
  obtain k where k: "pos r = int k" "k < length (buf r)"
    using assms by (cases "pos r") (auto simp: ring_ok_def)
  define s where "s = length (buf r) - k"
  have s: "0 < s" "s < length p" "length p < length (buf r)" "k + s = length (buf r)" "length p - s \<le> k"
    using assms k by (auto simp: s_def)
  have n: "nat (int k + glen p - glen (buf r)) = length p - s" using s by simp
  have "k + length p - length (buf r) = length p - s" using s by simp
  then show ?thesis
    using s unfolding assms(4)
    by (auto simp: ring_ok_def ring_content_def lastn_def n k(1) s_def [symmetric])
qed

lemma ring_put_law:
  assumes "ring_ok r" "\<not> exact_fill p r"
  shows "wp (ring_write p r) (\<lambda>r'. ring_ok r' \<and> length (buf r') = length (buf r)
     \<and> ring_content r' = lastn (length (buf r)) (ring_content r @ p))"
proof -
  consider "glen p \<ge> glen (buf r)" | "glen p < glen (buf r)" "pos r + glen p \<le> glen (buf r)"
    | "glen p < glen (buf r)" "pos r + glen p > glen (buf r)" by linarith
  then show ?thesis
  proof cases
    case 1
    then show ?thesis
      by (simp add: ring_write_long ring_ok_def ring_content_def lastn_append_long lastn_length)
  next
    case 2
    with assms(1) have "nat (pos r) + length p \<le> length (buf r)" by (auto simp: ring_ok_def)
    with content_fits [OF assms(1) 2 assms(2) refl] show ?thesis
      by (simp add: ring_write_fits [OF assms(1) 2])
  next
    case 3
    from content_wraps [OF assms(1) 3 refl] show ?thesis
      by (simp add: ring_write_wraps [OF assms(1) 3])
  qed
qed

lemma ring_content_bound: "ring_ok r \<Longrightarrow> length (ring_content r) \<le> length (buf r)"
  using ring_ok_le [of r] by (auto simp: ring_content_def)

interpretation ring: bounded_log ring_ok "\<lambda>p r. \<not> exact_fill p r" ring_write ring_content "\<lambda>r. length (buf r)"
  by unfold_locales (auto intro: ring_put_law ring_content_bound)

text \<open>The write that is lost: the buffer is left empty, with all its content dropped.\<close>

lemma exact_fill_loses:
  assumes "ring_ok r" "exact_fill p r"
  shows "wp (ring_write p r) (\<lambda>r'. ring_ok r' \<and> ring_content r' = [] \<and> buf r' = ring_content r @ p
      \<and> length (buf r') = length (buf r))"
proof -
  have f: "glen p < glen (buf r)" "pos r + glen p \<le> glen (buf r)" "pos r + glen p = glen (buf r)" "\<not> full r"
    using assms(2) by (auto simp: exact_fill_def)
  then have "nat (pos r) + length p = length (buf r)" using assms(1) by (auto simp: ring_ok_def)
  with f show ?thesis
    by (simp add: ring_write_fits [OF assms(1) f(1,2)] ring_ok_def ring_content_def)
qed

lemma LoadFrom_content:
  "wp (LoadFrom data r) (\<lambda>r'. ring_ok r' \<and> length (buf r') = length (buf r)
     \<and> ring_content r' = lastn (length (buf r)) data)"
  by (auto simp: LoadFrom_def Let_def wp_simps ring_ok_def ring_content_def lastn_def nat_diff_distrib)

lemma ring_write_total: "ring_ok r \<Longrightarrow> wp (ring_write p r) (\<lambda>r'. ring_ok r' \<and> length (buf r') = length (buf r))"
  by (cases "exact_fill p r")
    (use exact_fill_loses [of r p] ring_put_law [of r p] in \<open>auto simp: wp_ex\<close>)

section \<open>Where a replay starts\<close>

text \<open>The replay without its leading continuation bytes, cut at a byte that was found.\<close>

lemma split_IndexByte:
  assumes "IndexByte c bs = Some i"
  shows "bs = take i bs @ c # drop (Suc i) bs" "drop i bs = c # drop (Suc i) bs" "c \<notin> set (take i bs)"
  using assms unfolding IndexByte_Some by (auto simp: id_take_nth_drop Cons_nth_drop_Suc)

lemma cleanReplayStart_suffix: "\<exists>cut. data = cut @ cleanReplayStart data wrapped"
proof -
  let ?d = "dropWhile is_continuation data" and ?c = "takeWhile is_continuation data"
  have "\<exists>n. cleanReplayStart data wrapped = drop n ?d \<or> cleanReplayStart data wrapped = data"
    by (auto simp: cleanReplayStart_def Let_def split: option.splits intro: exI [of _ 0])
  moreover have "data = (?c @ take n ?d) @ drop n ?d" for n by simp
  ultimately show ?thesis by (metis append_Nil)
qed

lemma esc_not_continuation [simp]: "\<not> is_continuation 0x1b" "\<not> is_continuation 0x0a"
  by (simp_all add: is_continuation_def)

lemma in_dropWhile: "x \<in> set xs \<Longrightarrow> \<not> P x \<Longrightarrow> x \<in> set (dropWhile P xs)"
  by (induction xs) auto

lemma cleanReplayStart_cases:
  assumes "data \<noteq> []"
  shows "0x1b \<in> set data \<Longrightarrow> \<exists>rest cut. cleanReplayStart data True = 0x1b # rest \<and> data = cut @ 0x1b # rest
      \<and> 0x1b \<notin> set cut"
    and "0x1b \<notin> set data \<Longrightarrow> 0x0a \<in> set data \<Longrightarrow> \<exists>cut. data = cut @ 0x0a # cleanReplayStart data True
      \<and> 0x0a \<notin> set cut"
proof -
  let ?d = "dropWhile is_continuation data" and ?c = "takeWhile is_continuation data"
  have cc: "0x1b \<notin> set ?c" "0x0a \<notin> set ?c" by (auto dest: set_takeWhileD)
  {
    assume "0x1b \<in> set data"
    then have "0x1b \<in> set ?d" by (simp add: in_dropWhile)
    then obtain i where i: "IndexByte 0x1b ?d = Some i"
      by (cases "IndexByte 0x1b ?d") (auto simp: IndexByte_None)
    note sp = split_IndexByte [OF i]
    have "cleanReplayStart data True = 0x1b # drop (Suc i) ?d"
      using i assms sp(2) by (simp add: cleanReplayStart_def Let_def)
    moreover have "data = (?c @ take i ?d) @ 0x1b # drop (Suc i) ?d"
      using sp(1) by (metis append_assoc takeWhile_dropWhile_id)
    moreover have "0x1b \<notin> set (?c @ take i ?d)" using cc sp(3) by simp
    ultimately show "\<exists>rest cut. cleanReplayStart data True = 0x1b # rest \<and> data = cut @ 0x1b # rest
        \<and> 0x1b \<notin> set cut" by blast
  }
  {
    assume a: "0x1b \<notin> set data" "0x0a \<in> set data"
    then have "0x0a \<in> set ?d" by (simp add: in_dropWhile)
    then obtain i where i: "IndexByte 0x0a ?d = Some i"
      by (cases "IndexByte 0x0a ?d") (auto simp: IndexByte_None)
    note sp = split_IndexByte [OF i]
    have "IndexByte 0x1b ?d = None" using a(1) by (auto simp: IndexByte_None dest: set_dropWhileD)
    then have "cleanReplayStart data True = drop (Suc i) ?d"
      using i assms by (simp add: cleanReplayStart_def Let_def)
    moreover have "data = (?c @ take i ?d) @ 0x0a # drop (Suc i) ?d"
      using sp(1) by (metis append_assoc takeWhile_dropWhile_id)
    moreover have "0x0a \<notin> set (?c @ take i ?d)" using cc sp(3) by simp
    ultimately show "\<exists>cut. data = cut @ 0x0a # cleanReplayStart data True \<and> 0x0a \<notin> set cut" by metis
  }
qed

end
