(* ===== verification/Client_Queue.thy ===== *)
theory Client_Queue
  imports Golib
begin

text \<open>
  The outbound queue of an attached WebSocket client and the goroutine that drains it
  (\<open>wsClient\<close> and \<open>writePump\<close> in \<open>src/cmd/termulaa/session.go\<close>). The queue operations run
  under \<open>outMu\<close> and are functions on the client; \<open>notify\<close>, a channel of capacity one, is a flag.
  The pump is a step relation that interleaves with any number of producers, one step for each
  point where another goroutine can get in between: receiving from \<open>notify\<close>, taking the frames,
  each \<open>WriteMessage\<close> (which may fail).
\<close>

section \<open>The queue\<close>

definition maxClientBacklog :: int where "maxClientBacklog = 8 * 2 ^ 20"
definition maxCoalescedFrame :: int where "maxCoalescedFrame = 256 * 2 ^ 10"

record outFrame =
  ftext :: bool
  fdata :: bytes

record wsClient =
  c_tabID :: string
  ownerToken :: string
  cout :: "outFrame list"
  outBytes :: int
  notify :: bool
  coverflow :: bool

definition newWSClient :: "string \<Rightarrow> string \<Rightarrow> wsClient" where
  "newWSClient tab token = \<lparr>c_tabID = tab, ownerToken = token, cout = [], outBytes = 0, notify = False,
     coverflow = False\<rparr>"

definition signal :: "wsClient \<Rightarrow> wsClient" where
  "signal c = c\<lparr>notify := True\<rparr>"

definition queueBinary :: "bytes \<Rightarrow> wsClient \<Rightarrow> wsClient" where
  "queueBinary d c =
    (if coverflow c then c
     else
       let fs = cout c;
           fs' = (if fs \<noteq> [] \<and> \<not> ftext (last fs) \<and> glen (fdata (last fs)) + glen d \<le> maxCoalescedFrame
                  then butlast fs @ [(last fs)\<lparr>fdata := fdata (last fs) @ d\<rparr>]
                  else fs @ [\<lparr>ftext = False, fdata = d\<rparr>]);
           n = outBytes c + glen d
       in signal (c\<lparr>cout := fs', outBytes := n, coverflow := n > maxClientBacklog\<rparr>))"

definition queueText :: "bytes \<Rightarrow> wsClient \<Rightarrow> wsClient" where
  "queueText m c =
    (if coverflow c then c
     else signal (c\<lparr>cout := cout c @ [\<lparr>ftext = True, fdata = m\<rparr>], outBytes := outBytes c + glen m\<rparr>))"

definition takePending :: "wsClient \<Rightarrow> outFrame list \<times> bool \<times> wsClient" where
  "takePending c = (cout c, coverflow c, c\<lparr>cout := [], outBytes := 0\<rparr>)"

section \<open>What the queue holds\<close>

text \<open>The terminal bytes among the frames, and the control messages.\<close>

definition binary_bytes :: "outFrame list \<Rightarrow> bytes" where
  "binary_bytes fs = concat (map fdata (filter (\<lambda>f. \<not> ftext f) fs))"

definition texts :: "outFrame list \<Rightarrow> bytes list" where
  "texts fs = map fdata (filter ftext fs)"

definition frame_bytes :: "outFrame list \<Rightarrow> int" where
  "frame_bytes fs = sum_list (map (\<lambda>f. glen (fdata f)) fs)"

text \<open>The frames respect the bound \<open>n\<close> on a binary message.\<close>

definition frames_bounded :: "int \<Rightarrow> outFrame list \<Rightarrow> bool" where
  "frames_bounded n fs \<longleftrightarrow> list_all (\<lambda>f. ftext f \<or> glen (fdata f) \<le> n) fs"

definition client_ok :: "wsClient \<Rightarrow> bool" where
  "client_ok c \<longleftrightarrow> outBytes c = frame_bytes (cout c)"

lemma binary_bytes_simps [simp]:
  "binary_bytes [] = []" "binary_bytes (fs @ gs) = binary_bytes fs @ binary_bytes gs"
  "binary_bytes (f # fs) = (if ftext f then [] else fdata f) @ binary_bytes fs"
  by (simp_all add: binary_bytes_def)

lemma texts_simps [simp]:
  "texts [] = []" "texts (fs @ gs) = texts fs @ texts gs"
  "texts (f # fs) = (if ftext f then [fdata f] else []) @ texts fs"
  by (simp_all add: texts_def)

lemma frame_bytes_simps [simp]:
  "frame_bytes [] = 0" "frame_bytes (fs @ gs) = frame_bytes fs + frame_bytes gs"
  "frame_bytes (f # fs) = glen (fdata f) + frame_bytes fs"
  by (simp_all add: frame_bytes_def)

lemma merge_last:
  assumes "fs \<noteq> []" "\<not> ftext (last fs)"
  shows "binary_bytes (butlast fs @ [(last fs)\<lparr>fdata := fdata (last fs) @ d\<rparr>]) = binary_bytes fs @ d"
    "texts (butlast fs @ [(last fs)\<lparr>fdata := fdata (last fs) @ d\<rparr>]) = texts fs"
    "frame_bytes (butlast fs @ [(last fs)\<lparr>fdata := fdata (last fs) @ d\<rparr>]) = frame_bytes fs + glen d"
  using assms by (cases fs rule: rev_cases; simp)+

text \<open>No byte is dropped, reordered or duplicated while the client has not overflowed.\<close>

lemma queueBinary_bytes:
  assumes "\<not> coverflow c"
  shows "binary_bytes (cout (queueBinary d c)) = binary_bytes (cout c) @ d"
    "texts (cout (queueBinary d c)) = texts (cout c)" "notify (queueBinary d c)"
    "outBytes (queueBinary d c) = outBytes c + glen d"
    "coverflow (queueBinary d c) \<longleftrightarrow> outBytes c + glen d > maxClientBacklog"
  using assms merge_last [of "cout c" d] by (auto simp: queueBinary_def Let_def signal_def)

lemma queueText_bytes:
  assumes "\<not> coverflow c"
  shows "binary_bytes (cout (queueText m c)) = binary_bytes (cout c)"
    "texts (cout (queueText m c)) = texts (cout c) @ [m]" "notify (queueText m c)"
    "\<not> coverflow (queueText m c)"
  using assms by (auto simp: queueText_def signal_def)

lemma queue_overflow: "coverflow c \<Longrightarrow> queueBinary d c = c" "coverflow c \<Longrightarrow> queueText m c = c"
  by (simp_all add: queueBinary_def queueText_def)

lemma queueBinary_ok: "client_ok c \<Longrightarrow> client_ok (queueBinary d c)"
  using merge_last [of "cout c" d] by (auto simp: client_ok_def queueBinary_def Let_def signal_def)

lemma queueText_ok: "client_ok c \<Longrightarrow> client_ok (queueText m c)"
  by (auto simp: client_ok_def queueText_def signal_def)

lemma takePending_ok: "client_ok (snd (snd (takePending c)))"
  by (simp add: takePending_def client_ok_def)

lemma queueBinary_bounded:
  assumes "frames_bounded n (cout c)" "maxCoalescedFrame \<le> n" "glen d \<le> n"
  shows "frames_bounded n (cout (queueBinary d c))"
proof -
  have "frames_bounded n (butlast (cout c))"
    using assms(1) by (auto simp: frames_bounded_def list_all_iff dest: in_set_butlastD)
  with assms show ?thesis
    by (auto simp: queueBinary_def Let_def signal_def frames_bounded_def)
qed

lemma queueText_bounded: "frames_bounded n (cout c) \<Longrightarrow> frames_bounded n (cout (queueText m c))"
  by (auto simp: queueText_def signal_def frames_bounded_def)

section \<open>The pump\<close>

text \<open>Where \<open>writePump\<close> is between two steps of other goroutines.\<close>

datatype pump_pc =
    Waiting                           \<comment> \<open>in the \<open>select\<close>\<close>
  | Woken                             \<comment> \<open>received from \<open>notify\<close>, about to take the frames\<close>
  | Sending "outFrame list" bool      \<comment> \<open>frames still to write; the overflow flag\<close>
  | Flushing "outFrame list"          \<comment> \<open>the session is done\<close>
  | Stopped

record pump =
  pc :: pump_pc
  pclient :: wsClient
  wire :: "outFrame list"     \<comment> \<open>messages written to the connection\<close>
  closed :: bool              \<comment> \<open>the pump closed the connection\<close>
  fed :: bytes                \<comment> \<open>ghost: the terminal bytes the queue accepted\<close>

definition pump_init :: "string \<Rightarrow> string \<Rightarrow> pump" where
  "pump_init tab token = \<lparr>pc = Waiting, pclient = newWSClient tab token, wire = [], closed = False, fed = []\<rparr>"

inductive pump_step :: "bytes \<Rightarrow> pump \<Rightarrow> pump \<Rightarrow> bool" for exitMsg :: bytes where
  feed: "pump_step exitMsg s (s\<lparr>pclient := queueBinary d (pclient s),
           fed := (if coverflow (pclient s) then fed s else fed s @ d)\<rparr>)"
| control: "pump_step exitMsg s (s\<lparr>pclient := queueText m (pclient s)\<rparr>)"
| wake: "pc s = Waiting \<Longrightarrow> notify (pclient s) \<Longrightarrow>
    pump_step exitMsg s (s\<lparr>pc := Woken, pclient := (pclient s)\<lparr>notify := False\<rparr>\<rparr>)"
| take: "pc s = Woken \<Longrightarrow> takePending (pclient s) = (fs, ov, c) \<Longrightarrow>
    pump_step exitMsg s (s\<lparr>pc := Sending fs ov, pclient := c\<rparr>)"
| send: "pc s = Sending (f # fs) ov \<Longrightarrow>
    pump_step exitMsg s (s\<lparr>pc := Sending fs ov, wire := wire s @ [f]\<rparr>)"
| send_fail: "pc s = Sending (f # fs) ov \<Longrightarrow> pump_step exitMsg s (s\<lparr>pc := Stopped\<rparr>)"
| sent: "pc s = Sending [] False \<Longrightarrow> pump_step exitMsg s (s\<lparr>pc := Waiting\<rparr>)"
| too_slow: "pc s = Sending [] True \<Longrightarrow> pump_step exitMsg s (s\<lparr>pc := Stopped, closed := True\<rparr>)"
| ping_fail: "pc s = Waiting \<Longrightarrow> pump_step exitMsg s (s\<lparr>pc := Stopped\<rparr>)"
| detached: "pc s = Waiting \<Longrightarrow> pump_step exitMsg s (s\<lparr>pc := Stopped\<rparr>)"
| session_done: "pc s = Waiting \<Longrightarrow> takePending (pclient s) = (fs, ov, c) \<Longrightarrow>
    pump_step exitMsg s (s\<lparr>pc := Flushing (filter (\<lambda>f. \<not> ftext f) fs), pclient := c\<rparr>)"
| flush: "pc s = Flushing (f # fs) \<Longrightarrow>
    pump_step exitMsg s (s\<lparr>pc := Flushing fs, wire := wire s @ [f]\<rparr>)"
| flush_fail: "pc s = Flushing (f # fs) \<Longrightarrow> pump_step exitMsg s (s\<lparr>pc := Stopped\<rparr>)"
| exit: "pc s = Flushing [] \<Longrightarrow>
    pump_step exitMsg s (s\<lparr>pc := Stopped, wire := wire s @ [\<lparr>ftext = True, fdata = exitMsg\<rparr>]\<rparr>)"

inductive_cases pump_stepE: "pump_step exitMsg s s'"

inductive pump_reachable :: "bytes \<Rightarrow> string \<Rightarrow> string \<Rightarrow> pump \<Rightarrow> bool" for exitMsg tab token where
  start: "pump_reachable exitMsg tab token (pump_init tab token)"
| step: "pump_reachable exitMsg tab token s \<Longrightarrow> pump_step exitMsg s s' \<Longrightarrow> pump_reachable exitMsg tab token s'"

text \<open>The frames the pump holds between the queue and the wire.\<close>

primrec in_flight :: "pump_pc \<Rightarrow> outFrame list" where
  "in_flight Waiting = []"
| "in_flight Woken = []"
| "in_flight (Sending fs ov) = fs"
| "in_flight (Flushing fs) = fs"
| "in_flight Stopped = []"

text \<open>
  What is on the wire, in the pump's hands and in the queue is, in this order, everything that
  was fed; after the pump stopped, what is on the wire is still a prefix.
\<close>

definition in_order :: "pump \<Rightarrow> bool" where
  "in_order s \<longleftrightarrow>
     (if pc s = Stopped then \<exists>rest. fed s = binary_bytes (wire s) @ rest
      else fed s = binary_bytes (wire s) @ binary_bytes (in_flight (pc s)) @ binary_bytes (cout (pclient s)))"

text \<open>No wake-up is lost: with frames queued and the pump at its \<open>select\<close> (or on its way back to
  it), the channel holds a token.\<close>

definition no_lost_wakeup :: "pump \<Rightarrow> bool" where
  "no_lost_wakeup s \<longleftrightarrow>
     ((pc s = Waiting \<or> (\<exists>fs ov. pc s = Sending fs ov)) \<longrightarrow> cout (pclient s) \<noteq> [] \<longrightarrow> notify (pclient s))"

text \<open>Once the pump saw the overflow flag nothing more enters the queue.\<close>

definition overflow_sticks :: "pump \<Rightarrow> bool" where
  "overflow_sticks s \<longleftrightarrow> (\<forall>fs. pc s = Sending fs True \<longrightarrow> coverflow (pclient s) \<and> cout (pclient s) = [])"

lemma binary_bytes_filter [simp]: "binary_bytes (filter (\<lambda>f. \<not> ftext f) fs) = binary_bytes fs"
  by (simp add: binary_bytes_def)

lemma in_order_step:
  assumes "pump_step exitMsg s s'" "in_order s"
  shows "in_order s'"
  using assms
proof (cases rule: pump_step.cases)
  case (feed d)
  with assms(2) show ?thesis
    using queueBinary_bytes(1) [of "pclient s" d] queue_overflow(1) [of "pclient s" d]
    by (cases "coverflow (pclient s)") (auto simp: in_order_def split: if_splits)
next
  case (control m)
  with assms(2) show ?thesis
    using queueText_bytes(1) [of "pclient s" m] queue_overflow(2) [of "pclient s" m]
    by (cases "coverflow (pclient s)") (auto simp: in_order_def)
qed (auto simp: in_order_def takePending_def split: if_splits)

lemma queue_notifies:
  "\<not> coverflow c \<Longrightarrow> notify (queueBinary d c)" "\<not> coverflow c \<Longrightarrow> notify (queueText m c)"
  by (simp_all add: queueBinary_bytes queueText_bytes)

lemma no_lost_wakeup_step:
  assumes "pump_step exitMsg s s'" "no_lost_wakeup s"
  shows "no_lost_wakeup s'"
  using assms
proof (cases rule: pump_step.cases)
  case (feed d)
  with assms(2) show ?thesis
    by (cases "coverflow (pclient s)") (auto simp: no_lost_wakeup_def queue_notifies queue_overflow)
next
  case (control m)
  with assms(2) show ?thesis
    by (cases "coverflow (pclient s)") (auto simp: no_lost_wakeup_def queue_notifies queue_overflow)
qed (auto simp: no_lost_wakeup_def takePending_def)

lemma overflow_sticks_step:
  assumes "pump_step exitMsg s s'" "overflow_sticks s"
  shows "overflow_sticks s'"
  using assms
  by (cases rule: pump_step.cases) (auto simp: overflow_sticks_def takePending_def queue_overflow)

lemma reachable_invariants:
  "pump_reachable exitMsg tab token s \<Longrightarrow>
     in_order s \<and> no_lost_wakeup s \<and> overflow_sticks s \<and> client_ok (pclient s)"
proof (induction rule: pump_reachable.induct)
  case start
  then show ?case
    by (simp add: in_order_def no_lost_wakeup_def overflow_sticks_def pump_init_def newWSClient_def client_ok_def)
next
  case (step s s')
  have "client_ok (pclient s')"
    using step.hyps(2) step.IH takePending_ok [of "pclient s"]
    by cases (auto simp: queueBinary_ok queueText_ok, auto simp: client_ok_def)
  with step show ?case by (auto intro: in_order_step no_lost_wakeup_step overflow_sticks_step)
qed

text \<open>A schedule without write failures drains the queue.\<close>

lemma send_all:
  "pc s = Sending fs ov \<Longrightarrow> (pump_step exitMsg)\<^sup>*\<^sup>* s (s\<lparr>pc := Sending [] ov, wire := wire s @ fs\<rparr>)"
proof (induction fs arbitrary: s)
  case Nil
  then have "s\<lparr>pc := Sending [] ov, wire := wire s @ []\<rparr> = s" by simp
  then show ?case by simp
next
  case (Cons f fs)
  let ?u = "s\<lparr>pc := Sending fs ov, wire := wire s @ [f]\<rparr>"
  have "pump_step exitMsg s ?u" using Cons.prems by (rule pump_step.send)
  moreover have "(pump_step exitMsg)\<^sup>*\<^sup>* ?u (?u\<lparr>pc := Sending [] ov, wire := wire ?u @ fs\<rparr>)"
    by (rule Cons.IH) simp
  ultimately show ?case by (simp add: converse_rtranclp_into_rtranclp)
qed

definition drained :: "pump \<Rightarrow> pump" where
  "drained s = s\<lparr>pc := Sending [] (coverflow (pclient s)), pclient := snd (snd (takePending (pclient s))),
     wire := wire s @ cout (pclient s)\<rparr>"

lemma drain_woken:
  assumes "pc s = Woken"
  shows "(pump_step exitMsg)\<^sup>*\<^sup>* s (drained s)"
proof -
  let ?u = "s\<lparr>pc := Sending (cout (pclient s)) (coverflow (pclient s)), pclient := snd (snd (takePending (pclient s)))\<rparr>"
  have "pump_step exitMsg s ?u"
    by (rule pump_step.take [OF assms]) (simp add: takePending_def)
  moreover have "(pump_step exitMsg)\<^sup>*\<^sup>* ?u (?u\<lparr>pc := Sending [] (coverflow (pclient s)), wire := wire ?u @ cout (pclient s)\<rparr>)"
    by (rule send_all) simp
  moreover have "?u\<lparr>pc := Sending [] (coverflow (pclient s)), wire := wire ?u @ cout (pclient s)\<rparr> = drained s"
    by (simp add: drained_def)
  ultimately show ?thesis by (metis converse_rtranclp_into_rtranclp)
qed

lemma drained_bytes:
  "pc s = Woken \<Longrightarrow> in_order s \<Longrightarrow> fed (drained s) = fed s \<and> binary_bytes (wire (drained s)) = fed s"
  by (simp add: drained_def in_order_def)

lemma drain_waiting:
  assumes "pc s = Waiting" "in_order s" "no_lost_wakeup s"
  shows "\<exists>s'. (pump_step exitMsg)\<^sup>*\<^sup>* s s' \<and> fed s' = fed s \<and> binary_bytes (wire s') = fed s"
proof (cases "cout (pclient s) = []")
  case True
  with assms show ?thesis by (intro exI [of _ s]) (simp add: in_order_def)
next
  case False
  let ?u = "s\<lparr>pc := Woken, pclient := (pclient s)\<lparr>notify := False\<rparr>\<rparr>"
  from False assms(1,3) have "notify (pclient s)" by (simp add: no_lost_wakeup_def)
  then have "pump_step exitMsg s ?u"
    using assms(1) by (rule pump_step.wake [rotated])
  moreover have "(pump_step exitMsg)\<^sup>*\<^sup>* ?u (drained ?u)" by (rule drain_woken) simp
  ultimately have "(pump_step exitMsg)\<^sup>*\<^sup>* s (drained ?u)" by (rule converse_rtranclp_into_rtranclp)
  moreover have "in_order ?u" using assms(1,2) by (simp add: in_order_def)
  ultimately show ?thesis using drained_bytes [of ?u] by auto
qed

lemma pump_drains:
  assumes "pump_reachable exitMsg tab token s" and "pc s = Waiting \<or> pc s = Woken \<or> pc s = Sending fs ov"
  shows "\<exists>s'. (pump_step exitMsg)\<^sup>*\<^sup>* s s' \<and> fed s' = fed s \<and> binary_bytes (wire s') = fed s"
proof -
  note inv = reachable_invariants [OF assms(1)]
  consider "pc s = Waiting" | "pc s = Woken" | "pc s = Sending fs ov" using assms(2) by blast
  then show ?thesis
  proof cases
    case 1
    with inv show ?thesis by (intro drain_waiting) auto
  next
    case 2
    with inv drain_woken [OF 2] drained_bytes [OF 2] show ?thesis by blast
  next
    case 3
    let ?u = "s\<lparr>pc := Sending [] ov, wire := wire s @ fs\<rparr>"
    have u: "(pump_step exitMsg)\<^sup>*\<^sup>* s ?u" by (rule send_all [OF 3])
    show ?thesis
    proof (cases ov)
      case True
      with inv 3 have "cout (pclient s) = []" by (auto simp: overflow_sticks_def)
      with u inv 3 show ?thesis by (intro exI [of _ ?u]) (auto simp: in_order_def)
    next
      case False
      let ?v = "?u\<lparr>pc := Waiting\<rparr>"
      have "pump_step exitMsg ?u ?v" using False by (intro pump_step.sent) simp
      with u have v: "(pump_step exitMsg)\<^sup>*\<^sup>* s ?v" by (rule rtranclp.rtrancl_into_rtrancl)
      have "in_order ?v" "no_lost_wakeup ?v" using inv 3 by (auto simp: in_order_def no_lost_wakeup_def)
      with drain_waiting [of ?v exitMsg] obtain s' where
        s': "(pump_step exitMsg)\<^sup>*\<^sup>* ?v s'" "fed s' = fed s" "binary_bytes (wire s') = fed s" by auto
      from rtranclp_trans [OF v s'(1)] s'(2,3) show ?thesis by blast
    qed
  qed
qed

end
