(* ===== verification/Session.thy ===== *)
theory Session
  imports Golib_Strings Snapshot_Safety Ring_Buffer Client_Queue
begin

text \<open>
  A shell session (\<open>src/cmd/termulaa/session.go\<close>): its state, the environment its shell is started
  with, the step that records a chunk of output and fans it out, joining and leaving viewers,
  resizing, input, dropped files, its end. The operating system is the record \<open>world\<close>: what
  starting a process, \<open>os.Stat\<close> or the clock answer. Instants are nanoseconds since 1970. Viewers
  are pointers (\<open>nat\<close>) into a heap of \<open>wsClient\<close>s, since the session, the pump and the handler of a
  viewer share them. A run-time panic is \<open>None\<close>, an error value is on the left of a sum.
\<close>

section \<open>The outside world\<close>

record world =
  w_now :: int
  w_environ :: "string list"
  w_home :: string
  w_tempDir :: string
  w_start :: "string \<Rightarrow> string \<Rightarrow> string \<Rightarrow> string list \<Rightarrow> int option" \<comment> \<open>\<open>pty.Start\<close>: path, argv[0], directory, environment; the pid\<close>
  w_exists :: "string \<Rightarrow> bool"                  \<comment> \<open>\<open>os.Stat\<close> succeeds\<close>
  w_lookPath :: "string \<Rightarrow> string option"
  w_running :: "int \<Rightarrow> bool"                    \<comment> \<open>\<open>kill(pid, 0)\<close> succeeds\<close>
  w_exits :: "int \<Rightarrow> bool"                      \<comment> \<open>the process ends within two seconds of SIGTERM\<close>
  w_cwd :: "int \<Rightarrow> string option"               \<comment> \<open>\<open>getCWD\<close>\<close>
  w_canWrite :: "string \<Rightarrow> bool"                \<comment> \<open>\<open>os.WriteFile\<close> succeeds\<close>

datatype error = StartFailed | SessionNotFound string | TabNotFound string
  | NotInTab string string | InvalidLayout | BadBase64 | WriteFailed string

definition zeroTime :: int where "zeroTime = - 62135596800000000000"

section \<open>Identifiers\<close>

definition hex_digit :: "int \<Rightarrow> char" where
  "hex_digit k = char_of (nat (if k < 10 then 48 + k else 87 + k))"

definition HexEncode :: "bytes \<Rightarrow> string" where
  "HexEncode bs = concat (map (\<lambda>b. [hex_digit (uint b div 16), hex_digit (uint b mod 16)]) bs)"

text \<open>\<open>generateID\<close> from the 16 random bytes it reads.\<close>

definition generateID :: "bytes \<Rightarrow> string" where
  "generateID b = HexEncode b"

section \<open>State\<close>

datatype ptyState = NoPty | OpenPty | ClosedPty

record Session =
  s_ID :: string
  s_CWD :: string
  s_Shell :: string
  s_Cols :: int
  s_Rows :: int
  s_ExitCode :: int
  s_Alive :: bool
  s_CreatedAt :: int
  s_LastActive :: int
  s_pty :: ptyState
  s_sizes :: "(16 word \<times> 16 word) list"   \<comment> \<open>the window sizes set on the PTY, in order\<close>
  s_input :: bytes                         \<comment> \<open>the bytes written to the PTY\<close>
  s_scrollback :: RingBuffer
  s_pid :: int
  s_lastOutput :: int
  s_term :: Terminal
  s_clients :: "nat list"
  s_done :: bool

record SessionMeta =
  m_ID :: string
  m_CWD :: string
  m_Shell :: string
  m_Cols :: int
  m_Rows :: int
  m_ExitCode :: int
  m_CreatedAt :: int
  m_LastActive :: int

record SessionInfo = SessionMeta +
  i_Alive :: bool

type_synonym clients_heap = "nat \<Rightarrow> wsClient"

definition defaultScrollbackBytes :: int where "defaultScrollbackBytes = 256 * 1024"

definition uint16 :: "int \<Rightarrow> 16 word" where "uint16 n = word_of_int n"

text \<open>\<open>pty.Setsize\<close> fails, without a trace, on a closed PTY.\<close>

definition Setsize :: "int \<Rightarrow> int \<Rightarrow> Session \<Rightarrow> Session" where
  "Setsize ncols nrows s = (if s_pty s = OpenPty then s\<lparr>s_sizes := s_sizes s @ [(uint16 ncols, uint16 nrows)]\<rparr> else s)"

section \<open>Starting a shell\<close>

definition historyLimitValue :: "int \<Rightarrow> string" where
  "historyLimitValue n = (if n > 0 then itoa n else ''0'')"

text \<open>The loop over the inherited environment, and what is appended after it.\<close>

definition env_override :: "string \<Rightarrow> string \<Rightarrow> string \<Rightarrow> string" where
  "env_override histFile limit e =
    (if HasPrefix e ''TERM='' then ''TERM=xterm-256color''
     else if HasPrefix e ''HISTFILE='' then ''HISTFILE='' @ histFile
     else if HasPrefix e ''HISTSIZE='' then ''HISTSIZE='' @ limit
     else if HasPrefix e ''HISTFILESIZE='' then ''HISTFILESIZE='' @ limit
     else e)"

definition session_env :: "string list \<Rightarrow> string \<Rightarrow> int \<Rightarrow> string list" where
  "session_env env histFile historyLimit =
    (let limit = historyLimitValue historyLimit;
         has = (\<lambda>name. list_ex (\<lambda>e. HasPrefix e name) env)
     in map (env_override histFile limit) env
        @ (if \<not> has ''TERM='' then [''TERM=xterm-256color''] else [])
        @ (if \<not> has ''HISTFILE='' \<and> histFile \<noteq> '''' then [''HISTFILE='' @ histFile] else [])
        @ (if \<not> has ''HISTSIZE='' then [''HISTSIZE='' @ limit] else [])
        @ (if \<not> has ''HISTFILESIZE='' then [''HISTFILESIZE='' @ limit] else []))"

definition NewSession :: "world \<Rightarrow> string \<Rightarrow> string \<Rightarrow> string \<Rightarrow> int \<Rightarrow> int \<Rightarrow> string \<Rightarrow> int \<Rightarrow> int
    \<Rightarrow> Terminal option \<Rightarrow> (error + Session) option" where
  "NewSession w sid shell cwd ncols nrows histFile historyLimit scrollbackBytes term0 =
    (let size = (if scrollbackBytes \<le> 0 then defaultScrollbackBytes else scrollbackBytes) in
     case w_start w shell (''-'' @ Base shell) cwd (session_env (w_environ w) histFile historyLimit) of
       None \<Rightarrow> Some (Inl StartFailed)
     | Some pid \<Rightarrow> do {
         t \<leftarrow> (case term0 of None \<Rightarrow> Some (New ncols nrows) | Some t \<Rightarrow> Resize ncols nrows t);
         Some (Inr \<lparr>s_ID = sid, s_CWD = cwd, s_Shell = shell, s_Cols = ncols, s_Rows = nrows, s_ExitCode = 0,
           s_Alive = True, s_CreatedAt = w_now w, s_LastActive = w_now w, s_pty = OpenPty,
           s_sizes = [(uint16 ncols, uint16 nrows)], s_input = [], s_scrollback = NewRingBuffer (nat size),
           s_pid = pid, s_lastOutput = 0, s_term = t, s_clients = [], s_done = False\<rparr>)
       })"

definition AdoptSession :: "world \<Rightarrow> SessionMeta \<Rightarrow> int \<Rightarrow> RingBuffer \<Rightarrow> Terminal \<Rightarrow> Session" where
  "AdoptSession w meta pid ring t =
    \<lparr>s_ID = m_ID meta, s_CWD = m_CWD meta, s_Shell = m_Shell meta, s_Cols = m_Cols meta, s_Rows = m_Rows meta,
     s_ExitCode = 0, s_Alive = True, s_CreatedAt = m_CreatedAt meta, s_LastActive = w_now w, s_pty = OpenPty,
     s_sizes = [], s_input = [], s_scrollback = ring, s_pid = pid, s_lastOutput = 0, s_term = t,
     s_clients = [], s_done = False\<rparr>"

text \<open>The name under which the PTY of a live session is handed to the next incarnation.\<close>

definition HandoffFile :: "Session \<Rightarrow> string option" where
  "HandoffFile s = (if \<not> s_Alive s \<or> s_pty s = NoPty then None
     else Some (''pty:'' @ s_ID s @ '':'' @ itoa (s_pid s)))"

definition restoreTerminal :: "int \<Rightarrow> int \<Rightarrow> RingBuffer \<Rightarrow> Terminal option" where
  "restoreTerminal ncols nrows ring = do {
     let t = New (if ncols \<le> 0 then 80 else ncols) (if nrows \<le> 0 then 24 else nrows);
     data \<leftarrow> ReadReplay ring;
     if data \<noteq> [] then Write data t else Some t
   }"

section \<open>Output and viewers\<close>

text \<open>The JSON messages: \<open>json.Marshal\<close> writes the keys of a map in order.\<close>

definition scrollback_msg :: "bytes \<Rightarrow> bytes" where
  "scrollback_msg d = ascii ''{\"data\":\"'' @ EncodeToString d @ ascii ''\",\"snapshot\":true,\"type\":\"scrollback\"}''"

definition exit_msg :: "int \<Rightarrow> bytes" where
  "exit_msg n = ascii ''{\"code\":'' @ Itoa n @ ascii '',\"type\":\"exit\"}''"

definition Broadcast :: "bytes \<Rightarrow> nat list \<Rightarrow> clients_heap \<Rightarrow> clients_heap" where
  "Broadcast d ps h = fold (\<lambda>p h. h(p := queueBinary d (h p))) ps h"

text \<open>The part of \<open>readPump\<close> that runs under \<open>outMu\<close>, and the time stamps after it.\<close>

definition record_output :: "int \<Rightarrow> bytes \<Rightarrow> Session \<times> clients_heap \<Rightarrow> (Session \<times> clients_heap) option" where
  "record_output t d sh = (case sh of (s, h) \<Rightarrow> do {
     r \<leftarrow> ring_write d (s_scrollback s);
     tm \<leftarrow> Write d (s_term s);
     let h = Broadcast d (s_clients s) h;
     Some (s\<lparr>s_scrollback := r, s_term := tm, s_LastActive := t, s_lastOutput := t\<rparr>, h)
   })"

definition shell_exited :: "int \<Rightarrow> Session \<Rightarrow> Session" where
  "shell_exited code s = s\<lparr>s_ExitCode := code, s_Alive := False, s_done := True\<rparr>"

text \<open>
  \<open>readPump\<close>: the results of its reads are a list of the bytes, whether an error came with them,
  and the time after. When the list ends without an error the pump is still waiting.
\<close>

fun readPump :: "(bytes \<times> bool \<times> int) list \<Rightarrow> int \<Rightarrow> Session \<times> clients_heap \<Rightarrow> (Session \<times> clients_heap) option" where
  "readPump [] code sh = Some sh"
| "readPump ((d, eof, t) # rs) code sh = do {
     (s, h) \<leftarrow> (if d \<noteq> [] then record_output t d sh else Some sh);
     if eof then Some (shell_exited code s, h) else readPump rs code (s, h)
   }"

definition AttachClient :: "nat \<Rightarrow> bool \<Rightarrow> Session \<times> clients_heap \<Rightarrow> (Session \<times> clients_heap \<times> bool) option" where
  "AttachClient p replay sh = (case sh of (s, h) \<Rightarrow> do {
     (h, replayed) \<leftarrow> (if replay then do {
         d \<leftarrow> Snapshot (s_term s);
         Some (if d \<noteq> [] then (h(p := queueText (scrollback_msg d) (h p)), True) else (h, False))
       }
       else Some (h, False));
     Some (s\<lparr>s_clients := s_clients s @ [p]\<rparr>, h, replayed)
   })"

definition DetachClient :: "nat \<Rightarrow> Session \<Rightarrow> Session" where
  "DetachClient p s = s\<lparr>s_clients := remove1 p (s_clients s)\<rparr>"

text \<open>The clients whose connections are closed; their number is what the code returns.\<close>

definition DisconnectClients :: "string \<Rightarrow> string list \<Rightarrow> clients_heap \<Rightarrow> Session \<Rightarrow> nat list" where
  "DisconnectClients tab tokens h s =
    filter (\<lambda>p. c_tabID (h p) = tab \<and> ownerToken (h p) \<in> set tokens) (s_clients s)"

section \<open>Size, input, end\<close>

definition Resize_session :: "int \<Rightarrow> int \<Rightarrow> Session \<Rightarrow> (Session \<times> bool) option" where
  "Resize_session ncols nrows s =
    (if ncols \<le> 0 \<or> nrows \<le> 0 then Some (s, False)
     else
       let changed = (s_Cols s \<noteq> ncols \<or> s_Rows s \<noteq> nrows);
           s = s\<lparr>s_Cols := ncols, s_Rows := nrows\<rparr>
       in do {
         t \<leftarrow> (if changed then Resize ncols nrows (s_term s) else Some (s_term s));
         let s = s\<lparr>s_term := t\<rparr>;
         Some (if changed then Setsize ncols nrows s else s, changed)
       })"

definition NudgeRedraw :: "Session \<Rightarrow> Session" where
  "NudgeRedraw s = (if s_pty s = NoPty \<or> s_Cols s < 2 \<or> s_Rows s < 1 then s
     else Setsize (s_Cols s) (s_Rows s) (Setsize (s_Cols s - 1) (s_Rows s) s))"

definition InAltScreen :: "Session \<Rightarrow> bool" where
  "InAltScreen s = altActive (s_term s)"

definition WriteInput :: "int \<Rightarrow> bytes \<Rightarrow> Session \<Rightarrow> Session" where
  "WriteInput t d s = (if s_pty s = NoPty then s
     else s\<lparr>s_input := (if s_pty s = OpenPty then s_input s @ d else s_input s), s_LastActive := t\<rparr>)"

text \<open>
  \<open>Kill\<close>: the signals sent to the shell, in order, and the session after; \<open>exits\<close> says whether the
  shell is gone within two seconds of SIGTERM.
\<close>

definition Kill :: "bool \<Rightarrow> Session \<Rightarrow> nat list \<times> Session" where
  "Kill exits s = (if s_pid s = 0 then ([], s)
     else (15 # (if exits \<or> s_done s then [] else [9]),
           s\<lparr>s_pty := (if s_pty s = NoPty then NoPty else ClosedPty), s_Alive := False\<rparr>))"

definition Meta :: "Session \<Rightarrow> SessionMeta" where
  "Meta s = \<lparr>m_ID = s_ID s, m_CWD = s_CWD s, m_Shell = s_Shell s, m_Cols = s_Cols s, m_Rows = s_Rows s,
     m_ExitCode = s_ExitCode s, m_CreatedAt = s_CreatedAt s, m_LastActive = s_LastActive s\<rparr>"

definition Info :: "Session \<Rightarrow> SessionInfo" where
  "Info s = \<lparr>m_ID = s_ID s, m_CWD = s_CWD s, m_Shell = s_Shell s, m_Cols = s_Cols s, m_Rows = s_Rows s,
     m_ExitCode = s_ExitCode s, m_CreatedAt = s_CreatedAt s, m_LastActive = s_LastActive s, i_Alive = s_Alive s\<rparr>"

definition LastOutput :: "Session \<Rightarrow> int" where
  "LastOutput s = (if s_lastOutput s = 0 then zeroTime else s_lastOutput s)"

section \<open>Dropped files, the shell\<close>

text \<open>The path a dropped file is saved under, and its bytes; \<open>ms\<close> is the time in milliseconds.\<close>

definition drop_name :: "string \<Rightarrow> int \<Rightarrow> string" where
  "drop_name name ms =
    (let name = Base name;
         name = (if name = '''' \<or> name = ''.'' \<or> name = ''..'' then ''clipboard'' else name);
         ext = Ext name;
         baseName = TrimSuffix name ext
     in baseName @ ''-'' @ itoa ms @ (if ext = '''' then ''.png'' else ext))"

definition HandleFileDrop :: "world \<Rightarrow> string \<Rightarrow> bytes \<Rightarrow> error + (string \<times> bytes)" where
  "HandleFileDrop w name dataB64 =
    (case DecodeString dataB64 of None \<Rightarrow> Inl BadBase64
     | Some data \<Rightarrow>
         let path = Join (w_tempDir w) (drop_name name (w_now w div 1000000))
         in if w_canWrite w path then Inr (path, data) else Inl (WriteFailed path))"

definition shellQuotePath :: "string \<Rightarrow> string" where
  "shellQuotePath path = [CHR 0x27] @ ReplaceAll path CHR 0x27 [CHR 0x27, CHR 0x5c, CHR 0x27, CHR 0x27] @ [CHR 0x27, CHR 0x20]"

definition shell_candidates :: "string list" where
  "shell_candidates = [''/opt/homebrew/bin/bash'', ''/usr/local/bin/bash'', ''/bin/bash'', ''/usr/bin/bash'']"

definition autoShell :: "world \<Rightarrow> string" where
  "autoShell w = (case filter (w_exists w) shell_candidates of
     p # _ \<Rightarrow> p
   | [] \<Rightarrow> (case w_lookPath w ''bash'' of Some p \<Rightarrow> p | None \<Rightarrow> ''/bin/sh''))"

definition resolveShell :: "world \<Rightarrow> string \<Rightarrow> string" where
  "resolveShell w preferred =
    (if preferred = '''' then autoShell w
     else if CHR ''/'' \<in> set preferred then (if w_exists w preferred then preferred else autoShell w)
     else (case w_lookPath w preferred of Some p \<Rightarrow> p | None \<Rightarrow> autoShell w))"

end
