(* ===== verification/Layout.thy ===== *)
theory Layout
  imports Prelude Complex_Main "HOL-Library.Multiset"
begin

text \<open>
  \<open>src/cmd/termulaa/tabs.go\<close>: the split-pane layout of a tab. A Go \<open>*LayoutNode\<close> is a value of
  \<open>layout\<close>, whose constructor \<open>NilNode\<close> is the nil pointer; a node keeps every field of the struct,
  so trees that the JSON decoder accepts but the program never builds (a pane with children, a
  split without) are values too. The in-place updates of \<open>splitLayoutNode\<close> and
  \<open>closePaneInLayout\<close> are rebuilt nodes: a layout is a tree, no node has two parents.
  Identifiers are strings; \<open>Ratio\<close> is only ever copied or set to one half.
\<close>

section \<open>Layouts\<close>

datatype layout = NilNode
  | LayoutNode (lType: string) (SessionID: string) (Direction: string) (Ratio: rat)
      (First: layout) (Second: layout)

definition pane :: "string \<Rightarrow> layout" where
  "pane s = LayoutNode ''pane'' s '''' 0 NilNode NilNode"

text \<open>The nodes \<open>walkLayout\<close> visits, in its order.\<close>

primrec walkLayout :: "layout \<Rightarrow> layout list" where
  "walkLayout NilNode = []"
| "walkLayout (LayoutNode ty s d r a b) = LayoutNode ty s d r a b # walkLayout a @ walkLayout b"

definition is_pane :: "layout \<Rightarrow> bool" where
  "is_pane n \<longleftrightarrow> n \<noteq> NilNode \<and> lType n = ''pane''"

definition is_split :: "layout \<Rightarrow> bool" where
  "is_split n \<longleftrightarrow> n \<noteq> NilNode \<and> lType n = ''split''"

definition SessionIDs :: "layout \<Rightarrow> string list" where
  "SessionIDs t = map SessionID (filter (\<lambda>n. is_pane n \<and> SessionID n \<noteq> '''') (walkLayout t))"

definition HasSession :: "layout \<Rightarrow> string \<Rightarrow> bool" where
  "HasSession t s \<longleftrightarrow> list_ex (\<lambda>n. is_pane n \<and> SessionID n = s) (walkLayout t)"

text \<open>
  The map \<open>counts\<close> has one key for each identifier that occurs, with its number of occurrences.
\<close>

definition layoutMatchesSessionSet :: "layout \<Rightarrow> string list \<Rightarrow> bool" where
  "layoutMatchesSessionSet t expected \<longleftrightarrow>
     length (remdups (SessionIDs t)) = length expected
     \<and> list_all (\<lambda>i. count_list (SessionIDs t) i = 1) expected"

fun splitLayoutNode :: "layout \<Rightarrow> string \<Rightarrow> string \<Rightarrow> string \<Rightarrow> layout \<times> bool" where
  "splitLayoutNode NilNode target new dir = (NilNode, False)"
| "splitLayoutNode (LayoutNode ty s d r a b) target new dir =
    (if ty = ''pane'' \<and> s = target then
       (LayoutNode ''split'' '''' dir (1 / 2) (LayoutNode ty s d r a b) (pane new), True)
     else if ty = ''split'' then
       let (a', found) = splitLayoutNode a target new dir
       in if found then (LayoutNode ty s d r a' b, True)
          else let (b', found) = splitLayoutNode b target new dir
               in (LayoutNode ty s d r a' b', found)
     else (LayoutNode ty s d r a b, False))"

text \<open>A child that is the pane to close.\<close>

definition is_target :: "layout \<Rightarrow> string \<Rightarrow> bool" where
  "is_target n s \<longleftrightarrow> is_pane n \<and> SessionID n = s"

fun closePaneInLayout :: "layout \<Rightarrow> string \<Rightarrow> layout \<times> bool" where
  "closePaneInLayout NilNode sid = (NilNode, False)"
| "closePaneInLayout (LayoutNode ty s d r a b) sid =
    (if ty = ''pane'' then (LayoutNode ty s d r a b, False)
     else if ty = ''split'' then
       if is_target a sid then (b, True)
       else if is_target b sid then (a, True)
       else
         let (a', found) = closePaneInLayout a sid
         in if found then (LayoutNode ty s d r a' b, True)
            else let (b', found) = closePaneInLayout b sid
                 in (LayoutNode ty s d r a' b', found)
     else (LayoutNode ty s d r a b, False))"

text \<open>
  \<open>replaceAllSessions\<close>: the identifiers \<open>generateID\<close> returns are taken from a list, in the order
  of the calls; the mapping from old to new identifiers is the second result, the rest of the
  list the third. \<open>None\<close> only means that the list was too short.
\<close>

fun replaceAllSessions :: "layout \<Rightarrow> (string \<rightharpoonup> string) \<Rightarrow> string list
    \<Rightarrow> (layout \<times> (string \<rightharpoonup> string) \<times> string list) option" where
  "replaceAllSessions NilNode m ids = Some (NilNode, m, ids)"
| "replaceAllSessions (LayoutNode ty s d r a b) m ids =
    (if ty = ''pane'' then
       (case ids of [] \<Rightarrow> None | i # rest \<Rightarrow> Some (pane i, m(s \<mapsto> i), rest))
     else if ty = ''split'' then do {
       (a', m, ids) \<leftarrow> replaceAllSessions a m ids;
       (b', m, ids) \<leftarrow> replaceAllSessions b m ids;
       Some (LayoutNode ''split'' '''' d r a' b', m, ids)
     }
     else Some (NilNode, m, ids))"

section \<open>Well-formed layouts\<close>

text \<open>
  What the program builds: leaves are panes with a session, inner nodes are splits with two
  children.
\<close>

fun wf_layout :: "layout \<Rightarrow> bool" where
  "wf_layout NilNode = False"
| "wf_layout (LayoutNode ty s d r a b) \<longleftrightarrow>
     (ty = ''pane'' \<and> s \<noteq> '''' \<and> a = NilNode \<and> b = NilNode) \<or> (ty = ''split'' \<and> wf_layout a \<and> wf_layout b)"

lemma SessionIDs_simps [simp]:
  "SessionIDs NilNode = []"
  "SessionIDs (LayoutNode ty s d r a b) =
     (if ty = ''pane'' \<and> s \<noteq> '''' then [s] else []) @ SessionIDs a @ SessionIDs b"
  by (auto simp: SessionIDs_def is_pane_def)

lemma SessionIDs_pane [simp]: "SessionIDs (pane s) = (if s = '''' then [] else [s])"
  by (simp add: pane_def)

lemma wf_pane [simp]: "wf_layout (pane s) \<longleftrightarrow> s \<noteq> ''''"
  by (simp add: pane_def)

lemma HasSession_simps [simp]:
  "\<not> HasSession NilNode i"
  "HasSession (LayoutNode ty s d r a b) i \<longleftrightarrow> (ty = ''pane'' \<and> s = i) \<or> HasSession a i \<or> HasSession b i"
  by (auto simp: HasSession_def is_pane_def)

lemma HasSession_iff: "s \<noteq> '''' \<Longrightarrow> HasSession t s \<longleftrightarrow> s \<in> set (SessionIDs t)"
  by (induction t) auto

lemma wf_SessionIDs_nonempty: "wf_layout t \<Longrightarrow> SessionIDs t \<noteq> [] \<and> '''' \<notin> set (SessionIDs t)"
  by (induction t) auto

text \<open>The order of the panes: the new one comes right after the one that was split.\<close>

fun insert_after :: "'a \<Rightarrow> 'a \<Rightarrow> 'a list \<Rightarrow> 'a list" where
  "insert_after x y [] = []"
| "insert_after x y (z # zs) = (if z = x then z # y # zs else z # insert_after x y zs)"

lemma insert_after_append:
  "insert_after x y (xs @ ys) = (if x \<in> set xs then insert_after x y xs @ ys else xs @ insert_after x y ys)"
  by (induction xs) auto

lemma insert_after_absent: "x \<notin> set xs \<Longrightarrow> insert_after x y xs = xs"
  by (induction xs) auto

lemma mset_insert_after: "x \<in> set xs \<Longrightarrow> mset (insert_after x y xs) = add_mset y (mset xs)"
  by (induction xs) auto

lemma split_spec:
  assumes "wf_layout t" "target \<noteq> ''''" "new \<noteq> ''''"
  shows "splitLayoutNode t target new dir = (t', found) \<Longrightarrow>
     wf_layout t' \<and> (found \<longleftrightarrow> target \<in> set (SessionIDs t)) \<and> (\<not> found \<longrightarrow> t' = t)
     \<and> SessionIDs t' = insert_after target new (SessionIDs t)"
  using assms(1)
proof (induction t arbitrary: t' found)
  case NilNode
  then show ?case by simp
next
  case (LayoutNode ty s d r a b)
  show ?case
  proof (cases "ty = ''pane''")
    case True
    with LayoutNode.prems assms show ?thesis by auto
  next
    case False
    then have sp: "ty = ''split''" "wf_layout a" "wf_layout b" using LayoutNode.prems(2) by auto
    obtain a' fa where a': "splitLayoutNode a target new dir = (a', fa)" by fastforce
    obtain b' fb where b': "splitLayoutNode b target new dir = (b', fb)" by fastforce
    from LayoutNode.IH(1) [OF a' sp(2)] LayoutNode.IH(2) [OF b' sp(3)] LayoutNode.prems(1) sp a' b'
    show ?thesis
      by (auto simp: insert_after_append insert_after_absent split: if_splits)
  qed
qed

lemma close_root_pane: "closePaneInLayout (pane s) sid = (pane s, False)"
  by (simp add: pane_def)

lemma is_target_wf: "wf_layout t \<Longrightarrow> is_target t s \<Longrightarrow> SessionIDs t = [s]"
  by (cases t) (auto simp: is_target_def is_pane_def)

lemma not_target_singleton:
  "wf_layout t \<Longrightarrow> \<not> is_target t s \<Longrightarrow> s \<in> set (SessionIDs t) \<Longrightarrow> is_split t"
  by (cases t) (auto simp: is_target_def is_pane_def is_split_def)

lemma close_spec:
  assumes "wf_layout t"
  shows "closePaneInLayout t sid = (t', found) \<Longrightarrow> distinct (SessionIDs t) \<Longrightarrow>
     wf_layout t' \<and> (found \<longleftrightarrow> is_split t \<and> sid \<in> set (SessionIDs t)) \<and> (\<not> found \<longrightarrow> t' = t)
     \<and> (found \<longrightarrow> SessionIDs t' = filter (\<lambda>i. i \<noteq> sid) (SessionIDs t))"
  using assms
proof (induction t arbitrary: t' found)
  case NilNode
  then show ?case by simp
next
  case (LayoutNode ty s d r a b)
  show ?case
  proof (cases "ty = ''pane''")
    case True
    with LayoutNode.prems show ?thesis by (auto simp: is_split_def)
  next
    case False
    then have sp: "ty = ''split''" "wf_layout a" "wf_layout b" using LayoutNode.prems(3) by auto
    have dist: "distinct (SessionIDs a)" "distinct (SessionIDs b)" "set (SessionIDs a) \<inter> set (SessionIDs b) = {}"
      using LayoutNode.prems(2) sp by auto
    have filt: "filter (\<lambda>i. i \<noteq> sid) xs = xs" if "sid \<notin> set xs" for xs
      using that by (induction xs) auto
    consider (1) "is_target a sid" | (2) "\<not> is_target a sid" "is_target b sid"
      | (3) "\<not> is_target a sid" "\<not> is_target b sid" by blast
    then show ?thesis
    proof cases
      case 1
      with is_target_wf [OF sp(2) 1] dist LayoutNode.prems(1) sp show ?thesis
        by (auto simp: is_split_def filt)
    next
      case 2
      with is_target_wf [OF sp(3) 2(2)] dist LayoutNode.prems(1) sp show ?thesis
        by (auto simp: is_split_def filt)
    next
      case 3
      obtain a' fa where a': "closePaneInLayout a sid = (a', fa)" by fastforce
      obtain b' fb where b': "closePaneInLayout b sid = (b', fb)" by fastforce
      note IHa = LayoutNode.IH(1) [OF a' dist(1) sp(2)] and IHb = LayoutNode.IH(2) [OF b' dist(2) sp(3)]
      have fa: "fa \<longleftrightarrow> sid \<in> set (SessionIDs a)" and fb: "fb \<longleftrightarrow> sid \<in> set (SessionIDs b)"
        using IHa IHb not_target_singleton [OF sp(2) 3(1)] not_target_singleton [OF sp(3) 3(2)] by blast+
      show ?thesis
      proof (cases fa)
        case True
        then have "sid \<notin> set (SessionIDs b)" using fa dist(3) by auto
        with True IHa fa 3 a' LayoutNode.prems(1) sp filt [of "SessionIDs b"] show ?thesis
          by (auto simp: is_split_def)
      next
        case False
        with IHa IHb fa fb dist 3 a' b' LayoutNode.prems(1) sp show ?thesis
          by (auto simp: is_split_def filt)
      qed
    qed
  qed
qed
text \<open>Closing the pane a split just made gives the layout back.\<close>

lemma is_target_other: "is_target t s \<Longrightarrow> s \<noteq> '''' \<Longrightarrow> s \<in> set (SessionIDs t)"
  by (cases t) (auto simp: is_target_def is_pane_def)

lemma close_absent:
  "sid \<noteq> '''' \<Longrightarrow> sid \<notin> set (SessionIDs t) \<Longrightarrow> closePaneInLayout t sid = (t, False)"
  by (induction t) (auto dest: is_target_other)

lemma split_root_or_found:
  "splitLayoutNode t target new dir = (t', True) \<Longrightarrow> new \<noteq> '''' \<Longrightarrow> new \<notin> set (SessionIDs t) \<Longrightarrow> target \<noteq> new
     \<Longrightarrow> wf_layout t \<Longrightarrow> closePaneInLayout t' new = (t, True) \<and> \<not> is_target t' new"
proof (induction t arbitrary: t')
  case NilNode
  then show ?case by simp
next
  case (LayoutNode ty s d r a b)
  show ?case
  proof (cases "ty = ''pane''")
    case True
    with LayoutNode.prems show ?thesis
      by (auto simp: is_target_def is_pane_def pane_def split: if_splits)
  next
    case False
    with LayoutNode.prems(5) have sp: "ty = ''split''" "wf_layout a" "wf_layout b" by auto
    have new: "new \<notin> set (SessionIDs a)" "new \<notin> set (SessionIDs b)" using LayoutNode.prems(3) by auto
    have nt: "\<not> is_target a new" "\<not> is_target b new"
      using new LayoutNode.prems(2) is_target_other by blast+
    obtain a' fa where a': "splitLayoutNode a target new dir = (a', fa)" by fastforce
    obtain b' fb where b': "splitLayoutNode b target new dir = (b', fb)" by fastforce
    have nta: "\<not> is_target (LayoutNode ty s d r x y) new" for x y
      using sp by (simp add: is_target_def is_pane_def)
    show ?thesis
    proof (cases fa)
      case True
      with LayoutNode.IH(1) [of a'] a' new LayoutNode.prems sp
      have "closePaneInLayout a' new = (a, True)" "\<not> is_target a' new" by auto
      with True a' LayoutNode.prems(1) sp nt nta show ?thesis by auto
    next
      case False
      have a: "a' = a"
      proof (cases "target = ''''")
        case True
        have "splitLayoutNode u '''' new dir = (u, False)" if "wf_layout u" for u
          using that by (induction u) auto
        with a' True sp show ?thesis by simp
      next
        case t: False
        with split_spec [OF sp(2) t LayoutNode.prems(2) a'] False show ?thesis by simp
      qed
      with False a' b' LayoutNode.prems(1) sp have fb: fb "t' = LayoutNode ty s d r a b'" by auto
      with LayoutNode.IH(2) [of b'] b' new LayoutNode.prems sp
      have "closePaneInLayout b' new = (b, True)" "\<not> is_target b' new" by auto
      with fb sp nt nta close_absent [OF LayoutNode.prems(2) new(1)] show ?thesis by auto
    qed
  qed
qed

lemma matches_iff:
  "layoutMatchesSessionSet t expected \<longleftrightarrow>
     length (remdups (SessionIDs t)) = length expected \<and> (\<forall>i \<in> set expected. count_list (SessionIDs t) i = 1)"
  by (simp add: layoutMatchesSessionSet_def list_all_iff)

text \<open>For a set of distinct identifiers the check accepts exactly the permutations.\<close>

lemma matches_mset:
  assumes "distinct expected"
  shows "layoutMatchesSessionSet t expected \<longleftrightarrow> mset (SessionIDs t) = mset expected"
proof
  assume m: "layoutMatchesSessionSet t expected"
  let ?ids = "SessionIDs t"
  have one: "\<forall>i \<in> set expected. count_list ?ids i = 1" and len: "card (set ?ids) = length expected"
    using m by (simp_all add: matches_iff length_remdups_card_conv)
  have sub: "set expected \<subseteq> set ?ids"
    using one count_list_0_iff by (metis subsetI zero_neq_one)
  have "card (set expected) = card (set ?ids)" using len assms by (simp add: distinct_card)
  then have eq: "set expected = set ?ids" using sub by (simp add: card_subset_eq)
  have "count (mset ?ids) i = count (mset expected) i" for i
    using one eq assms by (cases "i \<in> set expected")
      (auto simp: count_mset distinct_count_atmost_1 count_mset_0_iff)
  then show "mset ?ids = mset expected" by (simp add: multiset_eq_iff)
next
  assume m: "mset (SessionIDs t) = mset expected"
  then have "distinct (SessionIDs t)" "set (SessionIDs t) = set expected" "length (SessionIDs t) = length expected"
    using assms by (auto dest: mset_eq_imp_distinct_iff mset_eq_setD mset_eq_length)
  moreover from this have "count_list (SessionIDs t) i = 1" if "i \<in> set expected" for i
    using that by (metis count_mset distinct_count_atmost_1)
  ultimately show "layoutMatchesSessionSet t expected"
    by (auto simp: matches_iff distinct_remdups_id)
qed
text \<open>
  \<open>replaceAllSessions\<close> takes one identifier for each pane, keeps the shape, and its mapping sends
  each old session to its replacement.
\<close>

fun shape :: "layout \<Rightarrow> layout" where
  "shape NilNode = NilNode"
| "shape (LayoutNode ty s d r a b) =
    (if ty = ''pane'' then pane '''' else LayoutNode ty '''' d r (shape a) (shape b))"

lemma shape_pane [simp]: "shape (pane i) = pane ''''"
  by (simp add: pane_def)

lemma replace_spec:
  assumes "wf_layout t"
  shows "length (SessionIDs t) \<le> length ids \<Longrightarrow> '''' \<notin> set (take (length (SessionIDs t)) ids) \<Longrightarrow>
     \<exists>t'. replaceAllSessions t m ids = Some (t', m ++ map_of (rev (zip (SessionIDs t) ids)), drop (length (SessionIDs t)) ids)
       \<and> wf_layout t' \<and> shape t' = shape t \<and> SessionIDs t' = take (length (SessionIDs t)) ids"
  using assms
proof (induction t arbitrary: m ids)
  case NilNode
  then show ?case by simp
next
  case (LayoutNode ty s d r a b)
  show ?case
  proof (cases "ty = ''pane''")
    case True
    with LayoutNode.prems obtain i rest where "ids = i # rest" by (cases ids) auto
    with True LayoutNode.prems show ?thesis by (auto simp: fun_eq_iff map_add_def)
  next
    case False
    with LayoutNode.prems(3) have sp: "ty = ''split''" "wf_layout a" "wf_layout b" by auto
    define n where "n = length (SessionIDs a)"
    define k where "k = length (SessionIDs b)"
    have len: "n + k \<le> length ids" "'''' \<notin> set (take (n + k) ids)"
      using LayoutNode.prems sp by (simp_all add: n_def k_def)
    have kl: "length (SessionIDs b) \<le> length (drop n ids)" using len by (simp add: k_def)
    have tk: "take (n + k) ids = take n ids @ take k (drop n ids)" by (simp add: take_add)
    from LayoutNode.IH(1) [of ids m] sp len tk obtain a' where
      a': "replaceAllSessions a m ids = Some (a', m ++ map_of (rev (zip (SessionIDs a) ids)), drop n ids)"
        "wf_layout a'" "shape a' = shape a" "SessionIDs a' = take n ids"
      by (auto simp: n_def)
    from LayoutNode.IH(2) [of "drop n ids" "m ++ map_of (rev (zip (SessionIDs a) ids))"] sp kl len tk obtain b' where
      b': "replaceAllSessions b (m ++ map_of (rev (zip (SessionIDs a) ids))) (drop n ids)
          = Some (b', m ++ map_of (rev (zip (SessionIDs a) ids)) ++ map_of (rev (zip (SessionIDs b) (drop n ids))),
               drop k (drop n ids))"
        "wf_layout b'" "shape b' = shape b" "SessionIDs b' = take k (drop n ids)"
      by (auto simp: k_def)
    have z: "zip (SessionIDs a @ SessionIDs b) ids = zip (SessionIDs a) ids @ zip (SessionIDs b) (drop n ids)"
    proof -
      have "zip xs (take (length xs) ys) = zip xs ys" for xs :: "string list" and ys :: "string list"
      proof (induction xs arbitrary: ys)
        case (Cons x xs)
        then show ?case by (cases ys) auto
      qed simp
      then show ?thesis by (simp add: zip_append1 n_def)
    qed
    show ?thesis
      using a' b' sp tk by (simp add: z n_def [symmetric] k_def [symmetric] add.commute)
  qed
qed

end
