(* ===== verification/Manager.thy ===== *)
theory Manager
  imports Session Layout "HOL-Library.AList"
begin

text \<open>
  The registry of sessions and tabs: \<open>SessionManager\<close> in \<open>src/cmd/termulaa/manager.go\<close>, the \<open>Tab\<close> of
  \<open>tabs.go\<close>. A Go map is an association list with distinct keys; the order in which the code's
  \<open>range\<close> loops visit it is the order of the list, one of those the runtime may choose. The files
  under the data directory are the map \<open>g_disk\<close>, the content of \<open>state.json\<close> is the value that was
  marshalled. What an operation does to the outside is recorded in order: connections closed,
  messages sent, signals. Identifiers that \<open>generateID\<close> returns are arguments. An operation returns
  the manager and an error or a result; \<open>None\<close> is a panic.
\<close>

section \<open>Tabs\<close>

record Tab =
  tab_ID :: string
  tab_Name :: string
  tab_Layout :: layout
  tab_CreatedAt :: int
  tab_LastActive :: int

definition NewTab :: "int \<Rightarrow> string \<Rightarrow> string \<Rightarrow> string \<Rightarrow> Tab" where
  "NewTab t i name sid = \<lparr>tab_ID = i, tab_Name = name, tab_Layout = pane sid, tab_CreatedAt = t, tab_LastActive = t\<rparr>"

record TabInfo =
  ti_ID :: string
  ti_Name :: string
  ti_PaneCount :: nat
  ti_Alive :: bool
  ti_LastActive :: int
  ti_LastOutput :: int

text \<open>The sessions of the panes that are registered, in the order of the walk.\<close>

definition pane_sessions :: "(string \<times> Session) list \<Rightarrow> layout \<Rightarrow> Session list" where
  "pane_sessions ss l = List.map_filter (\<lambda>n. map_of ss (SessionID n)) (filter is_pane (walkLayout l))"

definition Tab_Info :: "(string \<times> Session) list \<Rightarrow> Tab \<Rightarrow> TabInfo" where
  "Tab_Info ss t = \<lparr>ti_ID = tab_ID t, ti_Name = tab_Name t,
     ti_PaneCount = length (filter is_pane (walkLayout (tab_Layout t))),
     ti_Alive = list_ex s_Alive (pane_sessions ss (tab_Layout t)), ti_LastActive = tab_LastActive t,
     ti_LastOutput = fold (\<lambda>s m. if LastOutput s > m then LastOutput s else m) (pane_sessions ss (tab_Layout t)) zeroTime\<rparr>"

section \<open>State\<close>

record Config =
  c_Port :: int
  c_Shell :: string
  c_DeleteOnClose :: bool
  c_CleanupAfterDays :: int
  c_ScrollbackBytes :: int
  c_HistoryLimit :: int
  c_DefaultCols :: int
  c_DefaultRows :: int
  c_CWDPollInterval :: int
  c_SavePeriod :: int

record stateFile =
  st_Sessions :: "(string \<times> SessionMeta) list"
  st_Tabs :: "(string \<times> Tab) list"

record tabClient =
  tc_conn :: nat
  tc_tabID :: string
  tc_token :: string

datatype tab_msg = Disconnected | Connected layout "string list" string | SessionCreated string string string layout
  | PaneClosed string layout | ErrorMsg error | Conflict | Pong

record SessionManager =
  g_sessions :: "(string \<times> Session) list"
  g_tabs :: "(string \<times> Tab) list"
  g_tabClients :: "(string \<times> tabClient list) list"
  g_cfg :: Config
  g_dataDir :: string
  g_shell :: string
  g_heap :: clients_heap
  g_disk :: "(string \<times> bytes) list"
  g_state :: "stateFile option"
  g_closed :: "nat list"                  \<comment> \<open>tab connections the manager closed\<close>
  g_viewersClosed :: "nat list"           \<comment> \<open>viewers whose connection it closed\<close>
  g_sent :: "(nat \<times> tab_msg) list"
  g_signals :: "(int \<times> nat) list"

definition NewSessionManager :: "world \<Rightarrow> Config \<Rightarrow> clients_heap \<Rightarrow> (string \<times> bytes) list \<Rightarrow> stateFile option \<Rightarrow> SessionManager" where
  "NewSessionManager w c h files st = \<lparr>g_sessions = [], g_tabs = [], g_tabClients = [], g_cfg = c,
     g_dataDir = Join (w_home w) ''.termulaa'', g_shell = resolveShell w (c_Shell c), g_heap = h, g_disk = files,
     g_state = st, g_closed = [], g_viewersClosed = [], g_sent = [], g_signals = []\<rparr>"

definition clients_of :: "SessionManager \<Rightarrow> string \<Rightarrow> tabClient list" where
  "clients_of m tab = (case map_of (g_tabClients m) tab of None \<Rightarrow> [] | Some cs \<Rightarrow> cs)"

section \<open>Files\<close>

definition stateFilePath :: "SessionManager \<Rightarrow> string" where
  "stateFilePath m = Join (g_dataDir m) ''state.json''"

definition scrollbackPath :: "SessionManager \<Rightarrow> string \<Rightarrow> string" where
  "scrollbackPath m i = Join (Join (g_dataDir m) ''scrollback'') (i @ ''.raw'')"

definition historyPath :: "SessionManager \<Rightarrow> string \<Rightarrow> string" where
  "historyPath m i = Join (Join (g_dataDir m) ''history'') (i @ ''.hist'')"

definition remove_files :: "string \<Rightarrow> SessionManager \<Rightarrow> SessionManager" where
  "remove_files i m = m\<lparr>g_disk := AList.delete (historyPath m i) (AList.delete (scrollbackPath m i) (g_disk m))\<rparr>"

section \<open>Defaults and starting sessions\<close>

definition scrollbackBytes :: "SessionManager \<Rightarrow> int" where
  "scrollbackBytes m = (if c_ScrollbackBytes (g_cfg m) > 0 then c_ScrollbackBytes (g_cfg m) else defaultScrollbackBytes)"

definition defaultSessionCWD :: "world \<Rightarrow> string" where
  "defaultSessionCWD w = (if w_home w = '''' then ''/'' else w_home w)"

definition defaultSessionSize :: "SessionManager \<Rightarrow> int \<times> int" where
  "defaultSessionSize m = (if c_DefaultCols (g_cfg m) \<le> 0 then 80 else c_DefaultCols (g_cfg m),
     if c_DefaultRows (g_cfg m) \<le> 0 then 24 else c_DefaultRows (g_cfg m))"

definition spawnSession :: "world \<Rightarrow> SessionManager \<Rightarrow> string \<Rightarrow> string \<Rightarrow> int \<Rightarrow> int \<Rightarrow> Terminal option \<Rightarrow> (error + Session) option" where
  "spawnSession w m i cwd ncols nrows t0 =
    (let cwd = (if cwd = '''' then defaultSessionCWD w else cwd);
         (dc, dr) = defaultSessionSize m;
         ncols = (if ncols \<le> 0 then dc else ncols);
         nrows = (if nrows \<le> 0 then dr else nrows)
     in NewSession w i (g_shell m) cwd ncols nrows (historyPath m i) (c_HistoryLimit (g_cfg m)) (scrollbackBytes m) t0)"

definition put_session :: "string \<Rightarrow> Session \<Rightarrow> SessionManager \<Rightarrow> SessionManager" where
  "put_session i s m = m\<lparr>g_sessions := AList.update i s (g_sessions m)\<rparr>"

definition put_tab :: "string \<Rightarrow> Tab \<Rightarrow> SessionManager \<Rightarrow> SessionManager" where
  "put_tab i t m = m\<lparr>g_tabs := AList.update i t (g_tabs m)\<rparr>"

definition CreateSession :: "world \<Rightarrow> string \<Rightarrow> SessionManager \<Rightarrow> (SessionManager \<times> (error + string)) option" where
  "CreateSession w i m =
    (let (c, r) = defaultSessionSize m in do {
       res \<leftarrow> spawnSession w m i (defaultSessionCWD w) c r None;
       Some (case res of Inl e \<Rightarrow> (m, Inl e) | Inr s \<Rightarrow> (put_session i s m, Inr i))
     })"

definition GetSession :: "SessionManager \<Rightarrow> string \<Rightarrow> Session option" where
  "GetSession m i = map_of (g_sessions m) i"

definition ListSessions :: "SessionManager \<Rightarrow> SessionInfo list" where
  "ListSessions m = map (\<lambda>(i, s). Info s) (g_sessions m)"

section \<open>Ending sessions\<close>

definition send_signals :: "world \<Rightarrow> Session \<Rightarrow> SessionManager \<Rightarrow> SessionManager" where
  "send_signals w s m = m\<lparr>g_signals := g_signals m @ map (Pair (s_pid s)) (fst (Kill (w_exits w (s_pid s)) s))\<rparr>"

definition KillSession :: "world \<Rightarrow> string \<Rightarrow> SessionManager \<Rightarrow> SessionManager \<times> (error + unit)" where
  "KillSession w i m =
    (case map_of (g_sessions m) i of None \<Rightarrow> (m, Inl (SessionNotFound i))
     | Some s \<Rightarrow> (put_session i (snd (Kill (w_exits w (s_pid s)) s)) (send_signals w s m), Inr ()))"

definition DeleteSession :: "world \<Rightarrow> string \<Rightarrow> SessionManager \<Rightarrow> SessionManager \<times> (error + unit)" where
  "DeleteSession w i m =
    (case map_of (g_sessions m) i of None \<Rightarrow> (m, Inl (SessionNotFound i))
     | Some s \<Rightarrow>
         let m = m\<lparr>g_sessions := AList.delete i (g_sessions m)\<rparr>;
             m = (if s_Alive s then send_signals w s m else m)
         in (remove_files i m, Inr ()))"

definition delete_all :: "world \<Rightarrow> string list \<Rightarrow> SessionManager \<Rightarrow> SessionManager" where
  "delete_all w ids m = fold (\<lambda>i m. fst (DeleteSession w i m)) ids m"

text \<open>
  The result of \<open>ReviveSession\<close> is the identifier; the session itself is the one registered under
  it.
\<close>

definition ReviveSession :: "world \<Rightarrow> string \<Rightarrow> SessionManager \<Rightarrow> (SessionManager \<times> (error + string)) option" where
  "ReviveSession w i m =
    (case map_of (g_sessions m) i of None \<Rightarrow> Some (m, Inl (SessionNotFound i))
     | Some old \<Rightarrow>
         if s_Alive old then Some (m, Inr i)
         else
           let cwd = (if w_exists w (s_CWD old) then s_CWD old else defaultSessionCWD w) in do {
             res \<leftarrow> spawnSession w m i cwd (s_Cols old) (s_Rows old) (Some (s_term old));
             Some (case res of Inl e \<Rightarrow> (m, Inl e) | Inr s \<Rightarrow> (put_session i s m, Inr i))
           })"

section \<open>Saving and loading\<close>

text \<open>\<open>SaveState\<close>; only the rings of live sessions are written.\<close>

primrec save_rings :: "world \<Rightarrow> SessionManager \<Rightarrow> (string \<times> Session) list \<Rightarrow> (string \<times> bytes) list \<Rightarrow> (string \<times> bytes) list option" where
  "save_rings w m [] d = Some d"
| "save_rings w m (p # ss) d = do {
     d \<leftarrow> (if s_Alive (snd p) \<and> w_canWrite w (scrollbackPath m (fst p))
          then do { (data, wrapped) \<leftarrow> readAll (s_scrollback (snd p)); Some (AList.update (scrollbackPath m (fst p)) data d) }
          else Some d);
     save_rings w m ss d
   }"

definition SaveState :: "world \<Rightarrow> SessionManager \<Rightarrow> SessionManager option" where
  "SaveState w m = do {
     d \<leftarrow> save_rings w m (g_sessions m) (g_disk m);
     Some (m\<lparr>g_disk := d,
       g_state := (if w_canWrite w (stateFilePath m)
         then Some \<lparr>st_Sessions = map (\<lambda>(i, s). (i, Meta s)) (g_sessions m), st_Tabs = g_tabs m\<rparr> else g_state m)\<rparr>)
   }"

text \<open>\<open>LoadState\<close>: a day of the clean-up window is taken as 24 hours.\<close>

definition cutoff :: "world \<Rightarrow> SessionManager \<Rightarrow> int option" where
  "cutoff w m = (if c_CleanupAfterDays (g_cfg m) > 0
     then Some (w_now w - c_CleanupAfterDays (g_cfg m) * 86400000000000) else None)"

definition expired :: "world \<Rightarrow> SessionManager \<Rightarrow> int \<Rightarrow> bool" where
  "expired w m t = (case cutoff w m of None \<Rightarrow> False | Some c \<Rightarrow> t < c)"

definition restored_session :: "SessionMeta \<Rightarrow> RingBuffer \<Rightarrow> Terminal \<Rightarrow> Session" where
  "restored_session meta ring t =
    \<lparr>s_ID = m_ID meta, s_CWD = m_CWD meta, s_Shell = m_Shell meta, s_Cols = m_Cols meta, s_Rows = m_Rows meta,
     s_ExitCode = m_ExitCode meta, s_Alive = False, s_CreatedAt = m_CreatedAt meta, s_LastActive = m_LastActive meta,
     s_pty = NoPty, s_sizes = [], s_input = [], s_scrollback = ring, s_pid = 0,
     s_lastOutput = (if m_LastActive meta \<noteq> zeroTime then m_LastActive meta else 0), s_term = t, s_clients = [], s_done = True\<rparr>"

definition load_session :: "world \<Rightarrow> string \<times> SessionMeta \<Rightarrow> SessionManager \<Rightarrow> SessionManager option" where
  "load_session w p m = (case p of (i, meta) \<Rightarrow>
    if expired w m (m_LastActive meta) then Some (remove_files i m)
    else
      let ring = NewRingBuffer (nat (scrollbackBytes m)) in do {
        ring \<leftarrow> (case map_of (g_disk m) (scrollbackPath m i) of None \<Rightarrow> Some ring | Some d \<Rightarrow> LoadFrom d ring);
        t \<leftarrow> restoreTerminal (m_Cols meta) (m_Rows meta) ring;
        Some (put_session i (restored_session meta ring t) m)
      })"

definition load_tab :: "world \<Rightarrow> string \<times> Tab \<Rightarrow> SessionManager \<Rightarrow> SessionManager" where
  "load_tab w p m = (if expired w m (tab_LastActive (snd p)) then m else put_tab (fst p) (snd p) m)"

definition referenced :: "SessionManager \<Rightarrow> string list" where
  "referenced m = concat (map (\<lambda>(i, t). SessionIDs (tab_Layout t)) (g_tabs m))"

definition drop_orphans :: "SessionManager \<Rightarrow> SessionManager" where
  "drop_orphans m =
    (let orphans = filter (\<lambda>i. i \<notin> set (referenced m)) (map fst (g_sessions m))
     in fold (\<lambda>i m. remove_files i (m\<lparr>g_sessions := AList.delete i (g_sessions m)\<rparr>)) orphans m)"

definition LoadState :: "world \<Rightarrow> SessionManager \<Rightarrow> SessionManager option" where
  "LoadState w m = (case g_state m of None \<Rightarrow> Some m
     | Some st \<Rightarrow> do {
         m \<leftarrow> run (load_session w) (st_Sessions st) m;
         Some (drop_orphans (fold (load_tab w) (st_Tabs st) m))
       })"

text \<open>\<open>Adopt\<close>, on the names of the inherited files; the third component is the names of those closed.\<close>

definition adopt_file :: "world \<Rightarrow> string \<Rightarrow> SessionManager \<times> nat \<times> string list \<Rightarrow> SessionManager \<times> nat \<times> string list" where
  "adopt_file w name st = (case st of (m, n, shut) \<Rightarrow>
    (case Split CHR '':'' name of
       [kind, i, p] \<Rightarrow>
         if kind \<noteq> ''pty'' then st
         else (case (Atoi (ascii p), map_of (g_sessions m) i) of
             (Some pid, Some old) \<Rightarrow>
               if pid \<le> 0 \<or> \<not> w_running w pid then (m, n, shut @ [name])
               else (put_session i (AdoptSession w (Meta old) pid (s_scrollback old) (s_term old)) m, n + 1, shut)
           | _ \<Rightarrow> (m, n, shut @ [name]))
     | _ \<Rightarrow> st))"

definition Adopt :: "world \<Rightarrow> string list \<Rightarrow> SessionManager \<Rightarrow> SessionManager \<times> nat \<times> string list" where
  "Adopt w files m = fold (adopt_file w) files (m, 0, [])"

definition HandoffFiles :: "world \<Rightarrow> SessionManager \<Rightarrow> (SessionManager \<times> string list) option" where
  "HandoffFiles w m = do {
     m \<leftarrow> SaveState w m;
     Some (m, List.map_filter (\<lambda>(i, s). HandoffFile s) (g_sessions m))
   }"

section \<open>Stopping, polling\<close>

definition Pause :: "world \<Rightarrow> SessionManager \<Rightarrow> SessionManager option" where
  "Pause w m = SaveState w m"

definition Stop :: "world \<Rightarrow> SessionManager \<Rightarrow> SessionManager option" where
  "Stop w m = SaveState w (fold (\<lambda>i m. fst (KillSession w i m)) (map fst (filter (\<lambda>(i, s). s_Alive s) (g_sessions m))) m)"

text \<open>One tick of \<open>pollCWDs\<close>.\<close>

definition poll_cwd :: "world \<Rightarrow> Session \<Rightarrow> Session" where
  "poll_cwd w s = (if s_Alive s \<and> s_pid s \<noteq> 0
     then (case w_cwd w (s_pid s) of Some d \<Rightarrow> if d \<noteq> '''' then s\<lparr>s_CWD := d\<rparr> else s | None \<Rightarrow> s) else s)"

definition pollCWDs :: "world \<Rightarrow> SessionManager \<Rightarrow> SessionManager" where
  "pollCWDs w m = m\<lparr>g_sessions := map (\<lambda>(i, s). (i, poll_cwd w s)) (g_sessions m)\<rparr>"

section \<open>Tabs of the registry\<close>

definition CreateTab :: "world \<Rightarrow> string \<Rightarrow> string \<Rightarrow> string \<Rightarrow> SessionManager \<Rightarrow> (SessionManager \<times> (error + string)) option" where
  "CreateTab w name sid tid m = do {
     (m, res) \<leftarrow> CreateSession w sid m;
     Some (case res of Inl e \<Rightarrow> (m, Inl e)
       | Inr _ \<Rightarrow> (put_tab tid (NewTab (w_now w) tid name sid) m, Inr tid))
   }"

definition GetTab :: "SessionManager \<Rightarrow> string \<Rightarrow> Tab option" where
  "GetTab m i = map_of (g_tabs m) i"

text \<open>The layout argument is \<open>None\<close> for the nil pointer.\<close>

definition UpdateTab :: "world \<Rightarrow> string \<Rightarrow> string \<Rightarrow> layout option \<Rightarrow> SessionManager \<Rightarrow> SessionManager \<times> (error + unit)" where
  "UpdateTab w i name lay m =
    (case map_of (g_tabs m) i of None \<Rightarrow> (m, Inl (TabNotFound i))
     | Some t \<Rightarrow>
         let t = (if name \<noteq> '''' then t\<lparr>tab_Name := name\<rparr> else t) in
         (case lay of
            Some l \<Rightarrow>
              if \<not> layoutMatchesSessionSet l (SessionIDs (tab_Layout t)) then (put_tab i t m, Inl InvalidLayout)
              else (put_tab i (t\<lparr>tab_Layout := l, tab_LastActive := w_now w\<rparr>) m, Inr ())
          | None \<Rightarrow> (put_tab i (t\<lparr>tab_LastActive := w_now w\<rparr>) m, Inr ())))"

definition ListTabs :: "SessionManager \<Rightarrow> TabInfo list" where
  "ListTabs m = map (\<lambda>(i, t). Tab_Info (g_sessions m) t) (g_tabs m)"

section \<open>Clients of a tab\<close>

definition IsTabActive :: "SessionManager \<Rightarrow> string \<Rightarrow> bool" where
  "IsTabActive m tab \<longleftrightarrow> clients_of m tab \<noteq> []"

text \<open>The viewers that lose their connection with the tokens of a tab.\<close>

definition owned_viewers :: "SessionManager \<Rightarrow> string \<Rightarrow> string list \<Rightarrow> nat list" where
  "owned_viewers m tab tokens =
    (if tokens = [] then [] else concat (map (\<lambda>(i, s). DisconnectClients tab tokens (g_heap m) s) (g_sessions m)))"

definition DisconnectTabOwner :: "string \<Rightarrow> SessionManager \<Rightarrow> SessionManager" where
  "DisconnectTabOwner tab m =
    (let cs = clients_of m tab in
     m\<lparr>g_tabClients := AList.delete tab (g_tabClients m),
       g_sent := g_sent m @ map (\<lambda>c. (tc_conn c, Disconnected)) cs,
       g_closed := g_closed m @ map tc_conn cs,
       g_viewersClosed := g_viewersClosed m @ owned_viewers m tab (map tc_token cs)\<rparr>)"

definition DeleteTab :: "world \<Rightarrow> string \<Rightarrow> bool \<Rightarrow> SessionManager \<Rightarrow> SessionManager \<times> (error + unit)" where
  "DeleteTab w i killSessions m =
    (case map_of (g_tabs m) i of None \<Rightarrow> (m, Inl (TabNotFound i))
     | Some t \<Rightarrow>
         let m = DisconnectTabOwner i (m\<lparr>g_tabs := AList.delete i (g_tabs m)\<rparr>)
         in (if killSessions then delete_all w (SessionIDs (tab_Layout t)) m else m, Inr ()))"

text \<open>The first client of the tab that holds the token gives its place to one on the new connection.\<close>

fun replace_first :: "('a \<Rightarrow> bool) \<Rightarrow> 'a \<Rightarrow> 'a list \<Rightarrow> 'a list" where
  "replace_first P y [] = []"
| "replace_first P y (x # xs) = (if P x then y # xs else x # replace_first P y xs)"

definition ResumeTabClient :: "string \<Rightarrow> string \<Rightarrow> nat \<Rightarrow> SessionManager \<Rightarrow> SessionManager \<times> tabClient option" where
  "ResumeTabClient tab token conn m =
    (if token = '''' then (m, None)
     else (case find (\<lambda>c. tc_token c = token) (clients_of m tab) of
         None \<Rightarrow> (m, None)
       | Some old \<Rightarrow>
           let c = \<lparr>tc_conn = conn, tc_tabID = tab, tc_token = token\<rparr>
           in (m\<lparr>g_tabClients := AList.update tab (replace_first (\<lambda>c. tc_token c = token) c (clients_of m tab)) (g_tabClients m),
                 g_closed := g_closed m @ [tc_conn old]\<rparr>, Some c)))"

definition RegisterTabClient :: "string \<Rightarrow> tabClient \<Rightarrow> SessionManager \<Rightarrow> SessionManager" where
  "RegisterTabClient tab c m = m\<lparr>g_tabClients := AList.update tab (clients_of m tab @ [c]) (g_tabClients m)\<rparr>"

definition UnregisterTabClient :: "string \<Rightarrow> tabClient \<Rightarrow> SessionManager \<Rightarrow> SessionManager" where
  "UnregisterTabClient tab c m =
    (let cs = remove1 c (clients_of m tab) in
     m\<lparr>g_tabClients := (if cs = [] then AList.delete tab (g_tabClients m) else AList.update tab cs (g_tabClients m))\<rparr>)"

definition CanAttachSession :: "SessionManager \<Rightarrow> string \<Rightarrow> string \<Rightarrow> string \<Rightarrow> bool" where
  "CanAttachSession m tab sid token =
    (case map_of (g_tabs m) tab of None \<Rightarrow> False
     | Some t \<Rightarrow> HasSession (tab_Layout t) sid \<and> list_ex (\<lambda>c. tc_token c = token) (clients_of m tab))"

definition BroadcastTabEvent :: "string \<Rightarrow> tab_msg \<Rightarrow> SessionManager \<Rightarrow> SessionManager" where
  "BroadcastTabEvent tab msg m = m\<lparr>g_sent := g_sent m @ map (\<lambda>c. (tc_conn c, msg)) (clients_of m tab)\<rparr>"

section \<open>Splitting, closing, replacing\<close>

definition SplitPane :: "world \<Rightarrow> string \<Rightarrow> string \<Rightarrow> string \<Rightarrow> string \<Rightarrow> SessionManager
    \<Rightarrow> (SessionManager \<times> (error + string \<times> layout)) option" where
  "SplitPane w tab sid dir new m =
    (case map_of (g_tabs m) tab of None \<Rightarrow> Some (m, Inl (TabNotFound tab))
     | Some t \<Rightarrow>
         if \<not> HasSession (tab_Layout t) sid then Some (m, Inl (NotInTab sid tab))
         else do {
           (m, res) \<leftarrow> CreateSession w new m;
           (case res of Inl e \<Rightarrow> Some (m, Inl e)
            | Inr _ \<Rightarrow>
                let (l, found) = splitLayoutNode (tab_Layout t) sid new dir in
                if \<not> found then Some (fst (DeleteSession w new (put_tab tab (t\<lparr>tab_Layout := l\<rparr>) m)), Inl (NotInTab sid tab))
                else do {
                  m \<leftarrow> SaveState w (put_tab tab (t\<lparr>tab_Layout := l, tab_LastActive := w_now w\<rparr>) m);
                  Some (m, Inr (new, l))
                })
         })"

definition isLastPane :: "layout \<Rightarrow> string \<Rightarrow> bool" where
  "isLastPane l sid \<longleftrightarrow> is_pane l \<and> SessionID l = sid"

definition ClosePane :: "world \<Rightarrow> string \<Rightarrow> string \<Rightarrow> string \<Rightarrow> SessionManager \<Rightarrow> (SessionManager \<times> (error + layout)) option" where
  "ClosePane w tab sid new m =
    (case map_of (g_tabs m) tab of None \<Rightarrow> Some (m, Inl (TabNotFound tab))
     | Some t \<Rightarrow>
         if \<not> HasSession (tab_Layout t) sid then Some (m, Inl (NotInTab sid tab))
         else if isLastPane (tab_Layout t) sid then do {
           (m, res) \<leftarrow> CreateSession w new m;
           (case res of Inl e \<Rightarrow> Some (m, Inl e)
            | Inr _ \<Rightarrow> do {
                let m = put_tab tab (t\<lparr>tab_Layout := pane new, tab_LastActive := w_now w\<rparr>) m;
                m \<leftarrow> SaveState w (fst (DeleteSession w sid m));
                Some (m, Inr (pane new))
              })
         }
         else
           let (l, found) = closePaneInLayout (tab_Layout t) sid in
           if \<not> found then Some (put_tab tab (t\<lparr>tab_Layout := l\<rparr>) m, Inl (NotInTab sid tab))
           else do {
             let m = put_tab tab (t\<lparr>tab_Layout := l, tab_LastActive := w_now w\<rparr>) m;
             m \<leftarrow> SaveState w (fst (DeleteSession w sid m));
             Some (m, Inr l)
           })"

text \<open>
  The panes \<open>replaceAllSessions\<close> visits: the keys of its mapping. The values are spawned one after
  the other; on an error those already created are deleted again.
\<close>

fun mapping_keys :: "layout \<Rightarrow> string list" where
  "mapping_keys NilNode = []"
| "mapping_keys (LayoutNode ty s d r a b) =
    (if ty = ''pane'' then [s] else if ty = ''split'' then mapping_keys a @ mapping_keys b else [])"

fun spawn_all :: "world \<Rightarrow> string list \<Rightarrow> string list \<Rightarrow> SessionManager \<Rightarrow> (SessionManager \<times> error option) option" where
  "spawn_all w [] created m = Some (m, None)"
| "spawn_all w (i # ids) created m =
    (let (c, r) = defaultSessionSize m in do {
       res \<leftarrow> spawnSession w m i (defaultSessionCWD w) c r None;
       (case res of Inl e \<Rightarrow> Some (delete_all w created m, Some e)
        | Inr s \<Rightarrow> spawn_all w ids (created @ [i]) (put_session i s m))
     })"

definition ReplaceTabSessions :: "world \<Rightarrow> string \<Rightarrow> string list \<Rightarrow> SessionManager \<Rightarrow> (SessionManager \<times> (error + layout)) option" where
  "ReplaceTabSessions w tab ids m =
    (case map_of (g_tabs m) tab of None \<Rightarrow> Some (m, Inl (TabNotFound tab))
     | Some t \<Rightarrow> do {
         (l, mp, rest) \<leftarrow> replaceAllSessions (tab_Layout t) Map.empty ids;
         let new = List.map_filter mp (remdups (mapping_keys (tab_Layout t)));
         (m, e) \<leftarrow> spawn_all w new [] m;
         (case e of Some e \<Rightarrow> Some (m, Inl e)
          | None \<Rightarrow> do {
              let m = put_tab tab (t\<lparr>tab_Layout := l, tab_LastActive := w_now w\<rparr>) m;
              m \<leftarrow> SaveState w (delete_all w (SessionIDs (tab_Layout t)) m);
              Some (m, Inr l)
            })
       })"

end
