(* ===== verification/Session_Safety.thy ===== *)
theory Session_Safety
  imports Session
begin

text \<open>
  A session as a \<open>safe_machine\<close>: every event of a session whose terminal has two columns or more is
  handled without a panic, and the session's size, the emulator's and the PTY's stay the same.
\<close>

section \<open>Fan-out\<close>

lemma Broadcast_other: "p \<notin> set ps \<Longrightarrow> Broadcast d ps h p = h p"
  by (induction ps arbitrary: h) (auto simp: Broadcast_def)

lemma Broadcast_mem: "distinct ps \<Longrightarrow> p \<in> set ps \<Longrightarrow> Broadcast d ps h p = queueBinary d (h p)"
proof (induction ps arbitrary: h)
  case (Cons q ps)
  then show ?case
    using Broadcast_other [of p ps d "h(p := queueBinary d (h p))"] by (auto simp: Broadcast_def)
qed simp

section \<open>Events\<close>

datatype session_event =
    OutputEv int bytes        \<comment> \<open>the time, a chunk of output\<close>
  | SizeEv int int
  | JoinEv nat bool
  | LeaveEv nat
  | InputEv int bytes
  | NudgeEv

primrec session_step :: "session_event \<Rightarrow> Session \<times> clients_heap \<Rightarrow> (Session \<times> clients_heap) option" where
  "session_step (OutputEv t d) sh = record_output t d sh"
| "session_step (SizeEv c r) sh = map_option (\<lambda>(s, b). (s, snd sh)) (Resize_session c r (fst sh))"
| "session_step (JoinEv p b) sh = map_option (\<lambda>(s, h, b). (s, h)) (AttachClient p b sh)"
| "session_step (LeaveEv p) sh = Some (DetachClient p (fst sh), snd sh)"
| "session_step (InputEv t d) sh = Some (WriteInput t d (fst sh), snd sh)"
| "session_step NudgeEv sh = Some (NudgeRedraw (fst sh), snd sh)"

definition sizes_agree :: "Session \<Rightarrow> bool" where
  "sizes_agree s \<longleftrightarrow> s_Cols s = t_w (s_term s) \<and> s_Rows s = t_h (s_term s)
     \<and> (s_pty s = OpenPty \<longrightarrow> s_sizes s \<noteq> [] \<and> last (s_sizes s) = (uint16 (s_Cols s), uint16 (s_Rows s)))"

definition session_ok :: "Session \<Rightarrow> bool" where
  "session_ok s \<longleftrightarrow> vt_wf (s_term s) \<and> ring_ok (s_scrollback s) \<and> sizes_agree s"

text \<open>The one request that is refused here is a width of one column.\<close>

primrec session_admissible :: "session_event \<Rightarrow> bool" where
  "session_admissible (OutputEv t d) = True"
| "session_admissible (SizeEv c r) = (c \<noteq> 1)"
| "session_admissible (JoinEv p b) = True"
| "session_admissible (LeaveEv p) = True"
| "session_admissible (InputEv t d) = True"
| "session_admissible NudgeEv = True"

lemma Write_ok:
  assumes "vt_wf t" shows "wp (Write d t) (\<lambda>t'. vt_wf t' \<and> t_w t' = t_w t \<and> t_h t' = t_h t)"
proof -
  have w: "wf_term (t_w t) (t_h t) carry_ok (\<lambda>_. True) t" "2 \<le> t_w t" using assms by (auto simp: vt_wf_def)
  from wf_Write [OF this] show ?thesis
    by (rule wp_mono) (use w in \<open>auto intro: vt_wfI dest: wf_size\<close>)
qed

lemma Resize_ok:
  assumes "vt_wf t" "2 \<le> c" "1 \<le> r" shows "wp (Resize c r t) (\<lambda>t'. vt_wf t' \<and> t_w t' = c \<and> t_h t' = r)"
proof -
  have w: "wf_term (t_w t) (t_h t) carry_ok (\<lambda>_. True) t" using assms by (auto simp: vt_wf_def)
  from wf_Resize [OF this] show ?thesis
    by (rule wp_mono) (use assms in \<open>auto dest: wf_size simp: vt_wf_def\<close>)
qed

lemma record_output_ok:
  assumes "session_ok s"
  shows "wp (record_output t d (s, h)) (\<lambda>(s', h'). session_ok s' \<and> h' = Broadcast d (s_clients s) h)"
proof -
  have "wp (ring_write d (s_scrollback s)) ring_ok" "wp (Write d (s_term s)) (\<lambda>t'. vt_wf t' \<and> t_w t' = t_w (s_term s) \<and> t_h t' = t_h (s_term s))"
    using ring_write_total Write_ok assms by (auto simp: session_ok_def intro: wp_mono)
  then show ?thesis using assms
    by (auto simp: record_output_def wp_ex session_ok_def sizes_agree_def)
qed

lemma Resize_session_ok:
  assumes "session_ok s" "c \<noteq> 1"
  shows "wp (Resize_session c r s) (\<lambda>(s', b). session_ok s' \<and> (b \<longleftrightarrow> 0 < c \<and> 0 < r \<and> (s_Cols s \<noteq> c \<or> s_Rows s \<noteq> r)))"
proof (cases "c \<le> 0 \<or> r \<le> 0 \<or> (s_Cols s = c \<and> s_Rows s = r)")
  case True
  with assms show ?thesis by (auto simp: Resize_session_def Let_def session_ok_def sizes_agree_def)
next
  case False
  then have "wp (Resize c r (s_term s)) (\<lambda>t'. vt_wf t' \<and> t_w t' = c \<and> t_h t' = r)"
    using assms by (intro Resize_ok) (auto simp: session_ok_def)
  with False assms show ?thesis
    by (auto simp: Resize_session_def Let_def wp_ex session_ok_def sizes_agree_def Setsize_def)
qed

lemma AttachClient_ok:
  assumes "session_ok s"
  shows "\<exists>d. Snapshot (s_term s) = Some d \<and> d \<noteq> []
    \<and> AttachClient p True (s, h) = Some (s\<lparr>s_clients := s_clients s @ [p]\<rparr>, h(p := queueText (scrollback_msg d) (h p)), True)"
    and "AttachClient p False (s, h) = Some (s\<lparr>s_clients := s_clients s @ [p]\<rparr>, h, False)"
proof -
  have "wf_term (t_w (s_term s)) (t_h (s_term s)) carry_ok (\<lambda>_. True) (s_term s)"
    using assms by (auto simp: session_ok_def vt_wf_def)
  from Snapshot_total [OF this] show "\<exists>d. Snapshot (s_term s) = Some d \<and> d \<noteq> []
    \<and> AttachClient p True (s, h) = Some (s\<lparr>s_clients := s_clients s @ [p]\<rparr>, h(p := queueText (scrollback_msg d) (h p)), True)"
    by (auto simp: AttachClient_def)
qed (simp add: AttachClient_def)

lemma session_ok_clients [simp]: "session_ok (s\<lparr>s_clients := ps\<rparr>) = session_ok s"
  by (simp add: session_ok_def sizes_agree_def)

lemma NudgeRedraw_ok: "session_ok s \<Longrightarrow> session_ok (NudgeRedraw s)"
  by (auto simp: NudgeRedraw_def session_ok_def sizes_agree_def Setsize_def)

lemma session_step_safe:
  assumes "session_ok (fst sh)" "session_admissible e"
  shows "wp (session_step e sh) (\<lambda>sh'. session_ok (fst sh'))"
proof -
  obtain s h where sh: "sh = (s, h)" by (cases sh)
  with assms have ok: "session_ok s" by simp
  show ?thesis
  proof (cases e)
    case (OutputEv t d)
    with record_output_ok [OF ok, of t d h] sh show ?thesis by (auto simp: wp_ex)
  next
    case (SizeEv c r)
    with Resize_session_ok [OF ok, of c r] assms(2) sh show ?thesis by (auto simp: wp_ex)
  next
    case (JoinEv p b)
    with AttachClient_ok [OF ok, of p h] ok sh show ?thesis by (cases b) auto
  next
    case (InputEv t d)
    with ok sh show ?thesis by (auto simp: WriteInput_def session_ok_def sizes_agree_def)
  qed (use ok sh NudgeRedraw_ok in \<open>auto simp: DetachClient_def\<close>)
qed

interpretation shell: safe_machine "\<lambda>sh. session_ok (fst sh)" session_admissible session_step
  by unfold_locales (rule session_step_safe)

lemma NewSession_ok:
  assumes "NewSession w sid sh cwd c r hist lim n term0 = Some (Inr s)" "2 \<le> c" "1 \<le> r"
    and "term0 = None \<or> vt_wf (the term0)"
  shows "session_ok s"
proof -
  have ring: "ring_ok (NewRingBuffer m)" for m by (rule ring_new_ok)
  show ?thesis
  proof (cases term0)
    case None
    with assms vt_New [OF assms(2), of r] New_wf [of carry_ok c r "\<lambda>_. True"] ring show ?thesis
      by (auto simp: NewSession_def Let_def session_ok_def sizes_agree_def carry_idle dest!: wf_size split: option.splits)
  next
    case (Some t)
    with assms(4) Resize_ok [OF _ assms(2,3), of t] assms(1) ring show ?thesis
      by (auto simp: NewSession_def Let_def session_ok_def sizes_agree_def wp_ex bind_eq_Some_conv split: option.splits)
  qed
qed

end
