(* ===== verification/Manager_Safety.thy ===== *)
theory Manager_Safety
  imports Manager Session_Safety
begin

text \<open>
  The invariant of the registry and that every operation keeps it and returns: sessions are stored
  under their own identifier with a well-formed terminal and ring, tabs under theirs; no session is
  shown by two panes, of the same tab or of different ones; the clients of a tab carry its
  identifier. The operations are the events of a machine whose guard is that generated identifiers
  are new.
\<close>

section \<open>Layouts of any shape\<close>

text \<open>The updates of a layout also hold for trees the program does not build itself.\<close>

lemma split_any:
  assumes "new \<noteq> ''''"
  shows "splitLayoutNode t target new dir = (t', found) \<Longrightarrow>
    (if found then mset (SessionIDs t') = add_mset new (mset (SessionIDs t)) else t' = t)"
proof (induction t arbitrary: t' found)
  case (LayoutNode ty s d r a b)
  obtain a' fa where a': "splitLayoutNode a target new dir = (a', fa)" by fastforce
  obtain b' fb where b': "splitLayoutNode b target new dir = (b', fb)" by fastforce
  from LayoutNode.IH(1) [OF a'] LayoutNode.IH(2) [OF b'] LayoutNode.prems a' b' assms show ?case
    by (auto simp: Let_def split: if_splits)
qed simp

lemma close_any: "closePaneInLayout t sid = (t', found) \<Longrightarrow> mset (SessionIDs t') \<subseteq># mset (SessionIDs t) \<and> (\<not> found \<longrightarrow> t' = t)"
proof (induction t arbitrary: t' found)
  case (LayoutNode ty s d r a b)
  obtain a' fa where a': "closePaneInLayout a sid = (a', fa)" by fastforce
  obtain b' fb where b': "closePaneInLayout b sid = (b', fb)" by fastforce
  from LayoutNode.IH(1) [OF a'] LayoutNode.IH(2) [OF b'] LayoutNode.prems a' b' show ?case
    by (auto simp: Let_def subset_mset.add_increasing subset_mset.add_mono split: if_splits)
qed simp

lemma replace_any:
  "replaceAllSessions t m ids = Some (t', m', rest) \<Longrightarrow>
    \<exists>used. ids = used @ rest \<and> SessionIDs t' = filter (\<lambda>i. i \<noteq> '''') used \<and> ran m' \<subseteq> ran m \<union> set used"
proof (induction t arbitrary: m ids t' m' rest)
  case (LayoutNode ty s d r a b)
  show ?case
  proof (cases "ty = ''pane''")
    case True
    have "ran (m(k \<mapsto> v)) \<subseteq> ran m \<union> {v}" for k v by (auto simp: ran_def)
    with True LayoutNode.prems show ?thesis by (fastforce split: list.splits)
  next
    case False
    show ?thesis
    proof (cases "ty = ''split''")
      case True
      with LayoutNode.prems obtain a' m1 r1 b' where ab: "replaceAllSessions a m ids = Some (a', m1, r1)"
        "replaceAllSessions b m1 r1 = Some (b', m', rest)" "t' = LayoutNode ''split'' '''' d r a' b'"
        by (auto simp: bind_eq_Some_conv)
      from LayoutNode.IH(1) [OF ab(1)] LayoutNode.IH(2) [OF ab(2)] obtain u1 u2 where
        u: "ids = u1 @ r1" "SessionIDs a' = filter (\<lambda>i. i \<noteq> '''') u1" "ran m1 \<subseteq> ran m \<union> set u1"
          "r1 = u2 @ rest" "SessionIDs b' = filter (\<lambda>i. i \<noteq> '''') u2" "ran m' \<subseteq> ran m1 \<union> set u2" by blast
      then show ?thesis using ab(3) by (intro exI [of _ "u1 @ u2"]) auto
    next
      case nsplit: False
      with False LayoutNode.prems show ?thesis by auto
    qed
  qed
qed simp

section \<open>Machines with a guard\<close>

text \<open>
  The contract of \<open>safe_machine\<close> when what is admissible depends on the state. A run is allowed when
  every event passes the guard in the state it meets, as far as the run gets.
\<close>

primrec allowed :: "('e \<Rightarrow> 's \<Rightarrow> bool) \<Rightarrow> ('e \<Rightarrow> 's \<Rightarrow> 's option) \<Rightarrow> 'e list \<Rightarrow> 's \<Rightarrow> bool" where
  "allowed guard step [] s = True"
| "allowed guard step (e # es) s = (guard e s \<and> (case step e s of None \<Rightarrow> True | Some s' \<Rightarrow> allowed guard step es s'))"

locale guarded_machine =
  fixes ginv :: "'s \<Rightarrow> bool"
    and guard :: "'e \<Rightarrow> 's \<Rightarrow> bool"
    and gstep :: "'e \<Rightarrow> 's \<Rightarrow> 's option"
  assumes gstep_safe: "ginv s \<Longrightarrow> guard e s \<Longrightarrow> wp (gstep e s) ginv"
begin

lemma allowed_run: "ginv s \<Longrightarrow> allowed guard gstep es s \<Longrightarrow> \<exists>s'. run gstep es s = Some s' \<and> ginv s'"
proof (induction es arbitrary: s)
  case (Cons e es)
  then obtain u where u: "gstep e s = Some u" "ginv u" by (auto elim: wpE [OF gstep_safe])
  with Cons show ?case by simp
qed simp

end

sublocale safe_machine \<subseteq> guarded: guarded_machine inv "\<lambda>e s. admissible e" step
  by unfold_locales (rule step_safe)

section \<open>The invariant\<close>

definition term_ok :: "Terminal \<Rightarrow> bool" where
  "term_ok t \<longleftrightarrow> wf_term (t_w t) (t_h t) carry_ok (\<lambda>_. True) t"

definition sess_inv :: "(string \<times> Session) list \<Rightarrow> bool" where
  "sess_inv ss \<longleftrightarrow> distinct (map fst ss)
     \<and> (\<forall>i s. map_of ss i = Some s \<longrightarrow> s_ID s = i \<and> term_ok (s_term s) \<and> ring_ok (s_scrollback s))"

definition shown :: "(string \<times> Tab) list \<Rightarrow> string \<Rightarrow> string set" where
  "shown ts i = (case map_of ts i of None \<Rightarrow> {} | Some t \<Rightarrow> set (SessionIDs (tab_Layout t)))"

definition tabs_inv :: "(string \<times> Tab) list \<Rightarrow> bool" where
  "tabs_inv ts \<longleftrightarrow> distinct (map fst ts)
     \<and> (\<forall>i t. map_of ts i = Some t \<longrightarrow> tab_ID t = i \<and> distinct (SessionIDs (tab_Layout t)))
     \<and> (\<forall>i j. i \<noteq> j \<longrightarrow> shown ts i \<inter> shown ts j = {})"

definition clients_inv :: "(string \<times> tabClient list) list \<Rightarrow> bool" where
  "clients_inv cs \<longleftrightarrow> distinct (map fst cs)
     \<and> (\<forall>i c. map_of cs i = Some c \<longrightarrow> c \<noteq> [] \<and> list_all (\<lambda>k. tc_tabID k = i) c)"

definition registry_ok :: "SessionManager \<Rightarrow> bool" where
  "registry_ok m \<longleftrightarrow> sess_inv (g_sessions m) \<and> tabs_inv (g_tabs m) \<and> clients_inv (g_tabClients m)"

text \<open>An identifier the registry does not know yet.\<close>

definition fresh :: "SessionManager \<Rightarrow> string \<Rightarrow> bool" where
  "fresh m i \<longleftrightarrow> i \<noteq> '''' \<and> i \<notin> fst ` set (g_sessions m) \<and> i \<notin> fst ` set (g_tabs m) \<and> i \<notin> set (referenced m)"

lemma shown_referenced: "distinct (map fst (g_tabs m)) \<Longrightarrow> shown (g_tabs m) j \<subseteq> set (referenced m)"
  by (force simp: shown_def referenced_def dest: map_of_SomeD split: option.splits)

lemma sess_inv_update: "sess_inv ss \<Longrightarrow> s_ID s = i \<Longrightarrow> term_ok (s_term s) \<Longrightarrow> ring_ok (s_scrollback s) \<Longrightarrow> sess_inv (AList.update i s ss)"
  by (auto simp: sess_inv_def update_conv' distinct_update)

lemma sess_inv_delete: "sess_inv ss \<Longrightarrow> sess_inv (AList.delete i ss)"
  by (auto simp: sess_inv_def delete_conv' distinct_delete)

lemma shown_update: "shown (AList.update i t ts) j = (if j = i then set (SessionIDs (tab_Layout t)) else shown ts j)"
  by (simp add: shown_def update_conv')

lemma shown_delete: "shown (AList.delete i ts) j = (if j = i then {} else shown ts j)"
  by (simp add: shown_def delete_conv')

text \<open>A layout that only shows what its tab showed before, and new sessions.\<close>

lemma tabs_inv_update:
  assumes "tabs_inv ts" "tab_ID t = i" "distinct (SessionIDs (tab_Layout t))"
    "\<And>x j. x \<in> set (SessionIDs (tab_Layout t)) \<Longrightarrow> x \<notin> shown ts i \<Longrightarrow> x \<notin> shown ts j"
  shows "tabs_inv (AList.update i t ts)"
proof -
  have "set (SessionIDs (tab_Layout t)) \<inter> shown ts j = {}" if "j \<noteq> i" for j
    using assms(1,4) that unfolding tabs_inv_def by blast
  with assms(1-3) show ?thesis unfolding tabs_inv_def
    by (auto simp: shown_update update_conv' distinct_update)
qed

lemma tabs_inv_delete: "tabs_inv ts \<Longrightarrow> tabs_inv (AList.delete i ts)"
  by (auto simp: tabs_inv_def shown_delete delete_conv' distinct_delete)

lemma distinct_submset: "distinct xs \<Longrightarrow> mset ys \<subseteq># mset xs \<Longrightarrow> distinct ys"
proof (induction ys arbitrary: xs)
  case (Cons y ys)
  then have y: "y \<in> set xs" using mset_subset_eqD [OF Cons.prems(2), of y] by simp
  have "mset ys \<subseteq># mset (remove1 y xs)" using Cons.prems(2) by (simp add: insert_subset_eq_iff)
  moreover have "y \<notin> set (remove1 y xs)" using Cons.prems(1) by simp
  ultimately have "distinct ys" "y \<notin> set ys"
    using Cons.IH [of "remove1 y xs"] Cons.prems(1) by (simp, metis mset_subset_eqD set_mset_mset)
  then show ?case by simp
qed simp

lemma tabs_inv_same:
  assumes "tabs_inv ts" "map_of ts i = Some t" "tab_ID t' = i" "mset (SessionIDs (tab_Layout t')) \<subseteq># mset (SessionIDs (tab_Layout t))"
  shows "tabs_inv (AList.update i t' ts)"
proof (rule tabs_inv_update [OF assms(1,3)])
  have "distinct (SessionIDs (tab_Layout t))" using assms(1,2) by (auto simp: tabs_inv_def)
  then show "distinct (SessionIDs (tab_Layout t'))"
    using assms(4) by (rule distinct_submset)
  show "x \<notin> shown ts j" if "x \<in> set (SessionIDs (tab_Layout t'))" "x \<notin> shown ts i" for x j
    using that assms(2,4) set_mset_mono [OF assms(4)] by (auto simp: shown_def)
qed

lemma clients_inv_update: "clients_inv cs \<Longrightarrow> c \<noteq> [] \<Longrightarrow> list_all (\<lambda>k. tc_tabID k = i) c \<Longrightarrow> clients_inv (AList.update i c cs)"
  by (auto simp: clients_inv_def update_conv' distinct_update)

lemma clients_inv_delete: "clients_inv cs \<Longrightarrow> clients_inv (AList.delete i cs)"
  by (auto simp: clients_inv_def delete_conv' distinct_delete)

section \<open>Starting, ending and saving sessions\<close>

definition new_session_ok :: "string \<Rightarrow> Session \<Rightarrow> bool" where
  "new_session_ok i s \<longleftrightarrow> s_ID s = i \<and> term_ok (s_term s) \<and> ring_ok (s_scrollback s) \<and> s_Alive s"

lemma term_okI: "wf_term c r carry_ok (\<lambda>_. True) t \<Longrightarrow> term_ok t"
  using wf_size [of c r carry_ok "\<lambda>_. True" t] by (simp add: term_ok_def)

lemma term_ok_New: "term_ok (New c r)"
  by (rule term_okI [OF New_wf]) (simp_all add: carry_idle)

lemma term_ok_Resize: "term_ok t \<Longrightarrow> wp (Resize c r t) term_ok"
  unfolding term_ok_def [of t] by (erule wf_Resize [THEN wp_mono]) (rule term_okI)

lemma NewSession_total:
  assumes "t0 = None \<or> (\<exists>t. t0 = Some t \<and> term_ok t)"
  shows "wp (NewSession w i sh cwd c r hist hl n t0) (case_sum (\<lambda>_. True) (new_session_ok i))"
proof (cases t0)
  case None
  then show ?thesis
    by (auto simp: NewSession_def Let_def new_session_ok_def term_ok_New ring_new_ok split: option.splits)
next
  case (Some t)
  with assms term_ok_Resize [of t c r] show ?thesis
    by (auto simp: NewSession_def Let_def new_session_ok_def ring_new_ok wp_ex split: option.splits)
qed

lemma spawnSession_total:
  "t0 = None \<or> (\<exists>t. t0 = Some t \<and> term_ok t) \<Longrightarrow> wp (spawnSession w m i cwd c r t0) (case_sum (\<lambda>_. True) (new_session_ok i))"
  by (simp add: spawnSession_def Let_def split: prod.splits) (blast intro: NewSession_total)

lemma registry_put_session: "registry_ok m \<Longrightarrow> new_session_ok i s \<Longrightarrow> registry_ok (put_session i s m)"
  by (simp add: registry_ok_def put_session_def sess_inv_update new_session_ok_def)

text \<open>What a creation leaves: a new registered session, or the manager as it was.\<close>

definition created :: "string \<Rightarrow> SessionManager \<Rightarrow> SessionManager \<times> (error + string) \<Rightarrow> bool" where
  "created i m res \<longleftrightarrow> (case res of (m', Inl e) \<Rightarrow> m' = m
     | (m', Inr j) \<Rightarrow> j = i \<and> (\<exists>s. m' = put_session i s m \<and> new_session_ok i s))"

lemma CreateSession_total: "wp (CreateSession w i m) (created i m)"
  unfolding CreateSession_def Let_def split_def
  by (rule wp_bindI [OF spawnSession_total]) (auto simp: created_def split: sum.splits)

lemma created_cases: "created i m res \<Longrightarrow> (\<exists>e. res = (m, Inl e)) \<or> (\<exists>s. res = (put_session i s m, Inr i) \<and> new_session_ok i s)"
  by (cases res; cases "snd res") (simp_all add: created_def)

lemma save_rings_total:
  "(\<And>i s. (i, s) \<in> set ss \<Longrightarrow> ring_ok (s_scrollback s)) \<Longrightarrow> wp (save_rings w m ss d) (\<lambda>_. True)"
proof (induction ss arbitrary: d)
  case (Cons p ss)
  obtain i s where p: "p = (i, s)" by (cases p)
  have "ring_ok (s_scrollback s)" using Cons.prems [of i s] p by simp
  with Cons.IH Cons.prems p show ?case by (auto simp: readAll_content)
qed simp

lemma sess_inv_mem: "sess_inv ss \<Longrightarrow> (i, s) \<in> set ss \<Longrightarrow> s_ID s = i \<and> term_ok (s_term s) \<and> ring_ok (s_scrollback s)"
  by (simp add: sess_inv_def)

lemma registry_SaveState: "registry_ok m \<Longrightarrow> wp (SaveState w m) (\<lambda>m'. registry_ok m' \<and> g_sessions m' = g_sessions m \<and> g_tabs m' = g_tabs m \<and> g_tabClients m' = g_tabClients m)"
  unfolding SaveState_def
  by (rule wp_bindI [OF save_rings_total]) (auto simp: registry_ok_def dest: sess_inv_mem)

text \<open>What \<open>DeleteSession\<close> leaves alone.\<close>

lemma DeleteSession_fields:
  "g_sessions (fst (DeleteSession w i m)) = AList.delete i (g_sessions m)"
  "g_tabs (fst (DeleteSession w i m)) = g_tabs m" "g_tabClients (fst (DeleteSession w i m)) = g_tabClients m"
proof -
  have "map_of (g_sessions m) i = None \<Longrightarrow> AList.delete i (g_sessions m) = g_sessions m"
    by (simp add: map_of_eq_None_iff)
  then show "g_sessions (fst (DeleteSession w i m)) = AList.delete i (g_sessions m)"
    "g_tabs (fst (DeleteSession w i m)) = g_tabs m" "g_tabClients (fst (DeleteSession w i m)) = g_tabClients m"
    by (auto simp: DeleteSession_def Let_def remove_files_def send_signals_def split: option.splits)
qed

lemma delete_all_fields:
  "g_sessions (delete_all w ids m) = fold AList.delete ids (g_sessions m)"
  "g_tabs (delete_all w ids m) = g_tabs m" "g_tabClients (delete_all w ids m) = g_tabClients m"
  by (induction ids arbitrary: m) (simp_all add: delete_all_def DeleteSession_fields)

lemma sess_inv_deletes: "sess_inv ss \<Longrightarrow> sess_inv (fold AList.delete ids ss)"
  by (induction ids arbitrary: ss) (simp_all add: sess_inv_delete)

lemma registry_DeleteSession: "registry_ok m \<Longrightarrow> registry_ok (fst (DeleteSession w i m))"
  by (simp add: registry_ok_def DeleteSession_fields sess_inv_delete)

lemma registry_delete_all: "registry_ok m \<Longrightarrow> registry_ok (delete_all w ids m)"
  by (simp add: registry_ok_def delete_all_fields sess_inv_deletes)

lemma registry_KillSession:
  assumes "registry_ok m" shows "registry_ok (fst (KillSession w i m))"
proof (cases "map_of (g_sessions m) i")
  case (Some s)
  then have "s_ID s = i \<and> term_ok (s_term s) \<and> ring_ok (s_scrollback s)"
    using assms by (auto simp: registry_ok_def sess_inv_def)
  then have "sess_inv (AList.update i (snd (Kill b s)) (g_sessions m))" for b
    using assms by (intro sess_inv_update) (auto simp: registry_ok_def Kill_def)
  with Some assms show ?thesis
    by (simp add: KillSession_def registry_ok_def put_session_def send_signals_def)
qed (use assms in \<open>simp add: KillSession_def\<close>)

lemma registry_ReviveSession:
  assumes "registry_ok m"
  shows "wp (ReviveSession w i m) (\<lambda>(m', r). registry_ok m')"
proof (cases "map_of (g_sessions m) i")
  case None
  with assms show ?thesis by (simp add: ReviveSession_def)
next
  case (Some old)
  then have "term_ok (s_term old)" using assms by (auto simp: registry_ok_def sess_inv_def)
  then have sp: "wp (spawnSession w m i c a b (Some (s_term old))) (case_sum (\<lambda>_. True) (new_session_ok i))" for c a b
    by (intro spawnSession_total) blast
  have "wp (spawnSession w m i c a b (Some (s_term old)) \<bind>
      (\<lambda>res. Some (case res of Inl e \<Rightarrow> (m, Inl e) | Inr s \<Rightarrow> (put_session i s m, Inr i)))) (\<lambda>(m', r). registry_ok m')" for c a b
    by (rule wp_bindI [OF sp]) (use assms in \<open>auto intro: registry_put_session split: sum.splits\<close>)
  with assms Some show ?thesis by (simp add: ReviveSession_def Let_def)
qed

section \<open>Tabs\<close>

lemma registry_tab:
  assumes "registry_ok m" "map_of (g_tabs m) i = Some t"
  shows "tab_ID t = i" "distinct (SessionIDs (tab_Layout t))"
  using assms by (auto simp: registry_ok_def tabs_inv_def)

lemma fresh_not_shown: "registry_ok m \<Longrightarrow> fresh m x \<Longrightarrow> x \<notin> shown (g_tabs m) j"
  using shown_referenced [of m j] by (auto simp: registry_ok_def tabs_inv_def fresh_def)

lemma registry_same_tab:
  "registry_ok m \<Longrightarrow> map_of (g_tabs m) i = Some t \<Longrightarrow> tab_ID t' = i \<Longrightarrow>
    mset (SessionIDs (tab_Layout t')) \<subseteq># mset (SessionIDs (tab_Layout t)) \<Longrightarrow> registry_ok (put_tab i t' m)"
  by (simp add: registry_ok_def put_tab_def tabs_inv_same)

text \<open>A layout that shows sessions of its tab and new ones.\<close>

lemma registry_new_layout:
  assumes "registry_ok m" "map_of (g_tabs m) i = Some t" "tab_ID t' = i" "distinct (SessionIDs (tab_Layout t'))"
    "\<And>x. x \<in> set (SessionIDs (tab_Layout t')) \<Longrightarrow> x \<in> set (SessionIDs (tab_Layout t)) \<or> fresh m x"
  shows "registry_ok (put_tab i t' m)"
proof -
  have "x \<notin> shown (g_tabs m) j" if "x \<in> set (SessionIDs (tab_Layout t'))" "x \<notin> shown (g_tabs m) i" for x j
    using that assms(2,5) fresh_not_shown [OF assms(1)] by (auto simp: shown_def)
  with assms show ?thesis by (auto simp: registry_ok_def put_tab_def intro: tabs_inv_update)
qed

lemma put_fields [simp]:
  "g_tabs (put_session i s m) = g_tabs m" "g_sessions (put_tab i t m) = g_sessions m"
  "g_sessions (put_session i s m) = AList.update i s (g_sessions m)" "g_tabs (put_tab i t m) = AList.update i t (g_tabs m)"
  "g_tabClients (put_session i s m) = g_tabClients m" "g_tabClients (put_tab i t m) = g_tabClients m"
  by (simp_all add: put_session_def put_tab_def)

lemma registry_CreateTab:
  assumes "registry_ok m" "fresh m sid"
  shows "wp (CreateTab w name sid tid m) (\<lambda>(m', r). registry_ok m')"
proof -
  have "registry_ok (put_tab tid (NewTab (w_now w) tid name sid) (put_session sid s m))" if "new_session_ok sid s" for s
  proof -
    have "sid \<notin> shown (g_tabs m) j" for j by (rule fresh_not_shown [OF assms])
    then have "tabs_inv (AList.update tid (NewTab (w_now w) tid name sid) (g_tabs m))"
      using assms(1) by (intro tabs_inv_update) (auto simp: NewTab_def registry_ok_def split: if_splits)
    then show ?thesis using registry_put_session [OF assms(1) that] by (simp add: registry_ok_def)
  qed
  then show ?thesis unfolding CreateTab_def
    by (intro wp_bindI [OF CreateSession_total]) (auto simp: assms(1) dest!: created_cases)
qed

lemma registry_UpdateTab:
  assumes "registry_ok m" shows "registry_ok (fst (UpdateTab w i name lay m))"
proof (cases "map_of (g_tabs m) i")
  case (Some t)
  note t = registry_tab [OF assms Some]
  let ?t = "if name \<noteq> '''' then t\<lparr>tab_Name := name\<rparr> else t"
  have same: "tab_ID ?t = i" "tab_Layout ?t = tab_Layout t" using t by auto
  show ?thesis
  proof (cases lay)
    case None
    with Some same registry_same_tab [OF assms Some] show ?thesis by (simp add: UpdateTab_def Let_def)
  next
    case (Some l)
    have "layoutMatchesSessionSet l (SessionIDs (tab_Layout t)) \<Longrightarrow> mset (SessionIDs l) \<subseteq># mset (SessionIDs (tab_Layout t))"
      using matches_mset [OF t(2), of l] by simp
    with Some \<open>map_of (g_tabs m) i = Some t\<close> same registry_same_tab [OF assms \<open>map_of (g_tabs m) i = Some t\<close>] show ?thesis
      by (simp add: UpdateTab_def Let_def)
  qed
qed (use assms in \<open>simp add: UpdateTab_def\<close>)

lemma DisconnectTabOwner_fields:
  "g_sessions (DisconnectTabOwner tab m) = g_sessions m" "g_tabs (DisconnectTabOwner tab m) = g_tabs m"
  "g_tabClients (DisconnectTabOwner tab m) = AList.delete tab (g_tabClients m)"
  by (simp_all add: DisconnectTabOwner_def Let_def)

lemma registry_DisconnectTabOwner: "registry_ok m \<Longrightarrow> registry_ok (DisconnectTabOwner tab m)"
  by (simp add: registry_ok_def DisconnectTabOwner_fields clients_inv_delete)

lemma registry_DeleteTab: "registry_ok m \<Longrightarrow> registry_ok (fst (DeleteTab w i k m))"
proof -
  assume "registry_ok m"
  then have "registry_ok (DisconnectTabOwner i (m\<lparr>g_tabs := AList.delete i (g_tabs m)\<rparr>))"
    by (intro registry_DisconnectTabOwner) (simp add: registry_ok_def tabs_inv_delete)
  with \<open>registry_ok m\<close> registry_delete_all show ?thesis
    by (auto simp: DeleteTab_def Let_def split: option.splits)
qed

section \<open>Clients\<close>

lemma clients_of_tab: "clients_inv (g_tabClients m) \<Longrightarrow> list_all (\<lambda>k. tc_tabID k = tab) (clients_of m tab)"
  by (auto simp: clients_of_def clients_inv_def split: option.splits)

lemma replace_first_all: "list_all P xs \<Longrightarrow> P y \<Longrightarrow> list_all P (replace_first Q y xs)"
  by (induction xs) auto

lemma replace_first_nonempty: "xs \<noteq> [] \<Longrightarrow> replace_first Q y xs \<noteq> []"
  by (cases xs) auto

lemma registry_clients: "registry_ok m \<Longrightarrow> clients_inv cs \<Longrightarrow> registry_ok (m\<lparr>g_tabClients := cs\<rparr>)"
  by (simp add: registry_ok_def)

lemma registry_ResumeTabClient: "registry_ok m \<Longrightarrow> registry_ok (fst (ResumeTabClient tab token conn m))"
proof -
  assume m: "registry_ok m"
  then have c: "clients_inv (g_tabClients m)" by (simp add: registry_ok_def)
  have "clients_inv (AList.update tab (replace_first Q \<lparr>tc_conn = conn, tc_tabID = tab, tc_token = token\<rparr> (clients_of m tab)) (g_tabClients m))"
    if "clients_of m tab \<noteq> []" for Q
    using that clients_of_tab [OF c] by (intro clients_inv_update [OF c] replace_first_all replace_first_nonempty) simp_all
  then show ?thesis using m
    by (cases "clients_of m tab = []") (auto simp: ResumeTabClient_def registry_ok_def Let_def split: option.splits)
qed

lemma registry_RegisterTabClient: "registry_ok m \<Longrightarrow> tc_tabID c = tab \<Longrightarrow> registry_ok (RegisterTabClient tab c m)"
  using clients_of_tab [of m tab] by (auto simp: RegisterTabClient_def registry_ok_def intro!: clients_inv_update)

lemma registry_UnregisterTabClient: "registry_ok m \<Longrightarrow> registry_ok (UnregisterTabClient tab c m)"
proof -
  assume m: "registry_ok m"
  then have "list_all (\<lambda>k. tc_tabID k = tab) (remove1 c (clients_of m tab))"
    using clients_of_tab [of m tab] notin_set_remove1 by (auto simp: registry_ok_def list_all_iff)
  with m show ?thesis
    by (auto simp: UnregisterTabClient_def registry_ok_def Let_def intro: clients_inv_update clients_inv_delete)
qed

section \<open>Splitting and closing panes\<close>

lemma put_tab_same: "map_of (g_tabs m) i = Some t \<Longrightarrow> put_tab i t m = m"
  by (simp add: put_tab_def update_triv)

lemma registry_eqI:
  "registry_ok m \<Longrightarrow> g_sessions m' = g_sessions m \<Longrightarrow> g_tabs m' = g_tabs m \<Longrightarrow> g_tabClients m' = g_tabClients m \<Longrightarrow> registry_ok m'"
  by (simp add: registry_ok_def)

lemma delete_new_session:
  assumes "fresh m i"
  shows "g_sessions (fst (DeleteSession w i (put_session i s m))) = g_sessions m"
    "g_tabs (fst (DeleteSession w i (put_session i s m))) = g_tabs m"
    "g_tabClients (fst (DeleteSession w i (put_session i s m))) = g_tabClients m"
  using assms by (simp_all add: DeleteSession_fields delete_update_same fresh_def)

definition same_registry :: "SessionManager \<Rightarrow> SessionManager \<Rightarrow> bool" where
  "same_registry m m' \<longleftrightarrow> g_sessions m' = g_sessions m \<and> g_tabs m' = g_tabs m \<and> g_tabClients m' = g_tabClients m"

text \<open>What a split leaves on each of its branches.\<close>

definition split_result :: "world \<Rightarrow> string \<Rightarrow> string \<Rightarrow> string \<Rightarrow> string \<Rightarrow> SessionManager \<Rightarrow> SessionManager \<times> (error + string \<times> layout) \<Rightarrow> bool" where
  "split_result w tab sid dir new m res \<longleftrightarrow> (case res of
     (m', Inl e) \<Rightarrow> same_registry m m'
   | (m', Inr (n, l)) \<Rightarrow> n = new \<and> (\<exists>t s. map_of (g_tabs m) tab = Some t \<and> splitLayoutNode (tab_Layout t) sid new dir = (l, True)
       \<and> g_tabs m' = AList.update tab (t\<lparr>tab_Layout := l, tab_LastActive := w_now w\<rparr>) (g_tabs m)
       \<and> g_sessions m' = AList.update new s (g_sessions m) \<and> new_session_ok new s \<and> g_tabClients m' = g_tabClients m))"

lemma SplitPane_spec:
  assumes "registry_ok m" "fresh m new"
  shows "wp (SplitPane w tab sid dir new m) (\<lambda>res. registry_ok (fst res) \<and> split_result w tab sid dir new m res)"
proof (cases "map_of (g_tabs m) tab")
  case None
  with assms show ?thesis by (simp add: SplitPane_def split_result_def same_registry_def)
next
  case (Some t)
  note t = registry_tab [OF assms(1) Some]
  obtain l found where l: "splitLayoutNode (tab_Layout t) sid new dir = (l, found)" by fastforce
  have n: "new \<noteq> ''''" using assms(2) by (simp add: fresh_def)
  let ?k = "\<lambda>(m, res). (case res of Inl e \<Rightarrow> Some (m, Inl e)
            | Inr _ \<Rightarrow>
                let (l, found) = splitLayoutNode (tab_Layout t) sid new dir in
                if \<not> found then Some (fst (DeleteSession w new (put_tab tab (t\<lparr>tab_Layout := l\<rparr>) m)), Inl (NotInTab sid tab))
                else do {
                  m \<leftarrow> SaveState w (put_tab tab (t\<lparr>tab_Layout := l, tab_LastActive := w_now w\<rparr>) m);
                  Some (m, Inr (new, l))
                })"
  have k: "wp (?k (put_session new s m, Inr new)) (\<lambda>res. registry_ok (fst res) \<and> split_result w tab sid dir new m res)"
    if s: "new_session_ok new s" for s
  proof -
    let ?m = "put_session new s m"
    have m: "registry_ok ?m" by (rule registry_put_session [OF assms(1) s])
    show ?thesis
    proof (cases found)
      case False
      with split_any [OF n l] have "l = tab_Layout t" by simp
      then have "put_tab tab (t\<lparr>tab_Layout := l\<rparr>) ?m = ?m" using Some by (intro put_tab_same) simp
      with False l registry_DeleteSession [OF m] delete_new_session [OF assms(2)] show ?thesis
        by (simp add: split_result_def same_registry_def)
    next
      case True
      with split_any [OF n l] have ms: "mset (SessionIDs l) = add_mset new (mset (SessionIDs (tab_Layout t)))" by simp
      have st: "set (SessionIDs l) = insert new (set (SessionIDs (tab_Layout t)))"
        using arg_cong [OF ms, of set_mset] by simp
      have "new \<notin> set (SessionIDs (tab_Layout t))" using fresh_not_shown [OF assms, of tab] Some by (simp add: shown_def)
      then have d: "distinct (SessionIDs l)" using t(2) ms by (metis distinct.simps(2) mset.simps(2) mset_eq_imp_distinct_iff)
      have "registry_ok (put_tab tab (t\<lparr>tab_Layout := l, tab_LastActive := w_now w\<rparr>) m)"
        by (rule registry_new_layout [OF assms(1) Some]) (use t d st assms(2) in auto)
      then have "registry_ok (put_tab tab (t\<lparr>tab_Layout := l, tab_LastActive := w_now w\<rparr>) ?m)"
        using m by (simp add: registry_ok_def)
      from registry_SaveState [OF this, of w] True l Some s show ?thesis
        by (auto simp: wp_simps split_result_def intro: wp_mono)
    qed
  qed
  show ?thesis
  proof (cases "HasSession (tab_Layout t) sid")
    case True
    have "wp (CreateSession w new m \<bind> ?k) (\<lambda>res. registry_ok (fst res) \<and> split_result w tab sid dir new m res)"
    proof (rule wp_bindI [OF CreateSession_total])
      fix res assume "created new m res"
      then consider e where "res = (m, Inl e)" | s where "res = (put_session new s m, Inr new)" "new_session_ok new s"
        using created_cases by blast
      then show "wp (?k res) (\<lambda>res. registry_ok (fst res) \<and> split_result w tab sid dir new m res)"
        by cases (use assms k in \<open>simp_all only:, simp_all add: split_result_def same_registry_def\<close>)
    qed
    moreover have "SplitPane w tab sid dir new m = CreateSession w new m \<bind> ?k"
      unfolding SplitPane_def using Some True by (simp only: option.case not_True_eq_False if_False)
    ultimately show ?thesis by (simp only:)
  qed (use assms Some in \<open>simp add: SplitPane_def split_result_def same_registry_def\<close>)
qed

text \<open>What closing a pane leaves.\<close>

definition close_result :: "world \<Rightarrow> string \<Rightarrow> string \<Rightarrow> string \<Rightarrow> SessionManager \<Rightarrow> SessionManager \<times> (error + layout) \<Rightarrow> bool" where
  "close_result w tab sid new m res \<longleftrightarrow> (case res of
     (m', Inl e) \<Rightarrow> same_registry m m'
   | (m', Inr l) \<Rightarrow> \<exists>t. map_of (g_tabs m) tab = Some t \<and> HasSession (tab_Layout t) sid
       \<and> g_tabs m' = AList.update tab (t\<lparr>tab_Layout := l, tab_LastActive := w_now w\<rparr>) (g_tabs m)
       \<and> g_tabClients m' = g_tabClients m
       \<and> (if isLastPane (tab_Layout t) sid
          then l = pane new \<and> (\<exists>s. new_session_ok new s \<and> g_sessions m' = AList.delete sid (AList.update new s (g_sessions m)))
          else closePaneInLayout (tab_Layout t) sid = (l, True) \<and> g_sessions m' = AList.delete sid (g_sessions m)))"

lemma registry_delete_save:
  assumes "registry_ok m"
  shows "wp (SaveState w (fst (DeleteSession w i m)) \<bind> (\<lambda>m. Some (m, r))) (\<lambda>(m', r'). r' = r \<and> registry_ok m'
     \<and> g_sessions m' = AList.delete i (g_sessions m) \<and> g_tabs m' = g_tabs m \<and> g_tabClients m' = g_tabClients m)"
  by (rule wp_bindI [OF registry_SaveState [OF registry_DeleteSession [OF assms]]]) (simp add: DeleteSession_fields)

lemma ClosePane_spec:
  assumes "registry_ok m" "fresh m new"
  shows "wp (ClosePane w tab sid new m) (\<lambda>res. registry_ok (fst res) \<and> close_result w tab sid new m res)"
proof (cases "map_of (g_tabs m) tab")
  case None
  with assms show ?thesis by (simp add: ClosePane_def close_result_def same_registry_def)
next
  case (Some t)
  note t = registry_tab [OF assms(1) Some]
  consider "\<not> HasSession (tab_Layout t) sid" | "HasSession (tab_Layout t) sid" "isLastPane (tab_Layout t) sid"
    | "HasSession (tab_Layout t) sid" "\<not> isLastPane (tab_Layout t) sid" by blast
  then show ?thesis
  proof cases
    case 1
    with Some assms show ?thesis by (simp add: ClosePane_def close_result_def same_registry_def)
  next
    case 2
    let ?t = "t\<lparr>tab_Layout := pane new, tab_LastActive := w_now w\<rparr>"
    let ?k = "\<lambda>(m, res). (case res of Inl e \<Rightarrow> Some (m, Inl e)
            | Inr _ \<Rightarrow> do {
                let m = put_tab tab ?t m;
                m \<leftarrow> SaveState w (fst (DeleteSession w sid m));
                Some (m, Inr (pane new))
              })"
    have "wp (CreateSession w new m \<bind> ?k) (\<lambda>res. registry_ok (fst res) \<and> close_result w tab sid new m res)"
    proof (rule wp_bindI [OF CreateSession_total])
      fix res assume "created new m res"
      then consider e where "res = (m, Inl e)" | s where "res = (put_session new s m, Inr new)" "new_session_ok new s"
        using created_cases by blast
      then show "wp (?k res) (\<lambda>res. registry_ok (fst res) \<and> close_result w tab sid new m res)"
      proof cases
        case 1
        with assms show ?thesis by (simp add: close_result_def same_registry_def)
      next
        case (2 s)
        have "registry_ok (put_tab tab ?t m)"
          by (rule registry_new_layout [OF assms(1) Some]) (use t assms(2) in \<open>auto split: if_splits\<close>)
        then have "registry_ok (put_tab tab ?t (put_session new s m))"
          using registry_put_session [OF assms(1) 2(2)] by (simp add: registry_ok_def)
        from registry_delete_save [OF this, of w sid "Inr (pane new)"] Some 2 \<open>isLastPane (tab_Layout t) sid\<close> \<open>HasSession (tab_Layout t) sid\<close>
        show ?thesis by (simp add: Let_def) (erule wp_mono, auto simp: close_result_def intro!: exI [of _ t] exI [of _ s])
      qed
    qed
    moreover have "ClosePane w tab sid new m = CreateSession w new m \<bind> ?k"
      unfolding ClosePane_def using Some 2 by (simp only: option.case not_True_eq_False if_False if_True)
    ultimately show ?thesis by (simp only:)
  next
    case 3
    obtain l found where l: "closePaneInLayout (tab_Layout t) sid = (l, found)" by fastforce
    note c = close_any [OF l]
    show ?thesis
    proof (cases found)
      case False
      with c have "put_tab tab (t\<lparr>tab_Layout := l\<rparr>) m = m" using Some by (intro put_tab_same) simp
      with False 3 Some l assms(1) show ?thesis by (simp add: ClosePane_def close_result_def same_registry_def)
    next
      case True
      have "registry_ok (put_tab tab (t\<lparr>tab_Layout := l, tab_LastActive := w_now w\<rparr>) m)"
        by (rule registry_same_tab [OF assms(1) Some]) (use t c in auto)
      from registry_delete_save [OF this, of w sid "Inr l"] True 3 Some l show ?thesis
        by (simp add: ClosePane_def Let_def) (erule wp_mono, auto simp: close_result_def)
    qed
  qed
qed

section \<open>Replacing the sessions of a tab\<close>

lemma spawn_all_total:
  "registry_ok m \<Longrightarrow> wp (spawn_all w ids cr m) (\<lambda>(m', e). registry_ok m' \<and> g_tabs m' = g_tabs m \<and> g_tabClients m' = g_tabClients m)"
proof (induction ids arbitrary: cr m)
  case (Cons i ids)
  obtain c r where cr: "defaultSessionSize m = (c, r)" by fastforce
  have "wp (spawnSession w m i (defaultSessionCWD w) c r None \<bind> (\<lambda>res. case res of Inl e \<Rightarrow> Some (delete_all w cr m, Some e)
      | Inr s \<Rightarrow> spawn_all w ids (cr @ [i]) (put_session i s m))) (\<lambda>(m', e). registry_ok m' \<and> g_tabs m' = g_tabs m \<and> g_tabClients m' = g_tabClients m)"
  proof (rule wp_bindI [OF spawnSession_total])
    fix res :: "error + Session" assume res: "case_sum (\<lambda>_. True) (new_session_ok i) res"
    show "wp (case res of Inl e \<Rightarrow> Some (delete_all w cr m, Some e) | Inr s \<Rightarrow> spawn_all w ids (cr @ [i]) (put_session i s m))
        (\<lambda>(m', e). registry_ok m' \<and> g_tabs m' = g_tabs m \<and> g_tabClients m' = g_tabClients m)"
    proof (cases res)
      case (Inl e)
      then show ?thesis using registry_delete_all [OF Cons.prems] by (simp add: delete_all_fields)
    next
      case (Inr s)
      with res have "registry_ok (put_session i s m)" by (intro registry_put_session [OF Cons.prems]) simp
      from Cons.IH [OF this] Inr show ?thesis by simp
    qed
  qed simp
  with cr show ?case by simp
qed simp

lemma replace_enough:
  "length (mapping_keys t) \<le> length ids \<Longrightarrow>
    \<exists>t' m' rest. replaceAllSessions t m ids = Some (t', m', rest) \<and> length ids = length (mapping_keys t) + length rest"
proof (induction t arbitrary: m ids)
  case (LayoutNode ty s d r a b)
  show ?case
  proof (cases "ty = ''split''")
    case True
    with LayoutNode.prems have la: "length (mapping_keys a) \<le> length ids" by simp
    from LayoutNode.IH(1) [OF la, of m] obtain a' m1 r1 where
      a: "replaceAllSessions a m ids = Some (a', m1, r1)" "length ids = length (mapping_keys a) + length r1" by blast
    with True LayoutNode.prems have lb: "length (mapping_keys b) \<le> length r1" by simp
    from LayoutNode.IH(2) [OF lb, of m1] a True show ?thesis by auto
  next
    case False
    with LayoutNode.prems show ?thesis by (cases ids) auto
  qed
qed simp

text \<open>Enough new identifiers for the panes of a tab.\<close>

definition enough_fresh :: "SessionManager \<Rightarrow> string \<Rightarrow> string list \<Rightarrow> bool" where
  "enough_fresh m tab ids \<longleftrightarrow> distinct ids \<and> list_all (fresh m) ids
     \<and> (case map_of (g_tabs m) tab of None \<Rightarrow> True | Some t \<Rightarrow> length (mapping_keys (tab_Layout t)) \<le> length ids)"

lemma registry_ReplaceTabSessions:
  assumes "registry_ok m" "enough_fresh m tab ids"
  shows "wp (ReplaceTabSessions w tab ids m) (\<lambda>(m', r). registry_ok m')"
proof (cases "map_of (g_tabs m) tab")
  case (Some t)
  note t = registry_tab [OF assms(1) Some]
  from assms(2) Some have "length (mapping_keys (tab_Layout t)) \<le> length ids" by (simp add: enough_fresh_def)
  from replace_enough [OF this, of Map.empty] obtain l mp rest where
    l: "replaceAllSessions (tab_Layout t) Map.empty ids = Some (l, mp, rest)" by blast
  from replace_any [OF this] obtain used where u: "ids = used @ rest" "SessionIDs l = filter (\<lambda>i. i \<noteq> '''') used" by blast
  let ?t = "t\<lparr>tab_Layout := l, tab_LastActive := w_now w\<rparr>"
  have tabs: "registry_ok (put_tab tab ?t m)"
    by (rule registry_new_layout [OF assms(1) Some])
      (use t u assms(2) in \<open>auto simp: enough_fresh_def list_all_iff distinct_filter\<close>)
  let ?new = "List.map_filter mp (remdups (mapping_keys (tab_Layout t)))"
  have "wp (spawn_all w ?new [] m \<bind> (\<lambda>(m, e). case e of Some e \<Rightarrow> Some (m, Inl e)
          | None \<Rightarrow> do {
              let m = put_tab tab ?t m;
              m \<leftarrow> SaveState w (delete_all w (SessionIDs (tab_Layout t)) m);
              Some (m, Inr l)
            })) (\<lambda>(m', r). registry_ok m')"
  proof (rule wp_bindI [OF spawn_all_total [OF assms(1)]], clarify)
    fix m1 e assume m1: "registry_ok m1" "g_tabs m1 = g_tabs m" "g_tabClients m1 = g_tabClients m"
    show "wp (case e of Some e \<Rightarrow> Some (m1, Inl e)
          | None \<Rightarrow> do {
              let m = put_tab tab ?t m1;
              m \<leftarrow> SaveState w (delete_all w (SessionIDs (tab_Layout t)) m);
              Some (m, Inr l)
            }) (\<lambda>(m', r). registry_ok m')"
    proof (cases e)
      case None
      have "registry_ok (put_tab tab ?t m1)" using tabs m1 by (simp add: registry_ok_def)
      then have "registry_ok (delete_all w (SessionIDs (tab_Layout t)) (put_tab tab ?t m1))" by (rule registry_delete_all)
      from registry_SaveState [OF this, of w] None show ?thesis by (simp add: Let_def wp_simps) (erule wp_mono, simp)
    qed (use m1 in simp)
  qed
  moreover have "ReplaceTabSessions w tab ids m = spawn_all w ?new [] m \<bind> (\<lambda>(m, e). case e of Some e \<Rightarrow> Some (m, Inl e)
          | None \<Rightarrow> do {
              let m = put_tab tab ?t m;
              m \<leftarrow> SaveState w (delete_all w (SessionIDs (tab_Layout t)) m);
              Some (m, Inr l)
            })"
    unfolding ReplaceTabSessions_def using Some l by (simp only: option.case bind.bind_lunit prod.case Let_def)
  ultimately show ?thesis by (simp only:)
qed (use assms in \<open>simp add: ReplaceTabSessions_def\<close>)

section \<open>Polling, adopting, stopping\<close>

lemma registry_adopt_file:
  "registry_ok (fst st) \<Longrightarrow> registry_ok (fst (adopt_file w name st))"
proof -
  obtain m n shut where st: "st = (m, n, shut)" by (metis prod.exhaust)
  assume "registry_ok (fst st)"
  then have m: "registry_ok m" using st by simp
  have "registry_ok (put_session i (AdoptSession w (Meta old) pid (s_scrollback old) (s_term old)) m)"
    if "map_of (g_sessions m) i = Some old" for i old pid
    by (rule registry_put_session [OF m])
      (use that m in \<open>auto simp: new_session_ok_def AdoptSession_def Meta_def registry_ok_def sess_inv_def\<close>)
  with m show ?thesis by (auto simp: adopt_file_def st split: list.splits option.splits)
qed

lemma registry_Adopt: "registry_ok m \<Longrightarrow> registry_ok (fst (Adopt w files m))"
proof -
  have "registry_ok (fst st) \<Longrightarrow> registry_ok (fst (fold (adopt_file w) files st))" for st
    by (induction files arbitrary: st) (simp_all add: registry_adopt_file)
  then show "registry_ok m \<Longrightarrow> registry_ok (fst (Adopt w files m))" by (simp add: Adopt_def)
qed

lemma sess_inv_iff:
  "sess_inv ss \<longleftrightarrow> distinct (map fst ss) \<and> (\<forall>i s. (i, s) \<in> set ss \<longrightarrow> s_ID s = i \<and> term_ok (s_term s) \<and> ring_ok (s_scrollback s))"
  by (auto simp: sess_inv_def)

lemma registry_pollCWDs:
  assumes "registry_ok m" shows "registry_ok (pollCWDs w m)"
proof -
  have k: "map fst (map (\<lambda>(i, s). (i, poll_cwd w s)) ss) = map fst ss" for ss
    by (induction ss) auto
  have p: "s_ID (poll_cwd w s) = s_ID s" "s_term (poll_cwd w s) = s_term s" "s_scrollback (poll_cwd w s) = s_scrollback s" for s
    by (simp_all add: poll_cwd_def split: option.splits)
  have "sess_inv (g_sessions m) \<Longrightarrow> sess_inv (map (\<lambda>(i, s). (i, poll_cwd w s)) (g_sessions m))"
    unfolding sess_inv_iff k by (auto simp: p)
  with assms show ?thesis by (simp add: registry_ok_def pollCWDs_def)
qed

lemma registry_kills: "registry_ok m \<Longrightarrow> registry_ok (fold (\<lambda>i m. fst (KillSession w i m)) ids m)"
  by (induction ids arbitrary: m) (simp_all add: registry_KillSession)

lemma registry_save: "registry_ok m \<Longrightarrow> wp (SaveState w m) registry_ok"
  by (drule registry_SaveState) (auto elim: wp_mono)

section \<open>The registry as a machine\<close>

datatype mgr_op = CreateTabOp string string string | UpdateTabOp string string "layout option"
  | DeleteTabOp string bool | SplitOp string string string string | CloseOp string string string
  | ReplaceOp string "string list" | DeleteSessionOp string | KillOp string | ReviveOp string
  | RegisterOp string nat string | UnregisterOp string tabClient | ResumeOp string string nat
  | DisconnectOp string | AdoptOp "string list" | PollOp | SaveOp | StopOp

primrec mgr_step :: "world \<Rightarrow> mgr_op \<Rightarrow> SessionManager \<Rightarrow> SessionManager option" where
  "mgr_step w (CreateTabOp name sid tid) m = map_option fst (CreateTab w name sid tid m)"
| "mgr_step w (UpdateTabOp i name lay) m = Some (fst (UpdateTab w i name lay m))"
| "mgr_step w (DeleteTabOp i k) m = Some (fst (DeleteTab w i k m))"
| "mgr_step w (SplitOp tab sid dir new) m = map_option fst (SplitPane w tab sid dir new m)"
| "mgr_step w (CloseOp tab sid new) m = map_option fst (ClosePane w tab sid new m)"
| "mgr_step w (ReplaceOp tab ids) m = map_option fst (ReplaceTabSessions w tab ids m)"
| "mgr_step w (DeleteSessionOp i) m = Some (fst (DeleteSession w i m))"
| "mgr_step w (KillOp i) m = Some (fst (KillSession w i m))"
| "mgr_step w (ReviveOp i) m = map_option fst (ReviveSession w i m)"
| "mgr_step w (RegisterOp tab conn token) m =
     Some (RegisterTabClient tab \<lparr>tc_conn = conn, tc_tabID = tab, tc_token = token\<rparr> m)"
| "mgr_step w (UnregisterOp tab c) m = Some (UnregisterTabClient tab c m)"
| "mgr_step w (ResumeOp tab token conn) m = Some (fst (ResumeTabClient tab token conn m))"
| "mgr_step w (DisconnectOp tab) m = Some (DisconnectTabOwner tab m)"
| "mgr_step w (AdoptOp files) m = Some (fst (Adopt w files m))"
| "mgr_step w PollOp m = Some (pollCWDs w m)"
| "mgr_step w SaveOp m = SaveState w m"
| "mgr_step w StopOp m = Stop w m"

text \<open>The identifiers an operation generates are new.\<close>

fun mgr_guard :: "mgr_op \<Rightarrow> SessionManager \<Rightarrow> bool" where
  "mgr_guard (CreateTabOp name sid tid) m = (fresh m sid \<and> fresh m tid \<and> sid \<noteq> tid)"
| "mgr_guard (SplitOp tab sid dir new) m = fresh m new"
| "mgr_guard (CloseOp tab sid new) m = fresh m new"
| "mgr_guard (ReplaceOp tab ids) m = enough_fresh m tab ids"
| "mgr_guard _ m = True"

lemma wp_map_fst: "wp f (\<lambda>(m', r). Q m') \<Longrightarrow> wp (map_option fst f) Q"
  by (cases f) auto

lemma mgr_step_safe:
  assumes "registry_ok m" "mgr_guard e m"
  shows "wp (mgr_step w e m) registry_ok"
proof (cases e)
  case (CreateTabOp name sid tid)
  then show ?thesis using assms by (simp add: wp_map_fst registry_CreateTab)
next
  case (SplitOp tab sid dir new)
  then have "wp (SplitPane w tab sid dir new m) (\<lambda>(m', r). registry_ok m')"
    using assms SplitPane_spec [of m new w tab sid dir] by (auto elim: wp_mono)
  then show ?thesis using SplitOp by (simp add: wp_map_fst)
next
  case (CloseOp tab sid new)
  then have "wp (ClosePane w tab sid new m) (\<lambda>(m', r). registry_ok m')"
    using assms ClosePane_spec [of m new w tab sid] by (auto elim: wp_mono)
  then show ?thesis using CloseOp by (simp add: wp_map_fst)
next
  case (ReplaceOp tab ids)
  then show ?thesis using assms by (simp add: wp_map_fst registry_ReplaceTabSessions)
next
  case (ReviveOp i)
  then show ?thesis using assms by (simp add: wp_map_fst registry_ReviveSession)
next
  case StopOp
  then show ?thesis using assms by (simp add: Stop_def registry_save registry_kills)
qed (use assms in \<open>simp_all add: registry_UpdateTab registry_DeleteTab registry_DeleteSession registry_KillSession
  registry_RegisterTabClient registry_UnregisterTabClient registry_ResumeTabClient registry_DisconnectTabOwner
  registry_Adopt registry_pollCWDs registry_save\<close>)

interpretation registry: guarded_machine registry_ok mgr_guard "mgr_step w" for w
  by unfold_locales (rule mgr_step_safe)

end
