(* ===== verification/Stored.thy ===== *)
theory Stored
  imports Typed Sgr Replay Manager_Safety
begin

text \<open>
  What the cells of an emulator can hold after any input: only styles SGR can set and a snapshot can
  write, and, as long as no write starts inside a cut rune, only text without control bytes. A write that
  completes a cut sequence breaks the second (\<open>parser.go\<close>, \<open>Write\<close>).
\<close>

section \<open>Styles\<close>

lemma extendedColor_ok: "after (extendedColor p i) (\<lambda>(c, used). color_ok c)"
  unfolding extendedColor_def Let_def by (intro after_free after_ifI) simp_all

lemma sgr_param_ok: "style_ok st \<Longrightarrow> after (sgr_param p i v st) (\<lambda>(st', used). style_ok st')"
proof -
  assume st: "style_ok st"
  have ext: "after (extendedColor p i \<bind> (\<lambda>(c, used). if used > 0 then Some (f c, used) else Some (st, 0))) (\<lambda>(st', used). style_ok st')"
    if "\<And>c. color_ok c \<Longrightarrow> style_ok (f c)" for f
    using st that by (intro after_bindI [OF extendedColor_ok]) auto
  show ?thesis
    unfolding sgr_param_def
    by (intro after_ifI ext after_free) (simp_all add: st set_attr_ok clear_attr_ok attr_defs)
qed

lemma sgr_loop_ok: "style_ok st \<Longrightarrow> after (sgr_loop p i st) style_ok"
proof (induction p i st rule: sgr_loop.induct)
  case (1 p i st)
  show ?case
  proof (cases "i < nParams p")
    case True
    have step: "after (sgr_param p i v st \<bind> (\<lambda>(st', used). sgr_loop p (i + max 0 used + 1) st')) style_ok"
      if "gidx (isSub p) i = Some False" "rawParam p i 0 = Some v" for v
      using "1.IH"(2) [OF True that(1) _ that(2)] by (intro after_bind_valueI [OF sgr_param_ok [OF "1.prems"]]) auto
    show ?thesis
      using "1.IH"(1) [OF True] "1.prems" step True
      by (subst sgr_loop.simps) (auto intro!: after_bind_valueI [OF after_top])
  qed (use "1.prems" in \<open>simp add: sgr_loop.simps\<close>)
qed

lemma eraseStyle_ok: "style_ok st \<Longrightarrow> style_ok (eraseStyle st)"
  by (simp add: eraseStyle_def style_ok_def zeroStyle_def)

interpretation styles: stored_types style_ok "\<lambda>_. True" "\<lambda>_. True"
  by unfold_locales (use sgr_loop_ok eraseStyle_ok in \<open>auto simp: after_def\<close>)

section \<open>Text\<close>

definition text_clean :: "bytes \<Rightarrow> bool" where
  "text_clean bs \<longleftrightarrow> list_all (\<lambda>b. 0x20 \<le> b \<and> b \<noteq> 0x7f) bs"

definition rune_clean :: "rune \<Rightarrow> bool" where
  "rune_clean r \<longleftrightarrow> 0x20 \<le> r \<and> r \<noteq> 0x7f"

lemma byte_clean: "0x20 \<le> k \<Longrightarrow> k < 256 \<Longrightarrow> k \<noteq> 0x7f \<Longrightarrow> 0x20 \<le> (word_of_int k :: byte) \<and> (word_of_int k :: byte) \<noteq> 0x7f"
  by (auto simp: word_le_def uint_word_of_int_byte word_uint_eq_iff)

lemma rune_bytes_clean:
  assumes "rune_clean r"
  shows "text_clean (rune_bytes r)"
proof -
  have cont: "0x20 \<le> (word_of_int (128 + k mod 64) :: byte) \<and> (word_of_int (128 + k mod 64) :: byte) \<noteq> 0x7f" for k
    using mod64 [of k] by (intro byte_clean) linarith+
  have lead: "0x20 \<le> (word_of_int (n + a) :: byte) \<and> (word_of_int (n + a) :: byte) \<noteq> 0x7f"
    if "0 \<le> a" "192 \<le> n" "n + a < 256" for n a :: int
    using that by (intro byte_clean) linarith+
  have r: "0x20 \<le> r" "r \<noteq> 0x7f" using assms by (simp_all add: rune_clean_def)
  consider "r \<le> 0x7F" | "0x7F < r" "r \<le> 0x7FF" | "0x7FF < r" "\<not> valid_rune r" | "0x7FF < r" "r \<le> 0xFFFF" "valid_rune r"
    | "0xFFFF < r" "valid_rune r" by linarith
  then show ?thesis
  proof cases
    case 1
    then show ?thesis using r byte_clean [of r] by (simp add: rune_bytes_def text_clean_def)
  next
    case 2
    moreover have "r div 64 < 32" using 2 by linarith
    ultimately show ?thesis using r cont [of r] lead [of "r div 64" 192]
      by (simp add: rune_bytes_def text_clean_def del: of_int_add of_int_numeral)
  next
    case 3
    then show ?thesis by (simp add: rune_bytes_def text_clean_def)
  next
    case 4
    moreover have "r div 4096 < 16" using 4 by linarith
    ultimately show ?thesis using r cont [of r] cont [of "r div 64"] lead [of "r div 4096" 224]
      by (simp add: rune_bytes_def text_clean_def del: of_int_add of_int_numeral)
  next
    case 5
    then have "r \<le> 0x10FFFF" by (simp add: valid_rune_def)
    then have "r div 262144 < 5" by linarith
    with 5 show ?thesis using r cont [of r] cont [of "r div 64"] cont [of "r div 4096"] lead [of "r div 262144" 240]
      by (simp add: rune_bytes_def text_clean_def del: of_int_add of_int_numeral)
  qed
qed

lemma lead_bits:
  "192 \<le> b \<Longrightarrow> b < 224 \<Longrightarrow> b mod 32 = b - 192" "224 \<le> b \<Longrightarrow> b < 240 \<Longrightarrow> b mod 16 = b - 224"
  "240 \<le> b \<Longrightarrow> b < 248 \<Longrightarrow> b mod 8 = b - 240" "128 \<le> b \<Longrightarrow> b < 192 \<Longrightarrow> b mod 64 = b - 128"
  for b :: int
  by presburger+

text \<open>A sequence that starts with a byte from 80 on decodes to a character outside ASCII, or to U+FFFD.\<close>

lemma decoded_high:
  assumes "\<not> x < 0x80"
  shows "0x80 \<le> fst (DecodeRune (x # xs))"
proof -
  have b: "128 \<le> uint x" "uint x < 256" using assms by (simp_all add: word_less_def not_less)
  have nn: "0 \<le> uint y mod 64" for y :: byte by simp
  show ?thesis
  proof (cases "utf8_lead (uint x)")
    case None
    then show ?thesis using b by (simp add: DecodeRune_def RuneError_def)
  next
    case (Some l)
    then obtain sz lo hi where l: "utf8_lead (uint x) = Some (sz, lo, hi)" by (cases l) auto
    show ?thesis
    proof (cases "length (x # xs) < sz \<or> uint ((x # xs) ! 1) < lo \<or> hi < uint ((x # xs) ! 1)")
      case True
      then show ?thesis using b l by (auto simp: DecodeRune_def RuneError_def Let_def)
    next
      case False
      let ?b1 = "uint ((x # xs) ! 1)"
      have c: "lo \<le> ?b1" "?b1 \<le> hi" using False by auto
      consider "sz = 2" "2 \<le> uint x mod 32" | "sz = 3" "1 \<le> uint x mod 16 \<or> 32 \<le> ?b1 mod 64"
        | "sz = 4" "1 \<le> uint x mod 8 \<or> 16 \<le> ?b1 mod 64"
        using l c lead_bits [of "uint x"] lead_bits(4) [of ?b1] by (auto simp: utf8_lead_def split: if_splits)
      then show ?thesis
      proof cases
        case 1
        then show ?thesis using False b l nn [of "(x # xs) ! 1"] by (auto simp: DecodeRune_def RuneError_def Let_def)
      next
        case 2
        have "0 \<le> uint x mod 16" by simp
        with 2 show ?thesis using False b l nn [of "(x # xs) ! 1"] nn [of "(x # xs) ! 2"]
          by (simp add: DecodeRune_def RuneError_def Let_def) linarith?
      next
        case 3
        have "0 \<le> uint x mod 8" by simp
        with 3 show ?thesis using False b l nn [of "(x # xs) ! 1"] nn [of "(x # xs) ! 2"] nn [of "(x # xs) ! 3"]
          by (simp add: DecodeRune_def RuneError_def Let_def) linarith?
      qed
    qed
  qed
qed

lemma graphics_high: "decGraphics r = Some g \<Longrightarrow> 0x80 \<le> g"
  by (auto simp: decGraphics_def split: if_splits)

interpretation clean: stored_types "\<lambda>_. True" text_clean rune_clean
proof unfold_locales
  show "rune_clean (translate cs r)" if "rune_clean r" for cs r
    using that graphics_high [of r] by (auto simp: translate_def rune_clean_def split: option.split) fastforce?
  show "rune_clean (uint x) \<and> text_clean [x]" if "0x20 \<le> x" "x \<noteq> 0x7f" for x :: byte
    using that by (auto simp: rune_clean_def text_clean_def word_le_def word_uint_eq_iff)
  show "rune_clean (fst (DecodeRune (x # xs)))" if "\<not> x < 0x80" for x xs
    using decoded_high [OF that, of xs] by (simp add: rune_clean_def)
qed (simp_all add: rune_bytes_clean, simp_all add: text_clean_def list_all_dropI)

section \<open>Runs\<close>

definition vt_styled :: "Terminal \<Rightarrow> bool" where
  "vt_styled = term_typed style_ok (\<lambda>_. True) (\<lambda>_. True)"

definition vt_clean :: "Terminal \<Rightarrow> bool" where
  "vt_clean = term_typed (\<lambda>_. True) text_clean rune_clean"

text \<open>An event that does not start inside a cut rune.\<close>

definition vt_whole :: "vt_event \<Rightarrow> Terminal \<Rightarrow> bool" where
  "vt_whole e t \<longleftrightarrow> vt_admissible e \<and> (case e of WriteEv bs \<Rightarrow> nPart (t_p t) \<le> 0 | _ \<Rightarrow> True)"

lemma wp_after: "wp m P \<Longrightarrow> after m Q \<Longrightarrow> wp m (\<lambda>x. P x \<and> Q x)"
  by (cases m) auto

lemma vt_step_styled: "vt_styled t \<Longrightarrow> after (vt_step e t) vt_styled"
  unfolding vt_styled_def
  by (cases e) (simp_all add: styles.Write_typed styles.Resize_typed styles.SetMaxScrollback_typed)

lemma vt_whole_admissible: "vt_whole e t \<Longrightarrow> vt_admissible e"
  by (simp add: vt_whole_def)

lemma vt_step_clean: "vt_clean t \<Longrightarrow> vt_whole e t \<Longrightarrow> after (vt_step e t) vt_clean"
  unfolding vt_clean_def vt_whole_def
  by (cases e) (simp_all add: clean.Write_whole_typed clean.Resize_typed clean.SetMaxScrollback_typed)

interpretation styled_run: safe_machine "\<lambda>t. vt_wf t \<and> vt_styled t" vt_admissible vt_step
  by unfold_locales (auto intro: wp_after vt_step_safe vt_step_styled)

interpretation clean_run: guarded_machine "\<lambda>t. vt_wf t \<and> vt_clean t" vt_whole vt_step
  by unfold_locales (auto intro!: wp_after vt_step_safe vt_step_clean dest: vt_whole_admissible)



text \<open>C5: as long as no write starts inside a cut rune, no cell, link or title of either screen or of the
  scrollback ever holds a control byte, whatever the shell sends: the text a snapshot copies cannot carry an
  escape sequence of the shell's.\<close>

theorem stored_text_has_no_controls:
  assumes "2 \<le> w" "allowed vt_whole vt_step es (New w h)"
  shows "\<exists>t. run vt_step es (New w h) = Some t \<and> term_typed (\<lambda>_. True) text_clean rune_clean t"
  using clean_run.allowed_run [of "New w h" es] assms vt_New [of w h] clean.New_typed [of w h]
  by (auto simp: vt_clean_def)

theorem stored_text_has_no_controls_witness:
  "\<exists>t. run vt_step [WriteEv (ascii ''a'' @ esc ''[31m'' @ ascii ''b''), WriteEv (esc ''c'')] (New 4 2) = Some t
     \<and> term_typed (\<lambda>_. True) text_clean rune_clean t"
  by (rule stored_text_has_no_controls) (simp, code_simp)

section \<open>A cut sequence\<close>

definition cut_input :: "vt_event list" where
  "cut_input = [WriteEv (ascii ''hello'' @ [0xe2]), WriteEv ([0x1b] @ ascii ''c!'')]"


end
