(* ===== verification/Fan_Out.thy ===== *)
theory Fan_Out
  imports Session_Safety
begin

text \<open>
  What every viewer of a session is sent, whatever the order in which output arrives, viewers are
  created, join and leave, their pumps take frames, and the size changes. A step is one critical
  section of \<open>session.go\<close>: the section of \<open>readPump\<close> under \<open>outMu\<close>, \<open>AttachClient\<close>, \<open>DetachClient\<close>,
  \<open>Resize\<close>, \<open>queueText\<close>, \<open>takePending\<close>. The ghost fields remember the whole output, the frames each
  pump took, and for a viewer that joined, how much output there had been and what the terminal
  looked like.
\<close>

record fanout =
  f_sess :: Session
  f_heap :: clients_heap
  f_known :: "nat set"                            \<comment> \<open>the pointers allocated\<close>
  f_taken :: "nat \<Rightarrow> outFrame list"
  f_history :: bytes
  f_joined :: "nat \<Rightarrow> (nat \<times> Terminal) option"

inductive fan_step :: "fanout \<Rightarrow> fanout \<Rightarrow> bool" where
  emits: "record_output t d (f_sess f, f_heap f) = Some (s', h') \<Longrightarrow>
    fan_step f (f\<lparr>f_sess := s', f_heap := h', f_history := f_history f @ d\<rparr>)"
| connect: "p \<notin> f_known f \<Longrightarrow>
    fan_step f (f\<lparr>f_known := {p} \<union> f_known f, f_heap := (f_heap f)(p := newWSClient tab token)\<rparr>)"
| join: "p \<in> f_known f \<Longrightarrow> f_joined f p = None \<Longrightarrow>
    AttachClient p True (f_sess f, f_heap f) = Some (s', h', r) \<Longrightarrow>
    fan_step f (f\<lparr>f_sess := s', f_heap := h',
       f_joined := (f_joined f)(p := Some (length (f_history f), s_term (f_sess f)))\<rparr>)"
| leave: "fan_step f (f\<lparr>f_sess := DetachClient p (f_sess f)\<rparr>)"
| resize: "c \<noteq> 1 \<Longrightarrow> Resize_session c r (f_sess f) = Some (s', b) \<Longrightarrow> fan_step f (f\<lparr>f_sess := s'\<rparr>)"
| nudge: "fan_step f (f\<lparr>f_sess := NudgeRedraw (f_sess f)\<rparr>)"
| input: "fan_step f (f\<lparr>f_sess := WriteInput t d (f_sess f)\<rparr>)"
| control: "p \<in> f_known f \<Longrightarrow> fan_step f (f\<lparr>f_heap := (f_heap f)(p := queueText m (f_heap f p))\<rparr>)"
| take: "p \<in> f_known f \<Longrightarrow> takePending (f_heap f p) = (fs, ov, c) \<Longrightarrow>
    fan_step f (f\<lparr>f_heap := (f_heap f)(p := c), f_taken := (f_taken f)(p := f_taken f p @ fs)\<rparr>)"

inductive_cases fan_stepE: "fan_step f f'"

definition fan_init :: "Session \<Rightarrow> clients_heap \<Rightarrow> fanout" where
  "fan_init s h = \<lparr>f_sess = s\<lparr>s_clients := []\<rparr>, f_heap = h, f_known = {}, f_taken = (\<lambda>p. []), f_history = [],
     f_joined = (\<lambda>p. None)\<rparr>"

inductive fan_reachable :: "Session \<Rightarrow> clients_heap \<Rightarrow> fanout \<Rightarrow> bool" for s0 h0 where
  start: "fan_reachable s0 h0 (fan_init s0 h0)"
| step: "fan_reachable s0 h0 f \<Longrightarrow> fan_step f f' \<Longrightarrow> fan_reachable s0 h0 f'"

text \<open>All frames a viewer was or will be sent so far.\<close>

definition stream :: "fanout \<Rightarrow> nat \<Rightarrow> outFrame list" where
  "stream f p = f_taken f p @ cout (f_heap f p)"

text \<open>Control messages, the picture at the time of joining, then the output from there on.\<close>

definition stream_from :: "outFrame list \<Rightarrow> Terminal \<Rightarrow> bytes \<Rightarrow> bool" where
  "stream_from fs t out \<longleftrightarrow> (\<exists>d pre post. Snapshot t = Some d \<and> binary_bytes pre = []
     \<and> fs = pre @ \<lparr>ftext = True, fdata = scrollback_msg d\<rparr> # post \<and> binary_bytes post = out)"

text \<open>
  The invariant: a viewer that has not joined got no output; one that joined got its picture and
  then a prefix of the output since, all of it while it is attached and has not overflowed.
\<close>

definition viewer_ok :: "fanout \<Rightarrow> nat \<Rightarrow> bool" where
  "viewer_ok f p \<longleftrightarrow> (case f_joined f p of
     None \<Rightarrow> p \<notin> set (s_clients (f_sess f)) \<and> \<not> coverflow (f_heap f p) \<and> binary_bytes (stream f p) = []
   | Some (n, t) \<Rightarrow> n \<le> length (f_history f)
       \<and> (\<exists>out rest. stream_from (stream f p) t out \<and> drop n (f_history f) = out @ rest
            \<and> (p \<in> set (s_clients (f_sess f)) \<and> \<not> coverflow (f_heap f p) \<longrightarrow> rest = [])))"

definition fan_ok :: "fanout \<Rightarrow> bool" where
  "fan_ok f \<longleftrightarrow> session_ok (f_sess f) \<and> distinct (s_clients (f_sess f)) \<and> set (s_clients (f_sess f)) \<subseteq> f_known f
     \<and> (\<forall>p. p \<in> f_known f \<longrightarrow> viewer_ok f p) \<and> (\<forall>p. p \<notin> f_known f \<longrightarrow> f_joined f p = None \<and> f_taken f p = [])"

text \<open>Queueing output touches at most the last pending frame, and only a binary one.\<close>

lemma queueBinary_frames:
  assumes "\<not> coverflow c"
  shows "\<exists>ini new. cout c = ini @ new \<and> (new = [] \<or> (\<exists>f. new = [f] \<and> \<not> ftext f))
    \<and> (\<exists>new'. cout (queueBinary d c) = ini @ new' \<and> binary_bytes new' = binary_bytes new @ d)"
proof (cases "cout c" rule: rev_cases)
  case Nil
  then show ?thesis using assms by (auto simp: queueBinary_def Let_def signal_def)
next
  case (snoc ini f)
  show ?thesis
  proof (cases "ftext f")
    case True
    with snoc assms show ?thesis
      by (intro exI [of _ "cout c"] exI [of _ "[]"]) (auto simp: queueBinary_def Let_def signal_def)
  next
    case False
    with snoc assms show ?thesis
      by (intro exI [of _ ini] exI [of _ "[f]"]) (auto simp: queueBinary_def Let_def signal_def)
  qed
qed

lemma stream_from_append: "stream_from fs t out \<Longrightarrow> stream_from (fs @ gs) t (out @ binary_bytes gs)"
  unfolding stream_from_def by (metis append.assoc append_Cons binary_bytes_simps(2))

lemma stream_from_output:
  assumes "stream_from (fs @ cout c) t out" "\<not> coverflow c"
  shows "stream_from (fs @ cout (queueBinary d c)) t (out @ d)"
proof -
  from assms(1) obtain sn pre post where
    s: "Snapshot t = Some sn" "binary_bytes pre = []" "binary_bytes post = out"
    and eq: "fs @ cout c = pre @ \<lparr>ftext = True, fdata = scrollback_msg sn\<rparr> # post"
    by (auto simp: stream_from_def)
  let ?m = "\<lparr>ftext = True, fdata = scrollback_msg sn\<rparr>"
  from queueBinary_frames [OF assms(2), of d] obtain ini new new' where
    q: "cout c = ini @ new" "new = [] \<or> (\<exists>f. new = [f] \<and> \<not> ftext f)"
      "cout (queueBinary d c) = ini @ new'" "binary_bytes new' = binary_bytes new @ d" by blast
  have "\<exists>p0. fs @ ini = pre @ ?m # p0 \<and> post = p0 @ new"
  proof (cases "new = []")
    case True
    with eq q(1) show ?thesis by simp
  next
    case False
    with q(2) obtain f where f: "new = [f]" "\<not> ftext f" by blast
    with eq q(1) have e: "(fs @ ini) @ [f] = pre @ ?m # post" by simp
    then have "post \<noteq> []" using f(2) by (auto simp: append_eq_Cons_conv Cons_eq_append_conv append_eq_append_conv2)
    then obtain p0 g where "post = p0 @ [g]" by (cases post rule: rev_cases) auto
    with e f(1) show ?thesis by (metis append.assoc append_Cons append1_eq_conv)
  qed
  then obtain p0 where p0: "fs @ ini = pre @ ?m # p0" "post = p0 @ new" by blast
  then have "fs @ cout (queueBinary d c) = pre @ ?m # (p0 @ new')"
    using q(3) by (metis append.assoc append_Cons)
  with s p0(2) q(4) show ?thesis by (auto simp: stream_from_def)
qed

lemma stream_from_text:
  assumes "stream_from (fs @ cout c) t out"
  shows "stream_from (fs @ cout (queueText m c)) t out"
  using assms stream_from_append [OF assms, of "[\<lparr>ftext = True, fdata = m\<rparr>]"]
  by (cases "coverflow c") (simp_all add: queueText_def signal_def)

lemma binary_stream_text: "binary_bytes (fs @ cout (queueText m c)) = binary_bytes (fs @ cout c)"
  by (simp add: queueText_def signal_def)

lemma fan_init_ok: "session_ok s \<Longrightarrow> fan_ok (fan_init s h)"
  by (simp add: fan_ok_def fan_init_def)

text \<open>A step that leaves the ghosts, the attached viewers, the queues and the output alone.\<close>

lemma viewer_ok_frame:
  assumes "viewer_ok f p" "f_joined f' = f_joined f" "f_history f' = f_history f" "stream f' p = stream f p"
    "coverflow (f_heap f' p) = coverflow (f_heap f p)" "set (s_clients (f_sess f')) \<subseteq> set (s_clients (f_sess f))"
  shows "viewer_ok f' p"
  using assms by (fastforce simp: viewer_ok_def split: option.splits)

lemma viewer_okI:
  assumes "f_joined f p = Some (n, t)" "n \<le> length (f_history f)" "stream_from (stream f p) t out"
    "drop n (f_history f) = out @ rest" "p \<in> set (s_clients (f_sess f)) \<and> \<not> coverflow (f_heap f p) \<longrightarrow> rest = []"
  shows "viewer_ok f p"
  using assms by (auto simp: viewer_ok_def)

lemma viewer_okE:
  assumes "viewer_ok f p" "f_joined f p = Some (n, t)"
  obtains out rest where "n \<le> length (f_history f)" "stream_from (stream f p) t out" "drop n (f_history f) = out @ rest"
    "p \<in> set (s_clients (f_sess f)) \<and> \<not> coverflow (f_heap f p) \<longrightarrow> rest = []"
  using assms by (auto simp: viewer_ok_def)

lemma viewer_ok_output:
  assumes "viewer_ok f p" "distinct (s_clients (f_sess f))" "s_clients s' = s_clients (f_sess f)"
  shows "viewer_ok (f\<lparr>f_sess := s', f_heap := Broadcast d (s_clients (f_sess f)) (f_heap f), f_history := f_history f @ d\<rparr>) p"
    (is "viewer_ok ?f p")
proof (cases "f_joined f p")
  case None
  with assms show ?thesis by (simp add: viewer_ok_def stream_def Broadcast_other)
next
  case (Some nt)
  obtain n t where nt: "f_joined f p = Some (n, t)" using Some by (cases nt) simp
  from viewer_okE [OF assms(1) nt] obtain out rest where n: "n \<le> length (f_history f)"
    and st: "stream_from (f_taken f p @ cout (f_heap f p)) t out" "drop n (f_history f) = out @ rest"
      "p \<in> set (s_clients (f_sess f)) \<and> \<not> coverflow (f_heap f p) \<longrightarrow> rest = []"
    unfolding stream_def by blast
  show ?thesis
  proof (cases "p \<in> set (s_clients (f_sess f)) \<and> \<not> coverflow (f_heap f p)")
    case True
    show ?thesis
    proof (rule viewer_okI [of _ _ n t "out @ d" "[]"])
      show "stream_from (stream ?f p) t (out @ d)"
        using stream_from_output [OF st(1)] True assms(2) by (simp add: stream_def Broadcast_mem)
    qed (use True n nt st in simp_all)
  next
    case False
    then have b: "Broadcast d (s_clients (f_sess f)) (f_heap f) p = f_heap f p"
      using assms(2) by (cases "p \<in> set (s_clients (f_sess f))") (simp_all add: Broadcast_mem Broadcast_other queue_overflow)
    show ?thesis
      by (rule viewer_okI [of _ _ n t out "rest @ d"]) (use False b n nt st assms(3) in \<open>auto simp: stream_def\<close>)
  qed
qed

lemma viewer_ok_join:
  assumes "viewer_ok f p" "f_joined f p = None" "Snapshot (s_term (f_sess f)) = Some d"
  shows "viewer_ok (f\<lparr>f_sess := (f_sess f)\<lparr>s_clients := s_clients (f_sess f) @ [p]\<rparr>,
      f_heap := (f_heap f)(p := queueText (scrollback_msg d) (f_heap f p)),
      f_joined := (f_joined f)(p \<mapsto> (length (f_history f), s_term (f_sess f)))\<rparr>) p"
proof -
  have b: "binary_bytes (f_taken f p @ cout (f_heap f p)) = []" "\<not> coverflow (f_heap f p)"
    using assms(1,2) by (auto simp: viewer_ok_def stream_def)
  have "stream_from (f_taken f p @ cout (queueText (scrollback_msg d) (f_heap f p))) (s_term (f_sess f)) []"
    unfolding stream_from_def using assms(3) b
    by (intro exI [of _ d] exI [of _ "f_taken f p @ cout (f_heap f p)"] exI [of _ "[]"]) (simp add: queueText_def signal_def)
  then show ?thesis by (intro viewer_okI [where out = "[]" and rest = "[]"]) (auto simp: stream_def)
qed

lemma viewer_ok_control:
  assumes "viewer_ok f p"
  shows "viewer_ok (f\<lparr>f_heap := (f_heap f)(p := queueText m (f_heap f p))\<rparr>) p"
proof (cases "f_joined f p")
  case None
  with assms binary_stream_text [of "f_taken f p" m "f_heap f p"] show ?thesis
    by (simp add: viewer_ok_def stream_def queueText_def signal_def)
next
  case (Some nt)
  obtain n t where nt: "f_joined f p = Some (n, t)" using Some by (cases nt) simp
  from viewer_okE [OF assms nt] obtain out rest where o: "n \<le> length (f_history f)" "stream_from (stream f p) t out"
    "drop n (f_history f) = out @ rest" "p \<in> set (s_clients (f_sess f)) \<and> \<not> coverflow (f_heap f p) \<longrightarrow> rest = []" by blast
  have "coverflow (queueText m c) = coverflow c" for c by (simp add: queueText_def signal_def)
  with o nt stream_from_text show ?thesis
    by (intro viewer_okI [of _ _ n t out rest]) (auto simp: stream_def)
qed

section \<open>Every step keeps the invariant\<close>

text \<open>What an invariant of all viewers needs after a step that concerns the pointer \<open>p\<close>.\<close>

lemma fan_okI:
  assumes "fan_ok f" "session_ok (f_sess f')" "distinct (s_clients (f_sess f'))" "set (s_clients (f_sess f')) \<subseteq> f_known f'"
    "f_known f' = {p} \<union> f_known f" "viewer_ok f' p" "\<And>q. q \<noteq> p \<Longrightarrow> viewer_ok f q \<Longrightarrow> viewer_ok f' q"
    "\<And>q. q \<noteq> p \<Longrightarrow> f_joined f' q = f_joined f q \<and> f_taken f' q = f_taken f q"
  shows "fan_ok f'"
proof -
  have "viewer_ok f' q" if "q \<in> f_known f'" for q
    using assms that by (cases "q = p") (auto simp: fan_ok_def)
  with assms show ?thesis by (auto simp: fan_ok_def)
qed

lemma fan_ok_session:
  assumes "fan_ok f" "session_ok s'" "s_clients s' = filter Q (s_clients (f_sess f))"
  shows "fan_ok (f\<lparr>f_sess := s'\<rparr>)"
proof -
  have "viewer_ok (f\<lparr>f_sess := s'\<rparr>) p" if "viewer_ok f p" for p
    using that by (rule viewer_ok_frame) (auto simp: stream_def assms(3))
  with assms show ?thesis by (auto simp: fan_ok_def)
qed

lemma fan_ok_emits:
  assumes "fan_ok f" "record_output t d (f_sess f, f_heap f) = Some (s', h')"
  shows "fan_ok (f\<lparr>f_sess := s', f_heap := h', f_history := f_history f @ d\<rparr>)"
proof -
  have so: "session_ok (f_sess f)" and di: "distinct (s_clients (f_sess f))" using assms(1) by (auto simp: fan_ok_def)
  have o: "session_ok s'" "h' = Broadcast d (s_clients (f_sess f)) (f_heap f)"
    using record_output_ok [OF so, of t d "f_heap f"] assms(2) by auto
  have c: "s_clients s' = s_clients (f_sess f)"
    using assms(2) by (auto simp: record_output_def bind_eq_Some_conv)
  from viewer_ok_output [OF _ di c, of _ d] assms(1) o c show ?thesis by (simp add: fan_ok_def)
qed

lemma fan_ok_connect:
  assumes "fan_ok f" "p \<notin> f_known f"
  shows "fan_ok (f\<lparr>f_known := {p} \<union> f_known f, f_heap := (f_heap f)(p := newWSClient tab token)\<rparr>)"
proof (rule fan_okI [OF assms(1), of _ p])
  show "viewer_ok (f\<lparr>f_known := {p} \<union> f_known f, f_heap := (f_heap f)(p := newWSClient tab token)\<rparr>) p"
    using assms by (auto simp: fan_ok_def viewer_ok_def stream_def newWSClient_def)
  show "viewer_ok (f\<lparr>f_known := {p} \<union> f_known f, f_heap := (f_heap f)(p := newWSClient tab token)\<rparr>) q"
    if "q \<noteq> p" "viewer_ok f q" for q
    using that(2) by (rule viewer_ok_frame) (use that(1) in \<open>auto simp: stream_def\<close>)
qed (use assms in \<open>auto simp: fan_ok_def\<close>)

lemma fan_ok_join:
  assumes "fan_ok f" "p \<in> f_known f" "f_joined f p = None"
    and "AttachClient p True (f_sess f, f_heap f) = Some (s', h', r)"
  shows "fan_ok (f\<lparr>f_sess := s', f_heap := h', f_joined := (f_joined f)(p \<mapsto> (length (f_history f), s_term (f_sess f)))\<rparr>)"
    (is "fan_ok ?f")
proof (rule fan_okI [OF assms(1), of _ p])
  have so: "session_ok (f_sess f)" using assms(1) by (simp add: fan_ok_def)
  from AttachClient_ok(1) [OF so, of p "f_heap f"] assms(4) obtain d where
    d: "Snapshot (s_term (f_sess f)) = Some d" "s' = (f_sess f)\<lparr>s_clients := s_clients (f_sess f) @ [p]\<rparr>"
      "h' = (f_heap f)(p := queueText (scrollback_msg d) (f_heap f p))" by auto
  have vp: "viewer_ok f p" using assms(1,2) by (simp add: fan_ok_def)
  then have np: "p \<notin> set (s_clients (f_sess f))" using assms(3) by (simp add: viewer_ok_def)
  show "viewer_ok ?f p" using viewer_ok_join [OF vp assms(3) d(1)] d by simp
  show "viewer_ok ?f q" if "q \<noteq> p" "viewer_ok f q" for q
    using that d by (simp add: viewer_ok_def stream_def split: option.splits prod.splits)
  show "session_ok (f_sess ?f)" "distinct (s_clients (f_sess ?f))" "set (s_clients (f_sess ?f)) \<subseteq> f_known ?f"
    using assms(1,2) d np by (auto simp: fan_ok_def)
qed (use assms(2) in auto)

lemma fan_ok_control:
  assumes "fan_ok f" "p \<in> f_known f"
  shows "fan_ok (f\<lparr>f_heap := (f_heap f)(p := queueText m (f_heap f p))\<rparr>)"
proof (rule fan_okI [OF assms(1), of _ p])
  show "viewer_ok (f\<lparr>f_heap := (f_heap f)(p := queueText m (f_heap f p))\<rparr>) p"
    using assms by (intro viewer_ok_control) (simp add: fan_ok_def)
  show "viewer_ok (f\<lparr>f_heap := (f_heap f)(p := queueText m (f_heap f p))\<rparr>) q" if "q \<noteq> p" "viewer_ok f q" for q
    using that(2) by (rule viewer_ok_frame) (use that(1) in \<open>auto simp: stream_def\<close>)
qed (use assms in \<open>auto simp: fan_ok_def\<close>)

lemma fan_ok_take:
  assumes "fan_ok f" "p \<in> f_known f" "takePending (f_heap f p) = (fs, ov, c)"
  shows "fan_ok (f\<lparr>f_heap := (f_heap f)(p := c), f_taken := (f_taken f)(p := f_taken f p @ fs)\<rparr>)" (is "fan_ok ?f")
proof (rule fan_okI [OF assms(1), of _ p])
  have c: "fs = cout (f_heap f p)" "c = (f_heap f p)\<lparr>cout := [], outBytes := 0\<rparr>"
    using assms(3) by (auto simp: takePending_def)
  show "viewer_ok ?f q" if "viewer_ok f q" for q
    using that by (rule viewer_ok_frame) (use c in \<open>auto simp: stream_def\<close>)
  then show "viewer_ok ?f p" using assms(1,2) by (simp add: fan_ok_def)
qed (use assms in \<open>auto simp: fan_ok_def\<close>)

lemma clients_kept [simp]:
  "s_clients (NudgeRedraw s) = s_clients s" "s_clients (WriteInput t d s) = s_clients s"
  "session_ok (WriteInput t d s) = session_ok s"
  by (simp_all add: NudgeRedraw_def Setsize_def WriteInput_def session_ok_def sizes_agree_def)

lemma clients_resize: "Resize_session c r s = Some (s', b) \<Longrightarrow> s_clients s' = s_clients s"
proof -
  have "case Resize_session c r s of None \<Rightarrow> True | Some (s', b) \<Rightarrow> s_clients s' = s_clients s"
    by (cases "Resize c r (s_term s)") (simp_all add: Resize_session_def Let_def Setsize_def)
  then show "Resize_session c r s = Some (s', b) \<Longrightarrow> ?thesis" by simp
qed

lemma fan_ok_leave: "fan_ok f \<Longrightarrow> fan_ok (f\<lparr>f_sess := DetachClient p (f_sess f)\<rparr>)"
  by (rule fan_ok_session [where Q = "\<lambda>q. p \<noteq> q"])
    (simp_all add: DetachClient_def fan_ok_def distinct_remove1_removeAll removeAll_filter_not_eq)

lemma fan_ok_same_clients: "fan_ok f \<Longrightarrow> session_ok s' \<Longrightarrow> s_clients s' = s_clients (f_sess f) \<Longrightarrow> fan_ok (f\<lparr>f_sess := s'\<rparr>)"
  by (rule fan_ok_session [where Q = "\<lambda>_. True"]) simp_all

lemma fan_session: "fan_ok f \<Longrightarrow> session_ok (f_sess f)"
  by (simp add: fan_ok_def)

lemma fan_ok_resize:
  assumes "fan_ok f" "c \<noteq> 1" "Resize_session c r (f_sess f) = Some (s', b)"
  shows "fan_ok (f\<lparr>f_sess := s'\<rparr>)"
  using Resize_session_ok [OF fan_session [OF assms(1)] assms(2), of r] assms(3)
  by (intro fan_ok_same_clients [OF assms(1)]) (simp_all add: clients_resize)

lemma fan_step_ok: "fan_step f f' \<Longrightarrow> fan_ok f \<Longrightarrow> fan_ok f'"
  by (erule fan_step.cases)
    (simp_all only: fan_ok_emits fan_ok_connect fan_ok_join fan_ok_control fan_ok_take fan_ok_leave fan_ok_resize
      fan_ok_same_clients fan_session NudgeRedraw_ok clients_kept simp_thms)

lemma fan_reachable_ok: "fan_reachable s0 h0 f \<Longrightarrow> session_ok s0 \<Longrightarrow> fan_ok f"
  by (induction rule: fan_reachable.induct) (auto intro: fan_init_ok fan_step_ok)

end
