(* ===== verification/Session_Properties.thy ===== *)
theory Session_Properties
  imports Fan_Out
begin

text \<open>
  What \<open>src/cmd/termulaa/session.go\<close> guarantees about a shell session and its viewers.
\<close>

section \<open>The session\<close>

text \<open>A session on a terminal of two columns, for the witnesses.\<close>

definition demo_world :: world where
  "demo_world = \<lparr>w_now = 5000000, w_environ = [''TERM=dumb'', ''HOME=/root'', ''HISTSIZE=1''], w_home = ''/root'', w_tempDir = ''/tmp'',
     w_start = (\<lambda>p a d e. if p = ''/bin/bash'' then Some 42 else None), w_exists = (\<lambda>p. p = ''/bin/bash''),
     w_lookPath = (\<lambda>n. None), w_running = (\<lambda>n. n = 42), w_exits = (\<lambda>n. True), w_cwd = (\<lambda>n. None), w_canWrite = (\<lambda>p. True)\<rparr>"

definition demo_session :: Session where
  "demo_session = \<lparr>s_ID = ''s1'', s_CWD = ''/'', s_Shell = ''/bin/bash'', s_Cols = 4, s_Rows = 2, s_ExitCode = 0,
     s_Alive = True, s_CreatedAt = 5000000, s_LastActive = 5000000, s_pty = OpenPty, s_sizes = [(4, 2)], s_input = [],
     s_scrollback = NewRingBuffer 8, s_pid = 42, s_lastOutput = 0, s_term = New 4 2, s_clients = [], s_done = False\<rparr>"

lemma demo_New: "NewSession demo_world ''s1'' ''/bin/bash'' ''/'' 4 2 ''/h'' 0 8 None = Some (Inr demo_session)"
  by (simp add: NewSession_def demo_world_def demo_session_def Let_def uint16_def)

lemma demo_ok: "session_ok demo_session"
  by (rule NewSession_ok [OF demo_New]) simp_all




lemma demo_join:
  "\<exists>f. fan_reachable demo_session (\<lambda>_. newWSClient '''' '''') f \<and> f_joined f 0 = Some (0, New 4 2) \<and> f_history f = []"
proof -
  let ?h = "\<lambda>_ :: nat. newWSClient '''' ''''"
  let ?f0 = "fan_init demo_session ?h"
  let ?f1 = "?f0\<lparr>f_known := {0} \<union> f_known ?f0, f_heap := (f_heap ?f0)(0 := newWSClient ''t'' ''k'')\<rparr>"
  have 1: "fan_reachable demo_session ?h ?f1"
    by (rule fan_reachable.step [OF fan_reachable.start fan_step.connect]) (simp add: fan_init_def)
  have ok: "session_ok (f_sess ?f1)" using demo_ok by (simp add: fan_init_def)
  obtain s' h' where a: "AttachClient 0 True (f_sess ?f1, f_heap ?f1) = Some (s', h', True)"
    using AttachClient_ok(1) [OF ok, of 0 "f_heap ?f1"] by blast
  have "f_joined ?f1 0 = None" "0 \<in> f_known ?f1" by (simp_all add: fan_init_def)
  from fan_reachable.step [OF 1 fan_step.join [OF this(2,1) a]] show ?thesis
    by (intro exI conjI, assumption) (simp_all add: fan_init_def demo_session_def)
qed


definition managed :: "string \<Rightarrow> bool" where
  "managed e \<longleftrightarrow> HasPrefix e ''TERM='' \<or> HasPrefix e ''HISTFILE='' \<or> HasPrefix e ''HISTSIZE='' \<or> HasPrefix e ''HISTFILESIZE=''"

definition settings_of :: "string \<Rightarrow> string list \<Rightarrow> string set" where
  "settings_of name env = {e \<in> set env. HasPrefix e name}"

lemma override_prefix:
  "HasPrefix (env_override h l e) ''TERM='' = HasPrefix e ''TERM=''"
  "HasPrefix (env_override h l e) ''HISTFILE='' = HasPrefix e ''HISTFILE=''"
  "HasPrefix (env_override h l e) ''HISTSIZE='' = HasPrefix e ''HISTSIZE=''"
  "HasPrefix (env_override h l e) ''HISTFILESIZE='' = HasPrefix e ''HISTFILESIZE=''"
  by (auto simp: env_override_def HasPrefix_iff)

lemma override_value:
  "HasPrefix e ''TERM='' \<Longrightarrow> env_override h l e = ''TERM=xterm-256color''"
  "HasPrefix e ''HISTFILE='' \<Longrightarrow> env_override h l e = ''HISTFILE='' @ h"
  "HasPrefix e ''HISTSIZE='' \<Longrightarrow> env_override h l e = ''HISTSIZE='' @ l"
  "HasPrefix e ''HISTFILESIZE='' \<Longrightarrow> env_override h l e = ''HISTFILESIZE='' @ l"
  "\<not> managed e \<Longrightarrow> env_override h l e = e"
  by (auto simp: env_override_def HasPrefix_iff managed_def)

lemma filter_override: "filter (\<lambda>e. \<not> managed e) (map (env_override h l) env) = filter (\<lambda>e. \<not> managed e) env"
proof (induction env)
  case (Cons e env)
  have "managed (env_override h l e) = managed e" by (simp add: managed_def override_prefix)
  with Cons show ?case by (simp add: override_value(5))
qed simp

lemma settings_override:
  assumes "\<And>e. HasPrefix (env_override h l e) name = HasPrefix e name" "\<And>e. HasPrefix e name \<Longrightarrow> env_override h l e = v"
  shows "settings_of name (map (env_override h l) env) = (if list_ex (\<lambda>e. HasPrefix e name) env then {v} else {})"
  using assms by (auto simp: settings_of_def list_ex_iff image_iff)

lemma settings_of_simps:
  "settings_of name [] = {}" "settings_of name (xs @ ys) = settings_of name xs \<union> settings_of name ys"
  "settings_of name (if b then [x] else []) = (if b \<and> HasPrefix x name then {x} else {})"
  by (cases b; auto simp: settings_of_def)+



text \<open>The environment of a shell names each of \<open>TERM\<close>, \<open>HISTSIZE\<close>, \<open>HISTFILESIZE\<close> and (when there is
  a history file) \<open>HISTFILE\<close> with the session's value only, at least once, and passes every other
  variable on unchanged and in order.\<close>

theorem session_environment:
  assumes "hist \<noteq> ''''"
  shows "settings_of ''TERM='' (session_env env hist lim) = {''TERM=xterm-256color''}
    \<and> settings_of ''HISTFILE='' (session_env env hist lim) = {''HISTFILE='' @ hist}
    \<and> settings_of ''HISTSIZE='' (session_env env hist lim) = {''HISTSIZE='' @ historyLimitValue lim}
    \<and> settings_of ''HISTFILESIZE='' (session_env env hist lim) = {''HISTFILESIZE='' @ historyLimitValue lim}
    \<and> filter (\<lambda>e. \<not> managed e) (session_env env hist lim) = filter (\<lambda>e. \<not> managed e) env"
proof (intro conjI)
  show "settings_of ''TERM='' (session_env env hist lim) = {''TERM=xterm-256color''}"
    by (simp add: session_env_def Let_def settings_of_simps settings_override [OF override_prefix(1) override_value(1)])
  show "settings_of ''HISTFILE='' (session_env env hist lim) = {''HISTFILE='' @ hist}"
    using assms by (simp add: session_env_def Let_def settings_of_simps settings_override [OF override_prefix(2) override_value(2)])
  show "settings_of ''HISTSIZE='' (session_env env hist lim) = {''HISTSIZE='' @ historyLimitValue lim}"
    by (simp add: session_env_def Let_def settings_of_simps settings_override [OF override_prefix(3) override_value(3)])
  show "settings_of ''HISTFILESIZE='' (session_env env hist lim) = {''HISTFILESIZE='' @ historyLimitValue lim}"
    by (simp add: session_env_def Let_def settings_of_simps settings_override [OF override_prefix(4) override_value(4)])
  show "filter (\<lambda>e. \<not> managed e) (session_env env hist lim) = filter (\<lambda>e. \<not> managed e) env"
    by (simp add: session_env_def Let_def filter_override managed_def filter_override [unfolded managed_def, simplified])
qed

theorem session_environment_witness:
  "settings_of ''TERM='' (session_env [''TERM=dumb'', ''HOME=/root''] ''/h'' 5) = {''TERM=xterm-256color''}
    \<and> filter (\<lambda>e. \<not> managed e) (session_env [''TERM=dumb'', ''HOME=/root''] ''/h'' 5) = filter (\<lambda>e. \<not> managed e) [''TERM=dumb'', ''HOME=/root'']"
  using session_environment [of "''/h''" "[''TERM=dumb'', ''HOME=/root'']" 5] by blast

section \<open>Dropped files\<close>

text \<open>
  A reference for how a POSIX shell splits what is typed into words, on the fragment without
  expansions: \<open>None\<close> when the input is incomplete or has an unquoted character with a meaning of its
  own. The arguments are whether the position is inside single quotes and the word begun so far.
\<close>

definition plain_char :: "char \<Rightarrow> bool" where
  "plain_char c \<longleftrightarrow> in_class CHR ''a'' CHR ''z'' c \<or> in_class CHR ''A'' CHR ''Z'' c \<or> in_class CHR ''0'' CHR ''9'' c
     \<or> c \<in> {CHR ''/'', CHR ''.'', CHR ''_'', CHR ''-''}"

fun sh_words :: "bool \<Rightarrow> string \<Rightarrow> string option \<Rightarrow> string list option" where
  "sh_words q [] wd = (if q then None else Some (case wd of None \<Rightarrow> [] | Some w \<Rightarrow> [w]))"
| "sh_words True (c # s) wd =
    (if c = CHR 0x27 then sh_words False s wd else sh_words True s (map_option (\<lambda>w. w @ [c]) wd))"
| "sh_words False (c # s) wd =
    (let w = (case wd of None \<Rightarrow> [] | Some w \<Rightarrow> w) in
     if c = CHR 0x20 then (case wd of None \<Rightarrow> sh_words False s None | Some w \<Rightarrow> map_option (Cons w) (sh_words False s None))
     else if c = CHR 0x27 then sh_words True s (Some w)
     else if c = CHR 0x5c then (case s of [] \<Rightarrow> None | d # s' \<Rightarrow> sh_words False s' (Some (w @ [d])))
     else if plain_char c then sh_words False s (Some (w @ [c]))
     else None)"

lemma sh_words_quoted:
  "sh_words True (ReplaceAll p CHR 0x27 [CHR 0x27, CHR 0x5c, CHR 0x27, CHR 0x27] @ [CHR 0x27, CHR 0x20]) (Some w) = Some [w @ p]"
  by (induction p arbitrary: w) (simp_all add: ReplaceAll_def)

text \<open>C32: Typed at a shell prompt, the quoted path of a dropped file is one word, that path, whatever
  characters it has.\<close>

theorem shellQuotePath_is_one_word: "sh_words False (shellQuotePath p) None = Some [p]"
  using sh_words_quoted [of p "[]"] by (simp add: shellQuotePath_def)

lemma itoa_no_slash: "CHR ''/'' \<notin> set (itoa n)"
proof
  assume "CHR ''/'' \<in> set (itoa n)"
  then obtain b where b: "b \<in> set (Itoa n)" "char_of (unat b) = CHR ''/''" by (auto simp: itoa_def)
  from b(1) have "is_digit b \<or> b = 0x2D"
    using digits_are_digits by (fastforce simp: Itoa_def list_all_iff split: if_splits)
  then have "unat b \<noteq> 47" by (auto simp: is_digit_def word_le_nat_alt)
  moreover have "unat b = 47" using arg_cong [OF b(2), of "of_char :: char \<Rightarrow> nat"] unsigned_less [of b, where ?'a = nat] by simp
  ultimately show False by simp
qed

lemma drop_name_plain:
  "CHR ''/'' \<notin> set (drop_name name ms) \<or> (\<exists>f. drop_name name ms = CHR ''/'' # f \<and> CHR ''/'' \<notin> set f)"
  "CHR ''-'' \<in> set (drop_name name ms)"
proof -
  define b where "b = (if Base name = '''' \<or> Base name = ''.'' \<or> Base name = ''..'' then ''clipboard'' else Base name)"
  have d: "drop_name name ms = TrimSuffix b (Ext b) @ ''-'' @ itoa ms @ (if Ext b = '''' then ''.png'' else Ext b)"
    by (simp add: drop_name_def Let_def b_def)
  show "CHR ''-'' \<in> set (drop_name name ms)" by (simp add: d)
  show "CHR ''/'' \<notin> set (drop_name name ms) \<or> (\<exists>f. drop_name name ms = CHR ''/'' # f \<and> CHR ''/'' \<notin> set f)"
  proof (cases "b = ''/''")
    case True
    then have "Ext b = ''''" by (simp add: Ext_def)
    with True show ?thesis by (auto simp: d TrimSuffix_def HasSuffix_def itoa_no_slash)
  next
    case False
    then have s: "CHR ''/'' \<notin> set b" using Base_elem [of name] by (auto simp: b_def split: if_splits)
    have e: "set (Ext b) \<subseteq> set b" using Ext_suffix [of b] by (metis Un_upper2 set_append)
    have "set (TrimSuffix b (Ext b)) \<subseteq> set b" by (auto simp: TrimSuffix_def dest: in_set_takeD)
    with s e show ?thesis by (auto simp: d itoa_no_slash)
  qed
qed

text \<open>Whatever name a browser gives a dropped file, the bytes it encoded are saved unchanged,
  directly in the directory for temporary files, under a name that has no separator and is
  neither the directory itself nor its parent.\<close>

theorem dropped_file_is_saved:
  assumes "HasPrefix (w_tempDir w) ''/''" "w_canWrite w = (\<lambda>p. True)"
  shows "\<exists>f. HandleFileDrop w name (EncodeToString data)
      = Inr (Clean (w_tempDir w) @ (if Clean (w_tempDir w) = ''/'' then '''' else ''/'') @ f, data)
    \<and> CHR ''/'' \<notin> set f \<and> f \<noteq> '''' \<and> f \<noteq> ''.'' \<and> f \<noteq> ''..''"
proof -
  let ?n = "drop_name name (w_now w div 1000000)"
  obtain f where f: "CHR ''/'' \<notin> set f" "?n = f \<or> ?n = CHR ''/'' # f"
    using drop_name_plain(1) [of name "w_now w div 1000000"] by blast
  have "CHR ''-'' \<in> set f" using f(2) drop_name_plain(2) [of name "w_now w div 1000000"] by auto
  then have n: "f \<noteq> ''''" "f \<noteq> ''.''" "f \<noteq> ''..''" by auto
  have "Join (w_tempDir w) ?n = Join (w_tempDir w) f"
    using f(2) Join_below(2) [OF assms(1) f(1) n] by auto
  with Join_below(1) [OF assms(1) f(1) n] show ?thesis
    using f n assms(2) by (auto simp: HandleFileDrop_def DecodeString_EncodeToString Let_def)
qed

theorem dropped_file_is_saved_witness:
  "\<exists>f. HandleFileDrop demo_world ''../../etc/passwd'' (EncodeToString [1, 2, 3]) = Inr (''/tmp/'' @ f, [1, 2, 3])
    \<and> CHR ''/'' \<notin> set f \<and> f \<noteq> '''' \<and> f \<noteq> ''.'' \<and> f \<noteq> ''..''"
proof -
  have "HasPrefix (w_tempDir demo_world) ''/''" "w_canWrite demo_world = (\<lambda>p. True)" "Clean (w_tempDir demo_world) = ''/tmp''"
    by (simp_all add: demo_world_def) (simp add: Clean_def)
  from dropped_file_is_saved [OF this(1,2), of "''../../etc/passwd''" "[1, 2, 3]"] this(3) show ?thesis by simp
qed

text \<open>The path is typed as it is: control characters in the name reach the terminal, and with them
  line editing commands.\<close>

lemma dropped_name_keeps_controls:
  "HandleFileDrop demo_world [CHR 0x15, CHR ''x'', CHR 0x0d] [] = Inr (''/tmp/'' @ [CHR 0x15, CHR ''x'', CHR 0x0d] @ ''-5.png'', [])
   \<and> CHR 0x15 \<in> set (shellQuotePath (''/tmp/'' @ [CHR 0x15, CHR ''x'', CHR 0x0d] @ ''-5.png''))"
  by code_simp

end
