(* ===== verification/Manager_Properties.thy ===== *)
theory Manager_Properties
  imports Manager_Safety Session_Properties
begin

text \<open>
  What \<open>src/cmd/termulaa/manager.go\<close> guarantees: the registry stays consistent, what each operation
  on a tab does, and who may attach to a session.
\<close>

section \<open>The registry\<close>

definition demo_config :: Config where
  "demo_config = \<lparr>c_Port = 17380, c_Shell = ''/bin/bash'', c_DeleteOnClose = False, c_CleanupAfterDays = 0, c_ScrollbackBytes = 8,
     c_HistoryLimit = 10, c_DefaultCols = 4, c_DefaultRows = 2, c_CWDPollInterval = 0, c_SavePeriod = 0\<rparr>"

definition demo_manager :: SessionManager where
  "demo_manager = NewSessionManager demo_world demo_config (\<lambda>_. newWSClient '''' '''') [] None"

lemma empty_registry: "registry_ok (NewSessionManager w c h d st)"
  by (simp add: registry_ok_def NewSessionManager_def sess_inv_def tabs_inv_def clients_inv_def shown_def)

text \<open>C7: Whatever operations the handlers call in whatever order, as long as generated identifiers are
  new, none of them panics, and the registry stays consistent: each session and tab is stored
  under its own identifier, every session has a usable terminal and ring, no session is shown by
  two panes, the clients of a tab are its own.\<close>

theorem registry_stays_consistent:
  assumes "allowed mgr_guard (mgr_step w) es (NewSessionManager w c h d st)"
  shows "\<exists>m. run (mgr_step w) es (NewSessionManager w c h d st) = Some m \<and> registry_ok m"
  using registry.allowed_run [OF empty_registry assms] .

definition demo_ops :: "mgr_op list" where
  "demo_ops = [CreateTabOp ''work'' ''s1'' ''t1'', RegisterOp ''t1'' 0 ''k'', SplitOp ''t1'' ''s1'' ''h'' ''s2'']"

definition demo_state :: SessionManager where
  "demo_state = the (run (mgr_step demo_world) demo_ops demo_manager)"

lemma demo_allowed: "allowed mgr_guard (mgr_step demo_world) demo_ops demo_manager"
  by code_simp

theorem registry_stays_consistent_witness:
  "\<exists>m. run (mgr_step demo_world) demo_ops (NewSessionManager demo_world demo_config (\<lambda>_. newWSClient '''' '''') [] None) = Some m \<and> registry_ok m"
  using registry_stays_consistent [OF demo_allowed [unfolded demo_manager_def]] .

lemma demo_registry: "registry_ok demo_state"
proof -
  obtain m where "run (mgr_step demo_world) demo_ops demo_manager = Some m" "registry_ok m"
    using registry.allowed_run [OF empty_registry demo_allowed [unfolded demo_manager_def]] demo_manager_def by auto
  then show ?thesis by (simp add: demo_state_def)
qed

lemma demo_shape:
  "map_option (\<lambda>t. SessionIDs (tab_Layout t)) (map_of (g_tabs demo_state) ''t1'') = Some [''s1'', ''s2'']"
  "map fst (g_sessions demo_state) = [''s1'', ''s2'']" "clients_of demo_state ''t1'' = [\<lparr>tc_conn = 0, tc_tabID = ''t1'', tc_token = ''k''\<rparr>]"
  "referenced demo_state = [''s1'', ''s2'']" "map fst (g_tabs demo_state) = [''t1'']"
  by code_simp+

text \<open>C8: Attaching needs a token that the owner of exactly that tab holds: two tabs never give access
  to the same session, and the token is that of a registered client of the tab.\<close>

theorem attach_needs_owner_of_the_tab:
  assumes "registry_ok m" "CanAttachSession m tab sid token" "sid \<noteq> ''''"
  shows "(\<exists>c. c \<in> set (clients_of m tab) \<and> tc_token c = token \<and> tc_tabID c = tab)
    \<and> (\<forall>tab' token'. CanAttachSession m tab' sid token' \<longrightarrow> tab' = tab)"
proof (intro conjI allI impI)
  obtain t where t: "map_of (g_tabs m) tab = Some t" "HasSession (tab_Layout t) sid" "list_ex (\<lambda>c. tc_token c = token) (clients_of m tab)"
    using assms(2) by (auto simp: CanAttachSession_def split: option.splits)
  have c: "list_all (\<lambda>k. tc_tabID k = tab) (clients_of m tab)"
    using assms(1) by (simp add: registry_ok_def clients_of_tab)
  then show "\<exists>c. c \<in> set (clients_of m tab) \<and> tc_token c = token \<and> tc_tabID c = tab"
    using t(3) by (auto simp: list_ex_iff list_all_iff)
  fix tab' token' assume "CanAttachSession m tab' sid token'"
  then obtain t' where t': "map_of (g_tabs m) tab' = Some t'" "HasSession (tab_Layout t') sid"
    by (auto simp: CanAttachSession_def split: option.splits)
  have "sid \<in> shown (g_tabs m) tab \<inter> shown (g_tabs m) tab'"
    using t t' HasSession_iff [OF assms(3)] by (simp add: shown_def)
  then show "tab' = tab" using assms(1) unfolding registry_ok_def tabs_inv_def by blast
qed

theorem attach_needs_owner_of_the_tab_witness:
  "CanAttachSession demo_state ''t1'' ''s2'' ''k'' \<and> (\<exists>c. c \<in> set (clients_of demo_state ''t1'') \<and> tc_token c = ''k'' \<and> tc_tabID c = ''t1'')"
proof -
  have c: "CanAttachSession demo_state ''t1'' ''s2'' ''k''" by code_simp
  from attach_needs_owner_of_the_tab [OF demo_registry c] c show ?thesis by blast
qed


lemma replace_first_tokens: "map tc_token (replace_first (\<lambda>c. tc_token c = k) \<lparr>tc_conn = n, tc_tabID = tab, tc_token = k\<rparr> cs) = map tc_token cs"
  by (induction cs) auto

lemma replace_first_mem: "find P cs \<noteq> None \<Longrightarrow> y \<in> set (replace_first P y cs)"
  by (induction cs) auto

lemma replace_first_set: "set (replace_first P y cs) \<subseteq> insert y (set cs)"
  by (induction cs) auto

lemma list_ex_tokens: "list_ex (\<lambda>c. tc_token c = k) cs \<longleftrightarrow> k \<in> set (map tc_token cs)"
  by (auto simp: list_ex_iff)

text \<open>A browser that resumes with the token it had keeps exactly the access it had: every attachment
  that was allowed still is and no other becomes so, the new connection owns the tab, the old one
  is closed, and its late departure removes nobody.\<close>

theorem resume_keeps_access:
  assumes "ResumeTabClient tab token conn m = (m', Some c)"
  shows "CanAttachSession m' tab' sid token' = CanAttachSession m tab' sid token' \<and> c \<in> set (clients_of m' tab) \<and> tc_conn c = conn
    \<and> (\<exists>old. old \<in> set (clients_of m tab) \<and> tc_token old = token \<and> g_closed m' = g_closed m @ [tc_conn old])"
proof -
  obtain old where o: "token \<noteq> ''''" "find (\<lambda>c. tc_token c = token) (clients_of m tab) = Some old"
    "c = \<lparr>tc_conn = conn, tc_tabID = tab, tc_token = token\<rparr>"
    "m' = m\<lparr>g_tabClients := AList.update tab (replace_first (\<lambda>c. tc_token c = token) c (clients_of m tab)) (g_tabClients m),
        g_closed := g_closed m @ [tc_conn old]\<rparr>"
    using assms by (auto simp: ResumeTabClient_def Let_def split: if_splits option.splits)
  have cl: "clients_of m' tab'' = (if tab'' = tab then replace_first (\<lambda>c. tc_token c = token) c (clients_of m tab) else clients_of m tab'')" for tab''
    by (simp add: o(4) clients_of_def update_conv')
  have "map tc_token (clients_of m' tab'') = map tc_token (clients_of m tab'')" for tab''
    by (simp add: cl o(3) replace_first_tokens)
  then have tk: "set (map tc_token (clients_of m' tab'')) = set (map tc_token (clients_of m tab''))" for tab'' by simp
  have "old \<in> set (clients_of m tab) \<and> tc_token old = token" using o(2) by (auto simp: find_Some_iff)
  moreover have "g_tabs m' = g_tabs m" "g_closed m' = g_closed m @ [tc_conn old]" "tc_conn c = conn"
    by (simp_all add: o(3,4))
  moreover from this(1) have "CanAttachSession m' tab' sid token' = CanAttachSession m tab' sid token'"
    by (simp add: CanAttachSession_def list_ex_tokens [unfolded set_map] tk [unfolded set_map] split: option.splits)
  moreover have "c \<in> set (clients_of m' tab)"
    using replace_first_mem [of "\<lambda>c. tc_token c = token" "clients_of m tab" c] o(2) by (simp add: cl)
  ultimately show ?thesis by blast
qed

theorem resume_keeps_access_witness:
  "\<exists>m' c. ResumeTabClient ''t1'' ''k'' 7 demo_state = (m', Some c) \<and> CanAttachSession m' ''t1'' ''s2'' ''k''
    \<and> c \<in> set (clients_of m' ''t1'') \<and> tc_conn c = 7"
proof -
  have "snd (ResumeTabClient ''t1'' ''k'' 7 demo_state) = Some \<lparr>tc_conn = 7, tc_tabID = ''t1'', tc_token = ''k''\<rparr>" by code_simp
  then obtain m' where r: "ResumeTabClient ''t1'' ''k'' 7 demo_state = (m', Some \<lparr>tc_conn = 7, tc_tabID = ''t1'', tc_token = ''k''\<rparr>)"
    by (metis prod.collapse)
  have "CanAttachSession demo_state ''t1'' ''s2'' ''k''" by code_simp
  with resume_keeps_access [OF r, of "''t1''" "''s2''" "''k''"] r show ?thesis by blast
qed

section \<open>Splitting and closing panes\<close>

text \<open>C29: Splitting a pane either fails and leaves sessions, tabs and owners as they were, or registers one
  live session under the new identifier and puts it into the layout of that tab beside the pane that
  was split; nothing else changes.\<close>

theorem split_pane_adds_session:
  assumes "registry_ok m" "fresh m new"
  shows "\<exists>m' r. SplitPane w tab sid dir new m = Some (m', r) \<and> split_result w tab sid dir new m (m', r)"
  using SplitPane_spec [OF assms, of w tab sid dir] by (auto simp: wp_ex)

theorem split_pane_adds_session_witness:
  "\<exists>m' r. SplitPane demo_world ''t1'' ''s2'' ''v'' ''s3'' demo_state = Some (m', r)
    \<and> split_result demo_world ''t1'' ''s2'' ''v'' ''s3'' demo_state (m', r)"
proof (rule split_pane_adds_session [OF demo_registry])
  show "fresh demo_state ''s3''" by code_simp
qed



end
