(* ===== verification/Persistence.thy ===== *)
theory Persistence
  imports Manager_Properties
begin

text \<open>
  A restart: what \<open>LoadState\<close> finds after \<open>SaveState\<close>, and what \<open>Adopt\<close> makes of the names
  \<open>HandoffFiles\<close> gives (\<open>src/cmd/termulaa/manager.go\<close>). The files of different sessions are
  different because their identifiers have no separator.
\<close>

section \<open>The paths of the files\<close>

definition plain_id :: "string \<Rightarrow> bool" where
  "plain_id i \<longleftrightarrow> CHR ''/'' \<notin> set i \<and> CHR '':'' \<notin> set i"

lemma Clean_rooted: "HasPrefix d ''/'' \<Longrightarrow> HasPrefix (Clean d) ''/''"
  by (simp add: Clean_def Let_def)

lemma Join_rooted:
  "HasPrefix d ''/'' \<Longrightarrow> CHR ''/'' \<notin> set f \<Longrightarrow> f \<noteq> '''' \<Longrightarrow> f \<noteq> ''.'' \<Longrightarrow> f \<noteq> ''..'' \<Longrightarrow> HasPrefix (Join d f) ''/''"
  using Clean_rooted [of d] by (auto simp: Join_below(1) HasPrefix_iff)

lemma Join_inj:
  assumes "HasPrefix d ''/''" "CHR ''/'' \<notin> set f" "CHR ''/'' \<notin> set g" "2 < length f" "2 < length g"
  shows "Join d f = Join d g \<longleftrightarrow> f = g"
proof -
  have "f \<noteq> ''''" "f \<noteq> ''.''" "f \<noteq> ''..''" "g \<noteq> ''''" "g \<noteq> ''.''" "g \<noteq> ''..''" using assms(4,5) by auto
  then show ?thesis using Join_below(1) [OF assms(1,2)] Join_below(1) [OF assms(1,3)] by simp
qed

lemma scrollbackPath_inj:
  assumes "HasPrefix (g_dataDir m) ''/''" "plain_id i" "plain_id j"
  shows "scrollbackPath m i = scrollbackPath m j \<longleftrightarrow> i = j"
  unfolding scrollbackPath_def using assms
  by (subst Join_inj) (auto simp: plain_id_def intro!: Join_rooted)

section \<open>Saving\<close>

lemma save_rings_content:
  assumes "HasPrefix (g_dataDir m) ''/''" "w_canWrite w = (\<lambda>p. True)"
  shows "distinct (map fst ss) \<Longrightarrow> list_all (\<lambda>(i, s). plain_id i \<and> ring_ok (s_scrollback s)) ss \<Longrightarrow>
    wp (save_rings w m ss d) (\<lambda>d'. \<forall>i. plain_id i \<longrightarrow> map_of d' (scrollbackPath m i)
      = (case map_of ss i of Some s \<Rightarrow> if s_Alive s then Some (ring_content (s_scrollback s)) else map_of d (scrollbackPath m i)
         | None \<Rightarrow> map_of d (scrollbackPath m i)))"
proof (induction ss arbitrary: d)
  case (Cons p ss)
  obtain j s where p: "p = (j, s)" by (cases p)
  let ?d = "if s_Alive s then AList.update (scrollbackPath m j) (ring_content (s_scrollback s)) d else d"
  have j: "plain_id j" "ring_ok (s_scrollback s)" "map_of ss j = None"
    using Cons.prems p by (auto simp: map_of_eq_None_iff image_iff)
  have e: "save_rings w m (p # ss) d = save_rings w m ss ?d"
    using j(2) p assms(2) by (simp add: readAll_content)
  have ih: "wp (save_rings w m ss ?d) (\<lambda>d'. \<forall>i. plain_id i \<longrightarrow> map_of d' (scrollbackPath m i)
      = (case map_of ss i of Some s \<Rightarrow> if s_Alive s then Some (ring_content (s_scrollback s)) else map_of ?d (scrollbackPath m i)
         | None \<Rightarrow> map_of ?d (scrollbackPath m i)))"
    using Cons.prems p by (intro Cons.IH) simp_all
  show ?case unfolding e
  proof (rule wp_mono [OF ih], intro allI impI)
    fix d' i
    assume d': "\<forall>i. plain_id i \<longrightarrow> map_of d' (scrollbackPath m i)
      = (case map_of ss i of Some s \<Rightarrow> if s_Alive s then Some (ring_content (s_scrollback s)) else map_of ?d (scrollbackPath m i)
         | None \<Rightarrow> map_of ?d (scrollbackPath m i))" and i: "plain_id i"
    have "map_of ?d (scrollbackPath m i) = (if s_Alive s \<and> i = j then Some (ring_content (s_scrollback s)) else map_of d (scrollbackPath m i))"
      using scrollbackPath_inj [OF assms(1) i j(1)] by (simp add: update_conv')
    with d' i p j(3) show "map_of d' (scrollbackPath m i)
      = (case map_of (p # ss) i of Some s \<Rightarrow> if s_Alive s then Some (ring_content (s_scrollback s)) else map_of d (scrollbackPath m i)
         | None \<Rightarrow> map_of d (scrollbackPath m i))"
      by (cases "i = j") (auto split: option.splits)
  qed
qed simp

section \<open>Loading\<close>

definition loaded_ring :: "SessionManager \<Rightarrow> string \<Rightarrow> RingBuffer \<Rightarrow> bool" where
  "loaded_ring m i ring \<longleftrightarrow> ring_ok ring
     \<and> (\<forall>d. map_of (g_disk m) (scrollbackPath m i) = Some d \<longrightarrow> ring_content ring = lastn (nat (scrollbackBytes m)) d)"

lemma restoreTerminal_total:
  assumes "ring_ok r" "c \<noteq> 1"
  shows "wp (restoreTerminal c n r) vt_wf"
proof -
  let ?t = "New (if c \<le> 0 then 80 else c) (if n \<le> 0 then 24 else n)"
  have t: "vt_wf ?t" using assms(2) by (intro vt_New) auto
  obtain data where d: "ReadReplay r = Some data" using assms(1) by (auto simp: ReadReplay_def readAll_content)
  show ?thesis using Write_ok [OF t, of data] t d by (auto simp: restoreTerminal_def Let_def elim: wp_mono)
qed

lemma load_session_one:
  assumes "\<not> expired w m (m_LastActive meta)" "m_Cols meta \<noteq> 1"
  shows "wp (load_session w (i, meta) m) (\<lambda>m'. \<exists>ring t. m' = put_session i (restored_session meta ring t) m \<and> loaded_ring m i ring \<and> vt_wf t)"
proof -
  let ?r0 = "NewRingBuffer (nat (scrollbackBytes m))"
  let ?ld = "case map_of (g_disk m) (scrollbackPath m i) of None \<Rightarrow> Some ?r0 | Some d \<Rightarrow> LoadFrom d ?r0"
  have "wp ?ld (loaded_ring m i)"
  proof (cases "map_of (g_disk m) (scrollbackPath m i)")
    case (Some d)
    then show ?thesis using LoadFrom_content [of d ?r0]
      by (simp add: NewRingBuffer_def) (erule wp_mono, simp add: loaded_ring_def)
  qed (simp add: loaded_ring_def ring_new_ok)
  then have "wp (?ld \<bind> (\<lambda>ring. restoreTerminal (m_Cols meta) (m_Rows meta) ring
      \<bind> (\<lambda>t. Some (put_session i (restored_session meta ring t) m))))
      (\<lambda>m'. \<exists>ring t. m' = put_session i (restored_session meta ring t) m \<and> loaded_ring m i ring \<and> vt_wf t)"
  proof (rule wp_bindI)
    fix ring assume r: "loaded_ring m i ring"
    then have "ring_ok ring" by (simp add: loaded_ring_def)
    from restoreTerminal_total [OF this assms(2)] r
    show "wp (restoreTerminal (m_Cols meta) (m_Rows meta) ring \<bind> (\<lambda>t. Some (put_session i (restored_session meta ring t) m)))
      (\<lambda>m'. \<exists>ring t. m' = put_session i (restored_session meta ring t) m \<and> loaded_ring m i ring \<and> vt_wf t)"
      by (intro wp_bindI [where P = vt_wf]) auto
  qed
  with assms(1) show ?thesis by (simp add: load_session_def Let_def)
qed

text \<open>What a manager keeps while sessions and tabs are loaded into it.\<close>

definition same_ground :: "SessionManager \<Rightarrow> SessionManager \<Rightarrow> bool" where
  "same_ground m m' \<longleftrightarrow> g_cfg m' = g_cfg m \<and> g_dataDir m' = g_dataDir m \<and> g_disk m' = g_disk m"

lemma ground_simps:
  "same_ground m m' \<Longrightarrow> loaded_ring m' = loaded_ring m" "same_ground m m' \<Longrightarrow> expired w m' = expired w m"
  "same_ground m (put_session i s m)" "same_ground m (put_tab i t m)"
  by (auto simp: same_ground_def loaded_ring_def scrollbackPath_def scrollbackBytes_def expired_def cutoff_def
      put_session_def put_tab_def fun_eq_iff)

lemma same_ground_trans: "same_ground m m' \<Longrightarrow> same_ground m' m'' \<Longrightarrow> same_ground m m''"
  by (simp add: same_ground_def)

lemma load_sessions:
  "distinct (map fst ms) \<Longrightarrow> list_all (\<lambda>(i, meta). \<not> expired w m (m_LastActive meta) \<and> m_Cols meta \<noteq> 1) ms \<Longrightarrow>
    wp (run (load_session w) ms m) (\<lambda>m'. same_ground m m' \<and> g_tabs m' = g_tabs m \<and>
      (\<forall>i. case map_of ms i of None \<Rightarrow> map_of (g_sessions m') i = map_of (g_sessions m) i
       | Some meta \<Rightarrow> \<exists>ring t. map_of (g_sessions m') i = Some (restored_session meta ring t) \<and> loaded_ring m i ring \<and> vt_wf t))"
proof (induction ms arbitrary: m)
  case Nil
  then show ?case by (simp add: same_ground_def)
next
  case (Cons p ms)
  obtain j meta where p: "p = (j, meta)" by (cases p)
  have one: "wp (load_session w p m) (\<lambda>m'. \<exists>ring t. m' = put_session j (restored_session meta ring t) m \<and> loaded_ring m j ring \<and> vt_wf t)"
    using Cons.prems p by (simp add: load_session_one)
  have nj: "map_of ms j = None" using Cons.prems(1) p by (simp add: map_of_eq_None_iff)
  show ?case unfolding run.simps
  proof (rule wp_bindI [OF one], elim exE conjE)
    fix m1 ring t
    assume m1: "m1 = put_session j (restored_session meta ring t) m" "loaded_ring m j ring" "vt_wf t"
    then have g: "same_ground m m1" by (simp add: ground_simps)
    have ih: "wp (run (load_session w) ms m1) (\<lambda>m'. same_ground m1 m' \<and> g_tabs m' = g_tabs m1 \<and>
      (\<forall>i. case map_of ms i of None \<Rightarrow> map_of (g_sessions m') i = map_of (g_sessions m1) i
       | Some meta \<Rightarrow> \<exists>ring t. map_of (g_sessions m') i = Some (restored_session meta ring t) \<and> loaded_ring m1 i ring \<and> vt_wf t))"
      by (rule Cons.IH) (use Cons.prems ground_simps(2) [OF g] in auto)
    show "wp (run (load_session w) ms m1) (\<lambda>m'. same_ground m m' \<and> g_tabs m' = g_tabs m \<and>
      (\<forall>i. case map_of (p # ms) i of None \<Rightarrow> map_of (g_sessions m') i = map_of (g_sessions m) i
       | Some meta \<Rightarrow> \<exists>ring t. map_of (g_sessions m') i = Some (restored_session meta ring t) \<and> loaded_ring m i ring \<and> vt_wf t))"
    proof (rule wp_mono [OF ih], elim conjE, intro conjI allI)
      fix m' i
      assume a: "same_ground m1 m'" "g_tabs m' = g_tabs m1" "\<forall>i. case map_of ms i of None \<Rightarrow> map_of (g_sessions m') i = map_of (g_sessions m1) i
       | Some meta \<Rightarrow> \<exists>ring t. map_of (g_sessions m') i = Some (restored_session meta ring t) \<and> loaded_ring m1 i ring \<and> vt_wf t"
      show "same_ground m m'" using g a(1) by (rule same_ground_trans)
      show "g_tabs m' = g_tabs m" using a(2) m1(1) by simp
      show "case map_of (p # ms) i of None \<Rightarrow> map_of (g_sessions m') i = map_of (g_sessions m) i
       | Some meta \<Rightarrow> \<exists>ring t. map_of (g_sessions m') i = Some (restored_session meta ring t) \<and> loaded_ring m i ring \<and> vt_wf t"
      proof (cases "i = j")
        case True
        then show ?thesis using spec [OF a(3), of i] nj m1 p by (auto simp: update_conv')
      next
        case False
        then show ?thesis using spec [OF a(3), of i] m1(1) p ground_simps(1) [OF g] by (auto simp: update_conv' split: option.splits)
      qed
    qed
  qed
qed

lemma load_tabs:
  "distinct (map fst ts) \<Longrightarrow> list_all (\<lambda>(i, t). \<not> expired w m (tab_LastActive t)) ts \<Longrightarrow>
    same_ground m (fold (load_tab w) ts m) \<and> g_sessions (fold (load_tab w) ts m) = g_sessions m
    \<and> (\<forall>i. map_of (g_tabs (fold (load_tab w) ts m)) i = (case map_of ts i of None \<Rightarrow> map_of (g_tabs m) i | Some t \<Rightarrow> Some t))"
proof (induction ts arbitrary: m)
  case Nil
  then show ?case by (simp add: same_ground_def)
next
  case (Cons p ts)
  obtain j t where p: "p = (j, t)" by (cases p)
  let ?m = "put_tab j t m"
  have g: "same_ground m ?m" by (simp add: ground_simps)
  have l: "load_tab w p m = ?m" using Cons.prems p by (simp add: load_tab_def)
  have nj: "map_of ts j = None" using Cons.prems(1) p by (simp add: map_of_eq_None_iff)
  have "list_all (\<lambda>(i, t). \<not> expired w ?m (tab_LastActive t)) ts" using Cons.prems(2) ground_simps(2) [OF g] by simp
  with Cons.IH [of ?m] Cons.prems(1) p
  have ih: "same_ground ?m (fold (load_tab w) ts ?m)" "g_sessions (fold (load_tab w) ts ?m) = g_sessions ?m"
    "\<And>i. map_of (g_tabs (fold (load_tab w) ts ?m)) i = (case map_of ts i of None \<Rightarrow> map_of (g_tabs ?m) i | Some t \<Rightarrow> Some t)" by simp_all
  have e: "fold (load_tab w) (p # ts) m = fold (load_tab w) ts ?m" by (simp add: l)
  have s: "map_of (g_tabs (fold (load_tab w) ts ?m)) i = (case map_of (p # ts) i of None \<Rightarrow> map_of (g_tabs m) i | Some t \<Rightarrow> Some t)" for i
    unfolding ih(3) p using nj by (cases "i = j") (simp_all add: update_conv' put_tab_def split: option.splits)
  from same_ground_trans [OF g ih(1)] ih(2) s show ?case unfolding e by simp
qed

lemma remove_files_simps [simp]:
  "g_tabs (remove_files i m) = g_tabs m" "g_sessions (remove_files i m) = g_sessions m"
  by (simp_all add: remove_files_def)

lemma orphans_removed:
  "g_tabs (fold (\<lambda>i m. remove_files i (m\<lparr>g_sessions := AList.delete i (g_sessions m)\<rparr>)) os m) = g_tabs m"
  "map_of (g_sessions (fold (\<lambda>i m. remove_files i (m\<lparr>g_sessions := AList.delete i (g_sessions m)\<rparr>)) os m)) i
     = (if i \<in> set os then None else map_of (g_sessions m) i)"
proof (induction os arbitrary: m)
  case (Cons j os)
  { case 1 show ?case by (simp add: Cons.IH(1)) }
  { case 2 show ?case by (simp add: Cons.IH(2) delete_conv') }
qed simp_all

lemma drop_orphans_spec:
  "g_tabs (drop_orphans m) = g_tabs m"
  "map_of (g_sessions (drop_orphans m)) i = (if i \<in> set (referenced m) then map_of (g_sessions m) i else None)"
proof -
  show "g_tabs (drop_orphans m) = g_tabs m" by (simp add: drop_orphans_def Let_def orphans_removed(1))
  have "i \<notin> fst ` set (g_sessions m) \<Longrightarrow> map_of (g_sessions m) i = None" by (simp add: map_of_eq_None_iff)
  then show "map_of (g_sessions (drop_orphans m)) i = (if i \<in> set (referenced m) then map_of (g_sessions m) i else None)"
    unfolding drop_orphans_def Let_def orphans_removed(2) by auto
qed

lemma referenced_shown:
  assumes "distinct (map fst (g_tabs m))" shows "x \<in> set (referenced m) \<longleftrightarrow> (\<exists>i. x \<in> shown (g_tabs m) i)"
proof
  assume "x \<in> set (referenced m)"
  then obtain i t where "(i, t) \<in> set (g_tabs m)" "x \<in> set (SessionIDs (tab_Layout t))" by (auto simp: referenced_def)
  with assms show "\<exists>i. x \<in> shown (g_tabs m) i" by (intro exI [of _ i]) (simp add: shown_def)
qed (use shown_referenced [OF assms] in blast)

section \<open>Saved and loaded\<close>

text \<open>What a session is after a restart of the server without a handoff.\<close>

definition reloaded :: "SessionManager \<Rightarrow> Session \<Rightarrow> Session \<Rightarrow> bool" where
  "reloaded m s s' \<longleftrightarrow> Meta s' = Meta s \<and> \<not> s_Alive s' \<and> s_pid s' = 0 \<and> s_pty s' = NoPty \<and> s_clients s' = [] \<and> vt_wf (s_term s')
     \<and> ring_ok (s_scrollback s')
     \<and> (s_Alive s \<longrightarrow> ring_content (s_scrollback s') = lastn (nat (scrollbackBytes m)) (ring_content (s_scrollback s)))"

definition loadable :: "SessionManager \<Rightarrow> bool" where
  "loadable m \<longleftrightarrow> list_all (\<lambda>(i, s). plain_id i \<and> s_Cols s \<noteq> 1) (g_sessions m)"

lemma Meta_simps: "m_ID (Meta s) = s_ID s" "m_Cols (Meta s) = s_Cols s" "m_LastActive (Meta s) = s_LastActive s"
  "Meta (restored_session (Meta s) r t) = Meta s"
  by (simp_all add: Meta_def restored_session_def)

lemma distinct_fst_map: "distinct (map fst (map (\<lambda>(i, s). (i, f s)) xs)) = distinct (map fst xs)"
proof -
  have "map fst (map (\<lambda>(i, s). (i, f s)) xs) = map fst xs" by (induction xs) auto
  then show ?thesis by (simp only:)
qed

lemma SaveState_files:
  assumes m: "registry_ok m" "loadable m" and w: "w_canWrite w = (\<lambda>p. True)" and d: "HasPrefix (g_dataDir m) ''/''"
  shows "wp (SaveState w m) (\<lambda>m1. same_ground (m\<lparr>g_disk := g_disk m1\<rparr>) m1 \<and> g_state m1 = Some \<lparr>st_Sessions = map (\<lambda>(i, s). (i, Meta s)) (g_sessions m), st_Tabs = g_tabs m\<rparr>
    \<and> (\<forall>i s. map_of (g_sessions m) i = Some s \<longrightarrow> s_Alive s \<longrightarrow> map_of (g_disk m1) (scrollbackPath m i) = Some (ring_content (s_scrollback s))))"
proof -
  have ok: "list_all (\<lambda>(i, s). plain_id i \<and> ring_ok (s_scrollback s)) (g_sessions m)" "distinct (map fst (g_sessions m))"
    using m by (auto simp: registry_ok_def sess_inv_iff loadable_def list_all_iff)
  have p: "map_of (g_sessions m) i = Some s \<Longrightarrow> plain_id i" for i s
    using m(2) map_of_SomeD [of "g_sessions m" i s] by (auto simp: loadable_def list_all_iff)
  show ?thesis unfolding SaveState_def
  proof (rule wp_bindI [OF save_rings_content [OF d w ok(2,1), of "g_disk m"]])
    fix disk assume a: "\<forall>i. plain_id i \<longrightarrow> map_of disk (scrollbackPath m i)
      = (case map_of (g_sessions m) i of Some s \<Rightarrow> if s_Alive s then Some (ring_content (s_scrollback s)) else map_of (g_disk m) (scrollbackPath m i)
         | None \<Rightarrow> map_of (g_disk m) (scrollbackPath m i))"
    show "wp (Some (m\<lparr>g_disk := disk, g_state := (if w_canWrite w (stateFilePath m)
         then Some \<lparr>st_Sessions = map (\<lambda>(i, s). (i, Meta s)) (g_sessions m), st_Tabs = g_tabs m\<rparr> else g_state m)\<rparr>))
      (\<lambda>m1. same_ground (m\<lparr>g_disk := g_disk m1\<rparr>) m1 \<and> g_state m1 = Some \<lparr>st_Sessions = map (\<lambda>(i, s). (i, Meta s)) (g_sessions m), st_Tabs = g_tabs m\<rparr>
    \<and> (\<forall>i s. map_of (g_sessions m) i = Some s \<longrightarrow> s_Alive s \<longrightarrow> map_of (g_disk m1) (scrollbackPath m i) = Some (ring_content (s_scrollback s))))"
      using a p by (simp add: w same_ground_def)
  qed
qed


lemma restored_reloaded:
  assumes "loaded_ring m1 i ring" "vt_wf t" "scrollbackPath m1 i = scrollbackPath m i" "scrollbackBytes m1 = scrollbackBytes m"
    "s_Alive s \<longrightarrow> map_of (g_disk m1) (scrollbackPath m i) = Some (ring_content (s_scrollback s))"
  shows "reloaded m s (restored_session (Meta s) ring t)"
  using assms by (auto simp: reloaded_def Meta_simps loaded_ring_def) (simp_all add: restored_session_def)

lemma same_shown:
  "(\<And>i. map_of ts i = map_of ts' i) \<Longrightarrow> shown ts = shown ts'"
  by (simp add: shown_def fun_eq_iff)

lemma map_of_Meta: "map_of (map (\<lambda>(i, s). (i, Meta s)) xs) i = map_option Meta (map_of xs i)"
  by (induction xs) auto

lemma loaded_distinct: "distinct (map fst (g_tabs m)) \<Longrightarrow> distinct (map fst (g_tabs (fold (load_tab w) ts m)))"
proof (induction ts arbitrary: m)
  case (Cons p ts)
  have "distinct (map fst (g_tabs (load_tab w p m)))"
    using Cons.prems by (cases p) (simp add: load_tab_def put_tab_def distinct_update)
  then show ?case by (simp add: Cons.IH)
qed simp

lemma LoadState_spec:
  assumes m: "registry_ok m" "loadable m" "c_CleanupAfterDays (g_cfg m) \<le> 0"
    and m1: "g_sessions m1 = []" "g_tabs m1 = []" "g_cfg m1 = g_cfg m" "g_dataDir m1 = g_dataDir m"
      "g_state m1 = Some \<lparr>st_Sessions = map (\<lambda>(i, s). (i, Meta s)) (g_sessions m), st_Tabs = g_tabs m\<rparr>"
    and d: "\<And>i s. map_of (g_sessions m) i = Some s \<Longrightarrow> s_Alive s \<Longrightarrow> map_of (g_disk m1) (scrollbackPath m i) = Some (ring_content (s_scrollback s))"
  shows "wp (LoadState w m1) (\<lambda>m2. \<forall>i. map_of (g_tabs m2) i = map_of (g_tabs m) i \<and>
    (case map_of (g_sessions m2) i of None \<Rightarrow> map_of (g_sessions m) i = None \<or> i \<notin> set (referenced m)
     | Some s' \<Rightarrow> \<exists>s. map_of (g_sessions m) i = Some s \<and> i \<in> set (referenced m) \<and> reloaded m s s'))"
proof -
  have dist: "distinct (map fst (g_sessions m))" "distinct (map fst (g_tabs m))"
    using m(1) by (auto simp: registry_ok_def sess_inv_iff tabs_inv_def)
  have paths: "scrollbackPath m1 = scrollbackPath m" "scrollbackBytes m1 = scrollbackBytes m"
    by (simp_all add: scrollbackPath_def scrollbackBytes_def m1 fun_eq_iff)
  have ne: "\<not> expired w m' t" if "g_cfg m' = g_cfg m" for m' t
    using m(3) that by (simp add: expired_def cutoff_def)
  have ms: "list_all (\<lambda>(i, meta). \<not> expired w m1 (m_LastActive meta) \<and> m_Cols meta \<noteq> 1) (map (\<lambda>(i, s). (i, Meta s)) (g_sessions m))"
    using m(2) ne [OF m1(3)] by (auto simp: loadable_def list_all_iff Meta_simps)
  let ?st = "\<lparr>st_Sessions = map (\<lambda>(i, s). (i, Meta s)) (g_sessions m), st_Tabs = g_tabs m\<rparr>"
  have r: "LoadState w m1 = run (load_session w) (map (\<lambda>(i, s). (i, Meta s)) (g_sessions m)) m1
     \<bind> (\<lambda>m'. Some (drop_orphans (fold (load_tab w) (g_tabs m) m')))"
    by (simp add: LoadState_def m1(5))
  show ?thesis unfolding r
  proof (rule wp_bindI [OF load_sessions [OF _ ms]], goal_cases)
    case 1 show ?case unfolding distinct_fst_map by (rule dist(1))
  next
    case (2 m')
    then have g: "same_ground m1 m'" and t0: "g_tabs m' = []"
      and s: "\<And>i. case map_of (map (\<lambda>(i, s). (i, Meta s)) (g_sessions m)) i of None \<Rightarrow> map_of (g_sessions m') i = map_of (g_sessions m1) i
       | Some meta \<Rightarrow> \<exists>ring t. map_of (g_sessions m') i = Some (restored_session meta ring t) \<and> loaded_ring m1 i ring \<and> vt_wf t"
      using m1(2) by auto
    let ?m = "fold (load_tab w) (g_tabs m) m'"
    have l: "g_sessions ?m = g_sessions m'" "\<And>i. map_of (g_tabs ?m) i = map_of (g_tabs m) i"
      using load_tabs [OF dist(2), of w m'] ne [of m'] g m1(3) t0 by (auto simp: same_ground_def list_all_iff split: option.splits)
    have dt: "distinct (map fst (g_tabs ?m))" using loaded_distinct [of m'] t0 by simp
    have ref: "i \<in> set (referenced ?m) \<longleftrightarrow> i \<in> set (referenced m)" for i
      by (simp add: referenced_shown dt dist(2) same_shown [of "g_tabs ?m", OF l(2)])
    show ?case
    proof (simp add: drop_orphans_spec l ref, intro allI conjI impI, goal_cases)
      case (1 i)
      show ?case
      proof (cases "map_of (g_sessions m) i")
        case (Some x)
        then show ?thesis using s [of i] restored_reloaded [OF _ _ fun_cong [OF paths(1)] paths(2)] d [of i x] 1
          by (auto simp: map_of_Meta)
      qed (use s [of i] m1(1) 1 in \<open>simp add: map_of_Meta\<close>)
    qed
  qed
qed

section \<open>The names of the files that are handed over\<close>

lemma ascii_itoa: "ascii (itoa n) = Itoa n"
proof -
  have "(of_char (char_of (unat b)) :: 8 word) = b" for b :: "8 word"
  proof -
    have "(of_char (char_of (unat b)) :: 8 word) = of_nat (of_char (char_of (unat b)))" by (simp only: of_nat_of_char)
    also have "\<dots> = b" using unsigned_less [of b, where 'a = nat] by (simp add: of_char_of)
    finally show ?thesis .
  qed
  then show ?thesis by (simp add: ascii_def itoa_def comp_def)
qed

lemma Atoi_Itoa:
  assumes "0 \<le> n" "n < 2 ^ 63" shows "Atoi (Itoa n) = Some n"
proof -
  obtain c r where c: "digits (nat n) = c # r" by (cases "digits (nat n)") simp_all
  then have d: "is_digit c" "list_all is_digit (c # r)" "digits_val (c # r) = n"
    using digits_are_digits [of "nat n"] digits_val_digits [of "nat n"] assms(1) by simp_all
  from d(1) have "c \<noteq> 0x2D" "c \<noteq> 0x2B" by (auto simp: is_digit_def)
  with d c assms show ?thesis by (simp add: Atoi_def Itoa_def Let_def)
qed

lemma Split_absent: "c \<notin> set s \<Longrightarrow> Split c s = [s]"
  by (induction s) auto

lemma Split_at: "c \<notin> set s \<Longrightarrow> Split c (s @ c # t) = s # Split c t"
  by (induction s) (auto split: list.splits)

lemma itoa_no_colon: "CHR '':'' \<notin> set (itoa n)"
proof
  assume "CHR '':'' \<in> set (itoa n)"
  then have "0x3a \<in> set (ascii (itoa n))" by (force simp: ascii_def)
  then have "0x3a \<in> set (digits (nat \<bar>n\<bar>))" by (auto simp: ascii_itoa Itoa_def split: if_splits)
  with digits_are_digits [of "nat \<bar>n\<bar>"] show False by (auto simp: list_all_iff is_digit_def)
qed

lemma Split_handoff: "plain_id i \<Longrightarrow> Split CHR '':'' (''pty:'' @ i @ '':'' @ itoa p) = [''pty'', i, itoa p]"
  using Split_at [of "CHR '':''" "''pty''" "i @ '':'' @ itoa p"] Split_at [of "CHR '':''" i "itoa p"]
  by (simp add: plain_id_def Split_absent itoa_no_colon)

definition handed :: "world \<Rightarrow> Session \<Rightarrow> bool" where
  "handed w s \<longleftrightarrow> s_Alive s \<and> s_pty s \<noteq> NoPty \<and> w_running w (s_pid s)"

text \<open>A session as the next incarnation takes it over from what it loaded.\<close>

definition taken_over :: "world \<Rightarrow> Session \<Rightarrow> Session \<Rightarrow> Session" where
  "taken_over w s old = AdoptSession w (Meta old) (s_pid s) (s_scrollback old) (s_term old)"

lemma adopt_one:
  assumes "plain_id (s_ID s)" "HandoffFile s = Some f" "0 < s_pid s" "s_pid s < 2 ^ 63"
  shows "fst (adopt_file w f a) = (case map_of (g_sessions (fst a)) (s_ID s) of None \<Rightarrow> fst a
    | Some old \<Rightarrow> if handed w s then put_session (s_ID s) (taken_over w s old) (fst a) else fst a)"
proof -
  obtain m n shut where a: "a = (m, n, shut)" by (cases a) auto
  have f: "f = ''pty:'' @ s_ID s @ '':'' @ itoa (s_pid s)" "s_Alive s" "s_pty s \<noteq> NoPty"
    using assms(2) by (auto simp: HandoffFile_def split: if_splits)
  have p: "Atoi (ascii (itoa (s_pid s))) = Some (s_pid s)"
    using assms(3,4) by (simp add: ascii_itoa Atoi_Itoa)
  show ?thesis unfolding a f(1) adopt_file_def prod.case Split_handoff [OF assms(1)] list.case p
    using f(2,3) assms(3) by (cases "map_of (g_sessions m) (s_ID s)") (simp_all add: handed_def taken_over_def)
qed

lemma adopt_none: "\<not> (\<exists>f. HandoffFile s = Some f) \<Longrightarrow> \<not> handed w s"
  by (auto simp: HandoffFile_def handed_def)

definition handable :: "(string \<times> Session) list \<Rightarrow> bool" where
  "handable ss \<longleftrightarrow> list_all (\<lambda>(i, s). plain_id i \<and> s_ID s = i \<and> (s_Alive s \<longrightarrow> 0 < s_pid s \<and> s_pid s < 2 ^ 63)) ss"

lemma adopt_all:
  assumes "distinct (map fst ss)" "handable ss"
  shows "g_tabs (fst (fold (adopt_file w) (List.map_filter (\<lambda>(i, s). HandoffFile s) ss) a)) = g_tabs (fst a) \<and>
    (\<forall>i. map_of (g_sessions (fst (fold (adopt_file w) (List.map_filter (\<lambda>(i, s). HandoffFile s) ss) a))) i
      = (case (map_of ss i, map_of (g_sessions (fst a)) i) of
          (Some s, Some old) \<Rightarrow> Some (if handed w s then taken_over w s old else old)
        | (_, x) \<Rightarrow> x))"
  using assms
proof (induction ss arbitrary: a)
  case Nil
  then show ?case by (simp add: List.map_filter_def)
next
  case (Cons q ss)
  obtain j s where q: "q = (j, s)" by (cases q)
  have nj: "map_of ss j = None" using Cons.prems(1) q by (simp add: map_of_eq_None_iff)
  have ih: "g_tabs (fst (fold (adopt_file w) (List.map_filter (\<lambda>(i, s). HandoffFile s) ss) b)) = g_tabs (fst b)"
    "map_of (g_sessions (fst (fold (adopt_file w) (List.map_filter (\<lambda>(i, s). HandoffFile s) ss) b))) i
      = (case (map_of ss i, map_of (g_sessions (fst b)) i) of
          (Some s, Some old) \<Rightarrow> Some (if handed w s then taken_over w s old else old)
        | (_, x) \<Rightarrow> x)" for b i
    using Cons.IH [of b] Cons.prems by (simp_all add: handable_def)
  show ?case
  proof (cases "HandoffFile s")
    case None
    then have e: "List.map_filter (\<lambda>(i, s). HandoffFile s) (q # ss) = List.map_filter (\<lambda>(i, s). HandoffFile s) ss"
      by (simp add: q List.map_filter_def)
    have "\<not> handed w s" using None adopt_none by auto
    then show ?thesis unfolding e by (auto simp: ih q nj split: option.splits)
  next
    case (Some f)
    then have e: "List.map_filter (\<lambda>(i, s). HandoffFile s) (q # ss) = f # List.map_filter (\<lambda>(i, s). HandoffFile s) ss"
      by (simp add: q List.map_filter_def)
    have al: "s_Alive s" using Some by (auto simp: HandoffFile_def split: if_splits)
    with Cons.prems(2) q have j: "plain_id (s_ID s)" "s_ID s = j" "0 < s_pid s" "s_pid s < 2 ^ 63" by (auto simp: handable_def)
    let ?b = "adopt_file w f a"
    have b: "fst ?b = (case map_of (g_sessions (fst a)) j of None \<Rightarrow> fst a
      | Some old \<Rightarrow> if handed w s then put_session j (taken_over w s old) (fst a) else fst a)"
      using adopt_one [OF j(1) Some j(3,4)] unfolding j(2) .
    have bt: "g_tabs (fst ?b) = g_tabs (fst a)" unfolding b by (simp add: put_session_def split: option.split)
    have bs: "map_of (g_sessions (fst ?b)) i = (if i = j
        then map_option (\<lambda>old. if handed w s then taken_over w s old else old) (map_of (g_sessions (fst a)) i)
        else map_of (g_sessions (fst a)) i)" for i
      unfolding b by (simp add: put_session_def update_conv' split: option.split)
    show ?thesis unfolding e
    proof (intro conjI allI)
      show "g_tabs (fst (fold (adopt_file w) (f # List.map_filter (\<lambda>(i, s). HandoffFile s) ss) a)) = g_tabs (fst a)"
        by (simp add: ih(1) bt)
      fix i
      show "map_of (g_sessions (fst (fold (adopt_file w) (f # List.map_filter (\<lambda>(i, s). HandoffFile s) ss) a))) i
        = (case (map_of (q # ss) i, map_of (g_sessions (fst a)) i) of
          (Some s, Some old) \<Rightarrow> Some (if handed w s then taken_over w s old else old) | (_, x) \<Rightarrow> x)"
        using nj by (simp add: ih(2) bs q split: option.split)
    qed
  qed
qed


section \<open>The two ways to restart\<close>

lemma restart_ground:
  assumes "same_ground (m\<lparr>g_disk := g_disk m1\<rparr>) m1" "Join (w_home w') ''.termulaa'' = g_dataDir m"
  shows "g_cfg (NewSessionManager w' (g_cfg m) h (g_disk m1) st) = g_cfg m"
    "g_dataDir (NewSessionManager w' (g_cfg m) h (g_disk m1) st) = g_dataDir m"
    "g_sessions (NewSessionManager w' (g_cfg m) h (g_disk m1) st) = []"
    "g_tabs (NewSessionManager w' (g_cfg m) h (g_disk m1) st) = []"
    "g_state (NewSessionManager w' (g_cfg m) h (g_disk m1) st) = st"
    "g_disk (NewSessionManager w' (g_cfg m) h (g_disk m1) st) = g_disk m1"
  using assms by (simp_all add: NewSessionManager_def)

lemma save_and_load:
  assumes "registry_ok m" "loadable m" "c_CleanupAfterDays (g_cfg m) \<le> 0" "w_canWrite w = (\<lambda>p. True)"
    "HasPrefix (g_dataDir m) ''/''" "Join (w_home w') ''.termulaa'' = g_dataDir m"
  shows "\<exists>m1 m2. SaveState w m = Some m1 \<and> g_sessions m1 = g_sessions m
    \<and> LoadState w' (NewSessionManager w' (g_cfg m) h (g_disk m1) (g_state m1)) = Some m2
    \<and> (\<forall>i. map_of (g_tabs m2) i = map_of (g_tabs m) i)
    \<and> (\<forall>i. case map_of (g_sessions m2) i of None \<Rightarrow> map_of (g_sessions m) i = None \<or> i \<notin> set (referenced m)
        | Some s' \<Rightarrow> \<exists>s. map_of (g_sessions m) i = Some s \<and> i \<in> set (referenced m) \<and> reloaded m s s')"
proof -
  obtain m1 where m1: "SaveState w m = Some m1" and g: "same_ground (m\<lparr>g_disk := g_disk m1\<rparr>) m1"
    and s: "g_state m1 = Some \<lparr>st_Sessions = map (\<lambda>(i, s). (i, Meta s)) (g_sessions m), st_Tabs = g_tabs m\<rparr>"
    and d: "\<And>i s. map_of (g_sessions m) i = Some s \<Longrightarrow> s_Alive s \<Longrightarrow> map_of (g_disk m1) (scrollbackPath m i) = Some (ring_content (s_scrollback s))"
    using SaveState_files [OF assms(1,2,4,5)] by (auto simp: wp_ex)
  have k: "g_sessions m1 = g_sessions m" using m1 by (auto simp: SaveState_def split: Option.bind_splits)
  let ?n = "NewSessionManager w' (g_cfg m) h (g_disk m1) (g_state m1)"
  have ng: "g_sessions ?n = []" "g_tabs ?n = []" "g_cfg ?n = g_cfg m" "g_dataDir ?n = g_dataDir m" "g_disk ?n = g_disk m1"
    "g_state ?n = Some \<lparr>st_Sessions = map (\<lambda>(i, s). (i, Meta s)) (g_sessions m), st_Tabs = g_tabs m\<rparr>"
    using restart_ground [OF g assms(6)] s by simp_all
  from LoadState_spec [OF assms(1-3) ng(1-4) ng(6), of w'] d ng(5) obtain m2 where "LoadState w' ?n = Some m2"
    and "\<forall>i. map_of (g_tabs m2) i = map_of (g_tabs m) i \<and>
    (case map_of (g_sessions m2) i of None \<Rightarrow> map_of (g_sessions m) i = None \<or> i \<notin> set (referenced m)
     | Some s' \<Rightarrow> \<exists>s. map_of (g_sessions m) i = Some s \<and> i \<in> set (referenced m) \<and> reloaded m s s')"
    by (auto simp: wp_ex)
  with m1 k show ?thesis by blast
qed


lemma demo_savable:
  "loadable demo_state" "c_CleanupAfterDays (g_cfg demo_state) \<le> 0" "w_canWrite demo_world = (\<lambda>p. True)"
  "HasPrefix (g_dataDir demo_state) ''/''" "Join (w_home demo_world) ''.termulaa'' = g_dataDir demo_state" "handable (g_sessions demo_state)"
proof -
  show "w_canWrite demo_world = (\<lambda>p. True)" by (simp add: demo_world_def)
  show "loadable demo_state" by code_simp
  show "c_CleanupAfterDays (g_cfg demo_state) \<le> 0" by code_simp
  show "HasPrefix (g_dataDir demo_state) ''/''" by code_simp
  show "Join (w_home demo_world) ''.termulaa'' = g_dataDir demo_state" by code_simp
  show "handable (g_sessions demo_state)" by code_simp
qed


lemma taken_over_simps:
  "s_Alive (taken_over w s old)" "s_pid (taken_over w s old) = s_pid s" "s_pty (taken_over w s old) = OpenPty"
  "s_scrollback (taken_over w s old) = s_scrollback old" "s_term (taken_over w s old) = s_term old"
  "Meta (taken_over w s old) = (Meta old)\<lparr>m_ExitCode := 0, m_LastActive := w_now w\<rparr>"
  by (simp_all add: taken_over_def AdoptSession_def Meta_def)



end
