(* ===== verification/Security.thy ===== *)
theory Security
  imports Persistence
begin

text \<open>
  The checks of \<open>src/cmd/termulaa/main.go\<close> and \<open>handler.go\<close> that stand before every handler: the
  hosts and origins a request may name, the shape of identifiers and of a forwarded prefix, and the
  settings the server starts with. A response is built by passing the \<open>http.ResponseWriter\<close> along; the
  handler behind the middleware is an argument over an arbitrary server state.
\<close>

section \<open>Requests and responses\<close>

record request =
  rq_Method :: string
  rq_Host :: string
  rq_Header :: "(string \<times> string) list"

record response =
  rs_code :: "int option"
  rs_Header :: "(string \<times> string) list"
  rs_body :: string

definition Header_Get :: "request \<Rightarrow> string \<Rightarrow> string" where
  "Header_Get r k = (case map_of (rq_Header r) k of None \<Rightarrow> '''' | Some v \<Rightarrow> v)"

definition Header_Set :: "string \<Rightarrow> string \<Rightarrow> response \<Rightarrow> response" where
  "Header_Set k v w = w\<lparr>rs_Header := AList.update k v (rs_Header w)\<rparr>"

text \<open>Only the first \<open>WriteHeader\<close> of a response counts.\<close>

definition WriteHeader :: "int \<Rightarrow> response \<Rightarrow> response" where
  "WriteHeader c w = (if rs_code w = None then w\<lparr>rs_code := Some c\<rparr> else w)"

definition Error :: "string \<Rightarrow> int \<Rightarrow> response \<Rightarrow> response" where
  "Error msg c w = (WriteHeader c (Header_Set ''X-Content-Type-Options'' ''nosniff''
     (Header_Set ''Content-Type'' ''text/plain; charset=utf-8'' w)))\<lparr>rs_body := rs_body w @ msg @ [CHR 0x0a]\<rparr>"

section \<open>Hosts and origins\<close>

definition allowedHosts :: "int \<Rightarrow> string list" where
  "allowedHosts port = map (\<lambda>h. h @ '':'' @ itoa port) [''127.0.0.1'', ''localhost'', ''[::1]'']"

definition allowedOrigins :: "int \<Rightarrow> string list" where
  "allowedOrigins port = map (\<lambda>h. ''http://'' @ h @ '':'' @ itoa port) [''127.0.0.1'', ''localhost'', ''[::1]'']"

definition isOriginAllowed :: "int \<Rightarrow> string \<Rightarrow> bool" where
  "isOriginAllowed port orig \<longleftrightarrow> orig = '''' \<or> orig \<in> set (allowedOrigins port)"

definition base_headers :: "string \<Rightarrow> response \<Rightarrow> response" where
  "base_headers orig w =
    (let w = Header_Set ''Referrer-Policy'' ''no-referrer'' (Header_Set ''X-Frame-Options'' ''DENY''
           (Header_Set ''X-Content-Type-Options'' ''nosniff'' w));
         w = (if orig \<noteq> '''' then Header_Set ''Vary'' ''Origin'' (Header_Set ''Access-Control-Allow-Credentials'' ''true''
           (Header_Set ''Access-Control-Allow-Origin'' orig w)) else w)
     in Header_Set ''Access-Control-Allow-Methods'' ''GET, POST, PUT, DELETE, OPTIONS''
          (Header_Set ''Access-Control-Allow-Headers'' ''Content-Type'' w))"

definition securityMiddleware :: "int \<Rightarrow> (request \<Rightarrow> 's \<times> response \<Rightarrow> 's \<times> response) \<Rightarrow> request \<Rightarrow> 's \<times> response \<Rightarrow> 's \<times> response" where
  "securityMiddleware port handler r sw = (case sw of (s, w) \<Rightarrow>
    if rq_Host r \<notin> set (allowedHosts port) then (s, Error ''invalid host'' 421 w)
    else let orig = Header_Get r ''Origin'' in
      if \<not> isOriginAllowed port orig then (s, Error ''origin not allowed'' 403 w)
      else let w = base_headers orig w in
        if rq_Method r = ''OPTIONS'' then (s, WriteHeader 204 w) else handler r (s, w))"

section \<open>Identifiers and prefixes\<close>

definition id_char :: "char \<Rightarrow> bool" where
  "id_char c \<longleftrightarrow> in_class CHR ''A'' CHR ''Z'' c \<or> in_class CHR ''a'' CHR ''z'' c \<or> in_class CHR ''0'' CHR ''9'' c
     \<or> c = CHR ''_'' \<or> c = CHR ''-''"

definition isValidID :: "string \<Rightarrow> bool" where
  "isValidID s \<longleftrightarrow> 1 \<le> length s \<and> length s \<le> 64 \<and> list_all id_char s"

definition maxForwardedPrefixLen :: nat where "maxForwardedPrefixLen = 256"

definition segment_char :: "char \<Rightarrow> bool" where
  "segment_char c \<longleftrightarrow> id_char c \<or> c = CHR ''.'' \<or> c = CHR ''~''"

definition sanitizePrefix :: "string \<Rightarrow> string" where
  "sanitizePrefix p =
    (if p = '''' \<or> length p > maxForwardedPrefixLen then ''''
     else if \<not> HasPrefix p ''/'' \<or> HasSuffix p ''/'' then ''''
     else if list_all (\<lambda>seg. seg \<noteq> '''' \<and> list_all segment_char seg \<and> Trim seg CHR ''.'' \<noteq> '''') (Split CHR ''/'' (tl p)) then p
     else '''')"

text \<open>\<open>html.EscapeString\<close>, and \<open>bytes.Replace\<close> of the first occurrence.\<close>

definition escape_char :: "char \<Rightarrow> string" where
  "escape_char c = (if c = CHR ''&'' then ''&amp;'' else if c = CHR 0x27 then ''&#39;'' else if c = CHR ''<'' then ''&lt;''
     else if c = CHR ''>'' then ''&gt;'' else if c = CHR 0x22 then ''&#34;'' else [c])"

definition EscapeString :: "string \<Rightarrow> string" where
  "EscapeString s = concat (map escape_char s)"

fun Replace_one :: "string \<Rightarrow> string \<Rightarrow> string \<Rightarrow> string" where
  "Replace_one old new s = (if HasPrefix s old then new @ drop (length old) s
     else (case s of [] \<Rightarrow> [] | x # t \<Rightarrow> x # Replace_one old new t))"

declare Replace_one.simps [simp del]

definition base_tag :: "string \<Rightarrow> string" where
  "base_tag p = ''<base href='' @ [CHR 0x22] @ p @ ''/'' @ [CHR 0x22] @ ''>''"

definition basePlaceholder :: string where "basePlaceholder = base_tag ''''"

definition setCSP :: "response \<Rightarrow> response" where
  "setCSP w = Header_Set ''Content-Security-Policy''
     (concat [''default-src 'self'; '', ''script-src 'self' 'unsafe-eval' 'unsafe-inline'; '', ''style-src 'self' 'unsafe-inline'; '',
        ''img-src 'self' data: blob:; '', ''font-src 'self' data:; '', ''connect-src 'self' ws:; '', ''object-src 'none'; '',
        ''base-uri 'self'; '', ''frame-ancestors 'none'' @ [CHR 0x27]]) w"

text \<open>The embedded file is an argument: \<open>None\<close> when it does not exist.\<close>

definition serveUIPage :: "string option \<Rightarrow> string \<Rightarrow> request \<Rightarrow> response \<Rightarrow> response" where
  "serveUIPage embedded file r w =
    (case embedded of None \<Rightarrow> Error (file @ '' not found'') 500 w
     | Some d \<Rightarrow>
         let prefix = sanitizePrefix (Header_Get r ''X-Forwarded-Prefix'');
             d = (if prefix \<noteq> '''' then Replace_one basePlaceholder (base_tag (EscapeString prefix)) d else d);
             w = Header_Set ''Content-Type'' ''text/html; charset=utf-8'' (setCSP w)
         in (WriteHeader 200 w)\<lparr>rs_body := rs_body w @ d\<rparr>)"

section \<open>Settings\<close>

record FullConfig =
  fc_Port :: int
  fc_Shell :: string
  fc_DeleteOnClose :: bool
  fc_CleanupAfterDays :: int
  fc_ScrollbackLimit :: string
  fc_HistoryLimit :: int
  fc_DefaultCols :: int
  fc_DefaultRows :: int
  fc_CWDPollInterval :: string
  fc_SavePeriod :: string
  fc_Theme :: string
  fc_FontFamily :: string
  fc_FontSize :: int

definition defaultFullConfig :: FullConfig where
  "defaultFullConfig = \<lparr>fc_Port = 17380, fc_Shell = '''', fc_DeleteOnClose = False, fc_CleanupAfterDays = 30,
     fc_ScrollbackLimit = ''1MB'', fc_HistoryLimit = 10000, fc_DefaultCols = 120, fc_DefaultRows = 30,
     fc_CWDPollInterval = ''5s'', fc_SavePeriod = ''5s'', fc_Theme = ''dark'',
     fc_FontFamily = [CHR 0x27] @ ''JetBrains Mono'' @ [CHR 0x27] @ '', monospace'', fc_FontSize = 14\<rparr>"

text \<open>The second half of \<open>loadFullConfig\<close>, on the settings decoded from the file.\<close>

definition fill_defaults :: "FullConfig \<Rightarrow> FullConfig" where
  "fill_defaults cfg =
    (let def = defaultFullConfig;
         cfg = (if fc_Port cfg = 0 then cfg\<lparr>fc_Port := fc_Port def\<rparr> else cfg);
         cfg = (if fc_ScrollbackLimit cfg = '''' then cfg\<lparr>fc_ScrollbackLimit := fc_ScrollbackLimit def\<rparr> else cfg);
         cfg = (if fc_DefaultCols cfg = 0 then cfg\<lparr>fc_DefaultCols := fc_DefaultCols def\<rparr> else cfg);
         cfg = (if fc_DefaultRows cfg = 0 then cfg\<lparr>fc_DefaultRows := fc_DefaultRows def\<rparr> else cfg);
         cfg = (if fc_CWDPollInterval cfg = '''' then cfg\<lparr>fc_CWDPollInterval := fc_CWDPollInterval def\<rparr> else cfg);
         cfg = (if fc_SavePeriod cfg = '''' then cfg\<lparr>fc_SavePeriod := fc_SavePeriod def\<rparr> else cfg)
     in if fc_FontSize cfg = 0 then cfg\<lparr>fc_FontSize := fc_FontSize def\<rparr> else cfg)"

text \<open>\<open>fmt.Sscanf(s, "%d", &n)\<close> with \<open>n\<close> zero before: a sign and digits at the start of the text; a syntax
  error and a value outside 64 bits leave zero.\<close>

definition Sscanf_d :: "string \<Rightarrow> int" where
  "Sscanf_d s =
    (let k = (case s of c # _ \<Rightarrow> if c = CHR ''+'' \<or> c = CHR ''-'' then 1 else 0 | [] \<Rightarrow> 0);
         tok = take k s @ takeWhile (in_class CHR ''0'' CHR ''9'') (drop k s)
     in case Atoi (ascii tok) of Some v \<Rightarrow> v | None \<Rightarrow> 0)"

definition int64 :: "int \<Rightarrow> int" where
  "int64 n = sint (word_of_int n :: 64 word)"

definition parseByteSize :: "string \<Rightarrow> int" where
  "parseByteSize s =
    (let s = TrimSpace s in
     if s = '''' \<or> s = ''0'' then 0
     else let up = ToUpper s;
              (multiplier, numStr) =
                (if HasSuffix up ''MB'' then (1024 * 1024, take (length s - 2) s)
                 else if HasSuffix up ''KB'' then (1024, take (length s - 2) s)
                 else (1, s));
              n = Sscanf_d (TrimSpace numStr)
          in if n \<le> 0 then 1024 * 1024 else int64 (n * multiplier))"

text \<open>\<open>time.ParseDuration\<close> is an argument; only whether it fails matters.\<close>

definition parseDuration :: "(string \<Rightarrow> int option) \<Rightarrow> string \<Rightarrow> int \<Rightarrow> int" where
  "parseDuration dur s fallback = (case dur s of None \<Rightarrow> fallback | Some d \<Rightarrow> d)"

definition mgr_config :: "(string \<Rightarrow> int option) \<Rightarrow> FullConfig \<Rightarrow> Config" where
  "mgr_config dur cfg =
    (let bytes = parseByteSize (fc_ScrollbackLimit cfg);
         bytes = (if bytes \<le> 0 then parseByteSize (fc_ScrollbackLimit defaultFullConfig) else bytes)
     in \<lparr>c_Port = fc_Port cfg, c_Shell = fc_Shell cfg, c_DeleteOnClose = fc_DeleteOnClose cfg,
         c_CleanupAfterDays = fc_CleanupAfterDays cfg, c_ScrollbackBytes = bytes, c_HistoryLimit = fc_HistoryLimit cfg,
         c_DefaultCols = fc_DefaultCols cfg, c_DefaultRows = fc_DefaultRows cfg,
         c_CWDPollInterval = parseDuration dur (fc_CWDPollInterval cfg) 5000000000,
         c_SavePeriod = parseDuration dur (fc_SavePeriod cfg) 5000000000\<rparr>)"

section \<open>Starting and handing over\<close>

text \<open>\<open>handoffFiles\<close>: the listener, if there is one, and the terminals; the next process tells them apart by
  their names.\<close>

definition handoffFiles :: "world \<Rightarrow> bool \<Rightarrow> SessionManager \<Rightarrow> (SessionManager \<times> string list) option" where
  "handoffFiles w listening m = do {
     (m, files) \<leftarrow> HandoffFiles w m;
     Some (m, (if listening then [''listener''] else []) @ files)
   }"

definition split_inherited :: "string list \<Rightarrow> bool \<times> string list" where
  "split_inherited names = (''listener'' \<in> set names, filter (\<lambda>n. n \<noteq> ''listener'') names)"

definition drainForRestart :: "world \<Rightarrow> SessionManager \<Rightarrow> SessionManager option" where
  "drainForRestart w m = Pause w m"

text \<open>\<open>main\<close> from the settings to the address it listens on: the manager, whether the listener was
  inherited, the number of terminals adopted, the address.\<close>

definition startup :: "world \<Rightarrow> (string \<Rightarrow> int option) \<Rightarrow> FullConfig \<Rightarrow> int \<Rightarrow> clients_heap \<Rightarrow> (string \<times> bytes) list \<Rightarrow> stateFile option
    \<Rightarrow> string list \<Rightarrow> (SessionManager \<times> bool \<times> nat \<times> string) option" where
  "startup w dur cfg portFlag h files st names =
    (let cfg = (if portFlag \<noteq> 0 then cfg\<lparr>fc_Port := portFlag\<rparr> else cfg) in do {
       m \<leftarrow> LoadState w (NewSessionManager w (mgr_config dur cfg) h files st);
       let (inherited, ptys) = split_inherited names;
       let (m, adopted, shut) = Adopt w ptys m;
       Some (m, inherited, adopted, ''127.0.0.1:'' @ itoa (fc_Port cfg))
     })"

lemma HandoffFile_not_listener: "HandoffFile s \<noteq> Some ''listener''"
  by (simp add: HandoffFile_def)

lemma inherited_again:
  "HandoffFiles w m = Some (m', files) \<Longrightarrow> \<exists>names. handoffFiles w b m = Some (m', names) \<and> split_inherited names = (b, files)"
proof -
  assume a: "HandoffFiles w m = Some (m', files)"
  have "''listener'' \<notin> set (List.map_filter (\<lambda>(i, s). HandoffFile s) ss)" for ss
    using HandoffFile_not_listener by (auto simp: List.map_filter_def)
  then have "''listener'' \<notin> set files" using a by (auto simp: HandoffFiles_def split: Option.bind_splits)
  then have "filter (\<lambda>n. n \<noteq> ''listener'') files = files" by (auto intro!: filter_True)
  with a \<open>''listener'' \<notin> set files\<close> show ?thesis by (simp add: handoffFiles_def split_inherited_def)
qed

section \<open>What the checks accept\<close>

lemma in_class_simps:
  "in_class lo hi c \<longleftrightarrow> of_char lo \<le> (of_char c :: nat) \<and> (of_char c :: nat) \<le> of_char hi"
  by (simp add: in_class_def)

lemma id_char_simps [simp]:
  "\<not> id_char CHR ''/''" "\<not> id_char CHR '':''" "\<not> id_char CHR ''.''" "\<not> id_char CHR ''&''" "\<not> id_char CHR 0x27"
  "\<not> id_char CHR ''<''" "\<not> id_char CHR ''>''" "\<not> id_char CHR 0x22"
  by (simp_all add: id_char_def in_class_def)

lemma isValidID_plain: "isValidID i \<Longrightarrow> plain_id i"
  by (auto simp: isValidID_def plain_id_def list_all_iff)

lemma hex_id_char: "0 \<le> n \<Longrightarrow> n < 16 \<Longrightarrow> id_char (hex_digit n)"
proof -
  assume "0 \<le> n" "n < 16"
  then have "n \<in> set [0..15]" by simp
  moreover have "list_all (\<lambda>k. id_char (hex_digit k)) [0..15]"
    by (simp add: upto.simps hex_digit_def id_char_def in_class_def)
  ultimately show ?thesis by (simp only: list_all_iff)
qed

lemma HexEncode_ids: "length (HexEncode bs) = 2 * length bs" "list_all id_char (HexEncode bs)"
proof (induction bs)
  case (Cons b bs)
  have "0 \<le> uint b" "uint b < 256" using unsigned_less [of b, where 'a = int] by simp_all
  then have "uint b div 16 < 16" "0 \<le> uint b div 16" "uint b mod 16 < 16" "0 \<le> uint b mod 16" by presburger+
  { case 1 then show ?case using Cons.IH by (simp add: HexEncode_def) }
  { case 2 then show ?case using Cons.IH hex_id_char [OF \<open>0 \<le> uint b div 16\<close> \<open>uint b div 16 < 16\<close>] by (simp add: HexEncode_def hex_id_char) }
qed (simp_all add: HexEncode_def)

lemma generateID_valid: "length bs = 16 \<Longrightarrow> isValidID (generateID bs)"
  by (simp add: isValidID_def generateID_def HexEncode_ids)

lemma segment_plain:
  "segment_char c \<Longrightarrow> escape_char c = [c]" "escape_char CHR ''/'' = ''/''"
  "segment_char c \<Longrightarrow> c \<noteq> CHR 0x22 \<and> c \<noteq> CHR ''<'' \<and> c \<noteq> CHR ''>'' \<and> c \<noteq> CHR ''/''"
  by (auto simp: segment_char_def escape_char_def)

lemma clean_elems_plain:
  "list_all (\<lambda>e. e \<noteq> '''' \<and> e \<noteq> ''.'' \<and> e \<noteq> ''..'') es \<Longrightarrow> clean_elems rooted out es = out @ es"
  by (induction es arbitrary: out) auto

lemma Replace_one_split:
  "(Replace_one old new s = s \<and> \<not> (\<exists>a b. s = a @ old @ b)) \<or> (\<exists>a b. s = a @ old @ b \<and> Replace_one old new s = a @ new @ b)"
proof (induction s)
  case Nil
  then show ?case by (auto simp: Replace_one.simps HasPrefix_def)
next
  case (Cons x s)
  show ?case
  proof (cases "HasPrefix (x # s) old")
    case True
    then obtain b where "x # s = old @ b" by (auto simp: HasPrefix_iff)
    moreover have "Replace_one old new (x # s) = new @ drop (length old) (x # s)" using True by (simp add: Replace_one.simps)
    ultimately show ?thesis by (intro disjI2 exI [of _ "[]"] exI [of _ b]) simp
  next
    case False
    have "\<not> (\<exists>a b. x # s = a @ old @ b)" if "\<not> (\<exists>a b. s = a @ old @ b)"
    proof
      assume "\<exists>a b. x # s = a @ old @ b"
      then obtain a b where "x # s = a @ old @ b" by blast
      with False that show False by (cases a) (auto simp: HasPrefix_iff)
    qed
    moreover have "Replace_one old new (x # s) = x # Replace_one old new s" using False by (subst Replace_one.simps) simp
    ultimately show ?thesis using Cons by (metis append_Cons)
  qed
qed

lemma sanitizePrefix_cases:
  assumes "sanitizePrefix p \<noteq> ''''"
  shows "sanitizePrefix p = p" "HasPrefix p ''/''" "Clean p = p" "list_all (\<lambda>c. segment_char c \<or> c = CHR ''/'') p" "EscapeString p = p"
proof -
  from assms show e: "sanitizePrefix p = p" by (auto simp: sanitizePrefix_def split: if_splits)
  from assms show h: "HasPrefix p ''/''" by (auto simp: sanitizePrefix_def split: if_splits)
  then obtain q where q: "p = CHR ''/'' # q" by (auto simp: HasPrefix_iff)
  let ?es = "Split CHR ''/'' q"
  have segs: "list_all (\<lambda>seg. seg \<noteq> '''' \<and> list_all segment_char seg \<and> Trim seg CHR ''.'' \<noteq> '''') ?es"
    using assms q by (auto simp: sanitizePrefix_def split: if_splits)
  have "Trim ''.'' CHR ''.'' = ''''" "Trim ''..'' CHR ''.'' = ''''" by (simp_all add: Trim_def TrimRight_def)
  with segs have "list_all (\<lambda>e. e \<noteq> '''' \<and> e \<noteq> ''.'' \<and> e \<noteq> ''..'') ?es" by (auto simp: list_all_iff)
  then show "Clean p = p" by (simp add: Clean_def Let_def q clean_elems_plain Join_Split)
  have "list_all (\<lambda>c. segment_char c \<or> c = CHR ''/'') (Join_with CHR ''/'' es)" if "list_all (list_all segment_char) es" for es
    using that by (induction "CHR ''/''" es rule: Join_with.induct) (auto simp: list_all_iff)
  with segs have "list_all (\<lambda>c. segment_char c \<or> c = CHR ''/'') (Join_with CHR ''/'' ?es)" by (auto simp: list_all_iff)
  then show l: "list_all (\<lambda>c. segment_char c \<or> c = CHR ''/'') p" by (simp add: Join_Split q)
  have "concat (map escape_char s) = s" if "list_all (\<lambda>c. segment_char c \<or> c = CHR ''/'') s" for s
    using that by (induction s) (auto simp: segment_plain)
  with l show "EscapeString p = p" by (simp add: EscapeString_def)
qed

section \<open>Numbers in the settings\<close>

lemma is_digit_class: "is_digit b \<Longrightarrow> in_class CHR ''0'' CHR ''9'' (char_of (unat b))"
proof -
  assume "is_digit b"
  then have "48 \<le> unat b" "unat b \<le> 57" by (auto simp: is_digit_def word_le_nat_alt)
  then show ?thesis by (simp add: in_class_def of_char_of)
qed

lemma itoa_digits: "0 \<le> n \<Longrightarrow> itoa n \<noteq> '''' \<and> list_all (in_class CHR ''0'' CHR ''9'') (itoa n)"
  using digits_are_digits [of "nat n"] by (auto simp: itoa_def Itoa_def list_all_iff is_digit_class)

lemma digit_char_plain:
  "in_class CHR ''0'' CHR ''9'' c \<Longrightarrow> \<not> is_space c \<and> c \<noteq> CHR ''+'' \<and> c \<noteq> CHR ''-'' \<and> upper c = c"
  by (auto simp: in_class_def is_space_def upper_def)

lemma Sscanf_itoa:
  assumes "0 \<le> n" "n < 2 ^ 63"
  shows "Sscanf_d (itoa n) = n"
proof -
  have d: "itoa n \<noteq> ''''" "list_all (in_class CHR ''0'' CHR ''9'') (itoa n)" using itoa_digits [OF assms(1)] by simp_all
  then obtain c r where c: "itoa n = c # r" by (cases "itoa n") auto
  with d have "c \<noteq> CHR ''+''" "c \<noteq> CHR ''-''" by (auto dest: digit_char_plain)
  moreover have "takeWhile (in_class CHR ''0'' CHR ''9'') (itoa n) = itoa n" using d(2) by (simp add: takeWhile_eq_all_conv list_all_iff)
  ultimately have "Sscanf_d (itoa n) = (case Atoi (ascii (itoa n)) of Some v \<Rightarrow> v | None \<Rightarrow> 0)"
    using c by (simp add: Sscanf_d_def)
  then show ?thesis using assms by (simp add: ascii_itoa Atoi_Itoa)
qed

lemma TrimSpace_same: "s \<noteq> [] \<Longrightarrow> \<not> is_space (hd s) \<Longrightarrow> \<not> is_space (last s) \<Longrightarrow> TrimSpace s = s"
proof -
  assume s: "s \<noteq> []" "\<not> is_space (hd s)" "\<not> is_space (last s)"
  have "dropWhile is_space s = s" using s(1,2) by (cases s) simp_all
  moreover have "dropWhile is_space (rev s) = rev s" using s(1,3) by (cases s rule: rev_cases) simp_all
  ultimately show ?thesis by (simp add: TrimSpace_def)
qed

lemma itoa_ends: "0 \<le> n \<Longrightarrow> \<not> is_space (hd (itoa n)) \<and> \<not> is_space (last (itoa n))"
  using itoa_digits [of n] by (auto simp: list_all_iff digit_char_plain)

lemma int64_small: "0 \<le> n \<Longrightarrow> n < 2 ^ 63 \<Longrightarrow> int64 n = n"
  by (simp add: int64_def signed_of_int signed_take_bit_int_eq_self)

lemma ToUpper_itoa: "0 \<le> n \<Longrightarrow> ToUpper (itoa n) = itoa n"
  using itoa_digits [of n] by (auto simp: ToUpper_def list_all_iff digit_char_plain intro: map_idI)

lemma parse_unit:
  assumes "0 < n" "n < 2 ^ 43" "ToUpper u \<in> {''MB'', ''KB''}"
  shows "parseByteSize (itoa n @ u) = n * (if ToUpper u = ''MB'' then 1048576 else 1024)"
proof -
  have n: "itoa n \<noteq> []" "0 \<le> n" "n < 2 ^ 63" using assms(1,2) itoa_digits [of n] by auto
  have u: "length u = 2" using assms(3) by (auto simp: ToUpper_def dest: arg_cong [where f = length])
  have l: "u \<noteq> []" "\<not> is_space (last u)"
  proof -
    show "u \<noteq> []" using u by auto
    have "upper (last u) = last (ToUpper u)" using \<open>u \<noteq> []\<close> by (simp add: ToUpper_def last_map)
    also have "\<dots> = CHR ''B''" using assms(3) by auto
    finally show "\<not> is_space (last u)" by (auto simp: is_space_def upper_def in_class_def split: if_splits)
  qed
  have t: "TrimSpace (itoa n @ u) = itoa n @ u"
    using n l itoa_ends [OF n(2)] by (intro TrimSpace_same) simp_all
  have t2: "TrimSpace (itoa n) = itoa n" using n itoa_ends [OF n(2)] by (intro TrimSpace_same) simp_all
  have z: "itoa n @ u \<noteq> ''0''" using n(1) u by (auto dest: arg_cong [where f = length] simp: neq_Nil_conv)
  have up: "ToUpper (itoa n @ u) = itoa n @ ToUpper u" using ToUpper_itoa [OF n(2)] by (simp add: ToUpper_def)
  have sx: "HasSuffix (s @ v) w = (v = w)" if "length v = length w" for s v w
    using that by (simp add: HasSuffix_def)
  have s: "HasSuffix (itoa n @ ToUpper u) ''MB'' = (ToUpper u = ''MB'')" "HasSuffix (itoa n @ ToUpper u) ''KB'' = (ToUpper u = ''KB'')"
    using u by (simp_all add: sx ToUpper_def)
  have w: "int64 (n * 1048576) = n * 1048576" "int64 (n * 1024) = n * 1024" using assms(1,2) by (simp_all add: int64_small)
  show ?thesis
    unfolding parseByteSize_def Let_def t up s using n z u assms(1,3) by (auto simp: t2 Sscanf_itoa w)
qed

lemma parse_plain:
  assumes "0 < n" "n < 2 ^ 63"
  shows "parseByteSize (itoa n) = n"
proof -
  have n: "itoa n \<noteq> []" "0 \<le> n" "n < 2 ^ 63" using assms(1,2) itoa_digits [of n] by auto
  have t: "TrimSpace (itoa n) = itoa n" using n itoa_ends [OF n(2)] by (intro TrimSpace_same) simp_all
  have "last (itoa n) \<noteq> CHR ''B''" using itoa_digits [OF n(2)] by (auto simp: list_all_iff in_class_def dest!: last_in_set)
  moreover have "last s = CHR ''B''" if "HasSuffix s ''MB'' \<or> HasSuffix s ''KB''" for s
    using that by (auto simp: HasSuffix_def) (metis append_take_drop_id last_ConsL last_ConsR last_appendR list.distinct(1))+
  ultimately have s: "\<not> HasSuffix (itoa n) ''MB''" "\<not> HasSuffix (itoa n) ''KB''" by blast+
  have z: "itoa n \<noteq> ''0''"
  proof
    assume "itoa n = ''0''"
    with Sscanf_itoa [OF n(2,3)] have "Sscanf_d ''0'' = n" by simp
    moreover have "Sscanf_d ''0'' = 0" by code_simp
    ultimately show False using assms(1) by simp
  qed
  show ?thesis using n s z assms(1) by (simp add: parseByteSize_def t ToUpper_itoa Sscanf_itoa int64_small)
qed

section \<open>Properties\<close>

definition fresh_response :: response where
  "fresh_response = \<lparr>rs_code = None, rs_Header = [], rs_body = ''''\<rparr>"

lemma WriteHeader_code: "rs_code w = None \<Longrightarrow> rs_code (WriteHeader c w) = Some c"
  by (simp add: WriteHeader_def)

lemma Header_Set_simps [simp]:
  "rs_code (Header_Set k v w) = rs_code w" "rs_body (Header_Set k v w) = rs_body w"
  "map_of (rs_Header (Header_Set k v w)) x = (if x = k then Some v else map_of (rs_Header w) x)"
  by (auto simp: Header_Set_def update_conv')

text \<open>A process that inherits a listener keeps its port, and the hosts it accepts are those of the port in
  the settings: where the two differ every request is misdirected.\<close>

lemma inherited_port_is_refused:
  "itoa old \<noteq> itoa port \<Longrightarrow> rq_Host r = ''127.0.0.1:'' @ itoa old \<Longrightarrow>
    securityMiddleware port handler r (s, w) = (s, Error ''invalid host'' 421 w)"
  by (simp add: securityMiddleware_def allowedHosts_def)

lemma Error_code: "rs_code w = None \<Longrightarrow> rs_code (Error msg c w) = Some c"
  by (simp add: Error_def WriteHeader_code)

lemma base_headers_simps:
  "rs_code (base_headers orig w) = rs_code w" "rs_body (base_headers orig w) = rs_body w"
  "map_of (rs_Header (base_headers orig w)) ''X-Frame-Options'' = Some ''DENY''"
  "map_of (rs_Header (base_headers orig w)) ''X-Content-Type-Options'' = Some ''nosniff''"
  "map_of (rs_Header (base_headers orig w)) ''Access-Control-Allow-Origin''
    = (if orig \<noteq> '''' then Some orig else map_of (rs_Header w) ''Access-Control-Allow-Origin'')"
  by (simp_all add: base_headers_def Let_def)

text \<open>C13: A request reaches a handler only if its host is a loopback name at the server's own port and its
  origin, if it names one, is such a page; the response then carries the security headers and allows
  exactly that origin. Every other request is answered by the middleware and leaves the server as it was.\<close>

theorem middleware_blocks_foreign_requests:
  "(\<exists>w'. securityMiddleware port handler r (s, fresh_response) = (s, w') \<and> rs_code w' \<in> {Some 421, Some 403, Some 204})
   \<or> (rq_Host r \<in> {''127.0.0.1:'' @ itoa port, ''localhost:'' @ itoa port, ''[::1]:'' @ itoa port}
      \<and> Header_Get r ''Origin'' \<in> {'''', ''http://127.0.0.1:'' @ itoa port, ''http://localhost:'' @ itoa port, ''http://[::1]:'' @ itoa port}
      \<and> rq_Method r \<noteq> ''OPTIONS''
      \<and> (\<exists>w'. securityMiddleware port handler r (s, fresh_response) = handler r (s, w') \<and> rs_code w' = None \<and> rs_body w' = ''''
          \<and> map_of (rs_Header w') ''X-Frame-Options'' = Some ''DENY''
          \<and> map_of (rs_Header w') ''X-Content-Type-Options'' = Some ''nosniff''
          \<and> map_of (rs_Header w') ''Access-Control-Allow-Origin''
            = (if Header_Get r ''Origin'' = '''' then None else Some (Header_Get r ''Origin''))))"
proof -
  have f: "rs_code fresh_response = None" "rs_body fresh_response = ''''" "rs_Header fresh_response = []" by (simp_all add: fresh_response_def)
  consider (host) "rq_Host r \<notin> set (allowedHosts port)"
    | (origin) "rq_Host r \<in> set (allowedHosts port)" "\<not> isOriginAllowed port (Header_Get r ''Origin'')"
    | (preflight) "rq_Host r \<in> set (allowedHosts port)" "isOriginAllowed port (Header_Get r ''Origin'')" "rq_Method r = ''OPTIONS''"
    | (served) "rq_Host r \<in> set (allowedHosts port)" "isOriginAllowed port (Header_Get r ''Origin'')" "rq_Method r \<noteq> ''OPTIONS''" by blast
  then show ?thesis
  proof cases
    case host
    then show ?thesis by (simp add: securityMiddleware_def Error_code f)
  next
    case origin
    then show ?thesis by (simp add: securityMiddleware_def Error_code f)
  next
    case preflight
    then show ?thesis by (simp add: securityMiddleware_def Let_def WriteHeader_code base_headers_simps f)
  next
    case served
    then have "securityMiddleware port handler r (s, fresh_response) = handler r (s, base_headers (Header_Get r ''Origin'') fresh_response)"
      by (simp add: securityMiddleware_def Let_def)
    with served show ?thesis
      by (intro disjI2 conjI exI [of _ "base_headers (Header_Get r ''Origin'') fresh_response"])
        (auto simp: base_headers_simps f allowedHosts_def isOriginAllowed_def allowedOrigins_def)
  qed
qed

text \<open>A page is served as it is embedded, or with its base replaced by the forwarded prefix; then the
  prefix is a rooted path without empty, dot or dot-dot elements, made of characters that mean nothing
  in HTML, so it stays inside the attribute.\<close>

theorem served_page_changes_only_its_base:
  "rs_body (serveUIPage (Some page) file r fresh_response) = page
   \<or> (\<exists>a b p. page = a @ base_tag '''' @ b \<and> rs_body (serveUIPage (Some page) file r fresh_response) = a @ base_tag p @ b
       \<and> p = Header_Get r ''X-Forwarded-Prefix'' \<and> length p \<le> 256 \<and> HasPrefix p ''/'' \<and> Clean p = p
       \<and> list_all (\<lambda>c. segment_char c \<or> c = CHR ''/'') p)"
proof -
  let ?h = "Header_Get r ''X-Forwarded-Prefix''"
  have body: "rs_body (serveUIPage (Some page) file r fresh_response)
    = (if sanitizePrefix ?h = '''' then page else Replace_one basePlaceholder (base_tag (EscapeString (sanitizePrefix ?h))) page)"
    by (simp add: serveUIPage_def Let_def fresh_response_def WriteHeader_def setCSP_def)
  show ?thesis
  proof (cases "sanitizePrefix ?h = ''''")
    case False
    note p = sanitizePrefix_cases [OF False]
    have "length ?h \<le> 256" using False by (auto simp: sanitizePrefix_def maxForwardedPrefixLen_def split: if_splits)
    with p body False Replace_one_split [of basePlaceholder "base_tag ?h" page] show ?thesis
      unfolding basePlaceholder_def by auto
  qed (simp add: body)
qed

lemma default_limit: "parseByteSize (fc_ScrollbackLimit defaultFullConfig) = 1048576"
  by code_simp

text \<open>The scrollback limit in the settings means what it says: a number of megabytes, kilobytes or
  bytes is read back exactly, and whatever stands there the size used for a ring is positive.\<close>

theorem scrollback_limit_is_used:
  assumes "0 < n" "n < 2 ^ 43"
  shows "c_ScrollbackBytes (mgr_config dur (fill_defaults (cfg\<lparr>fc_ScrollbackLimit := itoa n @ ''MB''\<rparr>))) = n * 1048576
    \<and> c_ScrollbackBytes (mgr_config dur (fill_defaults (cfg\<lparr>fc_ScrollbackLimit := itoa n @ ''kb''\<rparr>))) = n * 1024
    \<and> c_ScrollbackBytes (mgr_config dur (fill_defaults (cfg\<lparr>fc_ScrollbackLimit := itoa n\<rparr>))) = n
    \<and> 0 < c_ScrollbackBytes (mgr_config dur cfg)"
proof -
  have f: "fc_ScrollbackLimit (fill_defaults c) = (if fc_ScrollbackLimit c = '''' then ''1MB'' else fc_ScrollbackLimit c)" for c
    by (simp add: fill_defaults_def defaultFullConfig_def Let_def)
  have s: "c_ScrollbackBytes (mgr_config dur c)
    = (if parseByteSize (fc_ScrollbackLimit c) \<le> 0 then 1048576 else parseByteSize (fc_ScrollbackLimit c))" for c
    by (simp add: mgr_config_def Let_def default_limit)
  have u: "ToUpper ''MB'' = ''MB''" "ToUpper ''kb'' = ''KB''" by code_simp+
  have n: "n < 2 ^ 63" "itoa n \<noteq> ''''" using assms itoa_digits [of n] by auto
  show ?thesis unfolding s f
    using assms n parse_unit [OF assms, of "''MB''"] parse_unit [OF assms, of "''kb''"] parse_plain [OF assms(1) n(1)] by (simp add: u)
qed

theorem scrollback_limit_is_used_witness:
  "c_ScrollbackBytes (mgr_config (\<lambda>s. None) (fill_defaults (defaultFullConfig\<lparr>fc_ScrollbackLimit := itoa 4 @ ''MB''\<rparr>))) = 4 * 1048576"
  using scrollback_limit_is_used [of 4 "\<lambda>s. None" defaultFullConfig] by simp

text \<open>A unit the parser does not know is dropped without notice, and a large number of megabytes wraps.\<close>

lemma unit_dropped: "parseByteSize ''1GB'' = 1" "parseByteSize ''17592186044417MB'' = 1048576"
  by code_simp+

end
