(* ===== verification/Tunnel.thy ===== *)
theory Tunnel
  imports Security
begin

text \<open>
  The remote-control agent (\<open>src/cmd/termulaa/tunnel.go\<close>) and the connection its streams ride on
  (\<open>wsconn.go\<close>): the settings it starts with, how a failed dial is classified, the pool of tunnels that
  reconnect with a growing delay, and the byte stream over WebSocket messages. Durations are in
  nanoseconds. What the rendezvous answers, the host name, the random numbers and
  \<open>net/url\<close>'s and \<open>net\<close>'s parsers are arguments.
\<close>

section \<open>Constants and settings\<close>

definition second :: int where "second = 1000000000"
definition defaultRCServer :: string where "defaultRCServer = ''https://memd.debkosh.com''"
definition defaultRCTunnels :: int where "defaultRCTunnels = 4"
definition maxRCTunnels :: int where "maxRCTunnels = 8"
definition initialBackoff :: int where "initialBackoff = second"
definition maxBackoff :: int where "maxBackoff = 30 * second"
definition stableConnAge :: int where "stableConnAge = 30 * second"
definition tunnelPath :: string where "tunnelPath = ''/rc/tunnel''"

record TunnelConfig =
  tn_Server :: string
  tn_Target :: string
  tn_Token :: string
  tn_Label :: string
  tn_Tunnels :: int
  tn_Takeover :: bool
  tn_Insecure :: "bool option"
  tn_SaveOnly :: bool

record rcState =
  rc_Server :: string
  rc_Token :: string
  rc_Label :: string
  rc_Insecure :: bool

datatype agent_error = BadTunnels | BadTarget string | BadURL string | BadScheme string | MissingHost string | NoToken

text \<open>A parsed URL: scheme, host, path.\<close>

type_synonym url = "string \<times> string \<times> string"

definition wsURL :: "(string \<Rightarrow> url option) \<Rightarrow> string \<Rightarrow> string \<Rightarrow> agent_error + url" where
  "wsURL parse server path =
    (case parse (TrimRight server CHR ''/'') of None \<Rightarrow> Inl (BadURL server)
     | Some (scheme, host, p) \<Rightarrow>
         let ws = (if scheme = ''https'' \<or> scheme = ''wss'' then Some ''wss''
                   else if scheme = ''http'' \<or> scheme = ''ws'' then Some ''ws'' else None)
         in (case ws of None \<Rightarrow> Inl (BadScheme server)
             | Some s \<Rightarrow> if host = '''' then Inl (MissingHost server)
                 else Inr (s, host, TrimRight p CHR ''/'' @ path)))"

text \<open>The settings saved for the next run, and those of this one; the label falls back to the host name
  only for this run.\<close>

definition merge_state :: "TunnelConfig \<Rightarrow> rcState \<Rightarrow> rcState" where
  "merge_state cfg st =
    (let st = (if tn_Server cfg \<noteq> '''' then st\<lparr>rc_Server := tn_Server cfg\<rparr> else st);
         st = (if tn_Token cfg \<noteq> '''' then st\<lparr>rc_Token := TrimSpace (tn_Token cfg)\<rparr> else st);
         st = (if TrimSpace (tn_Label cfg) \<noteq> '''' then st\<lparr>rc_Label := TrimSpace (tn_Label cfg)\<rparr> else st);
         st = (case tn_Insecure cfg of Some b \<Rightarrow> st\<lparr>rc_Insecure := b\<rparr> | None \<Rightarrow> st)
     in if rc_Server st = '''' then st\<lparr>rc_Server := defaultRCServer\<rparr> else st)"

definition fill_config :: "int \<Rightarrow> string option \<Rightarrow> rcState \<Rightarrow> TunnelConfig \<Rightarrow> TunnelConfig" where
  "fill_config port hostname st cfg =
    (let cfg = cfg\<lparr>tn_Label := TrimSpace (tn_Label cfg)\<rparr>;
         cfg = (if tn_Target cfg = '''' then cfg\<lparr>tn_Target := ''127.0.0.1:'' @ itoa port\<rparr> else cfg);
         cfg = (if tn_Label cfg = '''' then cfg\<lparr>tn_Label := rc_Label st\<rparr> else cfg);
         cfg = (if tn_Label cfg = '''' then cfg\<lparr>tn_Label := (case hostname of Some h \<Rightarrow> if h \<noteq> '''' then h else ''termulaa'' | None \<Rightarrow> ''termulaa'')\<rparr> else cfg)
     in if tn_Tunnels cfg = 0 then cfg\<lparr>tn_Tunnels := defaultRCTunnels\<rparr> else cfg)"

text \<open>\<open>runTunnelAgent\<close> up to the point where the settings are saved; \<open>prompt\<close> is what the user enters when
  no token is known.\<close>

definition agent_settings :: "(string \<Rightarrow> url option) \<Rightarrow> (string \<Rightarrow> (string \<times> string) option) \<Rightarrow> int \<Rightarrow> string option \<Rightarrow> string option
    \<Rightarrow> rcState \<Rightarrow> TunnelConfig \<Rightarrow> agent_error + rcState \<times> TunnelConfig \<times> string" where
  "agent_settings parse SplitHostPort port hostname prompt st cfg =
    (let st = merge_state cfg st; cfg = fill_config port hostname st cfg in
     if tn_Tunnels cfg < 1 \<or> tn_Tunnels cfg > maxRCTunnels then Inl BadTunnels
     else (case SplitHostPort (tn_Target cfg) of None \<Rightarrow> Inl (BadTarget (tn_Target cfg))
       | Some (h, p) \<Rightarrow> (case wsURL parse (rc_Server st) tunnelPath of Inl e \<Rightarrow> Inl e
         | Inr u \<Rightarrow>
             if TrimSpace (rc_Token st) \<noteq> '''' then Inr (st, cfg, p)
             else (case prompt of None \<Rightarrow> Inl NoToken
               | Some line \<Rightarrow> if TrimSpace line = '''' then Inl NoToken else Inr (st\<lparr>rc_Token := TrimSpace line\<rparr>, cfg, p)))))"

section \<open>Errors of a tunnel\<close>

datatype tunnel_error = AuthError string | ConflictError string int int | Superseded | OtherError

text \<open>\<open>formatAge\<close>: whole seconds, minutes, or hours and minutes with two digits.\<close>

definition trunc :: "int \<Rightarrow> int \<Rightarrow> int" where
  "trunc d k = (if d < 0 then - ((- d) div k) else d div k)"

definition two_digits :: "int \<Rightarrow> string" where
  "two_digits n = (if 0 \<le> n \<and> n < 10 then ''0'' @ itoa n else itoa n)"

definition formatAge :: "int \<Rightarrow> string" where
  "formatAge d = (if d < 60 * second then itoa (trunc d second) @ ''s''
     else if d < 3600 * second then itoa (trunc d (60 * second)) @ ''m''
     else itoa (trunc d (3600 * second)) @ ''h'' @ two_digits (trunc d (60 * second) mod 60) @ ''m'')"

text \<open>The 409 body; its fields are zero where it does not parse.\<close>

definition parseConflict :: "string \<Rightarrow> int \<Rightarrow> int \<Rightarrow> tunnel_error" where
  "parseConflict label tunnels secs = ConflictError label tunnels (int64 (secs * second))"

text \<open>A failed dial, from the status of the response if there was one.\<close>

definition dial_error :: "(int \<times> string) option \<Rightarrow> string \<times> int \<times> int \<Rightarrow> tunnel_error" where
  "dial_error resp body =
    (case resp of None \<Rightarrow> OtherError
     | Some (code, status) \<Rightarrow>
         if code = 401 \<or> code = 403 then AuthError status
         else if code = 409 then (case body of (l, n, s) \<Rightarrow> parseConflict l n s)
         else OtherError)"

text \<open>The end of a tunnel that was up: the close frame that says another agent took over is kept.\<close>

definition close_is_superseded :: "int \<Rightarrow> string \<Rightarrow> bool" where
  "close_is_superseded code reason \<longleftrightarrow> code = 1008 \<and> reason = ''superseded''"

definition serve_error :: "(int \<times> string) option \<Rightarrow> tunnel_error" where
  "serve_error close = (case close of Some (c, r) \<Rightarrow> if close_is_superseded c r then Superseded else OtherError | None \<Rightarrow> OtherError)"

definition terminal_error :: "tunnel_error \<Rightarrow> bool" where
  "terminal_error e \<longleftrightarrow> e \<noteq> OtherError"

section \<open>Backing off\<close>

definition nextBackoff :: "int \<Rightarrow> int" where
  "nextBackoff d = (let d = d * 2 in if d > maxBackoff then maxBackoff else d)"

text \<open>\<open>rand.Float64\<close> is \<open>r\<close> divided by two to the 53rd; the rounding of the product is left out.\<close>

definition jitter :: "int \<Rightarrow> int \<Rightarrow> int" where
  "jitter d r = d * (2 ^ 52 + r) div 2 ^ 53"

section \<open>The pool\<close>

text \<open>A tunnel is dialling, up, waiting for its next attempt with the delay it chose, or has returned; it
  carries its back-off.\<close>

datatype tstate = Dialing int | Up int | Sleeping int int | Returned

datatype cause = Signalled | Failed tunnel_error

record pool =
  pl_ctx :: "cause option"
  pl_live :: int
  pl_tunnels :: "tstate list"

text \<open>What \<open>runTunnel\<close> does once an attempt has ended with an error after \<open>elapsed\<close>.\<close>

definition attempt_ended :: "nat \<Rightarrow> int \<Rightarrow> tunnel_error \<Rightarrow> int \<Rightarrow> int \<Rightarrow> pool \<Rightarrow> pool" where
  "attempt_ended i b e elapsed r pl =
    (if pl_ctx pl \<noteq> None then pl\<lparr>pl_tunnels := (pl_tunnels pl)[i := Returned]\<rparr>
     else if terminal_error e then pl\<lparr>pl_tunnels := (pl_tunnels pl)[i := Returned], pl_ctx := Some (Failed e)\<rparr>
     else let b = (if elapsed \<ge> stableConnAge then initialBackoff else b) in
       pl\<lparr>pl_tunnels := (pl_tunnels pl)[i := Sleeping (nextBackoff b) (jitter b r)]\<rparr>)"

definition pool_up :: "pool \<Rightarrow> pool" where
  "pool_up pl = pl\<lparr>pl_live := pl_live pl + 1\<rparr>"

definition pool_down :: "pool \<Rightarrow> pool" where
  "pool_down pl = pl\<lparr>pl_live := pl_live pl - 1\<rparr>"

inductive pool_step :: "pool \<Rightarrow> pool \<Rightarrow> bool" where
  signal: "pl_ctx pl = None \<Longrightarrow> pool_step pl (pl\<lparr>pl_ctx := Some Signalled\<rparr>)"
| refused: "i < length (pl_tunnels pl) \<Longrightarrow> pl_tunnels pl ! i = Dialing b \<Longrightarrow> 0 \<le> r \<Longrightarrow> r < 2 ^ 53 \<Longrightarrow> 0 \<le> elapsed \<Longrightarrow>
    pool_step pl (attempt_ended i b (dial_error resp body) elapsed r pl)"
| connected: "i < length (pl_tunnels pl) \<Longrightarrow> pl_tunnels pl ! i = Dialing b \<Longrightarrow>
    pool_step pl (pool_up (pl\<lparr>pl_tunnels := (pl_tunnels pl)[i := Up b]\<rparr>))"
| lost: "i < length (pl_tunnels pl) \<Longrightarrow> pl_tunnels pl ! i = Up b \<Longrightarrow> 0 \<le> r \<Longrightarrow> r < 2 ^ 53 \<Longrightarrow> 0 \<le> elapsed \<Longrightarrow>
    pool_step pl (attempt_ended i b (serve_error close) elapsed r (pool_down pl))"
| awake: "i < length (pl_tunnels pl) \<Longrightarrow> pl_tunnels pl ! i = Sleeping b d \<Longrightarrow>
    pool_step pl (pl\<lparr>pl_tunnels := (pl_tunnels pl)[i := if pl_ctx pl = None then Dialing b else Returned]\<rparr>)"

definition pool_init :: "nat \<Rightarrow> pool" where
  "pool_init n = \<lparr>pl_ctx = None, pl_live = 0, pl_tunnels = replicate n (Dialing initialBackoff)\<rparr>"

inductive pool_reachable :: "nat \<Rightarrow> pool \<Rightarrow> bool" for n where
  start: "pool_reachable n (pool_init n)"
| step: "pool_reachable n pl \<Longrightarrow> pool_step pl pl' \<Longrightarrow> pool_reachable n pl'"

text \<open>What \<open>runTunnelAgent\<close> returns once every tunnel has.\<close>

definition agent_result :: "pool \<Rightarrow> tunnel_error option" where
  "agent_result pl = (case pl_ctx pl of Some (Failed e) \<Rightarrow> Some e | _ \<Rightarrow> None)"

section \<open>The connection\<close>

text \<open>\<open>wsConn\<close>: the bytes left of the last message; the messages still to come are those until the
  connection fails.\<close>

fun next_message :: "bytes \<Rightarrow> bytes list \<Rightarrow> (bytes \<times> bytes list) option" where
  "next_message (b # rbuf) msgs = Some (b # rbuf, msgs)"
| "next_message [] [] = None"
| "next_message [] (m # msgs) = next_message m msgs"

definition Read :: "nat \<Rightarrow> bytes \<times> bytes list \<Rightarrow> (bytes \<times> bytes \<times> bytes list) option" where
  "Read n c = (case next_message (fst c) (snd c) of None \<Rightarrow> None
     | Some (rbuf, msgs) \<Rightarrow> Some (take n rbuf, drop n rbuf, msgs))"

definition Write_msg :: "bytes \<Rightarrow> bytes list \<Rightarrow> bytes list" where
  "Write_msg p msgs = msgs @ [p]"

fun reads :: "nat list \<Rightarrow> bytes \<times> bytes list \<Rightarrow> bytes list \<times> (bytes \<times> bytes list) option" where
  "reads [] c = ([], Some c)"
| "reads (n # ns) c = (case Read n c of None \<Rightarrow> ([], None)
     | Some (d, c') \<Rightarrow> (case reads ns c' of (ds, r) \<Rightarrow> (d # ds, r)))"

end
