(* ===== verification/Splice.thy ===== *)
theory Splice
  imports Tunnel "HOL-Library.Sublist"
begin

text \<open>
  What happens to one stream of a tunnel (\<open>serveStream\<close>, \<open>splice\<close> and \<open>copyBytes\<close> of
  \<open>src/cmd/termulaa/tunnel.go\<close>): it is joined to a connection to the local server, two goroutines copy,
  one for each direction, and whichever ends first closes both connections. The steps of the two copiers
  and of the peers interleave freely. A connection is what its peer has sent, how much of it was read, and
  what was written to the peer; smux's streams and TCP connections are both this.
\<close>

definition spliceCopyBufSize :: nat where "spliceCopyBufSize = 32 * 1024"

record endpoint =
  e_sent :: bytes
  e_read :: nat
  e_fin :: bool
  e_broken :: bool
  e_out :: bytes
  e_closed :: bool

datatype read_result = Data bytes | EndOfStream | ReadFailed | Blocked

text \<open>A read into a buffer of which the connection fills \<open>n\<close> bytes at most.\<close>

definition conn_read :: "nat \<Rightarrow> endpoint \<Rightarrow> read_result" where
  "conn_read n e =
    (if e_closed e \<or> e_broken e then ReadFailed
     else if e_read e < length (e_sent e) then Data (take n (drop (e_read e) (e_sent e)))
     else if e_fin e then EndOfStream else Blocked)"

text \<open>A write of \<open>bs\<close>; \<open>fault\<close> is where it fails if it does, and on a closed connection it fails at once.
  The result is the connection and whether all was written.\<close>

definition conn_write :: "nat option \<Rightarrow> bytes \<Rightarrow> endpoint \<Rightarrow> endpoint \<times> bool" where
  "conn_write fault bs e =
    (if e_closed e then (e, False)
     else (case fault of None \<Rightarrow> (e\<lparr>e_out := e_out e @ bs\<rparr>, True)
       | Some k \<Rightarrow> (e\<lparr>e_out := e_out e @ take k bs\<rparr>, False)))"

section \<open>The two copiers\<close>

text \<open>The arguments \<open>a\<close> and \<open>b\<close> of \<open>splice\<close>; the copier of a side writes to it and reads from the other.\<close>

datatype side = SideA | SideB

fun other :: "side \<Rightarrow> side" where
  "other SideA = SideB"
| "other SideB = SideA"

datatype phase = Copying | ClosingA | ClosingB | Ended

record splice =
  sp_end :: "side \<Rightarrow> endpoint"
  sp_phase :: "side \<Rightarrow> phase"

definition splice_init :: "endpoint \<Rightarrow> endpoint \<Rightarrow> splice" where
  "splice_init a b = \<lparr>sp_end = (\<lambda>d. case d of SideA \<Rightarrow> a | SideB \<Rightarrow> b), sp_phase = (\<lambda>_. Copying)\<rparr>"

definition set_end :: "side \<Rightarrow> endpoint \<Rightarrow> splice \<Rightarrow> splice" where
  "set_end d e s = s\<lparr>sp_end := (sp_end s)(d := e)\<rparr>"

definition set_phase :: "side \<Rightarrow> phase \<Rightarrow> splice \<Rightarrow> splice" where
  "set_phase d p s = s\<lparr>sp_phase := (sp_phase s)(d := p)\<rparr>"

text \<open>One round of \<open>io.CopyBuffer\<close> in \<open>copyBytes\<close>: what was read is written, and a read that gives nothing
  or a write that fails ends the copying.\<close>

definition copy_round :: "nat \<Rightarrow> nat option \<Rightarrow> side \<Rightarrow> splice \<Rightarrow> splice" where
  "copy_round n fault d s =
    (case conn_read n (sp_end s (other d)) of
       Blocked \<Rightarrow> s
     | Data bs \<Rightarrow>
         let s = set_end (other d) ((sp_end s (other d))\<lparr>e_read := e_read (sp_end s (other d)) + length bs\<rparr>) s;
             (dst, ok) = conn_write fault bs (sp_end s d);
             s = set_end d dst s
         in if ok then s else set_phase d ClosingA s
     | _ \<Rightarrow> set_phase d ClosingA s)"

definition close_end :: "side \<Rightarrow> splice \<Rightarrow> splice" where
  "close_end d s = set_end d ((sp_end s d)\<lparr>e_closed := True\<rparr>) s"

text \<open>The steps of the goroutines; both close \<open>a\<close> first and then \<open>b\<close>.\<close>

inductive own_step :: "splice \<Rightarrow> splice \<Rightarrow> bool" where
  round: "sp_phase s d = Copying \<Longrightarrow> 1 \<le> n \<Longrightarrow> n \<le> spliceCopyBufSize \<Longrightarrow> conn_read n (sp_end s (other d)) \<noteq> Blocked \<Longrightarrow>
    own_step s (copy_round n fault d s)"
| close_a: "sp_phase s d = ClosingA \<Longrightarrow> own_step s (set_phase d ClosingB (close_end SideA s))"
| close_b: "sp_phase s d = ClosingB \<Longrightarrow> own_step s (set_phase d Ended (close_end SideB s))"

text \<open>The steps of a peer: it sends, ends its side, or the connection to it breaks.\<close>

inductive peer_step :: "splice \<Rightarrow> splice \<Rightarrow> bool" where
  sends: "\<not> e_fin (sp_end s d) \<Longrightarrow> peer_step s (set_end d ((sp_end s d)\<lparr>e_sent := e_sent (sp_end s d) @ bs\<rparr>) s)"
| finishes: "peer_step s (set_end d ((sp_end s d)\<lparr>e_fin := True\<rparr>) s)"
| breaks: "peer_step s (set_end d ((sp_end s d)\<lparr>e_broken := True\<rparr>) s)"

inductive_cases own_stepE: "own_step s s'"
inductive_cases peer_stepE: "peer_step s s'"

definition fresh :: "endpoint \<Rightarrow> bool" where
  "fresh e \<longleftrightarrow> e_read e = 0 \<and> e_out e = [] \<and> \<not> e_closed e"

inductive splice_reachable :: "endpoint \<Rightarrow> endpoint \<Rightarrow> splice \<Rightarrow> bool" for a b where
  start: "fresh a \<Longrightarrow> fresh b \<Longrightarrow> splice_reachable a b (splice_init a b)"
| own: "splice_reachable a b s \<Longrightarrow> own_step s s' \<Longrightarrow> splice_reachable a b s'"
| peer: "splice_reachable a b s \<Longrightarrow> peer_step s s' \<Longrightarrow> splice_reachable a b s'"

text \<open>\<open>splice\<close> has returned: its own copying is over and the other goroutine has closed \<open>done\<close>.\<close>

definition returned :: "splice \<Rightarrow> bool" where
  "returned s \<longleftrightarrow> (\<forall>d. sp_phase s d = Ended)"

text \<open>\<open>serveStream\<close>: without a connection to the local server the stream is closed.\<close>

definition serveStream :: "endpoint option \<Rightarrow> endpoint \<Rightarrow> endpoint + splice" where
  "serveStream local strm = (case local of None \<Rightarrow> Inl (strm\<lparr>e_closed := True\<rparr>) | Some l \<Rightarrow> Inr (splice_init strm l))"

section \<open>What was read is delivered\<close>

lemma other_simps [simp]: "other (other d) = d" "other d \<noteq> d" "d \<noteq> other d"
  by (cases d; simp)+

lemma all_sides: "(\<forall>d. P d) \<longleftrightarrow> P SideA \<and> P SideB"
  by (metis side.exhaust)

lemma set_end_simps [simp]:
  "sp_end (set_end d e s) d' = (if d' = d then e else sp_end s d')" "sp_phase (set_end d e s) = sp_phase s"
  "sp_end (set_phase d p s) = sp_end s" "sp_phase (set_phase d p s) d' = (if d' = d then p else sp_phase s d')"
  by (simp_all add: set_end_def set_phase_def)

definition taken :: "endpoint \<Rightarrow> bytes" where
  "taken e = take (e_read e) (e_sent e)"

text \<open>Of one direction: what was written is what was read, cut short only once the copying is over; and
  a copier that has passed a close has closed.\<close>

definition direction_ok :: "side \<Rightarrow> splice \<Rightarrow> bool" where
  "direction_ok d s \<longleftrightarrow> e_read (sp_end s (other d)) \<le> length (e_sent (sp_end s (other d)))
     \<and> prefix (e_out (sp_end s d)) (taken (sp_end s (other d)))
     \<and> (sp_phase s d = Copying \<longrightarrow> e_out (sp_end s d) = taken (sp_end s (other d)))
     \<and> (sp_phase s d = ClosingB \<or> sp_phase s d = Ended \<longrightarrow> e_closed (sp_end s SideA))
     \<and> (sp_phase s d = Ended \<longrightarrow> e_closed (sp_end s SideB))"

definition splice_ok :: "splice \<Rightarrow> bool" where
  "splice_ok s \<longleftrightarrow> direction_ok SideA s \<and> direction_ok SideB s"


lemma conn_read_cases:
  assumes "conn_read n e = Data bs"
  shows "bs = take n (drop (e_read e) (e_sent e))" "e_read e < length (e_sent e)" "\<not> e_closed e" "\<not> e_broken e"
  using assms by (auto simp: conn_read_def split: if_splits)

lemma taken_read:
  "taken (e\<lparr>e_read := e_read e + length (take n (drop (e_read e) (e_sent e)))\<rparr>) = taken e @ take n (drop (e_read e) (e_sent e))"
  by (simp add: taken_def take_add min_def)

lemma conn_write_out:
  assumes "conn_write fault bs e = (e', ok)"
  shows "\<exists>k. e_out e' = e_out e @ take k bs \<and> (ok \<longrightarrow> take k bs = bs)" "e_sent e' = e_sent e" "e_read e' = e_read e"
    "e_closed e' = e_closed e" "e_broken e' = e_broken e"
  using assms by (auto simp: conn_write_def split: if_splits option.splits intro: exI [of _ 0] exI [of _ "length bs"])

lemma round_ok:
  assumes s: "splice_ok s" and d: "sp_phase s d = Copying"
  shows "splice_ok (copy_round n fault d s)"
proof (cases "conn_read n (sp_end s (other d))")
  case (Data bs)
  note r = conn_read_cases [OF Data]
  obtain dst ok where w: "conn_write fault bs (sp_end s d) = (dst, ok)" by fastforce
  from conn_write_out [OF w] obtain k where k: "e_out dst = e_out (sp_end s d) @ take k bs" "ok \<Longrightarrow> take k bs = bs"
    "e_sent dst = e_sent (sp_end s d)" "e_read dst = e_read (sp_end s d)" "e_closed dst = e_closed (sp_end s d)" by blast
  define src where "src = (sp_end s (other d))\<lparr>e_read := e_read (sp_end s (other d)) + length bs\<rparr>"
  have t: "taken src = taken (sp_end s (other d)) @ bs" unfolding src_def r(1) by (rule taken_read)
  have le: "e_read src \<le> length (e_sent src)" using r(1,2) by (simp add: src_def)
  define s' where "s' = set_end d dst (set_end (other d) src s)"
  have e: "copy_round n fault d s = (if ok then s' else set_phase d ClosingA s')"
    using Data w by (simp add: copy_round_def Let_def s'_def src_def)
  have o: "e_out (sp_end s d) = taken (sp_end s (other d))" using s d by (cases d) (simp_all add: splice_ok_def direction_ok_def)
  have td: "taken dst = taken (sp_end s d)" using k by (simp add: taken_def)
  have "prefix (e_out dst) (taken src)" "ok \<Longrightarrow> e_out dst = taken src"
    using k(1,2) by (auto simp: t o take_is_prefix)
  moreover have "e_out src = e_out (sp_end s (other d))" "e_closed src = e_closed (sp_end s (other d))" by (simp_all add: src_def)
  ultimately show ?thesis
    using s d le k(3-5) td unfolding e by (cases d) (auto simp: splice_ok_def direction_ok_def s'_def)
qed (use s d in \<open>cases d; auto simp: copy_round_def splice_ok_def direction_ok_def\<close>)+

lemma own_ok: "own_step s s' \<Longrightarrow> splice_ok s \<Longrightarrow> splice_ok s'"
proof (induction rule: own_step.induct)
  case (close_a s d)
  then show ?case by (cases d) (auto simp: splice_ok_def direction_ok_def close_end_def taken_def)
next
  case (close_b s d)
  then show ?case by (cases d) (auto simp: splice_ok_def direction_ok_def close_end_def taken_def)
qed (simp add: round_ok)

lemma peer_ok: "peer_step s s' \<Longrightarrow> splice_ok s \<Longrightarrow> splice_ok s'"
proof (induction rule: peer_step.induct)
  case (sends s d bs)
  then show ?case by (cases d) (auto simp: splice_ok_def direction_ok_def taken_def)
next
  case (finishes s d)
  then show ?case by (cases d) (auto simp: splice_ok_def direction_ok_def taken_def)
next
  case (breaks s d)
  then show ?case by (cases d) (auto simp: splice_ok_def direction_ok_def taken_def)
qed

lemma reachable_ok: "splice_reachable a b s \<Longrightarrow> splice_ok s"
  by (induction rule: splice_reachable.induct)
    (simp_all add: own_ok peer_ok, simp add: splice_ok_def direction_ok_def splice_init_def fresh_def taken_def)


section \<open>When one direction ends\<close>

fun rank :: "phase \<Rightarrow> nat" where
  "rank Copying = 3"
| "rank ClosingA = 2"
| "rank ClosingB = 1"
| "rank Ended = 0"

text \<open>A bound for the steps the goroutines still take if the peers send nothing more.\<close>

definition splice_measure :: "splice \<Rightarrow> nat" where
  "splice_measure s = rank (sp_phase s SideA) + rank (sp_phase s SideB)
     + (length (e_sent (sp_end s SideA)) - e_read (sp_end s SideA)) + (length (e_sent (sp_end s SideB)) - e_read (sp_end s SideB))"

lemma round_decreases:
  assumes d: "sp_phase s d = Copying" "1 \<le> n" "conn_read n (sp_end s (other d)) \<noteq> Blocked"
  shows "splice_measure (copy_round n fault d s) < splice_measure s"
proof (cases "conn_read n (sp_end s (other d))")
  case (Data bs)
  note r = conn_read_cases [OF Data]
  obtain dst ok where w: "conn_write fault bs (sp_end s d) = (dst, ok)" by fastforce
  note k = conn_write_out(2,3) [OF w]
  have "1 \<le> length bs" using r(1,2) d(2) by (auto simp: Suc_le_eq)
  then show ?thesis
    using Data w k r(2) d(1) by (cases d) (auto simp: copy_round_def splice_measure_def Let_def)
qed (use d in \<open>cases d; simp add: copy_round_def splice_measure_def\<close>)+

lemma own_decreases: "own_step s s' \<Longrightarrow> splice_measure s' < splice_measure s"
proof (induction rule: own_step.induct)
  case (close_a s d)
  then show ?case by (cases d) (simp_all add: splice_measure_def close_end_def)
next
  case (close_b s d)
  then show ?case by (cases d) (simp_all add: splice_measure_def close_end_def)
qed (rule round_decreases)

lemma own_bounded: "(own_step ^^ k) s s' \<Longrightarrow> splice_measure s' + k \<le> splice_measure s"
proof (induction k arbitrary: s')
  case (Suc k)
  then obtain t where "(own_step ^^ k) s t" "own_step t s'" by auto
  with Suc.IH own_decreases show ?case by fastforce
qed simp

lemma ending_stays:
  "own_step s s' \<Longrightarrow> sp_phase s d \<noteq> Copying \<Longrightarrow> sp_phase s' d \<noteq> Copying"
  by (induction rule: own_step.induct)
    (auto simp: copy_round_def close_end_def Let_def split: read_result.splits prod.splits)

text \<open>Once one copier has ended a goroutine can go on until both are done: closing unblocks the other.\<close>

lemma splice_progress:
  assumes "splice_ok s" "sp_phase s d \<noteq> Copying" "\<not> returned s"
  shows "\<exists>s'. own_step s s'"
proof (cases "\<exists>d. sp_phase s d = ClosingA \<or> sp_phase s d = ClosingB")
  case True
  then show ?thesis by (auto intro: own_step.intros)
next
  case False
  then have c: "sp_phase s d' = Copying \<or> sp_phase s d' = Ended" for d' by (metis phase.exhaust)
  then have "sp_phase s d = Ended" using assms(2) by blast
  then have "e_closed (sp_end s SideA)" "e_closed (sp_end s SideB)"
    using assms(1) by (cases d; simp add: splice_ok_def direction_ok_def)+
  then have closed: "e_closed (sp_end s d')" for d' by (cases d') simp_all
  obtain d' where "sp_phase s d' = Copying" using assms(3) c by (auto simp: returned_def)
  moreover have "conn_read 1 (sp_end s (other d')) = ReadFailed" by (simp add: conn_read_def closed)
  ultimately show ?thesis using own_step.round [of s d' 1] by (auto simp: spliceCopyBufSize_def)
qed

lemma returned_closed: "splice_ok s \<Longrightarrow> returned s \<Longrightarrow> e_closed (sp_end s d)"
  by (cases d) (simp_all add: splice_ok_def direction_ok_def returned_def)


text \<open>C20: once one direction has ended the splice returns with both connections closed: the goroutines
  take no more steps than the phases and the unread bytes allow, and cannot get stuck before that.\<close>

theorem splice_returns:
  assumes "splice_reachable a b s" "sp_phase s d \<noteq> Copying" "(own_step ^^ k) s s'"
  shows "k \<le> splice_measure s \<and> ((\<nexists>s''. own_step s' s'') \<longrightarrow> returned s' \<and> (\<forall>d. e_closed (sp_end s' d)))"
proof -
  have "splice_reachable a b s' \<and> sp_phase s' d \<noteq> Copying"
    using assms(3)
  proof (induction k arbitrary: s')
    case (Suc k)
    then obtain t where "(own_step ^^ k) s t" "own_step t s'" by auto
    with Suc.IH [of t] ending_stays show ?case by (blast intro: splice_reachable.own)
  qed (use assms in simp)
  then have "splice_ok s'" "sp_phase s' d \<noteq> Copying" using reachable_ok by blast+
  with splice_progress [of s' d] returned_closed [of s'] own_bounded [OF assms(3)] show ?thesis by auto
qed

section \<open>A request and its reply\<close>

definition idle_conn :: endpoint where
  "idle_conn = \<lparr>e_sent = [], e_read = 0, e_fin = False, e_broken = False, e_out = [], e_closed = False\<rparr>"

text \<open>The stream sends two bytes and ends; they are copied and the end of the stream is seen.\<close>

definition demo_splice :: splice where
  "demo_splice = copy_round 1 None SideB (copy_round 2 None SideB
     (set_end SideA (idle_conn\<lparr>e_sent := [1, 2], e_fin := True\<rparr>) (splice_init idle_conn idle_conn)))"


lemma demo_reachable: "splice_reachable idle_conn idle_conn demo_splice" "sp_phase demo_splice SideB = ClosingA"
  "e_out (sp_end demo_splice SideB) = [1, 2]"
proof -
  define s0 where "s0 = splice_init idle_conn idle_conn"
  define s1 where "s1 = set_end SideA (idle_conn\<lparr>e_sent := [1, 2]\<rparr>) s0"
  define s2 where "s2 = set_end SideA (idle_conn\<lparr>e_sent := [1, 2], e_fin := True\<rparr>) s0"
  have "splice_reachable idle_conn idle_conn s0" unfolding s0_def by (rule start) (simp_all add: fresh_def idle_conn_def)
  moreover have "peer_step s0 s1"
    using sends [of s0 SideA "[1, 2]"] by (simp add: s1_def s0_def splice_init_def idle_conn_def)
  moreover have "peer_step s1 s2"
    using finishes [of s1 SideA] by (simp add: s2_def s1_def set_end_def)
  ultimately have r2: "splice_reachable idle_conn idle_conn s2" by (blast intro: peer)
  define s3 where "s3 = copy_round 2 None SideB s2"
  have e: "sp_phase s2 d = Copying" "sp_phase s3 d = Copying" "conn_read 2 (sp_end s2 SideA) = Data [1, 2]" "conn_read 1 (sp_end s3 SideA) = EndOfStream"
    "e_out (sp_end s3 SideB) = [1, 2]" for d
    by (simp_all add: s3_def s2_def s0_def splice_init_def conn_read_def conn_write_def copy_round_def Let_def idle_conn_def)
  have "own_step s2 s3" unfolding s3_def using e by (intro own_step.round) (simp_all add: spliceCopyBufSize_def)
  moreover have "own_step s3 (copy_round 1 None SideB s3)" using e by (intro own_step.round) (simp_all add: spliceCopyBufSize_def)
  ultimately have "splice_reachable idle_conn idle_conn (copy_round 1 None SideB s3)" using r2 by (blast intro: own)
  then show "splice_reachable idle_conn idle_conn demo_splice" by (simp add: demo_splice_def s3_def s2_def s0_def)
  have d: "demo_splice = copy_round 1 None SideB s3" by (simp add: demo_splice_def s3_def s2_def s0_def)
  show "sp_phase demo_splice SideB = ClosingA" "e_out (sp_end demo_splice SideB) = [1, 2]"
    unfolding d copy_round_def using e(4,5) by simp_all
qed


text \<open>The copier of the stream closes both connections, which ends the other one.\<close>

definition demo_closed :: splice where
  "demo_closed = set_phase SideB Ended (close_end SideB (set_phase SideB ClosingB (close_end SideA demo_splice)))"

definition demo_end :: splice where
  "demo_end = set_phase SideA Ended (close_end SideB (set_phase SideA ClosingB (close_end SideA (copy_round 1 None SideA demo_closed))))"

lemma close_end_simps [simp]:
  "sp_phase (close_end d s) = sp_phase s" "e_closed (sp_end (close_end d s) d') = (d' = d \<or> e_closed (sp_end s d'))"
  by (simp_all add: close_end_def)

lemma relpow_run:
  "(own_step ^^ k) s t \<Longrightarrow> own_step t u \<Longrightarrow> (own_step ^^ Suc k) s u"
  by auto

lemma demo_run: "(own_step ^^ 5) demo_splice demo_end"
proof -
  let ?s1 = "set_phase SideB ClosingB (close_end SideA demo_splice)" and ?s3 = "copy_round 1 None SideA demo_closed"
  let ?s4 = "set_phase SideA ClosingB (close_end SideA ?s3)"
  have ph: "sp_phase demo_splice SideA = Copying"
    by (simp add: demo_splice_def splice_init_def conn_read_def conn_write_def copy_round_def Let_def idle_conn_def)
  have c: "e_closed (sp_end demo_closed SideB)" "sp_phase demo_closed SideA = Copying" by (simp_all add: demo_closed_def ph)
  then have r: "conn_read n (sp_end demo_closed SideB) = ReadFailed" for n by (simp add: conn_read_def)
  have "(own_step ^^ 0) demo_splice demo_splice" by simp
  moreover have "own_step demo_splice ?s1" using demo_reachable(2) by (rule close_a)
  moreover have "own_step ?s1 demo_closed" unfolding demo_closed_def by (rule close_b) simp
  moreover have "own_step demo_closed ?s3" using c(2) r by (intro own_step.round) (simp_all add: spliceCopyBufSize_def)
  moreover have "own_step ?s3 ?s4" by (rule close_a) (simp add: copy_round_def r)
  moreover have "own_step ?s4 demo_end" unfolding demo_end_def by (rule close_b) simp
  ultimately have "(own_step ^^ Suc (Suc (Suc (Suc (Suc 0))))) demo_splice demo_end" by (intro relpow_run)
  then show ?thesis by (simp add: numeral_eq_Suc)
qed

lemma demo_stuck: "\<nexists>s. own_step demo_end s"
proof -
  have "sp_phase demo_end d = Ended" for d
    by (cases d) (simp_all add: demo_end_def demo_closed_def copy_round_def conn_read_def)
  then show ?thesis by (auto elim: own_stepE)
qed

theorem splice_returns_witness:
  "5 \<le> splice_measure demo_splice \<and> returned demo_end \<and> e_closed (sp_end demo_end SideA) \<and> e_closed (sp_end demo_end SideB)"
proof -
  have "sp_phase demo_splice SideB \<noteq> Copying" using demo_reachable(2) by simp
  from splice_returns [OF demo_reachable(1) this demo_run] demo_stuck show ?thesis by blast
qed

end
