(* ===== verification/Tunnel_Properties.thy ===== *)
theory Tunnel_Properties
  imports Tunnel
begin

text \<open>
  What the agent guarantees: the pool's counters and delays, that it stops when it is told to, the
  settings it runs with and saves, and that a tunnel carries a byte stream.
\<close>

section \<open>Delays\<close>

lemma nextBackoff_range: "initialBackoff \<le> b \<Longrightarrow> b \<le> maxBackoff \<Longrightarrow> initialBackoff \<le> nextBackoff b \<and> nextBackoff b \<le> maxBackoff"
  by (auto simp: nextBackoff_def Let_def initialBackoff_def maxBackoff_def second_def)

lemma jitter_range:
  assumes "0 \<le> b" "0 \<le> r" "r < 2 ^ 53"
  shows "b div 2 \<le> jitter b r \<and> jitter b r \<le> 3 * b div 2"
proof -
  have "b * 2 ^ 52 \<le> b * (2 ^ 52 + r)" "b * (2 ^ 52 + r) \<le> b * (3 * 2 ^ 52)" using assms by (auto intro: mult_left_mono)
  then have "b * 2 ^ 52 div 2 ^ 53 \<le> jitter b r" "jitter b r \<le> b * (3 * 2 ^ 52) div 2 ^ 53"
    unfolding jitter_def by (auto intro: zdiv_mono1)
  moreover have "b * 2 ^ 52 div 2 ^ 53 = b div 2" "b * (3 * 2 ^ 52) div 2 ^ 53 = 3 * b div 2" by simp_all
  ultimately show ?thesis by simp
qed

text \<open>Without a stable connection the delay doubles up to half a minute.\<close>

lemma backoff_schedule: "(nextBackoff ^^ k) initialBackoff = min (2 ^ k * second) maxBackoff"
proof (induction k)
  case (Suc k)
  then show ?case by (auto simp: nextBackoff_def Let_def maxBackoff_def second_def min_def)
qed (simp add: initialBackoff_def maxBackoff_def second_def)

section \<open>The invariant of the pool\<close>

definition backoff_ok :: "int \<Rightarrow> bool" where
  "backoff_ok b \<longleftrightarrow> initialBackoff \<le> b \<and> b \<le> maxBackoff"

fun tunnel_ok :: "tstate \<Rightarrow> bool" where
  "tunnel_ok (Dialing b) = backoff_ok b"
| "tunnel_ok (Up b) = backoff_ok b"
| "tunnel_ok (Sleeping b d) = (backoff_ok b \<and> initialBackoff div 2 \<le> d \<and> d \<le> 3 * maxBackoff div 2)"
| "tunnel_ok Returned = True"

fun is_up :: "tstate \<Rightarrow> nat" where
  "is_up (Up b) = 1"
| "is_up _ = 0"

definition pool_ok :: "nat \<Rightarrow> pool \<Rightarrow> bool" where
  "pool_ok n pl \<longleftrightarrow> length (pl_tunnels pl) = n \<and> list_all tunnel_ok (pl_tunnels pl)
     \<and> pl_live pl = int (sum_list (map is_up (pl_tunnels pl))) \<and> (pl_ctx pl = None \<longrightarrow> Returned \<notin> set (pl_tunnels pl))"

lemma sum_list_set: "i < length xs \<Longrightarrow> sum_list (map f (xs[i := y])) + f (xs ! i) = sum_list (map f xs) + (f y :: nat)"
proof (induction xs arbitrary: i)
  case (Cons x xs)
  then show ?case by (cases i) (auto simp: algebra_simps)
qed simp

lemma pool_setI:
  assumes "pool_ok n pl" "i < length (pl_tunnels pl)" "tunnel_ok s"
    "pl_tunnels pl' = (pl_tunnels pl)[i := s]" "pl_live pl' = pl_live pl - int (is_up (pl_tunnels pl ! i)) + int (is_up s)"
    "pl_ctx pl' = None \<Longrightarrow> s \<noteq> Returned \<and> pl_ctx pl = None"
  shows "pool_ok n pl'"
proof -
  have "sum_list (map is_up ((pl_tunnels pl)[i := s])) + is_up (pl_tunnels pl ! i) = sum_list (map is_up (pl_tunnels pl)) + is_up s"
    using assms(2) by (rule sum_list_set)
  then have "pl_live pl' = int (sum_list (map is_up (pl_tunnels pl')))" using assms(1,4,5) by (simp add: pool_ok_def)
  moreover have "Returned \<notin> set (pl_tunnels pl')" if "pl_ctx pl' = None"
    using assms(6) [OF that] assms(1,4) set_update_subset_insert [of "pl_tunnels pl" i s] by (auto simp: pool_ok_def)
  ultimately show ?thesis using assms(1-4) by (auto simp: pool_ok_def list_all_update)
qed

lemma attempt_ended_ok:
  assumes "pool_ok n pl0" "i < length (pl_tunnels pl0)" "backoff_ok b" "0 \<le> r" "r < 2 ^ 53"
    "pl_tunnels pl = pl_tunnels pl0" "pl_ctx pl = pl_ctx pl0" "pl_live pl = pl_live pl0 - int (is_up (pl_tunnels pl0 ! i))"
  shows "pool_ok n (attempt_ended i b e elapsed r pl)"
proof -
  let ?b = "if elapsed \<ge> stableConnAge then initialBackoff else b"
  have b: "backoff_ok ?b" using assms(3) by (auto simp: backoff_ok_def initialBackoff_def maxBackoff_def second_def)
  have "?b div 2 \<le> jitter ?b r \<and> jitter ?b r \<le> 3 * ?b div 2"
    by (rule jitter_range [OF _ assms(4,5)]) (use b in \<open>auto simp: backoff_ok_def initialBackoff_def second_def\<close>)
  moreover have "initialBackoff div 2 \<le> ?b div 2" "3 * ?b div 2 \<le> 3 * maxBackoff div 2"
    using b by (auto simp: backoff_ok_def intro!: zdiv_mono1)
  ultimately have s: "tunnel_ok (Sleeping (nextBackoff ?b) (jitter ?b r))"
    using b nextBackoff_range [of ?b] unfolding tunnel_ok.simps backoff_ok_def by linarith
  consider (cancelled) "pl_ctx pl \<noteq> None" | (fatal) "pl_ctx pl = None" "terminal_error e" | (again) "pl_ctx pl = None" "\<not> terminal_error e" by blast
  then show ?thesis
  proof cases
    case cancelled
    then show ?thesis using assms(6-8) by (intro pool_setI [OF assms(1,2), where s = Returned]) (simp_all add: attempt_ended_def)
  next
    case fatal
    then show ?thesis using assms(6-8) by (intro pool_setI [OF assms(1,2), where s = Returned]) (simp_all add: attempt_ended_def)
  next
    case again
    then show ?thesis using assms(6-8) s
      by (intro pool_setI [OF assms(1,2), where s = "Sleeping (nextBackoff ?b) (jitter ?b r)"]) (simp_all add: attempt_ended_def Let_def)
  qed
qed

lemma pool_nth: "pool_ok n pl \<Longrightarrow> i < length (pl_tunnels pl) \<Longrightarrow> pl_tunnels pl ! i = s \<Longrightarrow> tunnel_ok s"
  by (auto simp: pool_ok_def list_all_length)

lemma pool_step_ok:
  assumes "pool_step pl pl'" "pool_ok n pl" shows "pool_ok n pl'"
  using assms(1)
proof cases
  case signal
  with assms(2) show ?thesis by (simp add: pool_ok_def)
next
  case (refused i b r elapsed resp body)
  with pool_nth [OF assms(2) refused(2,3)] show ?thesis
    by (simp add: attempt_ended_ok [OF assms(2)])
next
  case (connected i b)
  with pool_nth [OF assms(2) connected(2,3)] show ?thesis
    by (intro pool_setI [OF assms(2) connected(2), where s = "Up b"]) (simp_all add: pool_up_def)
next
  case (lost i b r elapsed close)
  with pool_nth [OF assms(2) lost(2,3)] show ?thesis
    by (simp add: attempt_ended_ok [OF assms(2)] pool_down_def)
next
  case (awake i b d)
  with pool_nth [OF assms(2) awake(2,3)] show ?thesis
    by (intro pool_setI [OF assms(2) awake(2), where s = "if pl_ctx pl = None then Dialing b else Returned"]) simp_all
qed

lemma pool_reachable_ok: "pool_reachable n pl \<Longrightarrow> pool_ok n pl"
proof (induction rule: pool_reachable.induct)
  case start
  have "sum_list (map is_up (replicate n (Dialing b))) = 0" for b by (induction n) auto
  then show ?case by (simp add: pool_init_def pool_ok_def list_all_length backoff_ok_def initialBackoff_def maxBackoff_def second_def)
qed (rule pool_step_ok)

section \<open>Stopping\<close>

fun steps_left :: "tstate \<Rightarrow> nat" where
  "steps_left (Dialing b) = 2"
| "steps_left (Up b) = 1"
| "steps_left (Sleeping b d) = 1"
| "steps_left Returned = 0"

definition pool_measure :: "pool \<Rightarrow> nat" where
  "pool_measure pl = sum_list (map steps_left (pl_tunnels pl))"

lemma measure_set:
  "i < length (pl_tunnels pl) \<Longrightarrow> pl_tunnels pl' = (pl_tunnels pl)[i := s] \<Longrightarrow> steps_left s < steps_left (pl_tunnels pl ! i) \<Longrightarrow>
    pool_measure pl' < pool_measure pl"
  using sum_list_set [of i "pl_tunnels pl" steps_left s] by (simp add: pool_measure_def)

text \<open>Once the agent is told to stop, every step brings a tunnel closer to its end.\<close>

lemma stopping_step:
  assumes "pool_step pl pl'" "pl_ctx pl \<noteq> None"
  shows "pl_ctx pl' = pl_ctx pl \<and> pool_measure pl' < pool_measure pl"
  using assms(1)
proof cases
  case (refused i b r elapsed resp body)
  with assms(2) measure_set [OF refused(2), of pl' Returned] show ?thesis by (simp add: attempt_ended_def)
next
  case (connected i b)
  with assms(2) measure_set [OF connected(2), of pl' "Up b"] show ?thesis by (simp add: pool_up_def)
next
  case (lost i b r elapsed close)
  with assms(2) measure_set [OF lost(2), of pl' Returned] show ?thesis by (simp add: attempt_ended_def pool_down_def)
next
  case (awake i b d)
  then have "pl' = pl\<lparr>pl_tunnels := (pl_tunnels pl)[i := Returned]\<rparr>" using assms(2) by simp
  with awake(3) measure_set [OF awake(2), of pl' Returned] show ?thesis by simp
qed (use assms(2) in simp)

lemma stopping_steps:
  "(pool_step ^^ k) pl pl' \<Longrightarrow> pl_ctx pl \<noteq> None \<Longrightarrow> pl_ctx pl' = pl_ctx pl \<and> k + pool_measure pl' \<le> pool_measure pl"
proof (induction k arbitrary: pl')
  case (Suc k)
  then obtain pl1 where s: "(pool_step ^^ k) pl pl1" "pool_step pl1 pl'" by auto
  with Suc have "pl_ctx pl1 = pl_ctx pl \<and> k + pool_measure pl1 \<le> pool_measure pl" by blast
  with stopping_step [OF s(2)] Suc.prems(2) show ?case by auto
qed auto

lemma pool_measure_bound: "pool_measure pl \<le> 2 * length (pl_tunnels pl)"
proof -
  have "sum_list (map steps_left ts) \<le> 2 * length ts" for ts
  proof (induction ts)
    case (Cons t ts)
    then show ?case by (cases t) auto
  qed simp
  then show ?thesis by (simp add: pool_measure_def)
qed

lemma pool_progress:
  assumes "i < length (pl_tunnels pl)" "pl_tunnels pl ! i \<noteq> Returned" shows "\<exists>pl'. pool_step pl pl'"
proof (cases "pl_tunnels pl ! i")
  case (Dialing b)
  with assms show ?thesis by (blast intro: connected)
next
  case (Up b)
  with assms show ?thesis using lost [of i pl b 0 0] by fastforce
next
  case (Sleeping b d)
  with assms show ?thesis by (blast intro: awake)
qed (use assms in simp)

section \<open>Properties\<close>

text \<open>In every reachable state of the pool the number of tunnels reported as up is the number that is, each
  back-off is between a second and half a minute and each delay between half of the one and one and
  a half of the other, and a tunnel has given up only if the whole agent was stopped.\<close>

theorem pool_counts_and_delays:
  assumes "pool_reachable n pl"
  shows "length (pl_tunnels pl) = n \<and> pl_live pl = int (sum_list (map is_up (pl_tunnels pl)))
    \<and> list_all tunnel_ok (pl_tunnels pl) \<and> (pl_ctx pl = None \<longrightarrow> Returned \<notin> set (pl_tunnels pl))"
  using pool_reachable_ok [OF assms] by (simp add: pool_ok_def)

lemma demo_pool: "pool_reachable 2 (pool_up ((pool_init 2)\<lparr>pl_tunnels := (pl_tunnels (pool_init 2))[0 := Up initialBackoff]\<rparr>))"
proof -
  have "pool_step (pool_init 2) (pool_up ((pool_init 2)\<lparr>pl_tunnels := (pl_tunnels (pool_init 2))[0 := Up initialBackoff]\<rparr>))"
    by (rule connected) (simp_all add: pool_init_def)
  then show ?thesis by (rule pool_reachable.step [OF pool_reachable.start])
qed

theorem pool_counts_and_delays_witness:
  "pl_live (pool_up ((pool_init 2)\<lparr>pl_tunnels := (pl_tunnels (pool_init 2))[0 := Up initialBackoff]\<rparr>)) = 1"
  using pool_counts_and_delays [OF demo_pool] by (simp add: pool_init_def pool_up_def numeral_2_eq_2)


lemma demo_stopped: "pool_reachable 2 ((pool_init 2)\<lparr>pl_ctx := Some Signalled\<rparr>)"
  by (rule pool_reachable.step [OF pool_reachable.start signal]) (simp add: pool_init_def)


lemma next_message_Some: "next_message rb ms = Some (rb', ms') \<Longrightarrow> rb' \<noteq> [] \<and> rb' @ concat ms' = rb @ concat ms"
  by (induction rb ms rule: next_message.induct) auto

lemma next_message_None: "next_message rb ms = None \<Longrightarrow> rb = [] \<and> concat ms = []"
  by (induction rb ms rule: next_message.induct) auto

lemma reads_stream:
  "(case reads ns c of
      (ds, Some (rbuf, msgs)) \<Rightarrow> concat ds @ rbuf @ concat msgs = fst c @ concat (snd c)
        \<and> list_all2 (\<lambda>d n. length d \<le> n \<and> (d = []) = (n = 0)) ds ns
    | (ds, None) \<Rightarrow> concat ds = fst c @ concat (snd c))"
proof (induction ns arbitrary: c)
  case (Cons n ns)
  show ?case
  proof (cases "next_message (fst c) (snd c)")
    case None
    with next_message_None [OF None] show ?thesis by (simp add: Read_def)
  next
    case (Some a)
    obtain rb ms where a: "a = (rb, ms)" by (cases a)
    obtain ds r where r: "reads ns (drop n rb, ms) = (ds, r)" by (cases "reads ns (drop n rb, ms)")
    from Some a r have e: "reads (n # ns) c = (take n rb # ds, r)" by (simp add: Read_def)
    note m = next_message_Some [OF Some [unfolded a]]
    have tk: "take n rb @ drop n rb @ concat ms = fst c @ concat (snd c)" using m by (metis append.assoc append_take_drop_id)
    show ?thesis
    proof (cases r)
      case None
      with Cons.IH [of "(drop n rb, ms)"] r have "concat ds = drop n rb @ concat ms" by simp
      then show ?thesis unfolding e None using tk by simp
    next
      case (Some b)
      obtain rb' ms' where b: "b = (rb', ms')" by (cases b)
      from Cons.IH [of "(drop n rb, ms)"] r Some b have "concat ds @ rb' @ concat ms' = drop n rb @ concat ms"
        "list_all2 (\<lambda>d n. length d \<le> n \<and> (d = []) = (n = 0)) ds ns" by simp_all
      then show ?thesis unfolding e Some b using tk m by auto
    qed
  qed
qed (simp split: prod.split)

lemma written: "fold Write_msg ps ms = ms @ ps"
  by (induction ps arbitrary: ms) (auto simp: Write_msg_def)

text \<open>C21: A tunnel is a stream of bytes: whatever pieces one side writes and whatever buffer sizes the other
  reads with, the pieces read are the bytes written, in order; a read into a buffer of positive size
  gives at least one byte, and reading fails only after the last byte.\<close>

theorem tunnel_is_a_byte_stream:
  "case reads ns ([], fold Write_msg ps []) of
      (ds, Some (rbuf, msgs)) \<Rightarrow> concat ds @ rbuf @ concat msgs = concat ps
        \<and> list_all2 (\<lambda>d n. length d \<le> n \<and> (d = []) = (n = 0)) ds ns
    | (ds, None) \<Rightarrow> concat ds = concat ps"
  using reads_stream [where ns = ns and c = "([], ps)"] by (simp add: written split: prod.splits option.splits)

section \<open>Settings\<close>

lemma TrimSpace_idem: "TrimSpace (TrimSpace s) = TrimSpace s"
proof (cases "TrimSpace s = []")
  case False
  define t where "t = dropWhile is_space s"
  have s: "TrimSpace s = rev (dropWhile is_space (rev t))" by (simp add: TrimSpace_def t_def)
  have "last (TrimSpace s) = hd (dropWhile is_space (rev t))" using False s by (simp add: last_rev)
  then have l: "\<not> is_space (last (TrimSpace s))" using False s hd_dropWhile [of is_space "rev t"] by simp
  have "rev t = takeWhile is_space (rev t) @ dropWhile is_space (rev t)" by simp
  then have "t = TrimSpace s @ rev (takeWhile is_space (rev t))" unfolding s by (metis rev_append rev_rev_ident)
  then have "hd (TrimSpace s) = hd t" "t \<noteq> []" using False by (metis hd_append2, metis append_is_Nil_conv)
  then have "\<not> is_space (hd (TrimSpace s))" using hd_dropWhile [of is_space s] by (simp add: t_def)
  with l False show ?thesis by (simp add: TrimSpace_same)
next
  case True
  have "TrimSpace [] = []" by (simp add: TrimSpace_def)
  then show ?thesis unfolding True .
qed

lemma merge_state_fields:
  "rc_Server (merge_state cfg st) \<noteq> ''''"
  "rc_Label (merge_state cfg st) = (if TrimSpace (tn_Label cfg) \<noteq> '''' then TrimSpace (tn_Label cfg) else rc_Label st)"
  by (simp_all add: merge_state_def defaultRCServer_def Let_def split: option.split)

lemma fill_config_label: "tn_Label (fill_config port hostname st cfg) \<noteq> ''''"
  by (simp add: fill_config_def Let_def split: option.split)

lemma wsURL_parts: "wsURL parse server path = Inr u \<Longrightarrow> \<exists>s h q. u = (s, h, q) \<and> s \<in> {''ws'', ''wss''} \<and> h \<noteq> ''''"
  by (auto simp: wsURL_def Let_def split: option.splits if_splits prod.splits)

text \<open>The agent starts only with one to eight tunnels, a token that is not blank, a target with a port
  and a WebSocket address of the rendezvous; the label it saves is one the user chose, never the host
  name it may run under.\<close>

theorem agent_starts_with_valid_settings:
  assumes "agent_settings parse SplitHostPort port hostname prompt st cfg = Inr (st', cfg', p)"
  shows "1 \<le> tn_Tunnels cfg' \<and> tn_Tunnels cfg' \<le> 8 \<and> TrimSpace (rc_Token st') \<noteq> '''' \<and> tn_Label cfg' \<noteq> '''' \<and> rc_Server st' \<noteq> ''''
    \<and> (\<exists>h. SplitHostPort (tn_Target cfg') = Some (h, p))
    \<and> (\<exists>s h q. wsURL parse (rc_Server st') tunnelPath = Inr (s, h, q) \<and> s \<in> {''ws'', ''wss''} \<and> h \<noteq> '''')
    \<and> rc_Label st' = (if TrimSpace (tn_Label cfg) \<noteq> '''' then TrimSpace (tn_Label cfg) else rc_Label st)"
proof -
  let ?st = "merge_state cfg st"
  let ?cfg = "fill_config port hostname ?st cfg"
  from assms obtain h u where a: "1 \<le> tn_Tunnels ?cfg" "tn_Tunnels ?cfg \<le> 8" "SplitHostPort (tn_Target ?cfg) = Some (h, p)"
    "wsURL parse (rc_Server ?st) tunnelPath = Inr u" "cfg' = ?cfg"
    "st' = ?st \<and> TrimSpace (rc_Token ?st) \<noteq> '''' \<or> (\<exists>line. TrimSpace line \<noteq> '''' \<and> st' = ?st\<lparr>rc_Token := TrimSpace line\<rparr>)"
    by (auto simp: agent_settings_def Let_def maxRCTunnels_def split: if_splits option.splits sum.splits) blast
  then have "rc_Server st' = rc_Server ?st" "rc_Label st' = rc_Label ?st" "TrimSpace (rc_Token st') \<noteq> ''''"
    by (auto simp: TrimSpace_idem)
  with a wsURL_parts [OF a(4)] merge_state_fields [of cfg st] show ?thesis by (auto simp: fill_config_label)
qed

theorem agent_starts_with_valid_settings_witness:
  "case agent_settings (\<lambda>u. Some (''https'', ''memd'', ''/'')) (\<lambda>t. Some (''127.0.0.1'', ''80'')) 80 (Some ''box'') (Some ''secret '')
      \<lparr>rc_Server = '''', rc_Token = '''', rc_Label = '''', rc_Insecure = False\<rparr>
      \<lparr>tn_Server = '''', tn_Target = '''', tn_Token = '''', tn_Label = '''', tn_Tunnels = 0, tn_Takeover = False, tn_Insecure = None, tn_SaveOnly = False\<rparr> of
     Inr (st', cfg', p) \<Rightarrow> tn_Tunnels cfg' \<le> 8 \<and> rc_Label st' = '''' \<and> tn_Label cfg' \<noteq> '''' | Inl e \<Rightarrow> False"
proof -
  let ?st = "\<lparr>rc_Server = '''', rc_Token = '''', rc_Label = '''', rc_Insecure = False\<rparr>"
  let ?cfg = "\<lparr>tn_Server = '''', tn_Target = '''', tn_Token = '''', tn_Label = '''', tn_Tunnels = 0, tn_Takeover = False, tn_Insecure = None, tn_SaveOnly = False\<rparr>"
  let ?r = "agent_settings (\<lambda>u. Some (''https'', ''memd'', ''/'')) (\<lambda>t. Some (''127.0.0.1'', ''80'')) 80 (Some ''box'') (Some ''secret '') ?st ?cfg"
  have "\<not> isl ?r" by code_simp
  then obtain x where x: "?r = Inr x" by (cases ?r) (simp_all only: sum.disc not_True_eq_False)
  obtain st' cfg' p where p: "x = (st', cfg', p)" by (cases x)
  have "TrimSpace (tn_Label ?cfg) = ''''" by (simp add: TrimSpace_def)
  with agent_starts_with_valid_settings [OF x [unfolded p]] show ?thesis unfolding x p by simp
qed

end
