(* ===== verification/Agent.thy ===== *)
theory Agent
  imports Splice Tunnel_Properties "HOL-Library.List_Lexorder" "HOL-Library.Char_ord"
begin

text \<open>
  The remote-control agent from its start to one attempt of a tunnel (\<open>runTunnelAgent\<close>, \<open>promptForToken\<close>
  and \<open>dialAndServeTunnel\<close> of \<open>src/cmd/termulaa/tunnel.go\<close>): what is saved, what the tunnels are started
  with, and the request each of them makes. The file of settings is what it decodes to; the answer of
  the rendezvous is an argument.
\<close>

section \<open>Package net/url\<close>

text \<open>\<open>url.QueryEscape\<close> and its inverse; characters are bytes.\<close>

definition unreserved :: "char \<Rightarrow> bool" where
  "unreserved c \<longleftrightarrow> in_class CHR ''a'' CHR ''z'' c \<or> in_class CHR ''A'' CHR ''Z'' c \<or> in_class CHR ''0'' CHR ''9'' c
     \<or> c \<in> set ''-_.~''"

definition upperhex :: "nat \<Rightarrow> char" where
  "upperhex n = ''0123456789ABCDEF'' ! n"

definition escape_char :: "char \<Rightarrow> string" where
  "escape_char c = (if unreserved c then [c] else if c = CHR '' '' then ''+''
     else [CHR ''%'', upperhex (of_char c div 16), upperhex (of_char c mod 16)])"

definition QueryEscape :: "string \<Rightarrow> string" where
  "QueryEscape s = concat (map escape_char s)"

definition unhex :: "char \<Rightarrow> nat option" where
  "unhex c = (if in_class CHR ''0'' CHR ''9'' c then Some (of_char c - of_char CHR ''0'')
     else if in_class CHR ''A'' CHR ''F'' c then Some (of_char c - of_char CHR ''A'' + 10)
     else if in_class CHR ''a'' CHR ''f'' c then Some (of_char c - of_char CHR ''a'' + 10) else None)"

fun QueryUnescape :: "string \<Rightarrow> string option" where
  "QueryUnescape [] = Some []"
| "QueryUnescape (c # s) =
    (if c = CHR ''%'' then (case s of a # b # s' \<Rightarrow>
         (case (unhex a, unhex b) of (Some i, Some j) \<Rightarrow> map_option ((#) (char_of (16 * i + j))) (QueryUnescape s') | _ \<Rightarrow> None)
       | _ \<Rightarrow> None)
     else map_option ((#) (if c = CHR ''+'' then CHR '' '' else c)) (QueryUnescape s))"

text \<open>\<open>url.Values\<close> with one value for each key, and its \<open>Encode\<close>; \<open>ParseQuery\<close> is what a server reads.\<close>

definition Encode :: "(string \<times> string) list \<Rightarrow> string" where
  "Encode q = Join_with CHR ''&'' (map (\<lambda>(k, v). QueryEscape k @ CHR ''='' # QueryEscape v) (sort_key fst q))"

definition parse_pair :: "string \<Rightarrow> (string \<times> string) option" where
  "parse_pair s = (let k = takeWhile (\<lambda>c. c \<noteq> CHR ''='') s; v = drop (length k + 1) s
     in (case (QueryUnescape k, QueryUnescape v) of (Some k, Some v) \<Rightarrow> Some (k, v) | _ \<Rightarrow> None))"

definition ParseQuery :: "string \<Rightarrow> (string \<times> string) option list" where
  "ParseQuery s = map parse_pair (filter (\<lambda>p. p \<noteq> []) (Split CHR ''&'' s))"

section \<open>A tunnel that is up\<close>

text \<open>What a tunnel meets while it is served: a stream with the connection to the local server, if that could
  be dialled, a close frame, or the end of the session, by the peer, by \<open>smux\<close> or because the agent stops.\<close>

datatype tunnel_event = Accepted endpoint "endpoint option" | CloseFrame int string | AcceptFailed

text \<open>\<open>serveTunnel\<close>: the streams it serves and how it ended, if it did; \<open>superseded\<close> is the flag the close
  handler sets.\<close>

fun serveTunnel :: "bool \<Rightarrow> tunnel_event list \<Rightarrow> (endpoint + splice) list \<times> tunnel_error option" where
  "serveTunnel superseded [] = ([], None)"
| "serveTunnel superseded (Accepted strm local # es) =
    (let (ss, r) = serveTunnel superseded es in (serveStream local strm # ss, r))"
| "serveTunnel superseded (CloseFrame code reason # es) = serveTunnel (superseded \<or> close_is_superseded code reason) es"
| "serveTunnel superseded (AcceptFailed # es) = ([], Some (if superseded then Superseded else OtherError))"

text \<open>Every stream of a session is served; the tunnel ends as superseded exactly when a close frame said so before.\<close>

lemma serveTunnel_ends:
  assumes "AcceptFailed \<notin> set es"
  shows "serveTunnel sd (es @ AcceptFailed # es') = ([serveStream l s. Accepted s l \<leftarrow> es],
    Some (if sd \<or> (\<exists>(c, r) \<in> {(c, r). CloseFrame c r \<in> set es}. close_is_superseded c r) then Superseded else OtherError))"
  using assms
proof (induction sd es rule: serveTunnel.induct)
  case (3 sd c r es)
  then show ?case by (auto simp: split_def)
qed (auto simp: Let_def)

lemma serveTunnel_one_frame:
  "snd (serveTunnel False [CloseFrame c r, AcceptFailed]) = Some (serve_error (Some (c, r)))"
  "snd (serveTunnel False [AcceptFailed]) = Some (serve_error None)"
  by (simp_all add: serve_error_def)

section \<open>One attempt\<close>

definition pairPath :: string where "pairPath = ''/rc''"

text \<open>What a tunnel is started with; the dialer is an argument of \<open>dialAndServeTunnel\<close>, and what it tells the pool's status a
  list of events.\<close>

record tunnelParams =
  tq_server :: string
  tq_token :: string
  tq_label :: string
  tq_port :: string
  tq_target :: string
  tq_index :: nat
  tq_instance :: string
  tq_takeover :: bool

definition tunnel_query :: "tunnelParams \<Rightarrow> (string \<times> string) list" where
  "tunnel_query p = [(''agent'', tq_label p), (''session'', itoa (int (tq_index p))), (''port'', tq_port p), (''instance'', tq_instance p)]
     @ (if tq_takeover p then [(''takeover'', ''1'')] else [])"

text \<open>The address with its query, and the value of the \<open>Authorization\<close> header.\<close>

definition tunnel_request :: "(string \<Rightarrow> url option) \<Rightarrow> tunnelParams \<Rightarrow> agent_error + url \<times> string \<times> string" where
  "tunnel_request parse p = (case wsURL parse (tq_server p) tunnelPath of Inl e \<Rightarrow> Inl e
     | Inr u \<Rightarrow> Inr (u, Encode (tunnel_query p), ''Bearer '' @ tq_token p))"

text \<open>The dial fails, with a response or none, or gives a tunnel, with what that meets.\<close>

datatype dial_result = DialFailed "(int \<times> string) option" "string \<times> int \<times> int" | Served "tunnel_event list"

text \<open>What an attempt reports to the pool's status; the error is missing while the tunnel is up.\<close>

datatype status_event = WentUp nat | WentDown nat

definition dialAndServeTunnel :: "(string \<Rightarrow> url option) \<Rightarrow> (url \<times> string \<times> string \<Rightarrow> dial_result) \<Rightarrow> tunnelParams
    \<Rightarrow> status_event list \<times> tunnel_error option" where
  "dialAndServeTunnel parse dial p =
    (case tunnel_request parse p of Inl e \<Rightarrow> ([], Some OtherError)
     | Inr rq \<Rightarrow> (case dial rq of DialFailed resp body \<Rightarrow> ([], Some (dial_error resp body))
         | Served es \<Rightarrow> (case snd (serveTunnel False es) of None \<Rightarrow> ([WentUp (tq_index p)], None)
             | Some e \<Rightarrow> ([WentUp (tq_index p), WentDown (tq_index p)], Some e))))"

text \<open>An attempt that has ended has gone up as often as it went down.\<close>

lemma attempt_balances:
  assumes "dialAndServeTunnel parse dial p = (evs, Some e)"
  shows "count_list evs (WentUp i) = count_list evs (WentDown i)"
  using assms by (auto simp: dialAndServeTunnel_def split: sum.splits dial_result.splits option.splits)

section \<open>Starting the agent\<close>

text \<open>\<open>promptForToken\<close>, from the line that was read and whether reading it failed.\<close>

definition promptForToken :: "string \<Rightarrow> bool \<Rightarrow> string option" where
  "promptForToken line failed = (if failed \<or> TrimSpace line = '''' then None else Some (TrimSpace line))"

definition zero_rcState :: rcState where
  "zero_rcState = \<lparr>rc_Server = '''', rc_Token = '''', rc_Label = '''', rc_Insecure = False\<rparr>"

definition loadRCState :: "rcState option \<Rightarrow> rcState" where
  "loadRCState file = (case file of None \<Rightarrow> zero_rcState | Some st \<Rightarrow> st)"

datatype agent_run = BadSettings agent_error | SaveFailed | PairingSaved | Running "tunnelParams list"

text \<open>\<open>runTunnelAgent\<close> up to the start of the tunnels; \<open>write\<close> is what \<open>saveRCState\<close> does to the file, with whether
  it succeeded, \<open>inst\<close> the identifier of this process.\<close>

definition start_params :: "rcState \<Rightarrow> TunnelConfig \<Rightarrow> string \<Rightarrow> string \<Rightarrow> tunnelParams list" where
  "start_params st cfg port inst = map (\<lambda>i. \<lparr>tq_server = rc_Server st, tq_token = rc_Token st, tq_label = tn_Label cfg,
     tq_port = port, tq_target = tn_Target cfg, tq_index = i, tq_instance = inst, tq_takeover = tn_Takeover cfg\<rparr>) [0..<nat (tn_Tunnels cfg)]"

definition runTunnelAgent :: "(string \<Rightarrow> url option) \<Rightarrow> (string \<Rightarrow> (string \<times> string) option) \<Rightarrow> int \<Rightarrow> string option \<Rightarrow> string \<times> bool
    \<Rightarrow> (rcState \<Rightarrow> rcState option \<Rightarrow> rcState option \<times> bool) \<Rightarrow> string \<Rightarrow> TunnelConfig \<Rightarrow> rcState option \<Rightarrow> rcState option \<times> agent_run" where
  "runTunnelAgent parse SplitHostPort port hostname prompt write inst cfg file =
    (case agent_settings parse SplitHostPort port hostname (promptForToken (fst prompt) (snd prompt)) (loadRCState file) cfg of
       Inl e \<Rightarrow> (file, BadSettings e)
     | Inr (st, cfg, p) \<Rightarrow>
         let (file, ok) = write st file in
         if tn_SaveOnly cfg then (file, if ok then PairingSaved else SaveFailed)
         else (file, Running (start_params st cfg p inst)))"


section \<open>A query is read back as it was written\<close>

lemma unhex_upperhex: "n < 16 \<Longrightarrow> unhex (upperhex n) = Some n \<and> upperhex n \<noteq> CHR ''%'' \<and> upperhex n \<noteq> CHR ''&'' \<and> upperhex n \<noteq> CHR ''=''"
proof -
  have "\<forall>n \<in> {..<16}. unhex (upperhex n) = Some n \<and> upperhex n \<noteq> CHR ''%'' \<and> upperhex n \<noteq> CHR ''&'' \<and> upperhex n \<noteq> CHR ''=''"
    by code_simp
  then show "n < 16 \<Longrightarrow> ?thesis" by simp
qed

lemma unreserved_not: "unreserved c \<Longrightarrow> c \<noteq> CHR ''%'' \<and> c \<noteq> CHR ''+'' \<and> c \<noteq> CHR ''&'' \<and> c \<noteq> CHR ''=''"
proof -
  have "\<not> unreserved CHR ''%'' \<and> \<not> unreserved CHR ''+'' \<and> \<not> unreserved CHR ''&'' \<and> \<not> unreserved CHR ''=''"
    by code_simp
  then show "unreserved c \<Longrightarrow> ?thesis" by auto
qed

lemma hex_halves: "of_char c div 16 < (16::nat)" "of_char c mod 16 < (16::nat)" "16 * (of_char c div 16) + of_char c mod 16 = (of_char c :: nat)"
proof -
  have "of_char c < (256 :: nat)" by (rule nat_of_char_less_256)
  then show "of_char c div 16 < (16::nat)" by (rule less_mult_imp_div_less [of _ 16 16, simplified])
qed simp_all

lemma QueryUnescape_escape: "QueryUnescape (escape_char c @ s) = map_option ((#) c) (QueryUnescape s)"
  using unreserved_not [of c] unhex_upperhex [OF hex_halves(1), of c] unhex_upperhex [OF hex_halves(2), of c] hex_halves(3) [of c]
  by (simp add: escape_char_def)

lemma QueryUnescape_QueryEscape: "QueryUnescape (QueryEscape s) = Some s"
  by (induction s) (simp_all add: QueryEscape_def QueryUnescape_escape)

lemma QueryEscape_free: "CHR ''&'' \<notin> set (QueryEscape s)" "CHR ''='' \<notin> set (QueryEscape s)"
proof -
  have "CHR ''&'' \<notin> set (escape_char c) \<and> CHR ''='' \<notin> set (escape_char c)" for c
    using unreserved_not [of c] unhex_upperhex [OF hex_halves(1), of c] unhex_upperhex [OF hex_halves(2), of c]
    by (simp add: escape_char_def) metis
  then show "CHR ''&'' \<notin> set (QueryEscape s)" "CHR ''='' \<notin> set (QueryEscape s)"
    by (simp_all add: QueryEscape_def)
qed

lemma parse_pair_escaped: "parse_pair (QueryEscape k @ CHR ''='' # QueryEscape v) = Some (k, v)"
proof -
  have "takeWhile (\<lambda>c. c \<noteq> CHR ''='') (QueryEscape k @ CHR ''='' # QueryEscape v) = QueryEscape k"
    using QueryEscape_free(2) [of k] by (subst takeWhile_append2) auto
  then show ?thesis by (simp add: parse_pair_def QueryUnescape_QueryEscape)
qed

lemma Split_Join: "list_all (\<lambda>p. c \<notin> set p) ps \<Longrightarrow> ps \<noteq> [] \<Longrightarrow> Split c (Join_with c ps) = ps"
  by (induction c ps rule: Join_with.induct) (simp_all add: Split_append Split_free)

lemma ParseQuery_Encode:
  assumes "q \<noteq> []"
  shows "ParseQuery (Encode q) = map Some (sort_key fst q)"
proof -
  let ?f = "\<lambda>(k, v). QueryEscape k @ CHR ''='' # QueryEscape v"
  have "list_all (\<lambda>p. CHR ''&'' \<notin> set p) (map ?f (sort_key fst q))"
    by (auto simp: list_all_iff QueryEscape_free)
  moreover have "sort_key fst q \<noteq> []" using assms by (metis length_0_conv length_sort)
  ultimately have "ParseQuery (Encode q) = map parse_pair (filter (\<lambda>p. p \<noteq> []) (map ?f (sort_key fst q)))"
    by (simp add: ParseQuery_def Encode_def Split_Join)
  also have "filter (\<lambda>p. p \<noteq> []) (map ?f (sort_key fst q)) = map ?f (sort_key fst q)" by (auto simp: filter_id_conv)
  finally show ?thesis by (auto simp: parse_pair_escaped)
qed

lemma tunnel_query_sorted:
  "sort_key fst (tunnel_query p) = [(''agent'', tq_label p), (''instance'', tq_instance p), (''port'', tq_port p),
     (''session'', itoa (int (tq_index p)))] @ (if tq_takeover p then [(''takeover'', ''1'')] else [])"
  by (simp add: tunnel_query_def)


text \<open>C22: what the rendezvous reads from the request of a tunnel is what the agent was given: no label, port
  or identifier, whatever characters it has, can add a parameter or change another one, and a takeover is asked for only
  when the user did.\<close>

theorem request_parameters_are_kept:
  assumes "tunnel_request parse p = Inr (u, query, auth)"
  shows "ParseQuery query = map Some ([(''agent'', tq_label p), (''instance'', tq_instance p), (''port'', tq_port p),
      (''session'', itoa (int (tq_index p)))] @ (if tq_takeover p then [(''takeover'', ''1'')] else []))
    \<and> auth = ''Bearer '' @ tq_token p"
proof -
  have "tunnel_query p \<noteq> []" by (simp add: tunnel_query_def)
  from ParseQuery_Encode [OF this] assms show ?thesis
    by (auto simp: tunnel_request_def tunnel_query_sorted split: sum.splits)
qed

definition demo_params :: tunnelParams where
  "demo_params = \<lparr>tq_server = ''https://memd'', tq_token = ''t'', tq_label = ''my box&takeover=1'', tq_port = ''80'', tq_target = ''127.0.0.1:80'',
     tq_index = 0, tq_instance = ''ab'', tq_takeover = False\<rparr>"

theorem request_parameters_are_kept_witness:
  "case tunnel_request (\<lambda>u. Some (''https'', ''memd'', '''')) demo_params of Inl e \<Rightarrow> False
     | Inr (u, query, auth) \<Rightarrow> query = ''agent=my+box%26takeover%3D1&instance=ab&port=80&session=0''
         \<and> ParseQuery query = map Some [(''agent'', ''my box&takeover=1''), (''instance'', ''ab''), (''port'', ''80''), (''session'', ''0'')]"
proof -
  let ?parse = "\<lambda>u. Some (''https'', ''memd'', '''')"
  have r: "tunnel_request ?parse demo_params = Inr ((''wss'', ''memd'', ''/rc/tunnel''), Encode (tunnel_query demo_params), ''Bearer t'')"
    by (simp add: tunnel_request_def wsURL_def demo_params_def TrimRight_def tunnelPath_def)
  have z: "itoa 0 = ''0''" by code_simp
  have e: "Encode (tunnel_query demo_params) = ''agent=my+box%26takeover%3D1&instance=ab&port=80&session=0''" by code_simp
  show ?thesis
    using request_parameters_are_kept [OF r] unfolding r e by (simp add: demo_params_def z)
qed


section \<open>A saved pairing\<close>

text \<open>A service is paired with \<open>-rc-save\<close> and later started with no options.\<close>

definition no_options :: TunnelConfig where
  "no_options = \<lparr>tn_Server = '''', tn_Target = '''', tn_Token = '''', tn_Label = '''', tn_Tunnels = 0, tn_Takeover = False,
     tn_Insecure = None, tn_SaveOnly = False\<rparr>"

definition saves :: "rcState \<Rightarrow> rcState option \<Rightarrow> rcState option \<times> bool" where
  "saves st file = (Some st, True)"

lemma merge_no_options: "rc_Server st \<noteq> '''' \<Longrightarrow> merge_state no_options st = st"
  by (simp add: merge_state_def no_options_def TrimSpace_def)

lemma fill_no_options:
  "tn_Label (fill_config port host st no_options) = (if rc_Label st \<noteq> '''' then rc_Label st
     else case host of Some h \<Rightarrow> if h \<noteq> '''' then h else ''termulaa'' | None \<Rightarrow> ''termulaa'')"
  "tn_Target (fill_config port host st no_options) = ''127.0.0.1:'' @ itoa port"
  "tn_Tunnels (fill_config port host st no_options) = 4" "\<not> tn_SaveOnly (fill_config port host st no_options)"
  "\<not> tn_Takeover (fill_config port host st no_options)"
  by (simp_all add: fill_config_def no_options_def TrimSpace_def Let_def defaultRCTunnels_def split: option.split)

text \<open>settings saved with \<open>-rc-save\<close> are those a later start without options runs with: the user is not
  asked for a token, and the four tunnels carry the saved server, token and label, a new identifier and
  their own numbers; the file stays as it is.\<close>

theorem saved_pairing_is_used:
  assumes "runTunnelAgent parse split port host prompt saves inst cfg file = (file', PairingSaved)"
    and "split (''127.0.0.1:'' @ itoa port') = Some (h', p')"
  shows "\<exists>st. file' = Some st \<and> TrimSpace (rc_Token st) \<noteq> ''''
    \<and> runTunnelAgent parse split port' host' prompt' saves inst' no_options file' = (file', Running
        (map (\<lambda>i. \<lparr>tq_server = rc_Server st, tq_token = rc_Token st,
            tq_label = (if rc_Label st \<noteq> '''' then rc_Label st else case host' of Some h \<Rightarrow> if h \<noteq> '''' then h else ''termulaa'' | None \<Rightarrow> ''termulaa''),
            tq_port = p', tq_target = ''127.0.0.1:'' @ itoa port', tq_index = i, tq_instance = inst', tq_takeover = False\<rparr>) [0..<4]))"
proof -
  let ?pr = "promptForToken (fst prompt) (snd prompt)"
  from assms(1) obtain st cfg' p where a: "agent_settings parse split port host ?pr (loadRCState file) cfg = Inr (st, cfg', p)" "file' = Some st"
    by (auto simp: runTunnelAgent_def saves_def split: sum.splits prod.splits if_splits)
  from agent_starts_with_valid_settings [OF a(1)] have v: "TrimSpace (rc_Token st) \<noteq> ''''" "rc_Server st \<noteq> ''''"
    "\<exists>u. wsURL parse (rc_Server st) tunnelPath = Inr u" by auto
  let ?cfg = "fill_config port' host' st no_options"
  have m: "merge_state no_options st = st" using v(2) by (rule merge_no_options)
  have s: "agent_settings parse split port' host' pr st no_options = Inr (st, ?cfg, p')" for pr
    using v assms(2) by (auto simp: agent_settings_def m Let_def fill_no_options maxRCTunnels_def)
  have "runTunnelAgent parse split port' host' prompt' saves inst' no_options file' = (file', Running (start_params st ?cfg p' inst'))"
    using s a(2) by (simp add: runTunnelAgent_def loadRCState_def saves_def fill_no_options)
  with a(2) v(1) show ?thesis by (simp add: start_params_def fill_no_options)
qed


definition demo_pairing :: rcState where
  "demo_pairing = \<lparr>rc_Server = ''https://memd.debkosh.com'', rc_Token = ''secret'', rc_Label = '''', rc_Insecure = False\<rparr>"

theorem saved_pairing_is_used_witness:
  "runTunnelAgent (\<lambda>u. Some (''https'', ''memd'', '''')) (\<lambda>t. Some (''127.0.0.1'', ''80'')) 80 None ('''', True) saves ''i1''
      (no_options\<lparr>tn_Token := ''secret '', tn_SaveOnly := True\<rparr>) None = (Some demo_pairing, PairingSaved)
    \<and> runTunnelAgent (\<lambda>u. Some (''https'', ''memd'', '''')) (\<lambda>t. Some (''127.0.0.1'', ''80'')) 80 (Some ''box'') ('''', True) saves ''i2''
      no_options (Some demo_pairing) = (Some demo_pairing, Running (map (\<lambda>i. \<lparr>tq_server = ''https://memd.debkosh.com'', tq_token = ''secret'',
        tq_label = ''box'', tq_port = ''80'', tq_target = ''127.0.0.1:'' @ itoa 80, tq_index = i, tq_instance = ''i2'', tq_takeover = False\<rparr>) [0..<4]))"
proof -
  have r: "runTunnelAgent (\<lambda>u. Some (''https'', ''memd'', '''')) (\<lambda>t. Some (''127.0.0.1'', ''80'')) 80 None ('''', True) saves ''i1''
      (no_options\<lparr>tn_Token := ''secret '', tn_SaveOnly := True\<rparr>) None = (Some demo_pairing, PairingSaved)"
    by code_simp
  show ?thesis
    using saved_pairing_is_used [OF r, where port' = 80 and host' = "Some ''box''" and prompt' = "('''', True)" and inst' = "''i2''"] r by (simp add: demo_pairing_def)
qed

section \<open>Identifiers and the end of a connection\<close>

text \<open>\<open>newInstanceID\<close> of sixteen random bytes; \<open>wsConn.Close\<close> closes the WebSocket once and keeps what that gave.\<close>

definition newInstanceID :: "bytes \<Rightarrow> string" where
  "newInstanceID b = HexEncode b"

record wsConn =
  wc_closed :: nat
  wc_err :: "string option option"

definition Close_conn :: "string option \<Rightarrow> wsConn \<Rightarrow> wsConn \<times> string option" where
  "Close_conn r c = (case wc_err c of None \<Rightarrow> (c\<lparr>wc_closed := wc_closed c + 1, wc_err := Some r\<rparr>, r) | Some e \<Rightarrow> (c, e))"

text \<open>Whoever closes first, the WebSocket is closed once and every caller gets the same answer.\<close>

lemma closed_once:
  assumes "wc_err c = None"
  shows "\<exists>c'. foldl (\<lambda>(c, es) r. case Close_conn r c of (c', e) \<Rightarrow> (c', es @ [e])) (c, []) (r # rs) = (c', replicate (Suc (length rs)) r)
    \<and> wc_closed c' = wc_closed c + 1"
proof -
  let ?f = "\<lambda>(c, es) r. case Close_conn r c of (c', e) \<Rightarrow> (c', es @ [e])"
  have "foldl ?f (c', es) rs = (c', es @ replicate (length rs) r)" if "wc_err c' = Some r" for c' es
    using that by (induction rs arbitrary: es) (simp_all add: Close_conn_def)
  then show ?thesis using assms by (simp add: Close_conn_def)
qed


section \<open>The libraries' settings\<close>

definition handshakeTimeout :: int where "handshakeTimeout = 15 * second"
definition localDialTimeout :: int where "localDialTimeout = 10 * second"

record muxSettings =
  mx_Version :: int
  mx_KeepAliveInterval :: int
  mx_KeepAliveTimeout :: int
  mx_MaxFrameSize :: int
  mx_MaxReceiveBuffer :: int
  mx_MaxStreamBuffer :: int

text \<open>\<open>muxConfig\<close> changes the library's default; the other fields of that stay.\<close>

definition muxConfig :: "'a muxSettings_scheme \<Rightarrow> 'a muxSettings_scheme" where
  "muxConfig c = c\<lparr>mx_Version := 2, mx_KeepAliveInterval := 10 * second, mx_KeepAliveTimeout := 30 * second,
     mx_MaxFrameSize := 32 * 1024, mx_MaxReceiveBuffer := 4 * 1024 * 1024, mx_MaxStreamBuffer := 512 * 1024\<rparr>"

text \<open>A stream cannot take the whole buffer of its session, one frame carries what \<open>copyBytes\<close> reads at once, and
  several keep-alives are missed before a session is given up.\<close>

lemma muxConfig_sizes:
  "int spliceCopyBufSize \<le> mx_MaxFrameSize (muxConfig c)" "mx_MaxFrameSize (muxConfig c) < 2 ^ 16"
  "8 * mx_MaxStreamBuffer (muxConfig c) \<le> mx_MaxReceiveBuffer (muxConfig c)"
  "3 * mx_KeepAliveInterval (muxConfig c) \<le> mx_KeepAliveTimeout (muxConfig c)"
  by (simp_all add: muxConfig_def spliceCopyBufSize_def second_def)

text \<open>The proxy is that of the environment.\<close>

record dialer =
  dl_ProxyFromEnvironment :: bool
  dl_HandshakeTimeout :: int
  dl_InsecureSkipVerify :: bool

definition rcDialer :: "bool \<Rightarrow> dialer" where
  "rcDialer insecure = (let d = \<lparr>dl_ProxyFromEnvironment = True, dl_HandshakeTimeout = handshakeTimeout, dl_InsecureSkipVerify = False\<rparr>
     in if insecure then d\<lparr>dl_InsecureSkipVerify := True\<rparr> else d)"


section \<open>The command line\<close>

text \<open>The flags of \<open>main\<close> that concern the agent, after parsing; \<open>-rc-insecure\<close> counts only when it was given.\<close>

record agent_flags =
  fl_version :: bool
  fl_rc :: bool
  fl_rcSave :: bool
  fl_rcServer :: string
  fl_rcTarget :: string
  fl_rcToken :: string
  fl_rcLabel :: string
  fl_rcTunnels :: int
  fl_rcTakeover :: bool
  fl_rcInsecure :: "bool option"

datatype run_mode = PrintVersion | RunAgent TunnelConfig | RunServer

definition main_mode :: "agent_flags \<Rightarrow> run_mode" where
  "main_mode f =
    (if fl_version f then PrintVersion
     else if fl_rc f \<or> fl_rcSave f then
       RunAgent \<lparr>tn_Server = fl_rcServer f, tn_Target = fl_rcTarget f, tn_Token = fl_rcToken f, tn_Label = fl_rcLabel f,
         tn_Tunnels = fl_rcTunnels f, tn_Takeover = fl_rcTakeover f, tn_Insecure = fl_rcInsecure f, tn_SaveOnly = fl_rcSave f\<rparr>
     else RunServer)"

text \<open>Whether certificates are checked changes only when the user says so.\<close>

lemma insecure_only_when_given:
  assumes "main_mode f = RunAgent cfg" "fl_rcInsecure f = None"
  shows "rc_Insecure (merge_state cfg st) = rc_Insecure st"
  using assms by (auto simp: main_mode_def merge_state_def Let_def split: if_splits)

end
