(* ===== verification/Web.thy ===== *)
theory Web
  imports Security
begin

text \<open>
  The handlers of \<open>src/cmd/termulaa/handler.go\<close> over the session manager: the REST routes, the channel
  that owns a tab (\<open>handleTabWS\<close>), the opening of a session channel and its reader
  (\<open>handleSessionWS\<close>). A request is its decoded form: what \<open>encoding/json\<close> and the router deliver, with
  the identifiers \<open>generateID\<close> will return. \<open>None\<close> is a panic of the handler.
\<close>

section \<open>REST\<close>

datatype body = NoBody | Message string | ErrorBody error | TabsBody "TabInfo list" | TabBody Tab | SessionBody SessionInfo
  | SettingsBody FullConfig | HealthBody nat nat | PageBody

datatype route = TabPage string | GetTabs | PostTabs string string string | GetTabR string
  | PutTab string "(string \<times> layout option) option" | DeleteTabR string
  | GetSessionR string | DeleteSessionR string
  | GetSettings | PutSettings FullConfig bool | Health

text \<open>The server as the handlers see it; the last component is the settings file.\<close>

record server =
  sv_mgr :: SessionManager
  sv_cfg :: FullConfig
  sv_file :: "FullConfig option"

text \<open>\<open>SaveState\<close> after a change that succeeded; the response has no body.\<close>

definition saved :: "world \<Rightarrow> SessionManager \<Rightarrow> server \<Rightarrow> (server \<times> int \<times> body) option" where
  "saved w m sv = do { m \<leftarrow> SaveState w m; Some (sv\<lparr>sv_mgr := m\<rparr>, 200, NoBody) }"

fun rest :: "world \<Rightarrow> route \<Rightarrow> server \<Rightarrow> (server \<times> int \<times> body) option" where
  "rest w (TabPage i) sv = Some (sv, if \<not> isValidID i then (400, Message ''invalid id'') else (200, PageBody))"
| "rest w GetTabs sv = Some (sv, 200, TabsBody (ListTabs (sv_mgr sv)))"
| "rest w (PostTabs name sid tid) sv = do {
     let name = (if name = '''' then ''Terminal'' else name);
     (m, res) \<leftarrow> CreateTab w name sid tid (sv_mgr sv);
     Some (sv\<lparr>sv_mgr := m\<rparr>, case res of Inl e \<Rightarrow> (500, ErrorBody e)
       | Inr i \<Rightarrow> (200, case GetTab m i of Some t \<Rightarrow> TabBody t | None \<Rightarrow> NoBody))
   }"
| "rest w (GetTabR i) sv =
     (if \<not> isValidID i then Some (sv, 400, Message ''invalid id'')
      else (case GetTab (sv_mgr sv) i of None \<Rightarrow> Some (sv, 404, Message ''tab not found'')
        | Some t \<Rightarrow> Some (sv, 200, TabBody t)))"
| "rest w (PutTab i req) sv =
     (if \<not> isValidID i then Some (sv, 400, Message ''invalid id'')
      else (case req of None \<Rightarrow> Some (sv, 400, Message ''invalid JSON'')
        | Some (name, lay) \<Rightarrow>
            (case UpdateTab w i name lay (sv_mgr sv) of
               (m, Inl e) \<Rightarrow> Some (sv\<lparr>sv_mgr := m\<rparr>, 404, ErrorBody e)
             | (m, Inr _) \<Rightarrow> saved w m sv)))"
| "rest w (DeleteTabR i) sv =
     (if \<not> isValidID i then Some (sv, 400, Message ''invalid id'')
      else (case DeleteTab w i True (sv_mgr sv) of
         (m, Inl e) \<Rightarrow> Some (sv\<lparr>sv_mgr := m\<rparr>, 404, ErrorBody e)
       | (m, Inr _) \<Rightarrow> saved w m sv))"
| "rest w (GetSessionR i) sv =
     (if \<not> isValidID i then Some (sv, 400, Message ''invalid id'')
      else (case GetSession (sv_mgr sv) i of None \<Rightarrow> Some (sv, 404, Message ''session not found'')
        | Some s \<Rightarrow> Some (sv, 200, SessionBody (Info s))))"
| "rest w (DeleteSessionR i) sv =
     (if \<not> isValidID i then Some (sv, 400, Message ''invalid id'')
      else (case DeleteSession w i (sv_mgr sv) of
         (m, Inl e) \<Rightarrow> Some (sv\<lparr>sv_mgr := m\<rparr>, 404, ErrorBody e)
       | (m, Inr _) \<Rightarrow> saved w m sv))"
| "rest w GetSettings sv = Some (sv, 200, SettingsBody (sv_cfg sv))"
| "rest w (PutSettings cfg ok) sv =
     (let sv = sv\<lparr>sv_cfg := cfg\<rparr> in
      if \<not> ok then Some (sv, 400, Message ''invalid JSON'')
      else if \<not> w_canWrite w (Join (w_home w) ''.termulaa/config.json'') then Some (sv, 500, Message ''error'')
      else Some (sv\<lparr>sv_file := Some cfg\<rparr>, 200, NoBody))"
| "rest w Health sv = Some (sv, 200, HealthBody (length (ListSessions (sv_mgr sv))) (length (ListTabs (sv_mgr sv))))"

section \<open>The channel that owns a tab\<close>

datatype connect_result = Refused int | Resumed tabClient | AskTakeover | Vacant

definition tab_ws_connect :: "int \<Rightarrow> string \<Rightarrow> string \<Rightarrow> string \<Rightarrow> nat \<Rightarrow> SessionManager \<Rightarrow> SessionManager \<times> connect_result" where
  "tab_ws_connect port orig tab resume conn m =
    (if \<not> isValidID tab then (m, Refused 400)
     else if GetTab m tab = None then (m, Refused 404)
     else if \<not> isOriginAllowed port orig then (m, Refused 403)
     else (case ResumeTabClient tab resume conn m of
        (m, Some c) \<Rightarrow> (m, Resumed c)
      | (m, None) \<Rightarrow>
          if IsTabActive m tab then (m\<lparr>g_sent := g_sent m @ [(conn, Conflict)]\<rparr>, AskTakeover) else (m, Vacant)))"

text \<open>The answer to the conflict message; \<open>None\<close> when it cannot be read. The result says whether to go on.\<close>

definition tab_ws_resolve :: "world \<Rightarrow> string \<Rightarrow> nat \<Rightarrow> string option \<Rightarrow> string list \<Rightarrow> SessionManager \<Rightarrow> (SessionManager \<times> bool) option" where
  "tab_ws_resolve w tab conn answer ids m =
    (if answer = Some ''takeover'' then Some (DisconnectTabOwner tab m, True)
     else if answer = Some ''new'' then do {
       (m, res) \<leftarrow> ReplaceTabSessions w tab ids m;
       Some (case res of Inl e \<Rightarrow> (m\<lparr>g_sent := g_sent m @ [(conn, ErrorMsg e)], g_closed := g_closed m @ [conn]\<rparr>, False)
         | Inr _ \<Rightarrow> (DisconnectTabOwner tab m, True))
     }
     else Some (m\<lparr>g_closed := g_closed m @ [conn]\<rparr>, False))"

text \<open>The greeting reads the tab again: it panics when the tab is gone.\<close>

definition tab_ws_greet :: "tabClient \<Rightarrow> SessionManager \<Rightarrow> SessionManager option" where
  "tab_ws_greet c m = (case GetTab m (tc_tabID c) of None \<Rightarrow> None
     | Some t \<Rightarrow> Some (m\<lparr>g_sent := g_sent m @ [(tc_conn c, Connected (tab_Layout t) (SessionIDs (tab_Layout t)) (tc_token c))]\<rparr>))"

definition tab_ws_register :: "string \<Rightarrow> nat \<Rightarrow> string \<Rightarrow> SessionManager \<Rightarrow> SessionManager \<times> tabClient" where
  "tab_ws_register tab conn token m =
    (let c = \<lparr>tc_conn = conn, tc_tabID = tab, tc_token = token\<rparr> in (RegisterTabClient tab c m, c))"

text \<open>The whole opening when no other request comes between; \<open>None\<close> as the client when it was refused.\<close>

definition tab_ws_open :: "world \<Rightarrow> int \<Rightarrow> string \<Rightarrow> string \<Rightarrow> string \<Rightarrow> nat \<Rightarrow> string option \<Rightarrow> string list \<Rightarrow> string
    \<Rightarrow> SessionManager \<Rightarrow> (SessionManager \<times> tabClient option) option" where
  "tab_ws_open w port orig tab resume conn answer ids token m =
    (case tab_ws_connect port orig tab resume conn m of
       (m, Refused code) \<Rightarrow> Some (m, None)
     | (m, Resumed c) \<Rightarrow> do { m \<leftarrow> tab_ws_greet c m; Some (m, Some c) }
     | (m, Vacant) \<Rightarrow> (case tab_ws_register tab conn token m of (m, c) \<Rightarrow> do { m \<leftarrow> tab_ws_greet c m; Some (m, Some c) })
     | (m, AskTakeover) \<Rightarrow> do {
         (m, on) \<leftarrow> tab_ws_resolve w tab conn answer ids m;
         if \<not> on then Some (m, None)
         else (case tab_ws_register tab conn token m of (m, c) \<Rightarrow> do { m \<leftarrow> tab_ws_greet c m; Some (m, Some c) })
       })"

datatype tab_cmd = PingCmd | SplitCmd string string | CloseCmd string | LayoutCmd "layout option" | RenameCmd string | OtherCmd

definition tell :: "nat \<Rightarrow> tab_msg \<Rightarrow> SessionManager \<Rightarrow> SessionManager" where
  "tell conn msg m = m\<lparr>g_sent := g_sent m @ [(conn, msg)]\<rparr>"

definition tab_command :: "world \<Rightarrow> tabClient \<Rightarrow> tab_cmd \<Rightarrow> string \<Rightarrow> SessionManager \<Rightarrow> SessionManager option" where
  "tab_command w c cmd new m = (let tab = tc_tabID c in case cmd of
     PingCmd \<Rightarrow> Some (tell (tc_conn c) Pong m)
   | SplitCmd sid dir \<Rightarrow> do {
       (m, res) \<leftarrow> SplitPane w tab sid dir new m;
       Some (case res of Inl e \<Rightarrow> tell (tc_conn c) (ErrorMsg e) m
         | Inr (i, l) \<Rightarrow> BroadcastTabEvent tab (SessionCreated i sid dir l) m)
     }
   | CloseCmd sid \<Rightarrow> do {
       (m, res) \<leftarrow> ClosePane w tab sid new m;
       Some (case res of Inl e \<Rightarrow> tell (tc_conn c) (ErrorMsg e) m | Inr l \<Rightarrow> BroadcastTabEvent tab (PaneClosed sid l) m)
     }
   | LayoutCmd None \<Rightarrow> Some m
   | LayoutCmd (Some l) \<Rightarrow> SaveState w (fst (UpdateTab w tab '''' (Some l) m))
   | RenameCmd name \<Rightarrow> if name \<noteq> '''' then SaveState w (fst (UpdateTab w tab name None m)) else Some m
   | OtherCmd \<Rightarrow> Some m)"

text \<open>The deferred end of the handler.\<close>

definition tab_ws_close :: "tabClient \<Rightarrow> SessionManager \<Rightarrow> SessionManager" where
  "tab_ws_close c m = (let m = UnregisterTabClient (tc_tabID c) c m in m\<lparr>g_closed := g_closed m @ [tc_conn c]\<rparr>)"

section \<open>The channel of a session\<close>

datatype session_open = SRefused int | SOpened bool

definition session_ws_open :: "world \<Rightarrow> int \<Rightarrow> string \<Rightarrow> string \<Rightarrow> string \<Rightarrow> string \<Rightarrow> SessionManager \<Rightarrow> (SessionManager \<times> session_open) option" where
  "session_ws_open w port orig sid tab token m =
    (if \<not> isValidID sid then Some (m, SRefused 400)
     else if \<not> isValidID tab \<or> \<not> isValidID token then Some (m, SRefused 403)
     else if \<not> CanAttachSession m tab sid token then Some (m, SRefused 403)
     else (case GetSession m sid of None \<Rightarrow> Some (m, SRefused 404)
       | Some s \<Rightarrow> do {
           (m, res) \<leftarrow> (if \<not> s_Alive s then ReviveSession w sid m else Some (m, Inr sid));
           Some (case res of Inl e \<Rightarrow> (m, SRefused 500)
             | Inr _ \<Rightarrow> if \<not> isOriginAllowed port orig then (m, SRefused 403) else (m, SOpened (\<not> s_Alive s)))
         }))"

end
