(* ===== verification/Keepalive.thy ===== *)
theory Keepalive
  imports Tunnel Web
begin

text \<open>
  How long a WebSocket lives without an answer (\<open>armReadDeadline\<close>, the tickers of \<open>handleTabWS\<close> and
  \<open>writePump\<close> in \<open>src/cmd/termulaa\<close>): the server pings on a timer, a pong moves the deadline of the
  read loop, and a read past the deadline ends the connection. Times are nanoseconds.
\<close>

definition wsPingInterval :: int where "wsPingInterval = 30 * second"
definition wsReadTimeout :: int where "wsReadTimeout = 90 * second"

text \<open>The time, the deadline of the read, when the ticker fires next, and since when a ping is unanswered.\<close>

record clock =
  ck_now :: int
  ck_deadline :: int
  ck_tick :: int
  ck_unanswered :: "int option"

definition armReadDeadline :: "clock \<Rightarrow> clock" where
  "armReadDeadline c = c\<lparr>ck_deadline := ck_now c + wsReadTimeout\<rparr>"

definition read_fails :: "clock \<Rightarrow> bool" where
  "read_fails c \<longleftrightarrow> ck_deadline c < ck_now c"

text \<open>The ticker is made \<open>d\<close> after the deadline was armed.\<close>

definition start_pings :: "int \<Rightarrow> int \<Rightarrow> clock" where
  "start_pings t d = (armReadDeadline \<lparr>ck_now = t, ck_deadline = t, ck_tick = t, ck_unanswered = None\<rparr>)
     \<lparr>ck_now := t + d, ck_tick := t + d + wsPingInterval\<rparr>"

text \<open>Time passes up to the next tick; a peer that is alive answers a ping within \<open>\<delta>\<close>.\<close>

inductive ka_step :: "int \<Rightarrow> clock \<Rightarrow> clock \<Rightarrow> bool" for \<delta> where
  passes: "0 < d \<Longrightarrow> ck_now c + d \<le> ck_tick c \<Longrightarrow> (\<And>p. ck_unanswered c = Some p \<Longrightarrow> ck_now c + d \<le> p + \<delta>) \<Longrightarrow>
    ka_step \<delta> c (c\<lparr>ck_now := ck_now c + d\<rparr>)"
| ping: "ck_now c = ck_tick c \<Longrightarrow> ka_step \<delta> c (c\<lparr>ck_tick := ck_tick c + wsPingInterval,
    ck_unanswered := (case ck_unanswered c of None \<Rightarrow> Some (ck_now c) | Some p \<Rightarrow> Some p)\<rparr>)"
| pong: "ck_unanswered c = Some p \<Longrightarrow> ka_step \<delta> c ((armReadDeadline c)\<lparr>ck_unanswered := None\<rparr>)"

definition ka_ok :: "int \<Rightarrow> clock \<Rightarrow> bool" where
  "ka_ok \<delta> c \<longleftrightarrow> ck_now c \<le> ck_tick c \<and> ck_tick c \<le> ck_now c + wsPingInterval
     \<and> (case ck_unanswered c of None \<Rightarrow> ck_tick c + \<delta> \<le> ck_deadline c | Some p \<Rightarrow> ck_now c \<le> p + \<delta> \<and> p + \<delta> \<le> ck_deadline c)"

lemma ka_step_ok:
  assumes "ka_step \<delta> c c'" "0 \<le> \<delta>" "\<delta> + wsPingInterval \<le> wsReadTimeout" "ka_ok \<delta> c"
  shows "ka_ok \<delta> c'"
  using assms
  by (induction rule: ka_step.induct)
    (auto simp: ka_ok_def armReadDeadline_def wsPingInterval_def wsReadTimeout_def second_def split: option.splits)

lemma ka_reached:
  assumes "(ka_step \<delta>)\<^sup>*\<^sup>* (start_pings t d) c" "0 \<le> \<delta>" "0 \<le> d" "d + \<delta> + wsPingInterval \<le> wsReadTimeout"
  shows "ka_ok \<delta> c"
  using assms(1)
proof (induction rule: rtranclp_induct)
  case base
  then show ?case using assms(2-4) by (simp add: ka_ok_def start_pings_def armReadDeadline_def wsPingInterval_def second_def)
next
  case (step c c')
  then show ?case using ka_step_ok [of \<delta> c c'] assms(2-4) by linarith
qed

text \<open>C17: a page that answers every ping in time is never dropped by the deadline of the read loop, however the
  ticker, the answers and the passing of time interleave: in time means within a minute, less what passed
  between arming the deadline and making the ticker.\<close>

theorem live_page_keeps_connection:
  assumes "(ka_step \<delta>)\<^sup>*\<^sup>* (start_pings t d) c" "0 \<le> \<delta>" "0 \<le> d" "d + \<delta> + wsPingInterval \<le> wsReadTimeout"
  shows "\<not> read_fails c \<and> ck_now c \<le> ck_tick c"
  using ka_reached [OF assms] assms(2) by (auto simp: ka_ok_def read_fails_def split: option.splits)

text \<open>A ping after half a minute, answered a second later.\<close>

definition demo_clock :: clock where
  "demo_clock = \<lparr>ck_now = 31 * second, ck_deadline = 121 * second, ck_tick = 60 * second, ck_unanswered = None\<rparr>"

lemma demo_clock_reached: "(ka_step second)\<^sup>*\<^sup>* (start_pings 0 0) demo_clock"
proof -
  define c1 where "c1 = \<lparr>ck_now = 30 * second, ck_deadline = 90 * second, ck_tick = 30 * second, ck_unanswered = None\<rparr>"
  define c2 where "c2 = c1\<lparr>ck_tick := 60 * second, ck_unanswered := Some (30 * second)\<rparr>"
  define c3 where "c3 = c2\<lparr>ck_now := 31 * second\<rparr>"
  note d = c1_def c2_def c3_def start_pings_def armReadDeadline_def wsPingInterval_def wsReadTimeout_def second_def demo_clock_def
  have "ka_step second (start_pings 0 0) c1" using passes [of "30 * second" "start_pings 0 0" second] by (simp add: d)
  moreover have "ka_step second c1 c2" using ping [of c1 second] by (simp add: d)
  moreover have "ka_step second c2 c3" using passes [of second c2 second] by (simp add: d)
  moreover have "ka_step second c3 demo_clock" using pong [of c3 "30 * second" second] by (simp add: d)
  ultimately show ?thesis by (blast intro: converse_rtranclp_into_rtranclp)
qed

theorem live_page_keeps_connection_witness:
  "\<not> read_fails demo_clock \<and> ck_now demo_clock \<le> ck_tick demo_clock"
  by (rule live_page_keeps_connection [OF demo_clock_reached]) (simp_all add: wsPingInterval_def wsReadTimeout_def second_def)

text \<open>A page that does not answer is dropped ninety seconds after its last answer at the latest.\<close>

lemma silent_page_is_dropped:
  assumes "(ka_step \<delta>)\<^sup>*\<^sup>* (start_pings t d) c" "0 \<le> d" "0 \<le> \<delta>"
  shows "ck_deadline c \<le> ck_now c + wsReadTimeout"
  using assms(1)
proof (induction rule: rtranclp_induct)
  case base
  then show ?case using assms(2) by (simp add: start_pings_def armReadDeadline_def)
next
  case (step c c')
  then show ?case by (auto elim!: ka_step.cases simp: armReadDeadline_def)
qed

text \<open>While a page shows the question whether to take a tab over there is no ticker yet, so nothing moves the
  deadline: a page that waits for its user for longer than it is dropped, alive or not.\<close>

lemma question_times_out: "wsReadTimeout < d \<Longrightarrow> read_fails (start_pings t d)"
  by (simp add: read_fails_def start_pings_def armReadDeadline_def)

text \<open>The keep-alive message of a page that comes back, sent while the question is open, is taken for its answer.\<close>

lemma ping_ends_question:
  "tab_ws_resolve w tab conn (Some ''ping'') ids m = Some (m\<lparr>g_closed := g_closed m @ [conn]\<rparr>, False)"
  by (simp add: tab_ws_resolve_def)

text \<open>The limits of a message and of the wait for the first size.\<close>

definition wsMaxMessageSize :: int where "wsMaxMessageSize = 2 ^ 20"
definition attachGrace :: int where "attachGrace = 2 * second"

end
