(* ===== verification/Host_Properties.thy ===== *)
theory Host_Properties
  imports Ring_Buffer Client_Queue Layout
begin

text \<open>
  What the server side of \<open>src/cmd/termulaa\<close> guarantees about the data it keeps between a terminal
  and its viewers: the output ring, the client queues, the layouts of the tabs.
\<close>

section \<open>The output ring\<close>

text \<open>The chunks of a run that none of them fills the buffer exactly.\<close>

lemma ring_admissible_Cons:
  "ring.admissible_run (p # ps) r \<longleftrightarrow> \<not> exact_fill p r \<and> (case ring_write p r of None \<Rightarrow> False | Some r' \<Rightarrow> ring.admissible_run ps r')"
  by simp

text \<open>C40: The ring buffer is a bounded log: after any sequence of writes none of which ends exactly
  where a buffer that has not wrapped yet ends, it holds the last bytes written, as many as fit.\<close>

theorem ring_keeps_last_bytes:
  assumes "ring.admissible_run ps (NewRingBuffer n)"
  shows "\<exists>r. run ring_write ps (NewRingBuffer n) = Some r \<and> readAll r = Some (lastn n (concat ps), full r)
    \<and> ring_Len r = glen (lastn n (concat ps))"
  using ring.run_content [of "NewRingBuffer n" ps] assms
  by (auto simp: wp_ex readAll_content ring_Len_content)

theorem ring_keeps_last_bytes_witness:
  "\<exists>r. run ring_write [[1, 2], [3, 4, 5]] (NewRingBuffer 4) = Some r \<and> readAll r = Some (lastn 4 (concat [[1, 2], [3, 4, 5]]), full r)
    \<and> ring_Len r = glen (lastn 4 (concat [[1, 2], [3, 4, 5 :: byte]]))"
proof (rule ring_keeps_last_bytes)
  define u :: RingBuffer where "u = \<lparr>buf = [1, 2, 0, 0], pos = 2, full = False\<rparr>"
  have "\<not> exact_fill [1, 2] (NewRingBuffer 4)" "ring_write [1, 2] (NewRingBuffer 4) = Some u"
    "\<not> exact_fill [3, 4, 5] u" "ring_write [3, 4, 5] u = Some \<lparr>buf = [5, 2, 3, 4], pos = 1, full = True\<rparr>"
    unfolding u_def by code_simp+
  then show "ring.admissible_run [[1, 2], [3, 4, 5]] (NewRingBuffer 4)" by simp
qed

text \<open>A write that ends exactly at the end of a buffer that has not wrapped yet loses all of its
  content: the ring reads as empty although the bytes are in it.\<close>

theorem ring_exact_fill_forgets:
  assumes "ring_ok r" "\<not> full r" "glen p < glen (buf r)" "pos r + glen p = glen (buf r)"
  shows "\<exists>r'. ring_write p r = Some r' \<and> buf r' = ring_content r @ p \<and> readAll r' = Some ([], False) \<and> ring_Len r' = 0"
proof -
  have "exact_fill p r" using assms by (simp add: exact_fill_def)
  from exact_fill_loses [OF assms(1) this] obtain r' where
    r': "ring_write p r = Some r'" "ring_ok r'" "ring_content r' = []" "buf r' = ring_content r @ p"
    by (auto simp: wp_ex)
  moreover have "\<not> full r'"
    using ring_write_fits [OF assms(1,3)] r'(1) assms(2,4) by auto
  ultimately show ?thesis by (simp add: readAll_content ring_Len_content)
qed

theorem ring_exact_fill_forgets_witness:
  "\<exists>r'. ring_write [3, 4] \<lparr>buf = [1, 2, 0, 0], pos = 2, full = False\<rparr> = Some r' \<and> buf r' = ring_content \<lparr>buf = [1, 2, 0, 0], pos = 2, full = False\<rparr> @ [3, 4]
    \<and> readAll r' = Some ([], False) \<and> ring_Len r' = 0"
  by (rule ring_exact_fill_forgets) (simp_all add: ring_ok_def)

text \<open>A saved scrollback that is loaded into a ring of the same size reads the same.\<close>

theorem ring_save_load:
  assumes "ring_ok r" "length (buf r') = length (buf r)"
  shows "\<exists>data u. readAll r = Some (data, full r) \<and> LoadFrom data r' = Some u \<and> ring_content u = ring_content r \<and> ring_Len u = ring_Len r"
  using LoadFrom_content [of "ring_content r" r'] ring_content_bound [OF assms(1)] assms
  by (auto simp: wp_ex readAll_content ring_Len_content lastn_all)

theorem ring_save_load_witness:
  "\<exists>data u. readAll \<lparr>buf = [4, 2, 3], pos = 1, full = True\<rparr> = Some (data, True) \<and> LoadFrom data (NewRingBuffer 3) = Some u
     \<and> ring_content u = [2, 3, 4] \<and> ring_Len u = 3"
  using ring_save_load [of "\<lparr>buf = [4, 2, 3], pos = 1, full = True\<rparr>" "NewRingBuffer 3"]
  by (auto simp: ring_ok_def ring_content_def ring_Len_def)

text \<open>A replay of a ring that wrapped is what is left after cutting up to the first escape
  character when there is one, up to and including the first newline otherwise.\<close>

theorem replay_starts_clean:
  assumes "ring_ok r" "full r" "ring_content r \<noteq> []"
  shows "\<exists>out cut. ReadReplay r = Some out \<and> ring_content r = cut @ out
    \<and> (0x1b \<in> set (ring_content r) \<longrightarrow> out \<noteq> [] \<and> hd out = 0x1b \<and> 0x1b \<notin> set cut)
    \<and> (0x1b \<notin> set (ring_content r) \<and> 0x0a \<in> set (ring_content r) \<longrightarrow> cut \<noteq> [] \<and> last cut = 0x0a \<and> 0x0a \<notin> set (butlast cut))"
proof -
  have rr: "ReadReplay r = Some (cleanReplayStart (ring_content r) True)"
    using assms by (simp add: ReadReplay_def readAll_content)
  consider "0x1b \<in> set (ring_content r)" | "0x1b \<notin> set (ring_content r)" "0x0a \<in> set (ring_content r)"
    | "0x1b \<notin> set (ring_content r)" "0x0a \<notin> set (ring_content r)" by blast
  then show ?thesis
  proof cases
    case 1
    with cleanReplayStart_cases(1) [OF assms(3)] rr show ?thesis by fastforce
  next
    case 2
    with cleanReplayStart_cases(2) [OF assms(3)] obtain cut where
      "ring_content r = cut @ 0x0a # cleanReplayStart (ring_content r) True" "0x0a \<notin> set cut" by blast
    with 2 rr show ?thesis by (intro exI [of _ "cleanReplayStart (ring_content r) True"] exI [of _ "cut @ [0x0a]"]) simp
  next
    case 3
    with cleanReplayStart_suffix [of "ring_content r" True] rr show ?thesis by auto
  qed
qed

theorem replay_starts_clean_witness:
  "\<exists>out cut. ReadReplay \<lparr>buf = [0x1b, 0x41, 0x81, 0x42], pos = 2, full = True\<rparr> = Some out \<and> [0x81, 0x42, 0x1b, 0x41] = cut @ out
    \<and> hd out = 0x1b \<and> 0x1b \<notin> set cut"
  using replay_starts_clean [of "\<lparr>buf = [0x1b, 0x41, 0x81, 0x42], pos = 2, full = True\<rparr>"]
  by (auto simp: ring_ok_def ring_content_def numeral_2_eq_2)


section \<open>The queue of a viewer\<close>

text \<open>C24: In every interleaving of producers with the pump, the terminal bytes a viewer was sent are a
  prefix of those that were queued for it, in order; as long as the pump runs, what is still in its
  hands and in the queue is exactly the rest.\<close>

theorem viewer_gets_bytes_in_order:
  assumes "pump_reachable exitMsg tab token s"
  shows "\<exists>rest. fed s = binary_bytes (wire s) @ rest
    \<and> (pc s \<noteq> Stopped \<longrightarrow> rest = binary_bytes (in_flight (pc s)) @ binary_bytes (cout (pclient s)))"
  using reachable_invariants [OF assms] by (auto simp: in_order_def split: if_splits)

lemma pump_one_feed: "pump_reachable e tab token ((pump_init tab token)\<lparr>pclient := queueBinary [7] (newWSClient tab token), fed := [7]\<rparr>)"
  using pump_reachable.step [OF pump_reachable.start pump_step.feed [of e "pump_init tab token" "[7]"]]
  by (simp add: pump_init_def newWSClient_def)

theorem viewer_gets_bytes_in_order_witness:
  "\<exists>rest. [7] = binary_bytes (wire ((pump_init [] [])\<lparr>pclient := queueBinary [7] (newWSClient [] []), fed := [7]\<rparr>)) @ rest
    \<and> rest = binary_bytes (cout (queueBinary [7] (newWSClient [] [])))"
  using viewer_gets_bytes_in_order [OF pump_one_feed [of "[]" "[]" "[]"]] by (simp add: pump_init_def)

text \<open>No wake-up is lost: whenever frames are queued while the pump is at its \<open>select\<close>, the
  notification is pending; and the byte count the queue keeps is the size of its frames, so the
  backlog limit is enforced on the truth.\<close>

theorem pump_is_always_notified:
  assumes "pump_reachable exitMsg tab token s"
  shows "(pc s = Waiting \<and> cout (pclient s) \<noteq> [] \<longrightarrow> notify (pclient s)) \<and> outBytes (pclient s) = frame_bytes (cout (pclient s))"
  using reachable_invariants [OF assms] by (auto simp: no_lost_wakeup_def client_ok_def)

theorem pump_is_always_notified_witness:
  "notify (queueBinary [7] (newWSClient [] [])) \<and> outBytes (queueBinary [7] (newWSClient [] [])) = frame_bytes (cout (queueBinary [7] (newWSClient [] [])))"
  using pump_is_always_notified [OF pump_one_feed [of "[]" "[]" "[]"]]
  by (simp add: pump_init_def) (simp add: queueBinary_def newWSClient_def signal_def Let_def)



text \<open>A queued chunk of terminal output never makes a frame larger than both the coalescing limit
  and that chunk, is never put behind a control message it preceded, and the overflow flag is set
  exactly when the backlog exceeds its limit.\<close>

theorem queueBinary_coalesces_within_limit:
  assumes "client_ok c" "\<not> coverflow c" "frames_bounded n (cout c)" "maxCoalescedFrame \<le> n" "glen d \<le> n"
  shows "frames_bounded n (cout (queueBinary d c)) \<and> binary_bytes (cout (queueBinary d c)) = binary_bytes (cout c) @ d
    \<and> texts (cout (queueBinary d c)) = texts (cout c)
    \<and> (coverflow (queueBinary d c) \<longleftrightarrow> frame_bytes (cout c) + glen d > maxClientBacklog)"
  using queueBinary_bounded [OF assms(3-5)] queueBinary_bytes [OF assms(2), of d] assms(1) by (simp add: client_ok_def)

theorem queueBinary_coalesces_within_limit_witness:
  "frames_bounded maxCoalescedFrame (cout (queueBinary [1, 2] (queueBinary [7] (newWSClient [] []))))
    \<and> binary_bytes (cout (queueBinary [1, 2] (queueBinary [7] (newWSClient [] [])))) = [7, 1, 2]"
proof -
  have "client_ok (queueBinary [7] (newWSClient [] []))" "\<not> coverflow (queueBinary [7] (newWSClient [] []))"
    "frames_bounded maxCoalescedFrame (cout (queueBinary [7] (newWSClient [] [])))"
    "binary_bytes (cout (queueBinary [7] (newWSClient [] []))) = [7]" "glen [1, 2 :: byte] \<le> maxCoalescedFrame"
    by code_simp+
  with queueBinary_coalesces_within_limit [of "queueBinary [7] (newWSClient [] [])" maxCoalescedFrame "[1, 2]"]
  show ?thesis by simp
qed

section \<open>The layouts of the tabs\<close>

text \<open>Splitting a pane keeps the layout well formed and adds exactly the new session, right after
  the session that was split; it fails, and changes nothing, exactly when the target is not in it.\<close>

theorem split_adds_one_pane:
  assumes "wf_layout t" "target \<noteq> ''''" "new \<noteq> ''''" "splitLayoutNode t target new dir = (t', found)"
  shows "wf_layout t' \<and> found = HasSession t target \<and> SessionIDs t' = insert_after target new (SessionIDs t)
    \<and> (\<not> found \<longrightarrow> t' = t)"
  using split_spec [OF assms(1-4)] HasSession_iff [OF assms(2), of t] by simp

theorem split_adds_one_pane_witness:
  "wf_layout (fst (splitLayoutNode (pane ''a'') ''a'' ''b'' ''vertical''))
    \<and> SessionIDs (fst (splitLayoutNode (pane ''a'') ''a'' ''b'' ''vertical'')) = [''a'', ''b'']"
  using split_adds_one_pane [of "pane ''a''" "''a''" "''b''" "''vertical''"] by (simp add: pane_def)

text \<open>Closing a pane of a well-formed layout with distinct sessions removes exactly that session
  and keeps the layout well formed; it fails, and changes nothing, exactly when the session is not
  in the layout or is its only pane.\<close>

theorem close_removes_one_pane:
  assumes "wf_layout t" "distinct (SessionIDs t)" "closePaneInLayout t sid = (t', found)"
  shows "wf_layout t' \<and> (found \<longleftrightarrow> sid \<in> set (SessionIDs t) \<and> lType t = ''split'')
    \<and> SessionIDs t' = (if found then filter (\<lambda>i. i \<noteq> sid) (SessionIDs t) else SessionIDs t)"
proof -
  have "t \<noteq> NilNode" using assms(1) by auto
  then show ?thesis using close_spec [OF assms(1,3,2)] by (auto simp: is_split_def)
qed

theorem close_removes_one_pane_witness:
  "SessionIDs (fst (closePaneInLayout (LayoutNode ''split'' '''' ''h'' (1 / 2) (pane ''a'') (pane ''b'')) ''a'')) = [''b'']"
  using close_removes_one_pane [of "LayoutNode ''split'' '''' ''h'' (1 / 2) (pane ''a'') (pane ''b'')" "''a''"]
  by (simp add: is_target_def is_pane_def pane_def)

text \<open>Closing the pane a split just created gives the layout from before the split back, shape,
  directions and ratios included.\<close>

theorem close_undoes_split:
  assumes "wf_layout t" "splitLayoutNode t target new dir = (t', True)" "new \<noteq> ''''" "new \<notin> set (SessionIDs t)" "target \<noteq> new"
  shows "closePaneInLayout t' new = (t, True)"
  using split_root_or_found [OF assms(2-5,1)] by simp

theorem close_undoes_split_witness:
  "closePaneInLayout (fst (splitLayoutNode (pane ''a'') ''a'' ''b'' ''vertical'')) ''b'' = (pane ''a'', True)"
  by (rule close_undoes_split [of _ "''a''" _ "''vertical''"]) (simp_all add: pane_def)

text \<open>C34: The check of an updated layout accepts exactly the layouts that show each of the tab's
  sessions once and nothing else.\<close>

theorem layout_check_is_permutation:
  assumes "distinct expected"
  shows "layoutMatchesSessionSet t expected \<longleftrightarrow> mset (SessionIDs t) = mset expected"
  using matches_mset [OF assms] .

theorem layout_check_is_permutation_witness:
  "layoutMatchesSessionSet (LayoutNode ''split'' '''' ''h'' (1 / 2) (pane ''a'') (pane ''b'')) [''b'', ''a'']
    = (mset (SessionIDs (LayoutNode ''split'' '''' ''h'' (1 / 2) (pane ''a'') (pane ''b''))) = mset [''b'', ''a''])"
  by (rule layout_check_is_permutation) simp

text \<open>Replacing all sessions of a well-formed layout takes one fresh identifier for each pane, in
  order, and keeps shape, directions and ratios; the mapping sends each old session to its
  replacement.\<close>

theorem replace_renames_every_pane:
  assumes "wf_layout t" "length (SessionIDs t) \<le> length ids" "'''' \<notin> set (take (length (SessionIDs t)) ids)" "distinct (SessionIDs t)"
  shows "\<exists>t' m. replaceAllSessions t Map.empty ids = Some (t', m, drop (length (SessionIDs t)) ids)
    \<and> wf_layout t' \<and> shape t' = shape t \<and> SessionIDs t' = take (length (SessionIDs t)) ids
    \<and> m = map_of (zip (SessionIDs t) ids)"
proof -
  let ?z = "zip (SessionIDs t) ids"
  have "distinct (map fst ?z)" using assms(2,4) by (simp add: map_fst_zip_take distinct_take)
  then have "map_of (rev ?z) = map_of ?z" by (subst map_of_inject_set) (simp_all add: rev_map [symmetric])
  with replace_spec [OF assms(1,2,3), of Map.empty] show ?thesis by auto
qed


theorem replace_renames_every_pane_witness:
  "\<exists>t'. replaceAllSessions (LayoutNode ''split'' '''' ''h'' (1 / 2) (pane ''a'') (pane ''b'')) Map.empty [''c'', ''d'', ''e'']
      = Some (t', map_of [(''a'', ''c''), (''b'', ''d'')], [''e'']) \<and> SessionIDs t' = [''c'', ''d'']"
  using replace_renames_every_pane [of "LayoutNode ''split'' '''' ''h'' (1 / 2) (pane ''a'') (pane ''b'')" "[''c'', ''d'', ''e'']"]
  by auto

end
