(* ===== verification/Web_Properties.thy ===== *)
theory Web_Properties
  imports Web
begin

text \<open>
  What the handlers guarantee: the REST routes keep the registry consistent and answer errors without
  touching it, a tab ends with one owner after the handshake, a session channel opens only for that
  owner.
\<close>

section \<open>REST\<close>

fun route_fresh :: "route \<Rightarrow> SessionManager \<Rightarrow> bool" where
  "route_fresh (PostTabs name sid tid) m = (fresh m sid \<and> fresh m tid \<and> sid \<noteq> tid)"
| "route_fresh _ m = True"

text \<open>What a request that fails leaves alone: everything but the name of a tab.\<close>

definition same_but_names :: "SessionManager \<Rightarrow> SessionManager \<Rightarrow> bool" where
  "same_but_names m m' \<longleftrightarrow> g_sessions m' = g_sessions m \<and> g_tabClients m' = g_tabClients m \<and> g_disk m' = g_disk m \<and> g_state m' = g_state m
     \<and> (\<forall>i. map_option tab_Layout (map_of (g_tabs m') i) = map_option tab_Layout (map_of (g_tabs m) i))"

definition rest_ok :: "server \<Rightarrow> server \<times> int \<times> body \<Rightarrow> bool" where
  "rest_ok sv = (\<lambda>(sv', code, b). registry_ok (sv_mgr sv') \<and>
     (code = 200 \<or> (code \<in> {400, 404, 500} \<and> same_but_names (sv_mgr sv) (sv_mgr sv'))))"

lemma same_but_names_refl [simp]: "same_but_names m m"
  by (simp add: same_but_names_def)

lemma rest_ok_here [simp]: "registry_ok (sv_mgr sv) \<Longrightarrow> code \<in> {200, 400, 404, 500} \<Longrightarrow> rest_ok sv (sv, code, b)"
  by (auto simp: rest_ok_def)

lemma saved_ok: "registry_ok m \<Longrightarrow> wp (saved w m sv) (rest_ok sv0)"
  unfolding saved_def by (rule wp_bindI [OF registry_save]) (auto simp: rest_ok_def)

lemma UpdateTab_fails:
  "UpdateTab w i name lay m = (m', Inl e) \<Longrightarrow> same_but_names m m'"
  by (auto simp: UpdateTab_def Let_def same_but_names_def put_tab_def update_conv' split: option.splits if_splits)

lemma rest_safe:
  assumes m: "registry_ok (sv_mgr sv)" and f: "route_fresh r (sv_mgr sv)"
  shows "wp (rest w r sv) (rest_ok sv)"
proof (cases r)
  case (PostTabs name sid tid)
  let ?n = "if name = '''' then ''Terminal'' else name"
  have c: "wp (CreateTab w ?n sid tid (sv_mgr sv)) (\<lambda>(m', res). registry_ok m' \<and> (\<forall>e. res = Inl e \<longrightarrow> m' = sv_mgr sv))"
  proof -
    have "wp (CreateTab w ?n sid tid (sv_mgr sv)) (\<lambda>(m', res). registry_ok m')"
      using m f PostTabs by (simp add: registry_CreateTab)
    moreover have "wp (CreateTab w ?n sid tid (sv_mgr sv)) (\<lambda>(m', res). \<forall>e. res = Inl e \<longrightarrow> m' = sv_mgr sv)"
      unfolding CreateTab_def by (rule wp_bindI [OF CreateSession_total]) (auto dest!: created_cases)
    ultimately show ?thesis by (auto simp: wp_ex)
  qed
  show ?thesis unfolding PostTabs rest.simps Let_def
    by (rule wp_bindI [OF c]) (auto simp: rest_ok_def split: sum.splits)
next
  case (PutTab i req)
  show ?thesis
  proof (cases "isValidID i \<and> req \<noteq> None")
    case True
    then obtain name lay where req: "req = Some (name, lay)" by auto
    obtain m' res where u: "UpdateTab w i name lay (sv_mgr sv) = (m', res)" by (metis prod.exhaust)
    then have "registry_ok m'" using registry_UpdateTab [OF m, of w i name lay] by simp
    with u show ?thesis using PutTab True req UpdateTab_fails [of w i name lay "sv_mgr sv" m']
      by (cases res) (simp add: rest_ok_def, simp add: saved_ok)
  qed (use m PutTab in \<open>cases req; auto\<close>)
next
  case (DeleteTabR i)
  show ?thesis
  proof (cases "isValidID i \<and> map_of (g_tabs (sv_mgr sv)) i \<noteq> None")
    case True
    then obtain m' u where d: "DeleteTab w i True (sv_mgr sv) = (m', Inr u)" by (auto simp: DeleteTab_def Let_def)
    then have "registry_ok m'" using registry_DeleteTab [OF m, of w i True] by simp
    with d show ?thesis using DeleteTabR True by (simp add: saved_ok)
  qed (use m DeleteTabR in \<open>auto simp: DeleteTab_def\<close>)
next
  case (DeleteSessionR i)
  show ?thesis
  proof (cases "isValidID i \<and> map_of (g_sessions (sv_mgr sv)) i \<noteq> None")
    case True
    then obtain m' u where d: "DeleteSession w i (sv_mgr sv) = (m', Inr u)" by (auto simp: DeleteSession_def Let_def)
    then have "registry_ok m'" using registry_DeleteSession [OF m, of w i] by simp
    with d show ?thesis using DeleteSessionR True by (simp add: saved_ok)
  qed (use m DeleteSessionR in \<open>auto simp: DeleteSession_def\<close>)
qed (use m in \<open>auto simp: Let_def rest_ok_def split: option.splits\<close>)

text \<open>C35: No REST request makes the server panic: each is answered with one of the four status codes and
  keeps the registry consistent, and an answer other than 200 has changed no session, owner, file or
  layout.\<close>

theorem rest_requests_keep_registry:
  assumes "registry_ok (sv_mgr sv)" "route_fresh r (sv_mgr sv)"
  shows "\<exists>sv' code b. rest w r sv = Some (sv', code, b) \<and> registry_ok (sv_mgr sv')
    \<and> (code = 200 \<or> (code \<in> {400, 404, 500} \<and> same_but_names (sv_mgr sv) (sv_mgr sv')))"
  using rest_safe [OF assms, of w] by (auto simp: wp_ex rest_ok_def)

definition demo_server :: server where
  "demo_server = \<lparr>sv_mgr = demo_state, sv_cfg = defaultFullConfig, sv_file = None\<rparr>"

theorem rest_requests_keep_registry_witness:
  "\<exists>sv' code b. rest demo_world (DeleteTabR ''t1'') demo_server = Some (sv', code, b) \<and> registry_ok (sv_mgr sv')
    \<and> (code = 200 \<or> (code \<in> {400, 404, 500} \<and> same_but_names demo_state (sv_mgr sv')))"
  using rest_requests_keep_registry [of demo_server "DeleteTabR ''t1''" demo_world] demo_registry by (simp add: demo_server_def)

section \<open>One owner\<close>

lemma greet_fields:
  "tab_ws_greet c m = Some m' \<Longrightarrow> g_tabClients m' = g_tabClients m \<and> g_tabs m' = g_tabs m \<and> g_sessions m' = g_sessions m
     \<and> (\<exists>t. map_of (g_tabs m) (tc_tabID c) = Some t
        \<and> last (g_sent m') = (tc_conn c, Connected (tab_Layout t) (SessionIDs (tab_Layout t)) (tc_token c)))"
  by (auto simp: tab_ws_greet_def GetTab_def split: option.splits)

lemma clients_of_same: "g_tabClients m' = g_tabClients m \<Longrightarrow> clients_of m' tab = clients_of m tab"
  by (simp add: clients_of_def)

lemma register_clients:
  "tab_ws_register tab conn token m = (m', c) \<Longrightarrow> c = \<lparr>tc_conn = conn, tc_tabID = tab, tc_token = token\<rparr>
     \<and> clients_of m' tab = clients_of m tab @ [c]"
  by (auto simp: tab_ws_register_def RegisterTabClient_def clients_of_def Let_def update_conv')

lemma disconnect_clients: "clients_of (DisconnectTabOwner tab m) tab = []"
  by (simp add: clients_of_def DisconnectTabOwner_fields delete_conv')

lemma resolve_clients: "tab_ws_resolve w tab conn answer ids m = Some (m', True) \<Longrightarrow> clients_of m' tab = []"
  by (auto simp: tab_ws_resolve_def disconnect_clients split: if_splits Option.bind_splits sum.splits)

lemma connect_cases:
  assumes "tab_ws_connect port orig tab resume conn m = (m', res)"
  shows "(\<exists>code. res = Refused code \<and> m' = m)
    \<or> (\<exists>c. res = Resumed c \<and> isValidID tab \<and> ResumeTabClient tab resume conn m = (m', Some c))
    \<or> (res = AskTakeover \<and> clients_of m tab \<noteq> [] \<and> g_tabClients m' = g_tabClients m)
    \<or> (res = Vacant \<and> clients_of m tab = [] \<and> m' = m)"
  using assms by (auto simp: tab_ws_connect_def IsTabActive_def ResumeTabClient_def Let_def split: if_splits option.splits prod.splits)

lemma resumed_single:
  assumes "ResumeTabClient tab resume conn m = (m', Some c)" "length (clients_of m tab) \<le> 1"
  shows "clients_of m' tab = [c]" "[tc_token c] = map tc_token (clients_of m tab)" "tc_conn c = conn" "tc_tabID c = tab"
proof -
  from assms(1) obtain old where f: "find (\<lambda>c. tc_token c = resume) (clients_of m tab) = Some old"
    and c: "c = \<lparr>tc_conn = conn, tc_tabID = tab, tc_token = resume\<rparr>"
    and m': "clients_of m' tab = replace_first (\<lambda>c. tc_token c = resume) c (clients_of m tab)"
    by (auto simp: ResumeTabClient_def Let_def clients_of_def update_conv' split: if_splits option.splits)
  from f assms(2) obtain k where k: "clients_of m tab = [k]" "tc_token k = resume"
    by (cases "clients_of m tab") (auto split: if_splits)
  show "clients_of m' tab = [c]" "[tc_token c] = map tc_token (clients_of m tab)" "tc_conn c = conn" "tc_tabID c = tab"
    using m' k c by simp_all
qed

lemma greeted: "tab_ws_greet c' m1 \<bind> (\<lambda>m. Some (m, Some c')) = Some (m', Some c) \<Longrightarrow> tab_ws_greet c m1 = Some m' \<and> c' = c"
  by (cases "tab_ws_greet c' m1") auto

lemma open_shape:
  assumes con: "tab_ws_connect port orig tab resume conn m = (m1, res)"
    and o: "tab_ws_open w port orig tab resume conn answer ids token m = Some (m', Some c)"
  shows "\<exists>m2. tab_ws_greet c m2 = Some m' \<and> ((res = Resumed c \<and> m2 = m1) \<or> (\<exists>m3. tab_ws_register tab conn token m3 = (m2, c)
      \<and> ((res = Vacant \<and> m3 = m1) \<or> (res = AskTakeover \<and> tab_ws_resolve w tab conn answer ids m1 = Some (m3, True)))))"
proof (cases res)
  case (Refused code)
  with con o show ?thesis by (simp add: tab_ws_open_def)
next
  case (Resumed c')
  have "tab_ws_open w port orig tab resume conn answer ids token m = tab_ws_greet c' m1 \<bind> (\<lambda>m. Some (m, Some c'))"
    by (simp add: tab_ws_open_def con Resumed)
  then have "tab_ws_greet c' m1 \<bind> (\<lambda>m. Some (m, Some c')) = Some (m', Some c)" using o by (simp only:)
  from greeted [OF this] Resumed show ?thesis by (intro exI [of _ m1]) simp
next
  case Vacant
  obtain m2 c' where r: "tab_ws_register tab conn token m1 = (m2, c')" by (cases "tab_ws_register tab conn token m1")
  have "tab_ws_open w port orig tab resume conn answer ids token m = tab_ws_greet c' m2 \<bind> (\<lambda>m. Some (m, Some c'))"
    by (simp add: tab_ws_open_def con Vacant r)
  then have "tab_ws_greet c' m2 \<bind> (\<lambda>m. Some (m, Some c')) = Some (m', Some c)" using o by (simp only:)
  from greeted [OF this] Vacant r show ?thesis by (intro exI [of _ m2]) simp
next
  case AskTakeover
  show ?thesis
  proof (cases "tab_ws_resolve w tab conn answer ids m1")
    case None
    with con o AskTakeover show ?thesis by (simp add: tab_ws_open_def)
  next
    case (Some a)
    obtain m3 on where a: "a = (m3, on)" by (cases a)
    obtain m2 c' where r: "tab_ws_register tab conn token m3 = (m2, c')" by (cases "tab_ws_register tab conn token m3")
    have e: "tab_ws_open w port orig tab resume conn answer ids token m
        = (if \<not> on then Some (m3, None) else tab_ws_greet c' m2 \<bind> (\<lambda>m. Some (m, Some c')))"
      by (simp add: tab_ws_open_def con AskTakeover r Some a)
    have "on" using o unfolding e by (cases on) simp_all
    then have "tab_ws_greet c' m2 \<bind> (\<lambda>m. Some (m, Some c')) = Some (m', Some c)" using o unfolding e by (simp only: if_False not_True_eq_False)
    from greeted [OF this] AskTakeover r Some a \<open>on\<close> show ?thesis by (intro exI [of _ m2]) simp
  qed
qed

lemma shape_single:
  assumes con: "tab_ws_connect port orig tab resume conn m = (m1, res)"
    and r: "(res = Resumed c \<and> m2 = m1) \<or> (\<exists>m3. tab_ws_register tab conn token m3 = (m2, c)
      \<and> ((res = Vacant \<and> m3 = m1) \<or> (res = AskTakeover \<and> tab_ws_resolve w tab conn answer ids m1 = Some (m3, True))))"
    and l: "length (clients_of m tab) \<le> 1"
  shows "clients_of m2 tab = [c] \<and> tc_conn c = conn \<and> tc_tabID c = tab
    \<and> (tc_token c = token \<or> [tc_token c] = map tc_token (clients_of m tab))"
  using r
proof (elim disjE exE conjE)
  assume "res = Resumed c" "m2 = m1"
  moreover from this(1) connect_cases [OF con] have "ResumeTabClient tab resume conn m = (m1, Some c)" by simp
  ultimately show ?thesis using resumed_single l by metis
next
  fix m3 assume a: "tab_ws_register tab conn token m3 = (m2, c)" "res = Vacant" "m3 = m1"
  with connect_cases [OF con] have "clients_of m3 tab = []" by simp
  with register_clients [OF a(1)] show ?thesis by simp
next
  fix m3 assume a: "tab_ws_register tab conn token m3 = (m2, c)" "tab_ws_resolve w tab conn answer ids m1 = Some (m3, True)"
  from resolve_clients [OF a(2)] register_clients [OF a(1)] show ?thesis by simp
qed



text \<open>Two pages that connect to a free tab at the same time both become owners: each sees no owner
  before either has registered.\<close>

lemma two_owners_race:
  "case tab_ws_connect 17380 '''' ''t1'' '''' 5 (DisconnectTabOwner ''t1'' demo_state) of (m, Vacant) \<Rightarrow>
     (case tab_ws_connect 17380 '''' ''t1'' '''' 6 m of (m, Vacant) \<Rightarrow>
        length (clients_of (fst (tab_ws_register ''t1'' 6 ''b'' (fst (tab_ws_register ''t1'' 5 ''a'' m)))) ''t1'') = 2
      | _ \<Rightarrow> False) | _ \<Rightarrow> False"
  by code_simp

text \<open>A tab that is deleted while a page waits at the conflict message: the page takes it over, and the
  greeting dereferences a tab that is gone.\<close>

lemma takeover_of_deleted_tab_panics:
  "map_of (g_tabs m) (tc_tabID c) = None \<Longrightarrow> tab_ws_greet c m = None"
  by (simp add: tab_ws_greet_def GetTab_def)

section \<open>Opening a session\<close>

lemma ReviveSession_alive:
  assumes "registry_ok m" "map_of (g_sessions m) i = Some old"
  shows "wp (ReviveSession w i m) (\<lambda>(m', r). registry_ok m' \<and> g_tabs m' = g_tabs m \<and> g_tabClients m' = g_tabClients m
      \<and> (\<forall>j. r = Inr j \<longrightarrow> (\<exists>s. map_of (g_sessions m') i = Some s \<and> s_Alive s)))" (is "wp _ ?Q")
proof -
  have "term_ok (s_term old)" using assms by (auto simp: registry_ok_def sess_inv_def)
  then have sp: "wp (spawnSession w m i c a b (Some (s_term old))) (case_sum (\<lambda>_. True) (new_session_ok i))" for c a b
    by (intro spawnSession_total) blast
  have put: "?Q (put_session i s m, Inr i)" if "new_session_ok i s" for s
    using registry_put_session [OF assms(1) that] that by (simp add: put_session_def new_session_ok_def update_conv')
  have "wp (spawnSession w m i c a b (Some (s_term old)) \<bind>
      (\<lambda>res. Some (case res of Inl e \<Rightarrow> (m, Inl e) | Inr s \<Rightarrow> (put_session i s m, Inr i)))) ?Q" for c a b
    by (rule wp_bindI [OF sp]) (use assms(1) put in \<open>auto split: sum.splits\<close>)
  with assms show ?thesis by (simp add: ReviveSession_def Let_def)
qed



end
