(* ===== verification/Viewer.thy ===== *)
theory Viewer
  imports Web_Properties
begin

text \<open>
  One session channel after it is open (\<open>handleSessionWS\<close> in \<open>src/cmd/termulaa/handler.go\<close>): the reader
  loop, the goroutine that joins the viewer to the session once its size is known, and the end of the
  handler, interleaved with everything else that happens to the session. \<open>p\<close> is the viewer's
  \<open>wsClient\<close>.
\<close>

section \<open>The reader\<close>

text \<open>A message as it is decoded: a control message, or bytes for the shell.\<close>

datatype ws_msg = PingMsg | ResizeMsg int int | FileMsg string bytes | ClosingMsg | InputMsg bytes

definition pongMsg :: bytes where "pongMsg = ascii ''{\"type\":\"pong\"}''"

datatype reader = Reading | Ended | Detached

text \<open>The joiner waits, has picked (with whether the first resize changed the size), has joined
  (with whether a snapshot was sent), is done, or gave up.\<close>

datatype joiner = Waiting | Picked bool | Joined bool bool | Done | GaveUp

record viewer =
  v_sess :: Session
  v_heap :: clients_heap
  v_files :: "(string \<times> bytes) list"
  v_reader :: reader
  v_joiner :: joiner
  v_sized :: "bool option"         \<comment> \<open>the channel of one message\<close>
  v_once :: bool                   \<comment> \<open>whether it has been sent to\<close>
  v_late :: bool                   \<comment> \<open>whether the viewer joined after it was detached\<close>

definition reader_message :: "world \<Rightarrow> nat \<Rightarrow> ws_msg \<Rightarrow> viewer \<Rightarrow> viewer option" where
  "reader_message w p msg v = (case msg of
     PingMsg \<Rightarrow> Some (v\<lparr>v_heap := (v_heap v)(p := queueText pongMsg (v_heap v p))\<rparr>)
   | ResizeMsg c r \<Rightarrow> do {
       (s, changed) \<leftarrow> Resize_session c r (v_sess v);
       Some (v\<lparr>v_sess := s, v_sized := (if v_once v then v_sized v else Some changed), v_once := True\<rparr>)
     }
   | FileMsg name d \<Rightarrow>
       (case HandleFileDrop w name d of Inl e \<Rightarrow> Some v
        | Inr (path, data) \<Rightarrow> Some (v\<lparr>v_files := AList.update path data (v_files v),
            v_sess := WriteInput (w_now w) (ascii (shellQuotePath path)) (v_sess v)\<rparr>))
   | ClosingMsg \<Rightarrow> Some v
   | InputMsg d \<Rightarrow> Some (v\<lparr>v_sess := WriteInput (w_now w) d (v_sess v)\<rparr>))"

section \<open>The steps\<close>

definition after_join :: "bool \<Rightarrow> bool \<Rightarrow> Session \<Rightarrow> Session" where
  "after_join sizeChanged replayed s = (if \<not> sizeChanged \<and> (InAltScreen s \<or> \<not> replayed) then NudgeRedraw s else s)"

inductive viewer_step :: "world \<Rightarrow> nat \<Rightarrow> viewer \<Rightarrow> viewer \<Rightarrow> bool" for w p where
  message: "v_reader v = Reading \<Longrightarrow> (\<nexists>r. msg = ResizeMsg 1 r) \<Longrightarrow> reader_message w p msg v = Some v' \<Longrightarrow> viewer_step w p v v'"
| read_error: "v_reader v = Reading \<Longrightarrow> viewer_step w p v (v\<lparr>v_reader := Ended\<rparr>)"
| detach: "v_reader v = Ended \<Longrightarrow> viewer_step w p v (v\<lparr>v_sess := DetachClient p (v_sess v), v_reader := Detached\<rparr>)"
| pick_size: "v_joiner v = Waiting \<Longrightarrow> v_sized v = Some b \<Longrightarrow> viewer_step w p v (v\<lparr>v_joiner := Picked b, v_sized := None\<rparr>)"
| pick_grace: "v_joiner v = Waiting \<Longrightarrow> viewer_step w p v (v\<lparr>v_joiner := Picked False\<rparr>)"
| pick_done: "v_joiner v = Waiting \<Longrightarrow> v_reader v \<noteq> Reading \<Longrightarrow> viewer_step w p v (v\<lparr>v_joiner := GaveUp\<rparr>)"
| join: "v_joiner v = Picked b \<Longrightarrow> AttachClient p True (v_sess v, v_heap v) = Some (s', h', replayed) \<Longrightarrow>
    viewer_step w p v (v\<lparr>v_sess := s', v_heap := h', v_joiner := Joined b replayed, v_late := (v_reader v = Detached)\<rparr>)"
| nudge: "v_joiner v = Joined b replayed \<Longrightarrow>
    viewer_step w p v (v\<lparr>v_sess := after_join b replayed (v_sess v), v_joiner := Done\<rparr>)"
| other: "session_admissible e \<Longrightarrow> (\<nexists>b. e = JoinEv p b) \<Longrightarrow> e \<noteq> LeaveEv p \<Longrightarrow>
    session_step e (v_sess v, v_heap v) = Some (s', h') \<Longrightarrow> viewer_step w p v (v\<lparr>v_sess := s', v_heap := h'\<rparr>)"
| take: "takePending (v_heap v p) = (fs, ov, c) \<Longrightarrow> viewer_step w p v (v\<lparr>v_heap := (v_heap v)(p := c)\<rparr>)"



definition viewer_init :: "Session \<Rightarrow> clients_heap \<Rightarrow> viewer" where
  "viewer_init s h = \<lparr>v_sess = s, v_heap = h, v_files = [], v_reader = Reading, v_joiner = Waiting, v_sized = None,
     v_once = False, v_late = False\<rparr>"

inductive viewer_reachable :: "world \<Rightarrow> nat \<Rightarrow> Session \<Rightarrow> clients_heap \<Rightarrow> viewer \<Rightarrow> bool" for w p s0 h0 where
  start: "viewer_reachable w p s0 h0 (viewer_init s0 h0)"
| step: "viewer_reachable w p s0 h0 v \<Longrightarrow> viewer_step w p v v' \<Longrightarrow> viewer_reachable w p s0 h0 v'"

section \<open>The invariant\<close>

definition has_joined :: "viewer \<Rightarrow> bool" where
  "has_joined v \<longleftrightarrow> (case v_joiner v of Joined b r \<Rightarrow> True | Done \<Rightarrow> True | _ \<Rightarrow> False)"

definition viewer_inv :: "nat \<Rightarrow> viewer \<Rightarrow> bool" where
  "viewer_inv p v \<longleftrightarrow> session_ok (v_sess v)
     \<and> count_list (s_clients (v_sess v)) p = (if has_joined v \<and> (v_reader v \<noteq> Detached \<or> v_late v) then 1 else 0)
     \<and> (v_once v \<or> v_sized v = None) \<and> (v_late v \<longrightarrow> v_reader v = Detached)"

lemma count_remove1: "count_list (remove1 q xs) p = (if p = q then count_list xs p - 1 else count_list xs p)"
  by (induction xs) auto



lemma other_clients:
  assumes "session_step e (s, h) = Some (s', h')" "\<nexists>b. e = JoinEv p b" "e \<noteq> LeaveEv p"
  shows "count_list (s_clients s') p = count_list (s_clients s) p"
  using assms
  by (cases e) (auto simp: record_output_def Let_def AttachClient_def DetachClient_def
      count_remove1 dest: clients_resize split: Option.bind_splits if_splits)



lemma clients_simps:
  "s_clients (DetachClient p s) = remove1 p (s_clients s)"
  "s_clients (after_join b r s) = s_clients s"
  by (simp_all add: DetachClient_def after_join_def)

lemma after_join_ok: "session_ok s \<Longrightarrow> session_ok (after_join b r s)"
  by (simp add: after_join_def NudgeRedraw_ok)

text \<open>What a message of the browser may change of the channel.\<close>

lemma reader_message_keeps:
  assumes "reader_message w p msg v = Some v'" "\<nexists>r. msg = ResizeMsg 1 r" "session_ok (v_sess v)"
  shows "session_ok (v_sess v')" "s_clients (v_sess v') = s_clients (v_sess v)" "v_joiner v' = v_joiner v" "v_reader v' = v_reader v"
    "v_late v' = v_late v" "v_once v \<or> v_sized v = None \<Longrightarrow> v_once v' \<or> v_sized v' = None"
proof -
  have "session_ok (v_sess v') \<and> s_clients (v_sess v') = s_clients (v_sess v) \<and> v_joiner v' = v_joiner v \<and> v_reader v' = v_reader v
    \<and> v_late v' = v_late v \<and> (v_once v \<or> v_sized v = None \<longrightarrow> v_once v' \<or> v_sized v' = None)"
  proof (cases msg)
    case (ResizeMsg c r)
    obtain s b where rs: "Resize_session c r (v_sess v) = Some (s, b)" "session_ok s"
      using Resize_session_ok [OF assms(3), of c r] assms(2) ResizeMsg by (auto simp: wp_ex)
    with assms(1) ResizeMsg clients_resize [OF rs(1)] show ?thesis by (auto simp: reader_message_def)
  next
    case (FileMsg name d)
    with assms show ?thesis
      by (auto simp: reader_message_def clients_simps split: sum.splits)
  qed (use assms in \<open>auto simp: reader_message_def clients_simps\<close>)
  then show "session_ok (v_sess v')" "s_clients (v_sess v') = s_clients (v_sess v)" "v_joiner v' = v_joiner v" "v_reader v' = v_reader v"
    "v_late v' = v_late v" "v_once v \<or> v_sized v = None \<Longrightarrow> v_once v' \<or> v_sized v' = None" by auto
qed

lemma viewer_step_inv:
  assumes "viewer_step w p v v'" "viewer_inv p v"
  shows "viewer_inv p v'"
  using assms(1)
proof cases
  case (message msg)
  from assms(2) reader_message_keeps [OF message(3,2)] show ?thesis by (auto simp: viewer_inv_def has_joined_def)
next
  case (join b s' h' replayed)
  have ok: "session_ok (v_sess v)" using assms(2) by (simp add: viewer_inv_def)
  from AttachClient_ok(1) [OF this, of p "v_heap v"] join(3) have "s' = (v_sess v)\<lparr>s_clients := s_clients (v_sess v) @ [p]\<rparr>" by auto
  with assms(2) join ok show ?thesis by (auto simp: viewer_inv_def has_joined_def)
next
  case (other e s' h')
  have ok: "session_ok (v_sess v)" using assms(2) by (simp add: viewer_inv_def)
  with session_step_safe [of "(v_sess v, v_heap v)" e] other(2,5) have "session_ok s'" by (auto simp: wp_ex)
  with assms(2) other other_clients [OF other(5,3,4)] show ?thesis by (simp add: viewer_inv_def has_joined_def)
qed (use assms(2) in \<open>auto simp: viewer_inv_def has_joined_def clients_simps count_remove1 after_join_ok DetachClient_def split: joiner.splits if_splits\<close>)

lemma viewer_reachable_inv:
  "viewer_reachable w p s0 h0 v \<Longrightarrow> session_ok s0 \<Longrightarrow> p \<notin> set (s_clients s0) \<Longrightarrow> viewer_inv p v"
proof (induction rule: viewer_reachable.induct)
  case start
  then show ?case by (simp add: viewer_init_def viewer_inv_def has_joined_def count_list_0_iff)
qed (blast intro: viewer_step_inv)

section \<open>Properties\<close>

text \<open>C16: However the reader, the joiner and everything else on the session interleave, a viewer is on the
  session's list of clients at most once, and it is there exactly from its join to its detach; the
  one exception is a viewer that joins after it was detached. The session stays consistent, and the
  reader never blocks on the channel it sends the first size on.\<close>

theorem viewer_attached_from_join_to_detach:
  assumes "viewer_reachable w p s0 h0 v" "session_ok s0" "p \<notin> set (s_clients s0)"
  shows "count_list (s_clients (v_sess v)) p = (if has_joined v \<and> (v_reader v \<noteq> Detached \<or> v_late v) then 1 else 0)
    \<and> session_ok (v_sess v) \<and> (v_once v \<or> v_sized v = None) \<and> (v_late v \<longrightarrow> v_reader v = Detached)"
  using viewer_reachable_inv [OF assms] by (simp add: viewer_inv_def)

lemma demo_viewer:
  "viewer_reachable demo_world 7 demo_session h ((viewer_init demo_session h)\<lparr>v_reader := Ended\<rparr>)"
proof -
  have "viewer_step demo_world 7 (viewer_init demo_session h) ((viewer_init demo_session h)\<lparr>v_reader := Ended\<rparr>)"
    by (rule read_error) (simp add: viewer_init_def)
  then show ?thesis by (rule viewer_reachable.step [OF viewer_reachable.start])
qed

theorem viewer_attached_from_join_to_detach_witness:
  "\<forall>h. count_list (s_clients (v_sess ((viewer_init demo_session h)\<lparr>v_reader := Ended\<rparr>))) 7 = 0"
proof
  fix h
  show "count_list (s_clients (v_sess ((viewer_init demo_session h)\<lparr>v_reader := Ended\<rparr>))) 7 = 0"
    using viewer_attached_from_join_to_detach [OF demo_viewer demo_ok, of h]
    by (simp add: demo_session_def viewer_init_def has_joined_def)
qed

lemma late_stays: "(viewer_step w p)\<^sup>*\<^sup>* v v' \<Longrightarrow> viewer_inv p v \<Longrightarrow> v_late v \<Longrightarrow> has_joined v \<Longrightarrow> viewer_inv p v' \<and> v_late v' \<and> has_joined v'"
proof (induction rule: rtranclp_induct)
  case (step v1 v2)
  then have i: "viewer_inv p v1" "v_late v1" "has_joined v1" "v_reader v1 = Detached" by (auto simp: viewer_inv_def)
  from step(2) have "v_late v2 \<and> has_joined v2"
    by cases (use i in \<open>auto simp: has_joined_def\<close>)
  with viewer_step_inv [OF step(2) i(1)] show ?case by blast
qed simp

lemma late_member: "viewer_inv p v \<and> v_late v \<and> has_joined v \<Longrightarrow> p \<in> set (s_clients (v_sess v))"
  using count_list_0_iff [of "s_clients (v_sess v)" p] by (auto simp: viewer_inv_def)

text \<open>C39: A browser that goes away between the moment its joiner stops waiting and the moment it attaches
  leaves its viewer on the session's list for good: nothing the handler does afterwards removes it.\<close>

theorem late_join_leaks_viewer:
  assumes "session_ok s0" "p \<notin> set (s_clients s0)"
  shows "\<exists>v. viewer_reachable w p s0 h0 v \<and> v_reader v = Detached \<and> v_joiner v = Done
    \<and> (\<forall>v'. (viewer_step w p)\<^sup>*\<^sup>* v v' \<longrightarrow> p \<in> set (s_clients (v_sess v')))"
proof -
  let ?v0 = "viewer_init s0 h0"
  let ?v1 = "?v0\<lparr>v_joiner := Picked False\<rparr>"
  let ?v2 = "?v1\<lparr>v_reader := Ended\<rparr>"
  let ?v3 = "?v2\<lparr>v_sess := DetachClient p (v_sess ?v2), v_reader := Detached\<rparr>"
  have s: "v_sess ?v3 = s0"
    using assms(2) by (simp add: viewer_init_def DetachClient_def remove1_idem)
  obtain s' h' r where a: "AttachClient p True (v_sess ?v3, v_heap ?v3) = Some (s', h', r)"
    using AttachClient_ok(1) [OF assms(1), of p "v_heap ?v3"] unfolding s by blast
  let ?v4 = "?v3\<lparr>v_sess := s', v_heap := h', v_joiner := Joined False r, v_late := (v_reader ?v3 = Detached)\<rparr>"
  let ?v5 = "?v4\<lparr>v_sess := after_join False r (v_sess ?v4), v_joiner := Done\<rparr>"
  have 1: "viewer_step w p ?v0 ?v1" by (rule pick_grace) (simp add: viewer_init_def)
  have 2: "viewer_step w p ?v1 ?v2" by (rule read_error) (simp add: viewer_init_def)
  have 3: "viewer_step w p ?v2 ?v3" by (rule detach) simp
  have 4: "viewer_step w p ?v3 ?v4" by (rule join [OF _ a]) simp
  have 5: "viewer_step w p ?v4 ?v5" by (rule nudge) simp
  note r = viewer_reachable.step [OF viewer_reachable.step [OF viewer_reachable.step [OF viewer_reachable.step
    [OF viewer_reachable.step [OF viewer_reachable.start 1] 2] 3] 4] 5]
  have j: "has_joined ?v5" "v_late ?v5" by (simp_all add: has_joined_def)
  have "p \<in> set (s_clients (v_sess v'))" if "(viewer_step w p)\<^sup>*\<^sup>* ?v5 v'" for v'
    by (rule late_member [OF late_stays [OF that viewer_reachable_inv [OF r assms] j(2,1)]])
  moreover have "v_reader ?v5 = Detached" "v_joiner ?v5 = Done" by simp_all
  ultimately show ?thesis using r by (intro exI [of _ ?v5] conjI allI impI) assumption+
qed

theorem late_join_leaks_viewer_witness:
  "\<forall>h. \<exists>v. viewer_reachable demo_world 7 demo_session h v \<and> v_reader v = Detached \<and> 7 \<in> set (s_clients (v_sess v))"
proof
  fix h
  show "\<exists>v. viewer_reachable demo_world 7 demo_session h v \<and> v_reader v = Detached \<and> 7 \<in> set (s_clients (v_sess v))"
    using late_join_leaks_viewer [OF demo_ok, of 7 demo_world h] by (auto simp: demo_session_def)
qed

end
