(* ===== verification/Working_Directory.thy ===== *)
theory Working_Directory
  imports Golib_Strings
begin

text \<open>
  The working directory of a process on macOS (\<open>src/cmd/termulaa/cwd_darwin.go\<close>): it is read off the
  output of \<open>lsof\<close>, which gives each descriptor on a line and its name on the next. On Linux it is a link
  the kernel keeps, which is an argument of the model, as the output is here.
\<close>

fun find_cwd :: "string list \<Rightarrow> string option" where
  "find_cwd (line # next_line # ls) =
    (if line = ''fcwd'' \<and> HasPrefix next_line ''n'' then Some (drop 1 next_line) else find_cwd (next_line # ls))"
| "find_cwd _ = None"

text \<open>\<open>None\<close> as the output is the failure of the command.\<close>

definition getCWD :: "string option \<Rightarrow> string option" where
  "getCWD out = (case out of None \<Rightarrow> None | Some s \<Rightarrow> find_cwd (Split CHR 0x0a s))"

lemma find_cwd_first: "find_cwd (pre @ [''fcwd'']) = None \<Longrightarrow> find_cwd (pre @ ''fcwd'' # (CHR ''n'' # d) # post) = Some d"
proof (induction pre)
  case (Cons x pre)
  then show ?case by (cases pre) (auto split: if_splits)
qed simp

text \<open>The directory is the name on the line after the first \<open>fcwd\<close> that has one.\<close>

lemma find_cwd_Some:
  "find_cwd ls = Some d \<longleftrightarrow> (\<exists>pre post. ls = pre @ ''fcwd'' # (CHR ''n'' # d) # post \<and> find_cwd (pre @ [''fcwd'']) = None)"
proof
  show "find_cwd ls = Some d \<Longrightarrow> \<exists>pre post. ls = pre @ ''fcwd'' # (CHR ''n'' # d) # post \<and> find_cwd (pre @ [''fcwd'']) = None"
  proof (induction ls rule: find_cwd.induct)
    case (1 l k ls)
    show ?case
    proof (cases "l = ''fcwd'' \<and> HasPrefix k ''n''")
      case True
      then obtain d' where "k = CHR ''n'' # d'" by (auto simp: HasPrefix_iff)
      with 1 True show ?thesis by (intro exI [of _ "[]"] exI [of _ ls]) auto
    next
      case False
      with 1 obtain pre post where p: "k # ls = pre @ ''fcwd'' # (CHR ''n'' # d) # post" "find_cwd (pre @ [''fcwd'']) = None" by auto
      then have "find_cwd ((l # pre) @ [''fcwd'']) = None" using False by (cases pre) auto
      with p show ?thesis by (metis append_Cons)
    qed
  qed auto
qed (auto simp: find_cwd_first)


text \<open>On Linux (\<open>cwd_linux.go\<close>) the kernel's link of the process is read, and no other; elsewhere (\<open>cwd_other.go\<close>)
  there is no answer.\<close>

definition getCWD_linux :: "(string \<Rightarrow> string option) \<Rightarrow> int \<Rightarrow> string option" where
  "getCWD_linux readlink pid = readlink (''/proc/'' @ itoa pid @ ''/cwd'')"

definition getCWD_other :: "int \<Rightarrow> string option" where
  "getCWD_other pid = None"

lemma getCWD_linux_link: "getCWD_linux (\<lambda>p. if p = ''/proc/'' @ itoa pid @ ''/cwd'' then Some d else None) pid = Some d"
  by (simp add: getCWD_linux_def)

end
