(* ===== verification/Spec2Isabelle.thy ===== *)
theory Spec2Isabelle
  imports Vt_Properties Stored Agent Keepalive Snapshot_Safety Host_Properties Session_Properties Viewer Tunnel_Properties Working_Directory
begin

text \<open>
  A verification development for termulaa, a self-hosted web terminal written in Go.

  \<^bold>\<open>The program.\<close> A server process owns shell sessions. The bytes a shell writes to its PTY go to
  three places (\<open>readPump\<close> in \<open>src/cmd/termulaa/session.go\<close>): a fixed-size ring that is saved to
  disk, a headless terminal emulator (\<open>src/internal/vterm\<close>) that knows what an attached terminal
  would show, and the outbound queue of every attached WebSocket client. A client that joins gets
  the emulator's \<open>Snapshot\<close>, an ANSI stream that rebuilds the picture, and from then on the same
  bytes as everybody else. Sessions are arranged in tabs, each with a tree of split panes
  (\<open>tabs.go\<close>), which a manager keeps, saves and hands over to the next process (\<open>manager.go\<close>). Browsers
  reach it through REST routes, a WebSocket that owns a tab and one for each session (\<open>handler.go\<close>),
  behind a middleware that admits loopback requests only (\<open>main.go\<close>); an agent can carry them from
  elsewhere through a pool of tunnels (\<open>tunnel.go\<close>, \<open>wsconn.go\<close>).

  \<^bold>\<open>The theories\<close>, in the order of the code:
  \<^item> \<open>Prelude\<close>: bytes, Go's slice expressions with the run-time panic as \<open>None\<close>, the total-correctness
    predicate \<open>wp\<close>, the locale \<open>safe_machine\<close>. \<open>Golib\<close>: the parts of \<open>unicode/utf8\<close>, \<open>strconv\<close> and
    \<open>bytes\<close> the code calls.
  \<^item> \<open>RuneWidth\<close> (\<open>width.go\<close>), \<open>Cell\<close> (\<open>cell.go\<close>), \<open>Parser\<close> (the state and the parameter operations
    of \<open>parser.go\<close>), \<open>Terminal\<close> (\<open>term.go\<close>), \<open>Dispatch\<close> (\<open>dispatch.go\<close>), \<open>Emulator\<close> (\<open>feedByte\<close> and
    \<open>Write\<close> of \<open>parser.go\<close>), \<open>Snapshot\<close> (\<open>snapshot.go\<close>): the emulator, one definition for each Go
    function, the Go structs as records with the same fields, \<open>None\<close> for a panic. Loops over an
    index are structural recursions on the number of rounds or functions with a proved measure, so
    every operation of the model is a total function: there is no fuel.
  \<^item> \<open>Well_Formed\<close>, \<open>Terminal_Safety\<close>, \<open>Emulator_Safety\<close>: the invariant of a terminal and, for each
    operation, that it returns and keeps it. The rules are stated for every predicate on the
    parser and on the hidden main screen, so they are frame rules as well.
  \<^item> \<open>Edits\<close>, \<open>Printing\<close>: what scrolling, inserting, deleting, erasing and printing leave on the
    screen, in closed form.
  \<^item> \<open>Sgr\<close>, \<open>Csi_Feed\<close>: a reference semantics of SGR that the code's loop is proved to compute, and
    whole control sequences as single dispatches, which gives the round trips of the snapshot's
    building blocks. \<open>Parser_Frame\<close>, \<open>Chunking\<close>: where a stream is cut into writes does not matter.
  \<^item> \<open>Repaint\<close>, \<open>Restore\<close>, \<open>Rebuild\<close>: a snapshot written into a new emulator of the same size. \<open>feeds\<close>
    relates the terminal before and after a piece of the stream; \<open>painting\<close> is the terminal while the
    rows are painted, \<open>staged\<close> behind them; \<open>restorable\<close> says which terminals are rebuilt. \<open>Replay\<close>:
    pictures outside of it that a replay changes.
  \<^item> \<open>Typed\<close>, \<open>Stored\<close>: the locale \<open>stored_types\<close> says what a choice of styles, texts and printed runes has to
    be closed under for every operation of the emulator to keep them in its cells, pens, links and title;
    it is interpreted with the styles SGR can set and with text free of control bytes.
  \<^item> \<open>Ring_Buffer\<close>, \<open>Client_Queue\<close> (\<open>session.go\<close>), \<open>Layout\<close> (\<open>tabs.go\<close>): the ring as an
    implementation of the locale \<open>bounded_log\<close>, the queue and its pump as a step relation that
    interleaves with the producers, the layout trees.
  \<^item> \<open>Golib_Strings\<close>: \<open>strings\<close>, \<open>path/filepath\<close> and \<open>encoding/base64\<close>. \<open>Session\<close> (the rest of
    \<open>session.go\<close>): what a session does to its PTY, ring, emulator and viewers; the clock, the file system
    and the processes are fields of the record \<open>world\<close>. \<open>Snapshot_Safety\<close>, \<open>Session_Safety\<close>: every
    operation returns and keeps the three views of the size equal. \<open>Fan_Out\<close>: output, joining,
    leaving and the pumps interleaved, with the invariant that a viewer that joined gets its
    picture and then every byte.
  \<^item> \<open>Manager\<close> (\<open>manager.go\<close>, the tabs of \<open>tabs.go\<close>): the registry as a record of association
    lists, one definition for each method, errors as \<open>Inl\<close>. \<open>Manager_Safety\<close>: the invariant
    \<open>registry_ok\<close> and its preservation by each operation, as an interpretation of \<open>guarded_machine\<close>.
    \<open>Persistence\<close>: saving and loading, handing over and adopting.
  \<^item> \<open>Security\<close> (\<open>main.go\<close> and the checks of \<open>handler.go\<close>): the middleware over an arbitrary handler, identifiers
    and prefixes, the settings and sizes, the start. \<open>Web\<close>: the REST routes and the channel of a tab over
    the manager. \<open>Viewer\<close>: reader, joiner and end of a session channel as a step relation. \<open>Keepalive\<close>: pings,
    answers and the read deadline as a timed step relation.
  \<^item> \<open>Tunnel\<close>, \<open>Tunnel_Properties\<close> (\<open>tunnel.go\<close>, \<open>wsconn.go\<close>): the pool of tunnels as a step relation with a
    measure for its end, and the byte stream over messages. \<open>Splice\<close>: the two copiers of a stream, the close
    of both connections and the peers as a step relation. \<open>Agent\<close>: the command line, the saved settings, the
    request of a tunnel with the parts of \<open>net/url\<close> it goes through, its accept loop and the settings of the
    libraries. \<open>Working_Directory\<close> (\<open>cwd_darwin.go\<close>, \<open>cwd_linux.go\<close>, \<open>cwd_other.go\<close>).
  \<^item> \<open>Vt_Properties\<close>, \<open>Chunking\<close>, \<open>Rebuild\<close>, \<open>Replay\<close>, \<open>Stored\<close>, \<open>Splice\<close>, \<open>Agent\<close>, \<open>Keepalive\<close>, \<open>Host_Properties\<close>, \<open>Session_Properties\<close>, \<open>Manager_Properties\<close>, \<open>Persistence\<close>,
    \<open>Security\<close>, \<open>Web_Properties\<close>, \<open>Viewer\<close>, \<open>Tunnel_Properties\<close>: the properties.

  \<^bold>\<open>Conventions.\<close> Go's \<open>int\<close> is \<open>int\<close>; \<open>parser_wf\<close> bounds every number that comes from input by
  \<open>2 ^ 24\<close>, so sums and products of the code stay far inside 64 bits. Slices that never share a
  backing array are lists. Go's pointer to the active screen is a value of the type \<open>scr\<close>.
  Operations under a mutex are functions; goroutines that interleave are step relations.

  Random identifiers are arguments, and that they are new is a condition of the operations that use
  them. \<open>registry_ok\<close> is stated for operations one after the other, as the manager's lock makes them;
  what falls between two of them is stated where a handler makes several calls (\<open>Web\<close>, \<open>Viewer\<close>).

  \<^bold>\<open>Not modelled.\<close> The work of the operating system behind \<open>world\<close>; JSON and HTTP framing, which
  the handlers get decoded; third-party code (the WebSocket library, smux, the updater), of
  which the code's calls are arguments or steps; the other tickers, which only choose when the steps
  modelled here happen; the JavaScript and Kotlin clients; the install scripts. The rounding of
  the floating-point product in \<open>jitter\<close> is left out.
\<close>

end
